(* ===== verification/Prelude.thy ===== *)
theory Prelude
  imports Main "HOL-Library.Word" "HOL-Library.Monad_Syntax"
begin

text \<open>
  Shared vocabulary of the development: the machine-integer types of the kernel sources, the
  array and slice operations with Rust's bounds checks, the lemmas on words, page alignment and
  buddy addresses, and the interfaces (locales) that several components provide: page bitmaps
  and bounded first-in-first-out queues.

  A Rust panic ends in the panic handler of \<^verbatim>\<open>src/main.rs\<close>, which never returns. The operations
  that can panic, or walk a linked structure that could be cyclic, therefore have results in
  \<open>option\<close>: \<open>None\<close> means that the call does not return to its caller.
\<close>

unbundle bit_operations_syntax

section \<open>Machine integers\<close>

type_synonym u8 = "8 word"
type_synonym u16 = "16 word"
type_synonym u32 = "32 word"
type_synonym u64 = "64 word"
type_synonym i32 = "32 word"
type_synonym i64 = int
type_synonym bytes = "8 word list"

named_theorems rust_simps "unfolding rules for the operations of the Rust core library"
named_theorems word_nat "rules that move goals on words to the natural numbers"

section \<open>Arrays with bounds checks\<close>

definition arr_get :: "'a list \<Rightarrow> nat \<Rightarrow> 'a option" where
  "arr_get xs i = (if i < length xs then Some (xs ! i) else None)"

definition arr_set :: "'a list \<Rightarrow> nat \<Rightarrow> 'a \<Rightarrow> 'a list option" where
  "arr_set xs i v = (if i < length xs then Some (xs[i := v]) else None)"

lemma arr_get_in [simp]: "i < length xs \<Longrightarrow> arr_get xs i = Some (xs ! i)"
  by (simp add: arr_get_def)

lemma arr_get_out [simp]: "length xs \<le> i \<Longrightarrow> arr_get xs i = None"
  by (simp add: arr_get_def)

lemma arr_set_in [simp]: "i < length xs \<Longrightarrow> arr_set xs i v = Some (xs[i := v])"
  by (simp add: arr_set_def)

lemma arr_set_out [simp]: "length xs \<le> i \<Longrightarrow> arr_set xs i v = None"
  by (simp add: arr_set_def)

text \<open>The first index of a list that satisfies a test: the shape of every table scan
  \<^verbatim>\<open>for i in 0..N { if p(t[i]) { return Some(i) } }\<close>.\<close>

fun find_from :: "('a \<Rightarrow> bool) \<Rightarrow> nat \<Rightarrow> 'a list \<Rightarrow> nat option" where
  "find_from p i [] = None"
| "find_from p i (x # xs) = (if p x then Some i else find_from p (Suc i) xs)"

abbreviation find_index :: "('a \<Rightarrow> bool) \<Rightarrow> 'a list \<Rightarrow> nat option" where
  "find_index p xs \<equiv> find_from p 0 xs"

lemma find_from_None: "find_from p i xs = None \<longleftrightarrow> (\<forall>x \<in> set xs. \<not> p x)"
  by (induction p i xs rule: find_from.induct) auto

lemma find_from_Some:
  "find_from p i xs = Some j \<Longrightarrow>
     i \<le> j \<and> j - i < length xs \<and> p (xs ! (j - i)) \<and> (\<forall>k < j - i. \<not> p (xs ! k))"
proof (induction p i xs rule: find_from.induct)
  case (2 p i x xs)
  show ?case
  proof (cases "p x")
    case False
    with "2.prems" have "find_from p (Suc i) xs = Some j" by simp
    from "2.IH" [OF False this] False show ?thesis
      by (auto simp: nth_Cons less_Suc_eq_0_disj Suc_diff_le split: nat.split)
         (metis Suc_diff_Suc Suc_le_eq diff_Suc_Suc less_Suc_eq_0_disj nat.distinct(1) nat.inject)+
  qed (use "2.prems" in auto)
qed simp

lemma find_index_Some:
  assumes "find_index p xs = Some j"
  shows "j < length xs" and "p (xs ! j)" and "\<And>k. k < j \<Longrightarrow> \<not> p (xs ! k)"
  using find_from_Some [OF assms] by auto

lemma find_from_map: "find_from p i (map f xs) = find_from (\<lambda>x. p (f x)) i xs"
  by (induction xs arbitrary: i) auto

lemmas find_index_map = find_from_map [where i = 0]

lemma find_index_None: "find_index p xs = None \<longleftrightarrow> (\<forall>i < length xs. \<not> p (xs ! i))"
  by (simp add: find_from_None all_set_conv_all_nth)


lemma find_index_update:
  assumes "j < length xs" and "\<not> p (xs ! j)" and "\<not> p x"
  shows "find_index p (xs[j := x]) = find_index p xs"
proof -
  have "map p (xs[j := x]) = map p xs" using assms by (simp add: list_eq_iff_nth_eq nth_list_update)
  then show ?thesis using find_index_map [of "\<lambda>b. b" p xs] find_index_map [of "\<lambda>b. b" p "xs[j := x]"] by simp
qed

lemma find_index_here:
  assumes "j < length xs" and "p (xs ! j)" and "\<forall>i < j. \<not> p (xs ! i)"
  shows "find_index p xs = Some j"
proof (cases "find_index p xs")
  case None
  then show ?thesis using assms by (simp add: find_index_None)
next
  case (Some k)
  from find_index_Some [OF this] assms have "k = j" by (metis linorder_neqE_nat)
  then show ?thesis using Some by simp
qed

lemma find_from_append:
  "find_from p i (xs @ ys) = (case find_from p i xs of None \<Rightarrow> find_from p (i + length xs) ys | Some j \<Rightarrow> Some j)"
  by (induction xs arbitrary: i) (auto split: option.splits)

lemma find_index_hd: "xs \<noteq> [] \<Longrightarrow> \<forall>x \<in> set xs. p x \<Longrightarrow> find_index p xs = Some 0"
  by (cases xs) auto

lemma sum_list_upd: "k < length xs \<Longrightarrow> sum_list (xs[k := x]) + xs ! k = sum_list xs + (x :: nat)"
  by (induction xs arbitrary: k) (auto split: nat.split)

section \<open>Words and natural numbers\<close>

lemma unat_exp64 [simp]: "k < 64 \<Longrightarrow> unat ((2::u64) ^ k) = 2 ^ k"
proof -
  assume "k < 64"
  then have "(2::nat) ^ k < 2 ^ 64" by (rule power_strict_increasing) simp
  then show ?thesis
    using unat_of_nat [of "2 ^ k", where 'a = 64] by simp
qed

lemma unat_lt64 [simp]: "unat (a :: u64) < 18446744073709551616"
  by (rule order_less_le_trans [OF unsigned_less]) simp

lemma unat_lt16 [simp]: "unat (a :: u16) < 65536"
  by (rule order_less_le_trans [OF unsigned_less]) simp

lemma length_filter_update:
  "i < length xs \<Longrightarrow>
     length (filter p (xs[i := y])) + (if p (xs ! i) then 1 else 0) = length (filter p xs) + (if p y then 1 else 0)"
proof (induction xs arbitrary: i)
  case (Cons x xs)
  then show ?case by (cases i) auto
qed simp

lemma unat_of_nat_lt: "n < 2 ^ LENGTH('a) \<Longrightarrow> unat (of_nat n :: 'a::len word) = n"
  by (simp add: unat_of_nat take_bit_nat_eq_self)

lemma unat_inc: "unat w + 1 < 2 ^ LENGTH('a) \<Longrightarrow> unat (w + 1 :: 'a::len word) = unat w + 1"
  by (simp add: unat_word_ariths)

lemma unat_add_nowrap [word_nat]:
  "unat a + unat b < 18446744073709551616 \<Longrightarrow> unat (a + b :: u64) = unat a + unat b"
  by (simp add: unat_word_ariths)

lemma unat_mult_nowrap [word_nat]:
  "unat a * unat b < 18446744073709551616 \<Longrightarrow> unat (a * b :: u64) = unat a * unat b"
  by (simp add: unat_word_ariths)

lemma unat_sub_nowrap [word_nat]: "b \<le> a \<Longrightarrow> unat (a - b :: u64) = unat a - unat b"
  by (rule unat_sub)

lemmas word_order_nat = word_le_nat_alt word_less_nat_alt

lemma nat_xor_exp: "(n::nat) XOR 2 ^ k = (if odd (n div 2 ^ k) then n - 2 ^ k else n + 2 ^ k)"
proof -
  have flip: "n XOR 2 ^ k = flip_bit k n" by (simp add: flip_bit_eq_xor)
  have "set_bit k (unset_bit k n) = n" if "bit n k"
    using that by (intro bit_eqI) (auto simp: bit_simps)
  then have "unset_bit k n + 2 ^ k = n" if "bit n k"
    using that by (simp add: set_bit_eq bit_simps)
  then have "unset_bit k n = n - 2 ^ k" if "bit n k"
    using that by (metis diff_add_inverse2)
  then have "flip_bit k n = (if bit n k then n - 2 ^ k else n + 2 ^ k)"
    by (simp add: flip_bit_eq_if set_bit_eq)
  with flip show ?thesis by (simp add: bit_iff_odd)
qed

lemma unat_xor_exp:
  "k < 64 \<Longrightarrow> unat ((a::u64) XOR 2 ^ k) =
     (if odd (unat a div 2 ^ k) then unat a - 2 ^ k else unat a + 2 ^ k)"
  by (simp add: unsigned_xor_eq nat_xor_exp)

text \<open>A mask test \<^verbatim>\<open>x & (1 << n) != 0\<close> reads bit \<open>n\<close>; the two updates write it.\<close>

lemma bit_mask_or: "n < LENGTH('a) \<Longrightarrow> bit ((x :: 'a::len word) OR 2 ^ n) m = (m = n \<or> bit x m)"
  by (auto simp: bit_simps)

lemma bit_mask_andnot: "bit ((x :: 'a::len word) AND NOT (2 ^ n)) m = (m \<noteq> n \<and> bit x m)"
  by (auto simp: bit_simps bit_imp_le_length)

lemmas mask_bits = and_exp_eq_0_iff_not_bit bit_mask_or bit_mask_andnot

section \<open>Page alignment\<close>

text \<open>Rounding a 64-bit address to a power of two by masking, on its numeric value.\<close>

lemma unat_and_low_mask: "k < 64 \<Longrightarrow> unat ((a::u64) AND (2 ^ k - 1)) = unat a mod 2 ^ k"
proof -
  assume k: "k < 64"
  have "a AND (2 ^ k - 1) = take_bit k a"
    by (simp add: take_bit_eq_mask mask_eq_exp_minus_1)
  with k show ?thesis
    by (simp add: take_bit_eq_mod unat_mod)
qed

lemma low_mask_zero_iff: "k < 64 \<Longrightarrow> ((a::u64) AND (2 ^ k - 1)) = 0 \<longleftrightarrow> 2 ^ k dvd unat a"
  using unat_and_low_mask [of k a] by (metis dvd_eq_mod_eq_0 unat_eq_zero)

lemma unat_and_high_mask:
  assumes "k < 64"
  shows "unat ((a::u64) AND NOT (2 ^ k - 1)) = unat a - unat a mod 2 ^ k"
proof -
  let ?m = "2 ^ k - 1 :: u64"
  have "(a AND ?m) AND (a AND NOT ?m) = 0" and "(a AND ?m) OR (a AND NOT ?m) = a"
    by (auto intro!: bit_eqI simp: bit_simps)
  then have "(a AND ?m) + (a AND NOT ?m) = a"
    by (simp add: disjunctive_add_eq_or)
  then have "a AND NOT ?m = a - (a AND ?m)"
    by (metis add_diff_cancel_left')
  moreover have "(a AND (2 ^ k - 1)) \<le> a"
    using assms by (simp add: word_le_nat_alt unat_and_low_mask)
  ultimately show ?thesis
    using assms by (simp add: unat_sub_nowrap unat_and_low_mask)
qed

lemma aligned_dvd_mono: "(2::nat) ^ m dvd n \<Longrightarrow> k \<le> m \<Longrightarrow> 2 ^ k dvd n"
  by (rule power_le_dvd)


section \<open>Bitmaps of 64-bit words\<close>

text \<open>Bit \<open>i\<close> of a bitmap is bit \<^verbatim>\<open>i & 63\<close> of word \<^verbatim>\<open>i >> 6\<close>.\<close>

abbreviation bmp_word :: "u64 \<Rightarrow> nat" where
  "bmp_word i \<equiv> unat (drop_bit 6 i)"

abbreviation bmp_bit :: "u64 \<Rightarrow> nat" where
  "bmp_bit i \<equiv> unat (i AND 63)"

lemma bmp_word_nat: "bmp_word i = unat i div 64"
  by (simp add: drop_bit_eq_div unat_div)

lemma bmp_bit_nat: "bmp_bit i = unat i mod 64"
  using unat_and_low_mask [of 6 i] by simp

lemma bmp_key_eq: "bmp_word i = bmp_word j \<and> bmp_bit i = bmp_bit j \<longleftrightarrow> i = j"
  by (metis bmp_word_nat bmp_bit_nat div_mult_mod_eq word_unat_eq_iff)

definition bmp_test :: "(nat \<Rightarrow> u64) \<Rightarrow> u64 \<Rightarrow> bool" where
  "bmp_test f i = bit (f (bmp_word i)) (bmp_bit i)"

lemma bmp_test_mark:
  "bmp_test (f(bmp_word i := f (bmp_word i) OR 2 ^ bmp_bit i)) j \<longleftrightarrow> j = i \<or> bmp_test f j"
proof -
  have "bmp_bit i < 64" by (simp add: bmp_bit_nat)
  then show ?thesis
    using bmp_key_eq [of j i] by (auto simp: bmp_test_def bit_mask_or)
qed

lemma bmp_test_clear:
  "bmp_test (f(bmp_word i := f (bmp_word i) AND NOT (2 ^ bmp_bit i))) j \<longleftrightarrow> j \<noteq> i \<and> bmp_test f j"
  using bmp_key_eq [of j i] by (auto simp: bmp_test_def bit_mask_andnot)

end
