(* ===== verification/Buddy.thy ===== *)
theory Buddy
  imports Prelude
begin

text \<open>
  The physical page allocator of \<^verbatim>\<open>src/src/memory/buddy.rs\<close>.

  The record \<open>buddy\<close> holds the fields of \<^verbatim>\<open>BuddyAllocator\<close> and the module's \<^verbatim>\<open>static mut\<close> tables:
  the free-list heads, the block headers that the allocator keeps inside the free pages
  themselves (\<open>hdr\<close>, a map from page addresses to headers), the reserved array, the used and
  freed bitmaps, the page-type and page-table refcount tables, the quarantine ring, the
  ownership table of the audit and the last-free records. Address 0 is the null pointer, as in
  the source. \<^verbatim>\<open>BUDDY_LOCK\<close> makes every public operation one atomic step, and the writes to
  the serial console are left out. What an operation reads from its environment for its
  records (the return address of its caller and the tick counter) is the argument \<open>env\<close>.

  The list walks follow the pointers in \<open>hdr\<close> and have results in \<open>option\<close>: \<open>None\<close> is a walk
  that does not end, or an index panic.
\<close>

section \<open>Constants and state\<close>

definition MAGIC :: u32 where "MAGIC = 0xDEADBEEF"
definition AUDIT_PERIOD :: u64 where "AUDIT_PERIOD = 8"
definition PAGE_SIZE :: u64 where "PAGE_SIZE = 4096"
definition MAX_ORDER :: nat where "MAX_ORDER = 10"
definition MAX_RESERVED :: nat where "MAX_RESERVED = 2048"
definition BMP_WORDS :: nat where "BMP_WORDS = 32768"
definition MAX_REFC_PAGES :: nat where "MAX_REFC_PAGES = 2097152"
definition OWNED_ORDER_SENTINEL :: u8 where "OWNED_ORDER_SENTINEL = 0xFF"
definition QUARANTINE_MAX_CAP :: nat where "QUARANTINE_MAX_CAP = 1024"
definition DF_MAX_PAGES :: nat where "DF_MAX_PAGES = 262144"

definition PAGE_TYPE_FREE :: u8 where "PAGE_TYPE_FREE = 0"
definition PAGE_TYPE_PTE :: u8 where "PAGE_TYPE_PTE = 1"
definition PAGE_TYPE_DATA :: u8 where "PAGE_TYPE_DATA = 2"
definition PAGE_TYPE_STACK :: u8 where "PAGE_TYPE_STACK = 3"

lemmas page_types = PAGE_TYPE_FREE_def PAGE_TYPE_PTE_def PAGE_TYPE_DATA_def PAGE_TYPE_STACK_def

record block =
  b_magic :: u32
  b_order :: u32
  b_next :: u64

record buddy =
  alloc_base :: u64
  alloc_pages :: u64
  free_lists :: "u64 list"
  reserved :: "u64 list"
  reserved_count :: nat
  hdr :: "u64 \<Rightarrow> block"
  used_bmp :: "nat \<Rightarrow> u64"
  freed_bmp :: "nat \<Rightarrow> u64"
  page_type :: "nat \<Rightarrow> u8"
  pte_refc :: "nat \<Rightarrow> u16"
  owned_by :: "nat \<Rightarrow> u8"
  quarantine :: "nat \<Rightarrow> u64"
  q_head :: nat
  q_count :: nat
  q_full :: u64
  audit_counter :: u64
  audit_active :: bool
  df_last :: "nat \<Rightarrow> u32 \<times> u32 \<times> u8"

record env =
  caller :: u64
  ticks :: u64

definition null_block :: block where
  "null_block = \<lparr>b_magic = 0, b_order = 0, b_next = 0\<rparr>"

definition new_buddy :: buddy where
  "new_buddy = \<lparr>alloc_base = 0, alloc_pages = 0, free_lists = replicate (MAX_ORDER + 1) 0,
     reserved = replicate MAX_RESERVED 0, reserved_count = 0, hdr = (\<lambda>_. null_block),
     used_bmp = (\<lambda>_. 0), freed_bmp = (\<lambda>_. 0), page_type = (\<lambda>_. 0), pte_refc = (\<lambda>_. 0),
     owned_by = (\<lambda>_. 0), quarantine = (\<lambda>_. 0), q_head = 0, q_count = 0, q_full = 0,
     audit_counter = 0, audit_active = False, df_last = (\<lambda>_. (0, 0, 0))\<rparr>"

definition init :: "buddy \<Rightarrow> u64 \<Rightarrow> u64 \<Rightarrow> buddy" where
  "init s b p = s\<lparr>alloc_base := b, alloc_pages := p\<rparr>"

section \<open>Page indices and bitmaps\<close>

definition phys_to_idx :: "buddy \<Rightarrow> u64 \<Rightarrow> u64" where
  "phys_to_idx s phys =
     (if phys < alloc_base s then - 1 else drop_bit 12 (phys - alloc_base s))"

definition freed_bit :: "buddy \<Rightarrow> u64 \<Rightarrow> (nat \<times> u64) option" where
  "freed_bit s addr = (let idx = phys_to_idx s addr in
     if unat idx \<ge> 2097152 then None
     else Some (unat (drop_bit 6 idx), push_bit (unat (idx AND 63)) 1))"

definition track_freed_page :: "buddy \<Rightarrow> u64 \<Rightarrow> bool \<times> buddy" where
  "track_freed_page s addr = (case freed_bit s addr of
     Some (w, b) \<Rightarrow>
       if freed_bmp s w AND b \<noteq> 0 then (True, s)
       else (False, s\<lparr>freed_bmp := (freed_bmp s)(w := freed_bmp s w OR b)\<rparr>)
   | None \<Rightarrow> (False, s))"

definition untrack_freed_page :: "buddy \<Rightarrow> u64 \<Rightarrow> buddy" where
  "untrack_freed_page s addr = (case freed_bit s addr of
     Some (w, b) \<Rightarrow> s\<lparr>freed_bmp := (freed_bmp s)(w := freed_bmp s w AND NOT b)\<rparr>
   | None \<Rightarrow> s)"

definition used_word :: "u64 \<Rightarrow> nat \<times> u64" where
  "used_word page = (unat (drop_bit 6 page), push_bit (unat (page AND 63)) 1)"

definition used_set :: "buddy \<Rightarrow> u64 \<Rightarrow> bool" where
  "used_set s page = (let (w, b) = used_word page in
     if w \<ge> BMP_WORDS then False else used_bmp s w AND b \<noteq> 0)"

definition used_mark :: "buddy \<Rightarrow> u64 \<Rightarrow> buddy" where
  "used_mark s page = (let (w, b) = used_word page in
     if w \<ge> BMP_WORDS then s else s\<lparr>used_bmp := (used_bmp s)(w := used_bmp s w OR b)\<rparr>)"

definition used_clear :: "buddy \<Rightarrow> u64 \<Rightarrow> buddy" where
  "used_clear s page = (let (w, b) = used_word page in
     if w \<ge> BMP_WORDS then s else s\<lparr>used_bmp := (used_bmp s)(w := used_bmp s w AND NOT b)\<rparr>)"

definition mark_page_used :: "buddy \<Rightarrow> u64 \<Rightarrow> buddy" where
  "mark_page_used s phys =
     (let pidx = phys_to_idx s phys; s1 = (if pidx \<noteq> - 1 then used_mark s pidx else s)
      in untrack_freed_page s1 phys)"

definition page_is_used :: "buddy \<Rightarrow> u64 \<Rightarrow> bool" where
  "page_is_used s phys = used_set s (phys_to_idx s phys)"

section \<open>Page types and page-table reference counts\<close>

definition pte_refc_inc :: "buddy \<Rightarrow> u64 \<Rightarrow> buddy" where
  "pte_refc_inc s addr = (let idx = unat (phys_to_idx s addr) in
     if idx < MAX_REFC_PAGES
     then s\<lparr>pte_refc := (pte_refc s)(idx := (if pte_refc s idx = - 1 then - 1 else pte_refc s idx + 1))\<rparr>
     else s)"

definition pte_refc_dec :: "buddy \<Rightarrow> u64 \<Rightarrow> bool \<times> buddy" where
  "pte_refc_dec s addr = (let idx = unat (phys_to_idx s addr) in
     if idx < MAX_REFC_PAGES
     then (let s1 = (if pte_refc s idx > 0
                     then s\<lparr>pte_refc := (pte_refc s)(idx := pte_refc s idx - 1)\<rparr> else s)
           in (pte_refc s1 idx = 0, s1))
     else (True, s))"

definition pte_refc_get :: "buddy \<Rightarrow> u64 \<Rightarrow> u16" where
  "pte_refc_get s addr = (let idx = unat (phys_to_idx s addr) in
     if idx < MAX_REFC_PAGES then pte_refc s idx else 0)"

definition page_type_get :: "buddy \<Rightarrow> u64 \<Rightarrow> u8" where
  "page_type_get s addr = (let idx = unat (phys_to_idx s addr) in
     if idx < MAX_REFC_PAGES then page_type s idx else PAGE_TYPE_FREE)"

definition page_type_set :: "buddy \<Rightarrow> u64 \<Rightarrow> u8 \<Rightarrow> buddy" where
  "page_type_set s addr t = (let idx = unat (phys_to_idx s addr) in
     if idx < MAX_REFC_PAGES then s\<lparr>page_type := (page_type s)(idx := t)\<rparr> else s)"

section \<open>The quarantine ring\<close>

definition q_push :: "buddy \<Rightarrow> u64 \<Rightarrow> bool \<times> buddy" where
  "q_push s addr =
     (if q_count s < QUARANTINE_MAX_CAP
      then (True, s\<lparr>quarantine := (quarantine s)(q_head s mod QUARANTINE_MAX_CAP := addr),
                    q_head := (q_head s + 1) mod QUARANTINE_MAX_CAP,
                    q_count := q_count s + 1\<rparr>)
      else (False, s\<lparr>q_full := q_full s + 1\<rparr>))"

function q_pop :: "buddy \<Rightarrow> u64 option \<times> buddy" where
  "q_pop s =
     (if q_count s = 0 then (None, s)
      else let idx = (q_head s + QUARANTINE_MAX_CAP - q_count s) mod QUARANTINE_MAX_CAP;
               addr = quarantine s idx;
               s1 = s\<lparr>quarantine := (quarantine s)(idx := 0), q_count := q_count s - 1\<rparr>;
               lo = alloc_base s1;
               hi = lo + alloc_pages s1 * PAGE_SIZE
           in if addr \<noteq> 0 \<and> addr \<ge> lo \<and> addr < hi then (Some addr, pte_refc_inc s1 addr)
              else q_pop s1)"
  by pat_completeness auto
termination
  by (relation "measure q_count") (auto simp: Let_def)

declare q_pop.simps [simp del]

section \<open>Free-list walks\<close>

definition is_reserved :: "buddy \<Rightarrow> u64 \<Rightarrow> bool" where
  "is_reserved s addr = (addr \<in> set (take (reserved_count s) (reserved s)))"

definition page_index :: "buddy \<Rightarrow> u64 \<Rightarrow> u64" where
  "page_index s addr = (addr - alloc_base s) div PAGE_SIZE"

definition block_size :: "nat \<Rightarrow> u64" where
  "block_size order = push_bit order PAGE_SIZE"

definition is_managed :: "buddy \<Rightarrow> u64 \<Rightarrow> bool" where
  "is_managed s addr = (addr \<ge> alloc_base s \<and>
     addr + PAGE_SIZE \<le> alloc_base s + alloc_pages s * PAGE_SIZE)"

text \<open>A pointer to a pointer, as \<^verbatim>\<open>remove_from_list\<close> holds one: a list head or the \<^verbatim>\<open>next\<close>
  field of a block.\<close>

datatype slot = HeadSlot nat | NextSlot u64

fun slot_get :: "buddy \<Rightarrow> slot \<Rightarrow> u64" where
  "slot_get s (HeadSlot k) = free_lists s ! k"
| "slot_get s (NextSlot a) = b_next (hdr s a)"

fun slot_set :: "buddy \<Rightarrow> slot \<Rightarrow> u64 \<Rightarrow> buddy" where
  "slot_set s (HeadSlot k) v = s\<lparr>free_lists := (free_lists s)[k := v]\<rparr>"
| "slot_set s (NextSlot a) v = s\<lparr>hdr := (hdr s)(a := (hdr s a)\<lparr>b_next := v\<rparr>)\<rparr>"

partial_function (option) walk_contains :: "(u64 \<Rightarrow> block) \<Rightarrow> u64 \<Rightarrow> u64 \<Rightarrow> bool option" where
  "walk_contains h cur addr =
     (if cur = 0 then Some False
      else if cur = addr then Some True
      else walk_contains h (b_next (h cur)) addr)"

definition is_on_free_list :: "buddy \<Rightarrow> u64 \<Rightarrow> nat \<Rightarrow> bool option" where
  "is_on_free_list s addr order =
     do { head \<leftarrow> arr_get (free_lists s) order; walk_contains (hdr s) head addr }"

partial_function (option) remove_at :: "buddy \<Rightarrow> slot \<Rightarrow> u64 \<Rightarrow> buddy option" where
  "remove_at s cur target =
     (if slot_get s cur = 0 then Some s
      else if slot_get s cur = target
      then (let s1 = slot_set s cur (b_next (hdr s target))
            in Some (s1\<lparr>hdr := (hdr s1)(target := (hdr s1 target)\<lparr>b_magic := 0\<rparr>)\<rparr>))
      else remove_at s (NextSlot (slot_get s cur)) target)"

definition remove_from_list :: "buddy \<Rightarrow> nat \<Rightarrow> u64 \<Rightarrow> buddy option" where
  "remove_from_list s order target =
     do { _ \<leftarrow> arr_get (free_lists s) order; remove_at s (HeadSlot order) target }"

definition push_block :: "buddy \<Rightarrow> u64 \<Rightarrow> nat \<Rightarrow> buddy" where
  "push_block s addr k =
     s\<lparr>hdr := (hdr s)(addr := \<lparr>b_magic = MAGIC, b_order = of_nat k, b_next = free_lists s ! k\<rparr>),
       free_lists := (free_lists s)[k := addr]\<rparr>"

section \<open>Auditing the free lists\<close>

fun audit_pages :: "(nat \<Rightarrow> u8) \<Rightarrow> nat \<Rightarrow> nat list \<Rightarrow> bool \<times> (nat \<Rightarrow> u8)" where
  "audit_pages own order [] = (True, own)"
| "audit_pages own order (p # ps) =
     (if own p \<noteq> OWNED_ORDER_SENTINEL then (False, own)
      else audit_pages (own(p := of_nat order)) order ps)"

partial_function (option) audit_list ::
  "buddy \<Rightarrow> nat \<Rightarrow> u64 \<Rightarrow> (nat \<Rightarrow> u8) \<Rightarrow> (bool \<times> (nat \<Rightarrow> u8)) option" where
  "audit_list s order cur own =
     (if cur = 0 then Some (True, own)
      else if b_magic (hdr s cur) \<noteq> MAGIC \<or> b_order (hdr s cur) \<noteq> of_nat order then Some (False, own)
      else let base_idx = phys_to_idx s cur; span = push_bit order (1::u64)
           in if unat (base_idx + span) > MAX_REFC_PAGES then Some (False, own)
              else let (ok, own1) = audit_pages own order [unat base_idx ..< unat (base_idx + span)]
                   in if ok then audit_list s order (b_next (hdr s cur)) own1
                      else Some (False, own1))"

fun audit_orders :: "buddy \<Rightarrow> nat list \<Rightarrow> (nat \<Rightarrow> u8) \<Rightarrow> (bool \<times> (nat \<Rightarrow> u8)) option" where
  "audit_orders s [] own = Some (True, own)"
| "audit_orders s (k # ks) own =
     (case audit_list s k (free_lists s ! k) own of
        None \<Rightarrow> None
      | Some (False, own1) \<Rightarrow> Some (False, own1)
      | Some (True, own1) \<Rightarrow> audit_orders s ks own1)"

definition audit_free_lists :: "buddy \<Rightarrow> (bool \<times> buddy) option" where
  "audit_free_lists s =
     (if audit_active s then Some (True, s)
      else do { (ok, own) \<leftarrow> audit_orders s [0..<MAX_ORDER + 1] (\<lambda>_. OWNED_ORDER_SENTINEL);
                Some (ok, s\<lparr>audit_active := False, owned_by := own\<rparr>) })"

definition maybe_audit :: "buddy \<Rightarrow> buddy option" where
  "maybe_audit s =
     (let c = audit_counter s + 1; s1 = s\<lparr>audit_counter := c\<rparr>
      in if c mod AUDIT_PERIOD = 0 then map_option snd (audit_free_lists s1) else Some s1)"

section \<open>Freeing and coalescing\<close>

function coalesce :: "buddy \<Rightarrow> u64 \<Rightarrow> nat \<Rightarrow> (buddy \<times> u64 \<times> nat) option" where
  "coalesce s cur k =
     (if k \<ge> MAX_ORDER then Some (s, cur, k)
      else let bud = cur XOR block_size k
           in if \<not> is_managed s bud then Some (s, cur, k)
              else if b_magic (hdr s bud) = MAGIC \<and> b_order (hdr s bud) = of_nat k
              then (case is_on_free_list s bud k of
                      None \<Rightarrow> None
                    | Some False \<Rightarrow> Some (s, cur, k)
                    | Some True \<Rightarrow>
                        (case remove_from_list s k bud of
                           None \<Rightarrow> None
                         | Some s1 \<Rightarrow> coalesce s1 (if cur < bud then cur else bud) (k + 1)))
              else Some (s, cur, k))"
  by pat_completeness auto
termination
  by (relation "measure (\<lambda>(s, cur, k). MAX_ORDER - k)") auto

declare coalesce.simps [simp del]

definition free_one :: "buddy \<Rightarrow> u64 \<Rightarrow> nat \<Rightarrow> buddy option" where
  "free_one s addr order =
     (if \<not> is_managed s addr then Some s
      else if order = 0 \<and> page_type_get s addr = PAGE_TYPE_PTE then Some (push_block s addr 0)
      else do { (s1, cur, k) \<leftarrow> coalesce s addr order;
                on \<leftarrow> is_on_free_list s1 cur k;
                Some (if on then s1 else push_block s1 cur k) })"

fun max_order_from :: "nat \<Rightarrow> u64 \<Rightarrow> u64 \<Rightarrow> nat" where
  "max_order_from 0 addr sz = 0"
| "max_order_from (Suc k) addr sz =
     (let bs = block_size (Suc k)
      in if addr AND (bs - 1) = 0 \<and> bs \<le> sz then Suc k else max_order_from k addr sz)"

definition max_order_for :: "u64 \<Rightarrow> u64 \<Rightarrow> nat" where
  "max_order_for addr sz = max_order_from MAX_ORDER addr sz"

partial_function (option) add_region_loop :: "buddy \<Rightarrow> u64 \<Rightarrow> u64 \<Rightarrow> buddy option" where
  "add_region_loop s addr hi =
     (if addr + PAGE_SIZE \<le> hi
      then (let order = max_order_for addr (hi - addr)
            in case free_one s addr order of
                 None \<Rightarrow> None
               | Some s1 \<Rightarrow> add_region_loop s1 (addr + block_size order) hi)
      else Some s)"

definition add_region :: "buddy \<Rightarrow> u64 \<Rightarrow> u64 \<Rightarrow> buddy option" where
  "add_region s start sz = add_region_loop s start (start + sz)"

section \<open>Allocation\<close>

fun split_block :: "buddy \<Rightarrow> u64 \<Rightarrow> nat list \<Rightarrow> buddy" where
  "split_block s addr [] = s"
| "split_block s addr (so # sos) =
     (let bud = addr + block_size so
      in split_block (if \<not> is_reserved s bud then push_block s bud so else s) addr sos)"

definition take_block :: "buddy \<Rightarrow> nat \<Rightarrow> nat \<Rightarrow> u64 \<times> buddy" where
  "take_block s order k =
     (let addr = free_lists s ! k;
          nx = b_next (hdr s addr);
          s1 = s\<lparr>hdr := (hdr s)(addr := null_block)\<rparr>;
          s2 = used_mark s1 (page_index s1 addr);
          s3 = untrack_freed_page s2 addr;
          s4 = s3\<lparr>free_lists := (free_lists s3)[k := nx]\<rparr>;
          s5 = split_block s4 addr (rev [order..<k])
      in (addr, page_type_set s5 addr PAGE_TYPE_DATA))"

fun alloc_scan :: "buddy \<Rightarrow> nat \<Rightarrow> nat \<Rightarrow> nat list \<Rightarrow> u64 option \<times> buddy" where
  "alloc_scan s order steps [] = (None, s)"
| "alloc_scan s order steps (k # ks) =
     (let blk = free_lists s ! k
      in if blk = 0 then alloc_scan s order steps ks
         else if steps + 1 > 1000000 then (None, s)
         else if is_reserved s blk
         then (let nx = b_next (hdr s blk); s1 = s\<lparr>free_lists := (free_lists s)[k := nx]\<rparr>
               in if nx \<noteq> 0 then alloc_scan s1 order (steps + 1) ks else (None, s1))
         else (let (addr, s1) = take_block s order k in (Some addr, s1)))"

definition alloc_nolock :: "buddy \<Rightarrow> nat \<Rightarrow> u64 option \<times> buddy" where
  "alloc_nolock s order = alloc_scan s order 0 [order..<MAX_ORDER + 1]"

definition alloc :: "buddy \<Rightarrow> nat \<Rightarrow> u64 option \<times> buddy" where
  "alloc s order = alloc_nolock s order"

definition zero_page :: "buddy \<Rightarrow> u64 \<Rightarrow> buddy" where
  "zero_page s addr = s\<lparr>hdr := (hdr s)(addr := null_block)\<rparr>"

definition alloc_zeroed_page :: "buddy \<Rightarrow> u64 option \<times> buddy" where
  "alloc_zeroed_page s = (case q_pop s of
     (Some addr, s1) \<Rightarrow>
       let s2 = page_type_set (zero_page s1 addr) addr PAGE_TYPE_PTE;
           s3 = untrack_freed_page (pte_refc_inc s2 addr) addr
       in (Some addr, used_mark s3 (phys_to_idx s3 addr))
   | (None, s1) \<Rightarrow>
       (case alloc_nolock s1 0 of
          (None, s2) \<Rightarrow> (None, s2)
        | (Some addr, s2) \<Rightarrow>
            (Some addr, pte_refc_inc (page_type_set (zero_page s2 addr) addr PAGE_TYPE_PTE) addr)))"

section \<open>Reserving pages\<close>

partial_function (option) mark_allocated_loop :: "buddy \<Rightarrow> u64 \<Rightarrow> u64 \<Rightarrow> buddy option" where
  "mark_allocated_loop s addr hi =
     (if addr < hi
      then (let order = max_order_for addr (hi - addr)
            in case (if b_magic (hdr s addr) = MAGIC \<and> b_order (hdr s addr) = of_nat order
                     then remove_from_list s order addr else Some s) of
                 None \<Rightarrow> None
               | Some s1 \<Rightarrow> mark_allocated_loop s1 (addr + block_size order) hi)
      else Some s)"

definition mark_allocated :: "buddy \<Rightarrow> u64 \<Rightarrow> u64 \<Rightarrow> buddy option" where
  "mark_allocated s start sz = mark_allocated_loop s start (start + sz)"

definition reserve :: "buddy \<Rightarrow> u64 \<Rightarrow> buddy option" where
  "reserve s addr =
     (if is_reserved s addr then Some s
      else if reserved_count s < MAX_RESERVED
      then do { s1 \<leftarrow> mark_allocated
                       (s\<lparr>reserved := (reserved s)[reserved_count s := addr],
                          reserved_count := reserved_count s + 1\<rparr>) addr PAGE_SIZE;
                Some (if used_set s1 (page_index s1 addr) then s1
                      else used_mark s1 (page_index s1 addr)) }
      else Some s)"

definition reserve_page :: "buddy \<Rightarrow> u64 \<Rightarrow> buddy option" where
  "reserve_page s addr =
     (if \<not> is_managed s addr then Some s
      else reserve (page_type_set (used_mark s (page_index s addr)) addr PAGE_TYPE_DATA) addr)"

definition unreserve :: "buddy \<Rightarrow> u64 \<Rightarrow> bool \<times> buddy" where
  "unreserve s addr =
     (case find_index (\<lambda>x. x = addr) (take (reserved_count s) (reserved s)) of
        None \<Rightarrow> (False, s)
      | Some i \<Rightarrow>
          (let r = fold (\<lambda>j r. r[j := r ! (j + 1)]) [i..<reserved_count s - 1] (reserved s);
               n = reserved_count s - 1
           in (True, s\<lparr>reserved := r[n := 0], reserved_count := n\<rparr>)))"

section \<open>Freeing\<close>

definition df_record :: "env \<Rightarrow> buddy \<Rightarrow> u64 \<Rightarrow> nat \<Rightarrow> buddy" where
  "df_record e s pidx order =
     (if unat pidx \<ge> DF_MAX_PAGES then s
      else s\<lparr>df_last := (df_last s)(unat pidx := (ucast (caller e), ucast (ticks e), of_nat order))\<rparr>)"

definition df_info :: "buddy \<Rightarrow> u64 \<Rightarrow> u32 \<times> u32 \<times> u8" where
  "df_info s phys = (let pidx = unat (phys_to_idx s phys) in
     if pidx < DF_MAX_PAGES then df_last s pidx else (0, 0, 0))"

text \<open>The part that \<^verbatim>\<open>free\<close> and \<^verbatim>\<open>free_reserved\<close> share: the used-bit and page-type guard, then
  the quarantine for page-table pages and the free lists for all others.\<close>

definition release :: "env \<Rightarrow> buddy \<Rightarrow> u64 \<Rightarrow> nat \<Rightarrow> (bool \<times> buddy) option" where
  "release e s addr order =
     (let pidx = page_index s addr; old_type = page_type_get s addr
      in if \<not> used_set s pidx \<or> old_type = PAGE_TYPE_FREE then Some (False, s)
         else let s1 = df_record e (page_type_set (used_clear s pidx) addr PAGE_TYPE_FREE) pidx order
              in map_option (Pair True)
                (if order = 0 \<and> old_type = PAGE_TYPE_PTE
                 then (let (zero, s2) = pte_refc_dec s1 addr
                       in if zero
                          then (let (queued, s3) = q_push s2 addr
                                in if queued then Some s3 else free_one s3 addr 0)
                          else Some s2)
                 else free_one s1 addr (order mod 256)))"

definition free :: "env \<Rightarrow> buddy \<Rightarrow> u64 \<Rightarrow> nat \<Rightarrow> buddy option" where
  "free e s addr order =
     (let (dup, s1) = track_freed_page s addr
      in if dup then Some s1
         else let s2 = (if is_reserved s1 addr then snd (unreserve s1 addr) else s1)
              in do { (done, s3) \<leftarrow> release e s2 addr order;
                      if done then maybe_audit s3 else Some s3 })"

definition free_reserved :: "env \<Rightarrow> buddy \<Rightarrow> u64 \<Rightarrow> nat \<Rightarrow> (bool \<times> buddy) option" where
  "free_reserved e s addr order =
     (let (found, s1) = unreserve s addr
      in if found then map_option (\<lambda>(_, s2). (True, s2)) (release e s1 addr order)
         else Some (False, s1))"

section \<open>Queries\<close>

partial_function (option) walk_length :: "(u64 \<Rightarrow> block) \<Rightarrow> u64 \<Rightarrow> nat \<Rightarrow> nat option" where
  "walk_length h cur n =
     (if cur = 0 then Some n else walk_length h (b_next (h cur)) (n + 1))"

fun free_pages_upto :: "buddy \<Rightarrow> nat list \<Rightarrow> nat list option" where
  "free_pages_upto s [] = Some []"
| "free_pages_upto s (k # ks) =
     do { n \<leftarrow> walk_length (hdr s) (free_lists s ! k) 0;
          ns \<leftarrow> free_pages_upto s ks;
          Some (n # ns) }"

definition free_pages_by_order :: "buddy \<Rightarrow> nat list option" where
  "free_pages_by_order s = free_pages_upto s [0..<MAX_ORDER + 1]"

definition free_page_count :: "buddy \<Rightarrow> nat option" where
  "free_page_count s =
     do { ns \<leftarrow> free_pages_upto s [0..<MAX_ORDER + 1];
          Some (sum_list (map2 (\<lambda>n k. n * 2 ^ k) ns [0..<MAX_ORDER + 1])) }"

definition page_align_down :: "u64 \<Rightarrow> u64" where
  "page_align_down addr = addr AND NOT (PAGE_SIZE - 1)"

definition page_align_up :: "u64 \<Rightarrow> u64" where
  "page_align_up addr = (addr + PAGE_SIZE - 1) AND NOT (PAGE_SIZE - 1)"

end
