(* ===== verification/Buddy_Lists.thy ===== *)
theory Buddy_Lists
  imports Buddy
begin

text \<open>
  The free lists of \<^verbatim>\<open>src/src/memory/buddy.rs\<close> as chains of block headers, the invariant
  \<open>buddy_inv\<close> (every list an acyclic chain of valid, aligned, pairwise disjoint blocks inside the managed
  range), and that pushing, unlinking and coalescing keep it and change the free space by exactly the
  block concerned.
\<close>

fun chain :: "(u64 \<Rightarrow> block) \<Rightarrow> u64 \<Rightarrow> u64 list \<Rightarrow> bool" where
  "chain h p [] = (p = 0)"
| "chain h p (x # xs) = (p = x \<and> x \<noteq> 0 \<and> chain h (b_next (h x)) xs)"

lemma chain_upd_other: "a \<notin> set xs \<Longrightarrow> chain (h(a := v)) p xs = chain h p xs"
  by (induction xs arbitrary: p) auto

lemma chain_cong: "(\<And>a. a \<in> set xs \<Longrightarrow> b_next (h' a) = b_next (h a)) \<Longrightarrow> chain h' p xs = chain h p xs"
  by (induction xs arbitrary: p) auto

lemma chain_unique: "chain h p xs \<Longrightarrow> chain h p ys \<Longrightarrow> xs = ys"
proof (induction xs arbitrary: p ys)
  case Nil then show ?case by (cases ys) auto
next
  case (Cons x xs) then show ?case by (cases ys) auto
qed

lemma chain_suffix: "chain h p (xs @ x # ys) \<Longrightarrow> chain h x (x # ys)"
  by (induction xs arbitrary: p) auto

lemma chain_distinct: "chain h p xs \<Longrightarrow> distinct xs"
proof (induction xs arbitrary: p)
  case (Cons x xs)
  have "x \<notin> set xs"
  proof
    assume "x \<in> set xs"
    then obtain ys zs where xs: "xs = ys @ x # zs" by (meson split_list)
    with Cons.prems have "chain h x (x # ys @ x # zs)" by simp
    moreover from Cons.prems xs have "chain h x (x # zs)"
      using chain_suffix [of h p "x # ys" x zs] by simp
    ultimately have "x # ys @ x # zs = x # zs" by (rule chain_unique)
    then have "length (ys @ x # zs) = length zs" by (metis list.inject)
    then show False by simp
  qed
  with Cons show ?case by auto
qed simp

lemma walk_contains_chain: "chain h p xs \<Longrightarrow> walk_contains h p a = Some (a \<in> set xs)"
  by (induction xs arbitrary: p) (auto simp: walk_contains.simps)

lemma walk_length_chain: "chain h p xs \<Longrightarrow> walk_length h p n = Some (n + length xs)"
  by (induction xs arbitrary: p n) (auto simp: walk_length.simps)

definition lists_frame :: "buddy \<Rightarrow> buddy \<Rightarrow> bool" where
  "lists_frame s s' \<longleftrightarrow>
     (\<exists>h f. length f = length (free_lists s) \<and> s' = s\<lparr>hdr := h, free_lists := f\<rparr>)"

lemma lists_frameI [intro]:
  "s' = s\<lparr>hdr := hdr s', free_lists := free_lists s'\<rparr> \<Longrightarrow>
     length (free_lists s') = length (free_lists s) \<Longrightarrow> lists_frame s s'"
  unfolding lists_frame_def by blast

fun slot_ok :: "buddy \<Rightarrow> slot \<Rightarrow> u64 list \<Rightarrow> bool" where
  "slot_ok s (HeadSlot k) xs = (k < length (free_lists s))"
| "slot_ok s (NextSlot a) xs = (a \<notin> set xs)"

definition unlinks :: "buddy \<Rightarrow> slot \<Rightarrow> u64 \<Rightarrow> u64 list \<Rightarrow> buddy \<Rightarrow> bool" where
  "unlinks s c t xs s' \<longleftrightarrow>
     lists_frame s s' \<and> chain (hdr s') (slot_get s' c) (remove1 t xs) \<and>
     (\<forall>a. a \<notin> set xs \<and> c \<noteq> NextSlot a \<longrightarrow> hdr s' a = hdr s a) \<and>
     (\<forall>a. a \<noteq> t \<longrightarrow> b_magic (hdr s' a) = b_magic (hdr s a) \<and> b_order (hdr s' a) = b_order (hdr s a)) \<and>
     (\<forall>j. c \<noteq> HeadSlot j \<longrightarrow> free_lists s' ! j = free_lists s ! j)"

lemma remove_at_unlinks:
  assumes "chain (hdr s) (slot_get s c) xs" and "t \<in> set xs" and "slot_ok s c xs"
  shows "\<exists>s'. remove_at s c t = Some s' \<and> unlinks s c t xs s'"
  using assms
proof (induction xs arbitrary: c)
  case (Cons x xs)
  then have get: "slot_get s c = x" "x \<noteq> 0" and ch: "chain (hdr s) (b_next (hdr s x)) xs" by auto
  have x: "x \<notin> set xs" using chain_distinct [OF Cons.prems(1)] by simp
  show ?case
  proof (cases "x = t")
    case True
    let ?s1 = "slot_set s c (b_next (hdr s t))"
    let ?s2 = "?s1\<lparr>hdr := (hdr ?s1)(t := (hdr ?s1 t)\<lparr>b_magic := 0\<rparr>)\<rparr>"
    have "remove_at s c t = Some ?s2"
      using get True by (subst remove_at.simps) (simp add: Let_def)
    moreover have "unlinks s c t (x # xs) ?s2"
      using True ch x Cons.prems(3)
      by (cases c) (auto simp: unlinks_def chain_upd_other fun_upd_twist)
    ultimately show ?thesis by blast
  next
    case False
    have "slot_ok s (NextSlot x) xs" "t \<in> set xs" using x Cons.prems False by auto
    then obtain s' where s': "remove_at s (NextSlot x) t = Some s'" "unlinks s (NextSlot x) t xs s'"
      using Cons.IH [of "NextSlot x"] ch by auto
    have "remove_at s c t = Some s'"
      using get False s' by (subst remove_at.simps) simp
    moreover have "slot_get s' c = x"
      using s'(2) Cons.prems(3) get by (cases c) (auto simp: unlinks_def)
    then have "unlinks s c t (x # xs) s'"
      using s'(2) get False by (auto simp: unlinks_def)
    ultimately show ?thesis by blast
  qed
qed simp


section \<open>Blocks\<close>

lemma block_size_exp: "block_size k = 2 ^ (12 + k)"
  by (simp add: block_size_def PAGE_SIZE_def push_bit_eq_mult power_add)

lemma unat_block_size [simp]: "k \<le> 51 \<Longrightarrow> unat (block_size k) = 4096 * 2 ^ k"
  using unat_exp64 [of "12 + k"] by (simp add: block_size_exp power_add)

definition top_addr :: "buddy \<Rightarrow> nat" where
  "top_addr s = unat (alloc_base s) + unat (alloc_pages s) * 4096"

definition region_ok :: "buddy \<Rightarrow> bool" where
  "region_ok s \<longleftrightarrow> 0 < unat (alloc_base s) \<and> 4096 dvd unat (alloc_base s) \<and> top_addr s \<le> 2 ^ 63"

definition span :: "u64 \<Rightarrow> nat \<Rightarrow> nat set" where
  "span a k = {unat a ..< unat a + 4096 * 2 ^ k}"

definition block_ok :: "buddy \<Rightarrow> u64 \<Rightarrow> nat \<Rightarrow> bool" where
  "block_ok s a k \<longleftrightarrow> k \<le> MAX_ORDER \<and> 4096 * 2 ^ k dvd unat a \<and>
     unat (alloc_base s) \<le> unat a \<and> unat a + 4096 * 2 ^ k \<le> top_addr s"

lemma block_ok_span:
  "block_ok s a k \<longleftrightarrow> k \<le> MAX_ORDER \<and> 4096 * 2 ^ k dvd unat a \<and>
     span a k \<subseteq> {unat (alloc_base s) ..< top_addr s}"
  by (auto simp: block_ok_def span_def ivl_subset)

lemma unat_top:
  "region_ok s \<Longrightarrow> unat (alloc_base s + alloc_pages s * PAGE_SIZE) = top_addr s"
  by (simp add: region_ok_def top_addr_def PAGE_SIZE_def word_nat)

lemma is_managed_iff:
  assumes "region_ok s" and "unat a < 2 ^ 63 + 2 ^ 62"
  shows "is_managed s a \<longleftrightarrow> unat (alloc_base s) \<le> unat a \<and> unat a + 4096 \<le> top_addr s"
  using assms unat_top [of s]
  by (simp add: is_managed_def word_order_nat word_nat PAGE_SIZE_def)

lemma block_ok_managed: "region_ok s \<Longrightarrow> block_ok s a k \<Longrightarrow> is_managed s a"
proof -
  assume r: "region_ok s" and b: "block_ok s a k"
  have "(4096::nat) \<le> 4096 * 2 ^ k" by simp
  with b have "unat a + 4096 \<le> top_addr s" unfolding block_ok_def by linarith
  with r b show ?thesis
    by (subst is_managed_iff) (auto simp: region_ok_def block_ok_def)
qed

lemma block_ok_nonzero: "region_ok s \<Longrightarrow> block_ok s a k \<Longrightarrow> a \<noteq> 0"
  by (auto simp: region_ok_def block_ok_def)

lemma span_nonempty [simp]: "unat a \<in> span a k"
  by (simp add: span_def)

text \<open>The buddy of an aligned block is the block of the same size next to it, and the lower of
  the two is aligned to the doubled size.\<close>

lemma unat_buddy:
  assumes "k < MAX_ORDER"
  shows "unat (a XOR block_size k) =
    (if odd (unat a div (4096 * 2 ^ k)) then unat a - 4096 * 2 ^ k else unat a + 4096 * 2 ^ k)"
proof -
  have "(2::nat) ^ (12 + k) = 4096 * 2 ^ k" by (simp add: power_add)
  then show ?thesis
    using assms unat_xor_exp [of "12 + k" a] by (simp add: MAX_ORDER_def block_size_exp)
qed

lemma buddy_merge:
  fixes a :: u64
  assumes k: "k < MAX_ORDER" and al: "4096 * 2 ^ k dvd unat a"
  defines "b \<equiv> a XOR block_size k" and "m \<equiv> (if a < a XOR block_size k then a else a XOR block_size k)"
  shows "span m (k + 1) = span a k \<union> span b k" and "span a k \<inter> span b k = {}"
    and "4096 * 2 ^ (k + 1) dvd unat m"
    and "a \<noteq> b"
proof -
  let ?B = "4096 * 2 ^ k :: nat"
  obtain q where q: "unat a = ?B * q" using al by auto
  then have d: "unat a div ?B = q" by simp
  have ub: "unat b = (if odd q then unat a - ?B else unat a + ?B)"
    using unat_buddy [OF k, of a] d unfolding b_def by simp
  have less: "a < b \<longleftrightarrow> even q"
    using q ub by (auto simp: word_less_nat_alt elim: oddE)
  have sp: "span m (k + 1) = span a k \<union> span b k \<and> span a k \<inter> span b k = {} \<and> 2 * ?B dvd unat m"
  proof (cases "even q")
    case True
    then obtain r where "q = 2 * r" by (auto elim: evenE)
    with q ub True less show ?thesis by (auto simp: m_def span_def simp flip: b_def)
  next
    case False
    then obtain r where r: "q = 2 * r + 1" by (auto elim: oddE)
    with q ub False have "unat b = ?B * (2 * r)" "unat a = ?B * (2 * r) + ?B"
      by (auto simp: algebra_simps)
    with False less show ?thesis by (auto simp: m_def span_def simp flip: b_def)
  qed
  then show "span m (k + 1) = span a k \<union> span b k" "span a k \<inter> span b k = {}"
    "4096 * 2 ^ (k + 1) dvd unat m" by (auto simp: mult.assoc)
  from sp show "a \<noteq> b" by (metis disjoint_iff span_nonempty)
qed


section \<open>The free-list invariant\<close>

type_synonym lists = "nat \<Rightarrow> u64 list"

definition blocks :: "lists \<Rightarrow> (u64 \<times> nat) set" where
  "blocks L = {(a, k). k \<le> MAX_ORDER \<and> a \<in> set (L k)}"

definition free_space :: "lists \<Rightarrow> nat set" where
  "free_space L = (\<Union>(a, k) \<in> blocks L. span a k)"

definition disjoint_blocks :: "lists \<Rightarrow> bool" where
  "disjoint_blocks L \<longleftrightarrow>
     (\<forall>x \<in> blocks L. \<forall>y \<in> blocks L. x \<noteq> y \<longrightarrow> span (fst x) (snd x) \<inter> span (fst y) (snd y) = {})"

definition buddy_inv :: "buddy \<Rightarrow> lists \<Rightarrow> bool" where
  "buddy_inv s L \<longleftrightarrow> region_ok s \<and> length (free_lists s) = MAX_ORDER + 1 \<and>
     (\<forall>k \<le> MAX_ORDER. chain (hdr s) (free_lists s ! k) (L k)) \<and>
     (\<forall>(a, k) \<in> blocks L. block_ok s a k \<and> b_magic (hdr s a) = MAGIC \<and> b_order (hdr s a) = of_nat k) \<and>
     disjoint_blocks L"

lemma blocks_iff [simp]: "(a, k) \<in> blocks L \<longleftrightarrow> k \<le> MAX_ORDER \<and> a \<in> set (L k)"
  by (simp add: blocks_def)

lemma buddy_invD:
  assumes "buddy_inv s L"
  shows "region_ok s" and "length (free_lists s) = MAX_ORDER + 1"
    and "k \<le> MAX_ORDER \<Longrightarrow> chain (hdr s) (free_lists s ! k) (L k)"
    and "k \<le> MAX_ORDER \<Longrightarrow> a \<in> set (L k) \<Longrightarrow> block_ok s a k"
    and "k \<le> MAX_ORDER \<Longrightarrow> a \<in> set (L k) \<Longrightarrow> b_magic (hdr s a) = MAGIC"
    and "k \<le> MAX_ORDER \<Longrightarrow> a \<in> set (L k) \<Longrightarrow> b_order (hdr s a) = of_nat k"
    and "disjoint_blocks L"
  using assms by (auto simp: buddy_inv_def blocks_def)

lemma disjoint_blocksD:
  "disjoint_blocks L \<Longrightarrow> k \<le> MAX_ORDER \<Longrightarrow> a \<in> set (L k) \<Longrightarrow> j \<le> MAX_ORDER \<Longrightarrow> b \<in> set (L j) \<Longrightarrow>
     (a, k) \<noteq> (b, j) \<Longrightarrow> span a k \<inter> span b j = {}"
  unfolding disjoint_blocks_def by (metis blocks_iff fst_conv snd_conv)

text \<open>A block is on one list only.\<close>

lemma one_list:
  assumes "disjoint_blocks L" "k \<le> MAX_ORDER" "a \<in> set (L k)" "j \<le> MAX_ORDER" "a \<in> set (L j)"
  shows "k = j"
proof (rule ccontr)
  assume "k \<noteq> j"
  then have "span a k \<inter> span a j = {}" using assms disjoint_blocksD by blast
  then show False by (meson disjoint_iff span_nonempty)
qed

lemma lists_frame_refl [simp]: "lists_frame s s"
  by (rule lists_frameI) simp_all

lemma lists_frame_trans: "lists_frame s s1 \<Longrightarrow> lists_frame s1 s2 \<Longrightarrow> lists_frame s s2"
  by (rule lists_frameI) (auto simp: lists_frame_def)

lemma lists_frame_fields:
  assumes "lists_frame s s'"
  shows "block_ok s' = block_ok s" and "region_ok s' = region_ok s" and "top_addr s' = top_addr s"
    and "alloc_base s' = alloc_base s" and "alloc_pages s' = alloc_pages s"
    and "used_bmp s' = used_bmp s" and "freed_bmp s' = freed_bmp s" and "page_type s' = page_type s"
    and "reserved s' = reserved s" and "reserved_count s' = reserved_count s"
    and "length (free_lists s') = length (free_lists s)"
  using assms by (auto simp: lists_frame_def block_ok_def region_ok_def top_addr_def fun_eq_iff)

lemma push_block_frame [simp]: "lists_frame s (push_block s a k)"
  by (rule lists_frameI) (simp_all add: push_block_def)

lemmas push_block_fields [simp] = lists_frame_fields [OF push_block_frame]

lemma free_space_iff: "x \<in> free_space L \<longleftrightarrow> (\<exists>k \<le> MAX_ORDER. \<exists>a \<in> set (L k). x \<in> span a k)"
  by (force simp: free_space_def blocks_def)

lemma on_free_list_iff:
  "buddy_inv s L \<Longrightarrow> k \<le> MAX_ORDER \<Longrightarrow> is_on_free_list s a k = Some (a \<in> set (L k))"
  using buddy_invD(2,3) [of s L] by (simp add: is_on_free_list_def walk_contains_chain)

lemma blocks_push: "k \<le> MAX_ORDER \<Longrightarrow> blocks (L(k := a # L k)) = insert (a, k) (blocks L)"
  by (auto simp: blocks_def split: if_splits)

lemma free_space_push: "k \<le> MAX_ORDER \<Longrightarrow> free_space (L(k := a # L k)) = span a k \<union> free_space L"
  by (simp add: free_space_def blocks_push)

lemma span_in_free_space: "k \<le> MAX_ORDER \<Longrightarrow> a \<in> set (L k) \<Longrightarrow> span a k \<subseteq> free_space L"
  unfolding free_space_iff [abs_def] subset_iff by blast

lemma not_listed: "span a k \<inter> free_space L = {} \<Longrightarrow> j \<le> MAX_ORDER \<Longrightarrow> a \<notin> set (L j)"
  by (metis disjoint_iff span_in_free_space span_nonempty subsetD)

lemma push_block_inv:
  assumes inv: "buddy_inv s L" and ok: "block_ok s a k" and dj: "span a k \<inter> free_space L = {}"
  shows "buddy_inv (push_block s a k) (L(k := a # L k))"
proof -
  let ?s = "push_block s a k" and ?L = "L(k := a # L k)"
  have k: "k \<le> MAX_ORDER" using ok by (simp add: block_ok_def)
  note fresh = not_listed [OF dj]
  have "region_ok ?s" "length (free_lists ?s) = MAX_ORDER + 1"
    using buddy_invD(1,2) [OF inv] by simp_all
  moreover have "chain (hdr ?s) (free_lists ?s ! j) (?L j)" if "j \<le> MAX_ORDER" for j
    using buddy_invD(3) [OF inv that] fresh [OF that] k buddy_invD(2) [OF inv] that
      block_ok_nonzero [OF buddy_invD(1) [OF inv] ok]
    by (auto simp: push_block_def chain_upd_other)
  moreover have "block_ok ?s b j \<and> b_magic (hdr ?s b) = MAGIC \<and> b_order (hdr ?s b) = of_nat j"
    if "(b, j) \<in> blocks ?L" for b j
    using that k ok buddy_invD(4-6) [OF inv] fresh
    by (auto simp: blocks_push push_block_def) (auto simp: block_ok_def top_addr_def)
  moreover have "disjoint_blocks ?L"
    using buddy_invD(7) [OF inv] dj k
    by (fastforce simp: disjoint_blocks_def blocks_push free_space_def)
  ultimately show ?thesis by (auto simp: buddy_inv_def)
qed

lemma blocks_remove:
  "distinct (L k) \<Longrightarrow> blocks (L(k := remove1 a (L k))) = blocks L - {(a, k)}"
  by (auto simp: blocks_def split: if_splits)

lemma free_space_remove:
  assumes "disjoint_blocks L" "distinct (L k)" "k \<le> MAX_ORDER" "a \<in> set (L k)"
  shows "free_space (L(k := remove1 a (L k))) = free_space L - span a k"
proof -
  have "(\<Union>(b, j) \<in> blocks L - {(a, k)}. span b j) \<inter> span a k = {}"
    using assms by (fastforce dest: disjoint_blocksD)
  moreover have "free_space L = span a k \<union> (\<Union>(b, j) \<in> blocks L - {(a, k)}. span b j)"
    using assms by (force simp: free_space_def)
  ultimately show ?thesis using assms by (auto simp: free_space_def blocks_remove)
qed

lemma remove_from_list_inv:
  assumes inv: "buddy_inv s L" and k: "k \<le> MAX_ORDER" and a: "a \<in> set (L k)"
  shows "\<exists>s'. remove_from_list s k a = Some s' \<and> buddy_inv s' (L(k := remove1 a (L k))) \<and> lists_frame s s'"
proof -
  let ?L = "L(k := remove1 a (L k))"
  note chains = buddy_invD(3) [OF inv] and dj = buddy_invD(7) [OF inv]
  have dist: "distinct (L j)" if "j \<le> MAX_ORDER" for j
    using chain_distinct [OF chains [OF that]] .
  obtain s' where s': "remove_at s (HeadSlot k) a = Some s'" and un: "unlinks s (HeadSlot k) a (L k) s'"
    using remove_at_unlinks [of s "HeadSlot k" "L k" a] chains [OF k] a k buddy_invD(2) [OF inv] by auto
  have fr: "lists_frame s s'" using un by (simp add: unlinks_def)
  note ff = lists_frame_fields [OF fr]
  have "chain (hdr s') (free_lists s' ! j) (?L j)" if j: "j \<le> MAX_ORDER" for j
  proof (cases "j = k")
    case True
    with un show ?thesis by (simp add: unlinks_def)
  next
    case False
    have "x \<notin> set (L k)" if "x \<in> set (L j)" for x
      using that False one_list [OF dj] j k by blast
    with un have "\<forall>x \<in> set (L j). hdr s' x = hdr s x" by (auto simp: unlinks_def)
    with un False chains [OF j] show ?thesis
      using chain_cong [of "L j" "hdr s'" "hdr s"] by (simp add: unlinks_def)
  qed
  moreover have "block_ok s' b j \<and> b_magic (hdr s' b) = MAGIC \<and> b_order (hdr s' b) = of_nat j"
    if "(b, j) \<in> blocks ?L" for b j
  proof -
    have j: "j \<le> MAX_ORDER" and b: "b \<in> set (L j)" and "b \<noteq> a \<or> j \<noteq> k"
      using that dist [OF k] by (auto simp: blocks_remove)
    then have "b \<noteq> a" using one_list [OF dj j b k] a by blast
    with un show ?thesis using buddy_invD(4-6) [OF inv j b] ff(1) by (simp add: unlinks_def)
  qed
  moreover have "disjoint_blocks ?L"
    using dj dist [OF k] by (auto simp: disjoint_blocks_def blocks_remove)
  ultimately have "buddy_inv s' ?L"
    using buddy_invD(1,2) [OF inv] ff by (auto simp: buddy_inv_def)
  moreover have "remove_from_list s k a = Some s'"
    using s' k buddy_invD(2) [OF inv] by (simp add: remove_from_list_def)
  ultimately show ?thesis using fr by blast
qed

definition coalesced :: "buddy \<Rightarrow> lists \<Rightarrow> u64 \<Rightarrow> nat \<Rightarrow> (buddy \<times> u64 \<times> nat) option \<Rightarrow> bool" where
  "coalesced s L a k r \<longleftrightarrow> (\<exists>s' a' k' L'. r = Some (s', a', k') \<and> buddy_inv s' L' \<and> block_ok s' a' k' \<and>
     span a' k' \<inter> free_space L' = {} \<and> span a' k' \<union> free_space L' = span a k \<union> free_space L \<and>
     lists_frame s s')"

lemma coalesce_stop:
  "buddy_inv s L \<Longrightarrow> block_ok s a k \<Longrightarrow> span a k \<inter> free_space L = {} \<Longrightarrow> coalesced s L a k (Some (s, a, k))"
  unfolding coalesced_def by (intro exI [of _ s] exI [of _ a] exI [of _ k] exI [of _ L]) simp

lemma coalesce_inv:
  assumes "buddy_inv s L" and "block_ok s a k" and "span a k \<inter> free_space L = {}"
  shows "coalesced s L a k (coalesce s a k)"
  using assms
proof (induction s a k arbitrary: L rule: coalesce.induct)
  case (1 s a k)
  note inv = "1.prems"(1) and ok = "1.prems"(2) and dj = "1.prems"(3)
  note stop = coalesce_stop [OF inv ok dj]
  let ?b = "a XOR block_size k"
  define L1 where "L1 = L(k := remove1 ?b (L k))"
  let ?m = "if a < ?b then a else ?b"
  have k: "k \<le> MAX_ORDER" using ok by (simp add: block_ok_def)
  show ?case
  proof (cases "k < MAX_ORDER \<and> is_managed s ?b \<and> b_magic (hdr s ?b) = MAGIC \<and>
                b_order (hdr s ?b) = of_nat k \<and> ?b \<in> set (L k)")
    case False
    then have "coalesce s a k = Some (s, a, k)"
      using on_free_list_iff [OF inv k, of ?b] by (subst coalesce.simps) (auto simp: Let_def)
    with stop show ?thesis by simp
  next
    case True
    then have k': "k < MAX_ORDER" and b: "?b \<in> set (L k)" by auto
    obtain s1 where s1: "remove_from_list s k ?b = Some s1" "buddy_inv s1 L1" "lists_frame s s1"
      using remove_from_list_inv [OF inv k b] by (auto simp: L1_def)
    note mg = buddy_merge [OF k', of a]
    have al: "4096 * 2 ^ k dvd unat a" using ok by (simp add: block_ok_def)
    have fs: "free_space L1 = free_space L - span ?b k"
      using free_space_remove [OF buddy_invD(7) [OF inv] chain_distinct [OF buddy_invD(3) [OF inv k]] k b]
      by (simp add: L1_def)
    have bk: "block_ok s ?b k" using buddy_invD(4) [OF inv k b] .
    have sub: "span ?b k \<subseteq> free_space L" using span_in_free_space [of k ?b L] k b by blast
    have "block_ok s1 ?m (k + 1)"
      using ok bk mg(1,3) [OF al] k' lists_frame_fields(1) [OF s1(3)] by (auto simp: block_ok_span)
    moreover have "span ?m (k + 1) \<inter> free_space L1 = {}"
      using mg(1) [OF al] fs dj by auto
    ultimately have "coalesced s1 L1 ?m (k + 1) (coalesce s1 ?m (k + 1))"
      using True s1 on_free_list_iff [OF inv k, of ?b]
      by (intro "1.IH" [OF _ refl, of True]) (simp_all split del: if_split)
    moreover have "coalesce s a k = coalesce s1 ?m (k + 1)"
      using True s1 on_free_list_iff [OF inv k, of ?b] by (subst coalesce.simps) (auto simp: Let_def)
    moreover have "span ?m (k + 1) \<union> free_space L1 = span a k \<union> free_space L"
      using mg(1) [OF al] fs sub by auto
    ultimately show ?thesis
      using lists_frame_trans [OF s1(3)] unfolding coalesced_def by auto
  qed
qed


text \<open>Freeing a block adds exactly its bytes to the free space.\<close>

lemma free_one_inv:
  assumes inv: "buddy_inv s L" and ok: "block_ok s a k" and dj: "span a k \<inter> free_space L = {}"
  shows "\<exists>s' L'. free_one s a k = Some s' \<and> buddy_inv s' L' \<and>
     free_space L' = free_space L \<union> span a k \<and> lists_frame s s'"
proof -
  have k: "k \<le> MAX_ORDER" using ok by (simp add: block_ok_def)
  have m: "is_managed s a" using block_ok_managed [OF buddy_invD(1) [OF inv] ok] .
  show ?thesis
  proof (cases "k = 0 \<and> page_type_get s a = PAGE_TYPE_PTE")
    case True
    with m have "free_one s a k = Some (push_block s a k)" by (simp add: free_one_def)
    with push_block_inv [OF inv ok dj] free_space_push [OF k] show ?thesis
      by (metis push_block_frame Un_commute)
  next
    case False
    from coalesce_inv [OF inv ok dj] obtain s1 a1 k1 L1 where
      c: "coalesce s a k = Some (s1, a1, k1)" and inv1: "buddy_inv s1 L1" and ok1: "block_ok s1 a1 k1"
      and dj1: "span a1 k1 \<inter> free_space L1 = {}"
      and sp: "span a1 k1 \<union> free_space L1 = span a k \<union> free_space L" and fr: "lists_frame s s1"
      by (auto simp: coalesced_def)
    have k1: "k1 \<le> MAX_ORDER" using ok1 by (simp add: block_ok_def)
    have "free_one s a k = Some (push_block s1 a1 k1)"
      using m False c on_free_list_iff [OF inv1 k1] not_listed [OF dj1 k1]
      by (auto simp: free_one_def)
    with push_block_inv [OF inv1 ok1 dj1] free_space_push [OF k1] sp
      lists_frame_trans [OF fr push_block_frame]
    show ?thesis by (metis Un_commute)
  qed
qed

end
