(* ===== verification/Buddy_Alloc.thy ===== *)
theory Buddy_Alloc
  imports Buddy_Lists
begin

text \<open>
  Allocation from the free lists of \<^verbatim>\<open>src/src/memory/buddy.rs\<close>: taking the head of a list, splitting
  a block down to the requested order, and the scan over the orders, each as a step on the
  abstract lists of \<open>buddy_inv\<close>.
\<close>

section \<open>Allocation\<close>

lemma buddy_inv_cong:
  assumes "alloc_base s' = alloc_base s" "alloc_pages s' = alloc_pages s"
    "free_lists s' = free_lists s" "hdr s' = hdr s"
  shows "buddy_inv s' L = buddy_inv s L"
  using assms by (simp add: buddy_inv_def block_ok_def region_ok_def top_addr_def)

lemma used_mark_fields [simp]:
  "alloc_base (used_mark s p) = alloc_base s" "alloc_pages (used_mark s p) = alloc_pages s"
  "free_lists (used_mark s p) = free_lists s" "hdr (used_mark s p) = hdr s"
  "reserved (used_mark s p) = reserved s" "reserved_count (used_mark s p) = reserved_count s"
  "page_type (used_mark s p) = page_type s" "freed_bmp (used_mark s p) = freed_bmp s"
  "pte_refc (used_mark s p) = pte_refc s"
  "quarantine (used_mark s p) = quarantine s" "q_head (used_mark s p) = q_head s" "q_count (used_mark s p) = q_count s"
  by (simp_all add: used_mark_def used_word_def Let_def)

lemma used_clear_fields [simp]:
  "alloc_base (used_clear s p) = alloc_base s" "alloc_pages (used_clear s p) = alloc_pages s"
  "free_lists (used_clear s p) = free_lists s" "hdr (used_clear s p) = hdr s"
  "reserved (used_clear s p) = reserved s" "reserved_count (used_clear s p) = reserved_count s"
  "page_type (used_clear s p) = page_type s" "freed_bmp (used_clear s p) = freed_bmp s"
  "pte_refc (used_clear s p) = pte_refc s"
  "quarantine (used_clear s p) = quarantine s" "q_head (used_clear s p) = q_head s" "q_count (used_clear s p) = q_count s"
  by (simp_all add: used_clear_def used_word_def Let_def)

lemma untrack_fields [simp]:
  "alloc_base (untrack_freed_page s p) = alloc_base s" "alloc_pages (untrack_freed_page s p) = alloc_pages s"
  "free_lists (untrack_freed_page s p) = free_lists s" "hdr (untrack_freed_page s p) = hdr s"
  "reserved (untrack_freed_page s p) = reserved s"
  "reserved_count (untrack_freed_page s p) = reserved_count s"
  "page_type (untrack_freed_page s p) = page_type s" "used_bmp (untrack_freed_page s p) = used_bmp s"
  "pte_refc (untrack_freed_page s p) = pte_refc s"
  "quarantine (untrack_freed_page s p) = quarantine s" "q_head (untrack_freed_page s p) = q_head s" "q_count (untrack_freed_page s p) = q_count s"
  by (simp_all add: untrack_freed_page_def split: option.split)

lemma page_type_set_fields [simp]:
  "alloc_base (page_type_set s p t) = alloc_base s" "alloc_pages (page_type_set s p t) = alloc_pages s"
  "free_lists (page_type_set s p t) = free_lists s" "hdr (page_type_set s p t) = hdr s"
  "reserved (page_type_set s p t) = reserved s"
  "reserved_count (page_type_set s p t) = reserved_count s"
  "used_bmp (page_type_set s p t) = used_bmp s" "freed_bmp (page_type_set s p t) = freed_bmp s"
  "pte_refc (page_type_set s p t) = pte_refc s"
  "quarantine (page_type_set s p t) = quarantine s" "q_head (page_type_set s p t) = q_head s" "q_count (page_type_set s p t) = q_count s"
  by (simp_all add: page_type_set_def Let_def)

lemma buddy_inv_tables [simp]:
  "buddy_inv (page_type_set s p t) L = buddy_inv s L" "buddy_inv (used_mark s q) L = buddy_inv s L"
  "buddy_inv (used_clear s q) L = buddy_inv s L" "buddy_inv (untrack_freed_page s p) L = buddy_inv s L"
  by (rule buddy_inv_cong; simp)+

lemma pop_head_inv:
  assumes inv: "buddy_inv s L" and k: "k \<le> MAX_ORDER" and L: "L k = x # xs"
  shows "buddy_inv (s\<lparr>free_lists := (free_lists s)[k := b_next (hdr s x)], hdr := (hdr s)(x := v)\<rparr>)
           (L(k := xs))" (is "buddy_inv ?s ?L")
proof -
  have ch: "chain (hdr s) (free_lists s ! k) (x # xs)" using buddy_invD(3) [OF inv k] L by simp
  have x: "x \<notin> set xs" using chain_distinct [OF ch] by simp
  have other: "x \<notin> set (?L j)" if "j \<le> MAX_ORDER" for j
    using one_list [OF buddy_invD(7) [OF inv] k, of x j] that L x by auto
  have "chain (hdr ?s) (free_lists ?s ! j) (?L j)" if j: "j \<le> MAX_ORDER" for j
  proof (cases "j = k")
    case True
    then show ?thesis
      using ch x k buddy_invD(2) [OF inv] by (simp add: chain_upd_other)
  next
    case False
    then show ?thesis
      using buddy_invD(3) [OF inv j] other [OF j] by (simp add: chain_upd_other)
  qed
  moreover have sub: "blocks ?L \<subseteq> blocks L" using L by (auto simp: blocks_def split: if_splits)
  moreover have "b_magic (hdr ?s b) = MAGIC \<and> b_order (hdr ?s b) = of_nat j \<and> block_ok ?s b j"
    if b: "(b, j) \<in> blocks ?L" for b j
  proof -
    have "j \<le> MAX_ORDER" "b \<in> set (L j)" "b \<noteq> x"
      using subsetD [OF sub b] b other [of j] by auto
    with buddy_invD(4-6) [OF inv] show ?thesis by (simp add: block_ok_def top_addr_def)
  qed
  moreover have "disjoint_blocks ?L"
    using buddy_invD(7) [OF inv] sub unfolding disjoint_blocks_def by blast
  ultimately show ?thesis
    using buddy_invD(1,2) [OF inv] by (auto simp: buddy_inv_def region_ok_def top_addr_def)
qed

lemma pop_head_space:
  assumes inv: "buddy_inv s L" and k: "k \<le> MAX_ORDER" and L: "L k = x # xs"
  shows "free_space (L(k := xs)) = free_space L - span x k" and "block_ok s x k" and "span x k \<subseteq> free_space L"
    and "free_lists s ! k = x" and "x \<noteq> 0"
proof -
  have ch: "chain (hdr s) (free_lists s ! k) (x # xs)" using buddy_invD(3) [OF inv k] L by simp
  then show "free_lists s ! k = x" "x \<noteq> 0" by auto
  show "free_space (L(k := xs)) = free_space L - span x k"
    using free_space_remove [OF buddy_invD(7) [OF inv] _ k, of x] chain_distinct [OF ch] L by simp
  show "block_ok s x k" using buddy_invD(4) [OF inv k] L by simp
  show "span x k \<subseteq> free_space L" using span_in_free_space [OF k] L by simp
qed

text \<open>Splitting: the upper half of a block of order \<open>k + 1\<close>.\<close>

lemma upper_half:
  assumes r: "region_ok s" and ok: "block_ok s a (Suc k)"
  defines "b \<equiv> a + block_size k"
  shows "block_ok s b k" and "block_ok s a k" and "span a (Suc k) = span a k \<union> span b k"
    and "span a k \<inter> span b k = {}"
proof -
  have "k < MAX_ORDER" using ok by (simp add: block_ok_def)
  then have "unat (block_size k) = 4096 * 2 ^ k" by (simp add: MAX_ORDER_def)
  moreover have "unat a + 4096 * 2 ^ Suc k \<le> 2 ^ 63"
    using r ok by (simp add: region_ok_def block_ok_def)
  ultimately have b: "unat b = unat a + 4096 * 2 ^ k"
    unfolding b_def by (subst unat_add_nowrap) simp_all
  show eq: "span a (Suc k) = span a k \<union> span b k" and "span a k \<inter> span b k = {}"
    using b by (auto simp: span_def)
  have "4096 * 2 ^ Suc k dvd unat a" using ok by (simp add: block_ok_def)
  then have "4096 * 2 ^ k dvd unat a" by (auto elim: dvd_trans [rotated] simp: mult_dvd_mono le_imp_power_dvd)
  with ok eq b show "block_ok s a k" "block_ok s b k" by (auto simp: block_ok_span)
qed


lemma is_reserved_frame: "lists_frame s s' \<Longrightarrow> is_reserved s' = is_reserved s"
  by (simp add: is_reserved_def fun_eq_iff lists_frame_fields)

lemma split_block_inv:
  assumes "buddy_inv s L" and "block_ok s a k" and "order \<le> k" and "span a k \<inter> free_space L = {}"
  shows "\<exists>L'. buddy_inv (split_block s a (rev [order..<k])) L' \<and>
     lists_frame s (split_block s a (rev [order..<k])) \<and>
     free_space L \<subseteq> free_space L' \<and> free_space L' \<subseteq> free_space L \<union> (span a k - span a order) \<and>
     ((\<forall>j \<in> {order..<k}. \<not> is_reserved s (a + block_size j)) \<longrightarrow>
        free_space L' = free_space L \<union> (span a k - span a order))"
  using assms
proof (induction k arbitrary: s L)
  case (Suc k)
  show ?case
  proof (cases "order = Suc k")
    case False
    then have le: "order \<le> k" using Suc.prems(3) by simp
    let ?b = "a + block_size k"
    define s1 where "s1 = (if \<not> is_reserved s ?b then push_block s ?b k else s)"
    define L1 where "L1 = (if \<not> is_reserved s ?b then L(k := ?b # L k) else L)"
    note h = upper_half [OF buddy_invD(1) [OF Suc.prems(1)] Suc.prems(2)]
    have k: "k \<le> MAX_ORDER" using Suc.prems(2) by (simp add: block_ok_def)
    have dj: "span ?b k \<inter> free_space L = {}" using Suc.prems(4) h(3) by auto
    have inv: "buddy_inv s1 L1" using Suc.prems(1) push_block_inv [OF Suc.prems(1) h(1) dj] by (simp add: s1_def L1_def)
    have fs: "free_space L1 = free_space L \<union> (if is_reserved s ?b then {} else span ?b k)"
      using free_space_push [OF k] by (auto simp: L1_def)
    have fr: "lists_frame s s1" by (simp add: s1_def)
    have ok: "block_ok s1 a k" using h(2) lists_frame_fields(1) [OF fr] by simp
    have "span a k \<inter> free_space L1 = {}" using Suc.prems(4) h(3,4) fs by auto
    from Suc.IH [OF inv ok le this] obtain L' where
      L': "buddy_inv (split_block s1 a (rev [order..<k])) L'"
        "lists_frame s1 (split_block s1 a (rev [order..<k]))"
        "free_space L1 \<subseteq> free_space L'" "free_space L' \<subseteq> free_space L1 \<union> (span a k - span a order)"
        "(\<forall>j \<in> {order..<k}. \<not> is_reserved s1 (a + block_size j)) \<longrightarrow>
           free_space L' = free_space L1 \<union> (span a k - span a order)"
      by blast
    have step: "split_block s a (rev [order..<Suc k]) = split_block s1 a (rev [order..<k])"
      using le by (simp add: Let_def s1_def)
    have "span a order \<subseteq> span a k" using le by (auto simp: span_def intro: order.strict_trans2)
    with h(3,4) have sp: "span a (Suc k) - span a order = span ?b k \<union> (span a k - span a order)" by auto
    show ?thesis
      unfolding step
    proof (intro exI [of _ L'] conjI impI)
      show "free_space L' = free_space L \<union> (span a (Suc k) - span a order)"
        if "\<forall>j \<in> {order..<Suc k}. \<not> is_reserved s (a + block_size j)"
        using L'(5) that le fs sp is_reserved_frame [OF fr] by auto
    qed (use L' fs sp lists_frame_trans [OF fr L'(2)] in \<open>auto split: if_splits\<close>)
  qed (use Suc.prems in auto)
qed auto

lemma take_block_inv:
  assumes inv: "buddy_inv s L" and k: "k \<le> MAX_ORDER" and o: "order \<le> k" and L: "L k = x # xs"
    and t: "take_block s order k = (a, s')"
  shows "a = x" and "block_ok s a order" and "span a order \<subseteq> free_space L"
    and "\<exists>L'. buddy_inv s' L' \<and> free_space L' \<subseteq> free_space L - span a order \<and>
          (reserved_count s = 0 \<longrightarrow> free_space L' = free_space L - span a order)"
proof -
  note ph = pop_head_space [OF inv k L]
  let ?s1 = "used_mark (s\<lparr>hdr := (hdr s)(x := null_block)\<rparr>) (page_index (s\<lparr>hdr := (hdr s)(x := null_block)\<rparr>) x)"
  let ?s3 = "untrack_freed_page ?s1 x"
  let ?s4 = "?s3\<lparr>free_lists := (free_lists ?s3)[k := b_next (hdr s x)]\<rparr>"
  let ?s5 = "split_block ?s4 x (rev [order..<k])"
  have t': "a = x" "s' = page_type_set ?s5 x PAGE_TYPE_DATA"
    using t ph(4) by (auto simp: take_block_def Let_def)
  show "a = x" by (rule t')
  have inv4: "buddy_inv ?s4 (L(k := xs))"
    using pop_head_inv [OF inv k L, of null_block] by (subst (asm) buddy_inv_cong [symmetric, of ?s4]) simp_all
  have ok4: "block_ok ?s4 x k" using ph(2) by (simp add: block_ok_def top_addr_def)
  have "span x k \<inter> free_space (L(k := xs)) = {}" using ph(1) by auto
  from split_block_inv [OF inv4 ok4 o this] obtain L' where
    L': "buddy_inv ?s5 L'" "free_space L' \<subseteq> free_space (L(k := xs)) \<union> (span x k - span x order)"
      "(\<forall>j \<in> {order..<k}. \<not> is_reserved ?s4 (x + block_size j)) \<longrightarrow>
        free_space L' = free_space (L(k := xs)) \<union> (span x k - span x order)" by blast
  have sub: "span x order \<subseteq> span x k" using o by (auto simp: span_def intro: order.strict_trans2)
  show "span a order \<subseteq> free_space L" using sub ph(3) t' by auto
  have "4096 * 2 ^ order dvd unat x"
    using ph(2) o by (auto simp: block_ok_def elim: dvd_trans [rotated] intro!: mult_dvd_mono le_imp_power_dvd)
  then show "block_ok s a order" using ph(2) sub o t' by (auto simp: block_ok_span)
  have "buddy_inv s' L'" using L'(1) t'(2) by simp
  moreover have "free_space L' \<subseteq> free_space L - span a order" using L'(2) ph(1,3) sub t' by auto
  moreover have "reserved_count s = 0 \<longrightarrow> free_space L' = free_space L - span a order"
  proof
    assume "reserved_count s = 0"
    then have "\<not> is_reserved ?s4 b" for b by (simp add: is_reserved_def)
    with L'(3) ph(1,3) sub t' show "free_space L' = free_space L - span a order" by auto
  qed
  ultimately show "\<exists>L'. buddy_inv s' L' \<and> free_space L' \<subseteq> free_space L - span a order \<and>
          (reserved_count s = 0 \<longrightarrow> free_space L' = free_space L - span a order)"
    by (intro exI [of _ L'] conjI)
qed


text \<open>The scan over the orders. It fails only when every list from the requested order up is
  empty, or after it has met a reserved block.\<close>

definition alloc_post ::
  "buddy \<Rightarrow> lists \<Rightarrow> nat \<Rightarrow> nat list \<Rightarrow> u64 option \<Rightarrow> buddy \<Rightarrow> lists \<Rightarrow> bool" where
  "alloc_post s L order ks r s' L' \<longleftrightarrow> buddy_inv s' L' \<and>
    (case r of
       Some a \<Rightarrow> block_ok s a order \<and> span a order \<subseteq> free_space L \<and>
         free_space L' \<subseteq> free_space L - span a order \<and>
         (reserved_count s = 0 \<longrightarrow> free_space L' = free_space L - span a order)
     | None \<Rightarrow> free_space L' \<subseteq> free_space L \<and>
         (reserved_count s = 0 \<longrightarrow> s' = s \<and> L' = L \<and> (\<forall>k \<in> set ks. L k = [])))"

lemma alloc_scan_post:
  assumes "buddy_inv s L" and "set ks \<subseteq> {order..MAX_ORDER}" and "alloc_scan s order n ks = (r, s')"
    and "n + length ks < 1000000"
  shows "\<exists>L'. alloc_post s L order ks r s' L'"
  using assms
proof (induction s order n ks arbitrary: L rule: alloc_scan.induct)
  case (1 s order n)
  then show ?case by (auto simp: alloc_post_def)
next
  case (2 s order n k ks)
  note inv = "2.prems"(1)
  have k: "k \<le> MAX_ORDER" "order \<le> k" and ks: "set ks \<subseteq> {order..MAX_ORDER}" using "2.prems"(2) by auto
  have ch: "chain (hdr s) (free_lists s ! k) (L k)" using buddy_invD(3) [OF inv k(1)] .
  let ?x = "free_lists s ! k"
  show ?case
  proof (cases "L k")
    case Nil
    with ch have e: "?x = 0" by simp
    with "2.prems" have "alloc_scan s order n ks = (r, s')" "n + length ks < 1000000" by auto
    from "2.IH"(1) [OF refl e inv ks this] obtain L' where "alloc_post s L order ks r s' L'" by blast
    with Nil have "alloc_post s L order (k # ks) r s' L'" by (simp add: alloc_post_def split: option.splits)
    then show ?thesis by blast
  next
    case (Cons x xs)
    note ph = pop_head_space [OF inv k(1) Cons]
    have x: "?x = x" "x \<noteq> 0" using ph(4,5) by auto
    show ?thesis
    proof (cases "is_reserved s x")
      case True
      then have rc: "reserved_count s \<noteq> 0" by (cases "reserved_count s") (auto simp: is_reserved_def)
      define s1 where "s1 = s\<lparr>free_lists := (free_lists s)[k := b_next (hdr s x)]\<rparr>"
      define L1 where "L1 = L(k := xs)"
      have inv1: "buddy_inv s1 L1"
        using pop_head_inv [OF inv k(1) Cons, of "hdr s x"] by (simp add: s1_def L1_def)
      have sub: "free_space L1 \<subseteq> free_space L" using ph(1) by (auto simp: L1_def)
      show ?thesis
      proof (cases "b_next (hdr s x) = 0")
        case nx: True
        with True x "2.prems"(3,4) have "r = None" "s' = s1" by (auto simp: Let_def s1_def)
        with inv1 sub rc have "alloc_post s L order (k # ks) r s' L1" by (simp add: alloc_post_def)
        then show ?thesis by blast
      next
        case nx: False
        with True x "2.prems"(3,4) have sc: "alloc_scan s1 order (n + 1) ks = (r, s')"
          by (simp add: Let_def s1_def)
        from "2.IH"(2) [OF refl _ _ _ refl refl, of L1]
        obtain L' where "alloc_post s1 L1 order ks r s' L'"
          using sc inv1 x nx True ks "2.prems"(4) by (auto simp: s1_def)
        with sub rc have "alloc_post s L order (k # ks) r s' L'"
          by (auto simp: alloc_post_def s1_def block_ok_def top_addr_def split: option.splits)
        then show ?thesis by blast
      qed
    next
      case False
      obtain a s1 where t: "take_block s order k = (a, s1)" by fastforce
      with False x "2.prems"(3,4) have "r = Some a" "s' = s1" by (auto simp: Let_def)
      with take_block_inv [OF inv k Cons t] show ?thesis by (auto simp: alloc_post_def)
    qed
  qed
qed

end
