(* ===== verification/Interfaces.thy ===== *)
theory Interfaces
  imports Prelude
begin

text \<open>
  The interfaces that several components of the kernel provide, as locales with the laws their
  clients rely on: page-tracking bitmaps (\<open>tracking_bitmap\<close>), bounded queues
  (\<open>bounded_fifo\<close>), page allocators (\<open>page_allocator\<close>), tables of slots (\<open>slot_table\<close>), bounded maps
  (\<open>bounded_map\<close>) and queues by priority (\<open>level_queues\<close>). Each is interpreted on the model's definitions in the theory of the component
  that implements it.
\<close>

section \<open>Tracking bitmaps\<close>

text \<open>One bit per tracked key. A key has a slot, or none when it is out of the range the bitmap
  covers; the operations on a key without a slot do nothing and its test is false.\<close>

locale tracking_bitmap =
  fixes slot :: "'s \<Rightarrow> 'k \<Rightarrow> nat option"
    and test :: "'s \<Rightarrow> 'k \<Rightarrow> bool"
    and mark :: "'s \<Rightarrow> 'k \<Rightarrow> 's"
    and clear :: "'s \<Rightarrow> 'k \<Rightarrow> 's"
  assumes slot_mark: "slot (mark s k) = slot s"
    and slot_clear: "slot (clear s k) = slot s"
    and test_mark: "test (mark s k) j \<longleftrightarrow> test s j \<or> (slot s k \<noteq> None \<and> slot s j = slot s k)"
    and test_clear: "test (clear s k) j \<longleftrightarrow> test s j \<and> \<not> (slot s k \<noteq> None \<and> slot s j = slot s k)"
    and test_slot: "slot s j = slot s k \<Longrightarrow> test s j = test s k"
    and test_none: "slot s k = None \<Longrightarrow> \<not> test s k"
begin

lemma marked: "slot s k \<noteq> None \<Longrightarrow> test (mark s k) k"
  by (simp add: test_mark)

lemma cleared: "\<not> test (clear s k) k"
  using test_none by (auto simp: test_clear)

lemma mark_other: "slot s j \<noteq> slot s k \<Longrightarrow> test (mark s k) j = test s j"
  by (simp add: test_mark)

lemma clear_other: "slot s j \<noteq> slot s k \<Longrightarrow> test (clear s k) j = test s j"
  by (simp add: test_clear)

lemma clear_after_mark: "test s k = False \<Longrightarrow> test (clear (mark s k) k) = test s"
  by (rule ext) (metis test_clear test_mark slot_mark test_slot)

lemma fold_mark: "test (fold (\<lambda>k s. mark s k) ks s) j \<longleftrightarrow>
  test s j \<or> (\<exists>k \<in> set ks. slot s k \<noteq> None \<and> slot s j = slot s k)"
  by (induction ks arbitrary: s) (auto simp: test_mark slot_mark)

end

section \<open>Bounded first-in-first-out queues\<close>

text \<open>Two positions of a ring of \<open>N\<close> slots that are less than \<open>N\<close> steps ahead of the same start
  are different slots.\<close>

lemma ring_inj:
  assumes "i < N" and "j < N" and "(b + i) mod N = (b + j) mod (N::nat)"
  shows "i = j"
proof -
  have "i mod N = j mod N" using assms(3) by (simp add: nat_mod_eq_iff)
  with assms(1,2) show ?thesis by simp
qed

text \<open>A queue of bounded capacity, seen through the list of its elements, oldest first.\<close>

locale bounded_fifo =
  fixes inv :: "'s \<Rightarrow> bool"
    and elems :: "'s \<Rightarrow> 'a list"
    and capacity :: nat
    and push :: "'s \<Rightarrow> 'a \<Rightarrow> bool \<times> 's"
    and pop :: "'s \<Rightarrow> 'a option \<times> 's"
    and ok :: "'s \<Rightarrow> 'a \<Rightarrow> bool"
  assumes push_room: "inv s \<Longrightarrow> ok s x \<Longrightarrow> length (elems s) < capacity \<Longrightarrow>
      \<exists>s'. push s x = (True, s') \<and> inv s' \<and> elems s' = elems s @ [x] \<and> ok s' = ok s"
    and push_full: "inv s \<Longrightarrow> length (elems s) \<ge> capacity \<Longrightarrow>
      \<exists>s'. push s x = (False, s') \<and> inv s' \<and> elems s' = elems s \<and> ok s' = ok s"
    and pop_empty: "inv s \<Longrightarrow> elems s = [] \<Longrightarrow> fst (pop s) = None"
    and pop_cons: "inv s \<Longrightarrow> elems s = x # xs \<Longrightarrow>
      \<exists>s'. pop s = (Some x, s') \<and> inv s' \<and> elems s' = xs \<and> ok s' = ok s"
begin

fun push_all :: "'s \<Rightarrow> 'a list \<Rightarrow> 's" where
  "push_all s [] = s"
| "push_all s (x # xs) = push_all (snd (push s x)) xs"

fun pop_n :: "nat \<Rightarrow> 's \<Rightarrow> 'a option list \<times> 's" where
  "pop_n 0 s = ([], s)"
| "pop_n (Suc n) s = (let (r, s1) = pop s; (rs, s2) = pop_n n s1 in (r # rs, s2))"

lemma push_all_elems:
  "inv s \<Longrightarrow> (\<forall>x \<in> set xs. ok s x) \<Longrightarrow> length (elems s) + length xs \<le> capacity \<Longrightarrow>
     inv (push_all s xs) \<and> elems (push_all s xs) = elems s @ xs"
proof (induction xs arbitrary: s)
  case (Cons x xs)
  then obtain s' where "push s x = (True, s')" "inv s'" "elems s' = elems s @ [x]" "ok s' = ok s"
    using push_room [of s x] by auto
  with Cons.IH [of s'] Cons.prems show ?case by simp
qed simp

lemma pop_n_elems: "inv s \<Longrightarrow> n \<le> length (elems s) \<Longrightarrow> fst (pop_n n s) = map Some (take n (elems s))"
proof (induction n arbitrary: s)
  case (Suc n)
  then obtain x xs where e: "elems s = x # xs" by (cases "elems s") auto
  with Suc.prems obtain s' where "pop s = (Some x, s')" "inv s'" "elems s' = xs"
    using pop_cons [of s x xs] by auto
  with Suc.IH [of s'] Suc.prems e show ?case by (auto simp: Let_def split: prod.splits)
qed simp

lemma fifo_order:
  assumes "inv s" and "elems s = []" and "\<forall>x \<in> set xs. ok s x" and "length xs \<le> capacity"
  shows "fst (pop_n (length xs) (push_all s xs)) = map Some xs"
  using push_all_elems [of s xs] pop_n_elems [of "push_all s xs" "length xs"] assms by simp

end

section \<open>Page allocators\<close>

text \<open>What the kernel relies on in a physical page allocator, over the set \<open>F\<close> of its free bytes:
  an allocation takes its extent out of \<open>F\<close>, a failed one takes nothing, freeing an extent
  that is not free puts exactly that extent back, and neither invalidates an extent in use.\<close>

locale page_allocator =
  fixes inv :: "'s \<Rightarrow> nat set \<Rightarrow> bool"
    and alloc :: "'s \<Rightarrow> nat \<Rightarrow> u64 option \<times> 's"
    and free :: "'s \<Rightarrow> u64 \<Rightarrow> nat \<Rightarrow> 's option"
    and extent :: "u64 \<Rightarrow> nat \<Rightarrow> nat set"
    and valid :: "'s \<Rightarrow> u64 \<Rightarrow> nat \<Rightarrow> bool"
  assumes alloc_some: "inv s F \<Longrightarrow> alloc s k = (Some a, s') \<Longrightarrow>
      extent a k \<subseteq> F \<and> inv s' (F - extent a k) \<and> valid s' a k"
    and alloc_none: "inv s F \<Longrightarrow> alloc s k = (None, s') \<Longrightarrow> inv s' F"
    and free_ok: "inv s F \<Longrightarrow> valid s a k \<Longrightarrow> extent a k \<inter> F = {} \<Longrightarrow>
      \<exists>s'. free s a k = Some s' \<and> inv s' (F \<union> extent a k)"
    and alloc_frame: "inv s F \<Longrightarrow> alloc s k = (r, s') \<Longrightarrow> valid s b j \<Longrightarrow> extent b j \<inter> F = {} \<Longrightarrow> valid s' b j"
    and free_frame: "inv s F \<Longrightarrow> valid s a k \<Longrightarrow> extent a k \<inter> F = {} \<Longrightarrow> free s a k = Some s' \<Longrightarrow>
      valid s b j \<Longrightarrow> b \<noteq> a \<Longrightarrow> valid s' b j"
begin

lemma alloc_then_free:
  assumes "inv s F" and "alloc s k = (Some a, s1)"
  shows "\<exists>s2. free s1 a k = Some s2 \<and> inv s2 F"
proof -
  from alloc_some [OF assms] have "extent a k \<subseteq> F" "inv s1 (F - extent a k)" "valid s1 a k" by auto
  with free_ok [of s1 "F - extent a k" a k] show ?thesis by (auto simp: Un_absorb2)
qed

fun alloc_many :: "'s \<Rightarrow> nat list \<Rightarrow> (u64 \<times> nat) list \<times> 's" where
  "alloc_many s [] = ([], s)"
| "alloc_many s (k # ks) = (case alloc s k of
     (None, s1) \<Rightarrow> alloc_many s1 ks
   | (Some a, s1) \<Rightarrow> (let (bs, s2) = alloc_many s1 ks in ((a, k) # bs, s2)))"

lemma alloc_many_disjoint:
  assumes "inv s F" and "alloc_many s ks = (bs, s')"
  shows "inv s' (F - (\<Union>(a, k) \<in> set bs. extent a k)) \<and> (\<Union>(a, k) \<in> set bs. extent a k) \<subseteq> F \<and>
    pairwise (\<lambda>i j. extent (fst (bs ! i)) (snd (bs ! i)) \<inter> extent (fst (bs ! j)) (snd (bs ! j)) = {})
      {..<length bs}"
  using assms
proof (induction ks arbitrary: s F bs)
  case (Cons k ks)
  show ?case
  proof (cases "alloc s k")
    case (Pair r s1)
    show ?thesis
    proof (cases r)
      case None
      with Pair Cons.prems alloc_none [OF Cons.prems(1), of k s1] Cons.IH show ?thesis by auto
    next
      case (Some a)
      with Pair Cons.prems(2) obtain bs' where bs: "bs = (a, k) # bs'" "alloc_many s1 ks = (bs', s')"
        by (auto split: prod.splits)
      from alloc_some [OF Cons.prems(1)] Pair Some
      have a: "extent a k \<subseteq> F" "inv s1 (F - extent a k)" by auto
      have IH: "inv s' (F - extent a k - (\<Union>(a, k) \<in> set bs'. extent a k))"
        "(\<Union>(a, k) \<in> set bs'. extent a k) \<subseteq> F - extent a k"
        "pairwise (\<lambda>i j. extent (fst (bs' ! i)) (snd (bs' ! i)) \<inter> extent (fst (bs' ! j)) (snd (bs' ! j)) = {})
          {..<length bs'}"
        using Cons.IH [OF a(2) bs(2)] by auto
      have head: "extent a k \<inter> extent (fst (bs' ! i)) (snd (bs' ! i)) = {}" if "i < length bs'" for i
        using IH(2) nth_mem [OF that] by (auto simp: case_prod_beta)
      have "pairwise (\<lambda>i j. extent (fst (bs ! i)) (snd (bs ! i)) \<inter> extent (fst (bs ! j)) (snd (bs ! j)) = {})
          {..<length bs}"
        unfolding pairwise_def
      proof (intro ballI impI)
        fix i j assume "i \<in> {..<length bs}" "j \<in> {..<length bs}" "i \<noteq> j"
        then show "extent (fst (bs ! i)) (snd (bs ! i)) \<inter> extent (fst (bs ! j)) (snd (bs ! j)) = {}"
          using head IH(3) bs(1) by (cases i; cases j) (auto simp: pairwise_def)
      qed
      with IH a bs(1) show ?thesis by (auto simp: Diff_eq Int_assoc Compl_Un)
    qed
  qed
qed simp

end

section \<open>Tables of slots\<close>

text \<open>The fixed-size tables of the kernel (descriptors, vnodes, inodes, pipes, PIDs): an allocation takes the
  first unused slot, a failed one means that every slot is used, and a release frees one slot.\<close>

locale slot_table =
  fixes inv :: "'s \<Rightarrow> bool"
    and used :: "'s \<Rightarrow> nat \<Rightarrow> bool"
    and size :: nat
    and take_slot :: "'s \<Rightarrow> 'a \<Rightarrow> nat option \<times> 's"
    and release :: "'s \<Rightarrow> nat \<Rightarrow> bool \<times> 's"
  assumes take_some: "inv s \<Longrightarrow> take_slot s x = (Some i, s') \<Longrightarrow>
      inv s' \<and> i < size \<and> \<not> used s i \<and> (\<forall>j < i. used s j) \<and> used s' = (used s)(i := True)"
    and take_none: "inv s \<Longrightarrow> take_slot s x = (None, s') \<Longrightarrow> s' = s \<and> (\<forall>i < size. used s i)"
    and release_used: "inv s \<Longrightarrow> i < size \<Longrightarrow> used s i \<Longrightarrow>
      \<exists>s'. release s i = (True, s') \<and> inv s' \<and> used s' = (used s)(i := False)"
    and release_free: "inv s \<Longrightarrow> \<not> (i < size \<and> used s i) \<Longrightarrow> release s i = (False, s)"
begin

lemma take_available: "inv s \<Longrightarrow> \<exists>i < size. \<not> used s i \<Longrightarrow> \<exists>i s'. take_slot s x = (Some i, s')"
  using take_none [of s x] by (cases "take_slot s x"; cases "fst (take_slot s x)") auto

lemma release_take:
  assumes "inv s" and "i < size" and "used s i" and "\<forall>j < i. used s j"
  shows "\<exists>s' s''. release s i = (True, s') \<and> take_slot s' x = (Some i, s'') \<and> used s'' = used s"
proof -
  obtain s' where s': "release s i = (True, s')" "inv s'" "used s' = (used s)(i := False)"
    using release_used [OF assms(1-3)] by blast
  have "\<exists>i < size. \<not> used s' i" using s'(3) assms(2) by (intro exI [of _ i]) simp
  with s'(2) obtain k s'' where t: "take_slot s' x = (Some k, s'')" using take_available [of s' x] by blast
  from take_some [OF s'(2) t] s'(3) assms have "k = i" "used s'' = (used s')(k := True)"
    by (auto simp: fun_upd_apply) (metis linorder_neqE_nat)
  with s' t assms(3) show ?thesis by (auto simp: fun_upd_idem_iff)
qed

fun take_many :: "'s \<Rightarrow> 'a list \<Rightarrow> nat option list \<times> 's" where
  "take_many s [] = ([], s)"
| "take_many s (x # xs) = (let (r, s1) = take_slot s x; (rs, s2) = take_many s1 xs in (r # rs, s2))"

definition got :: "nat option list \<Rightarrow> nat list" where
  "got rs = map the (filter (\<lambda>r. r \<noteq> None) rs)"

lemma take_many_distinct:
  "inv s \<Longrightarrow> take_many s xs = (rs, s') \<Longrightarrow>
     inv s' \<and> distinct (got rs) \<and> (\<forall>i \<in> set (got rs). i < size \<and> \<not> used s i) \<and>
     (\<forall>i. used s' i \<longleftrightarrow> used s i \<or> i \<in> set (got rs))"
proof (induction xs arbitrary: s rs)
  case Nil
  then show ?case by (simp add: got_def)
next
  case (Cons x xs)
  obtain r s1 where r: "take_slot s x = (r, s1)" by fastforce
  with Cons.prems obtain rs' where rs: "rs = r # rs'" "take_many s1 xs = (rs', s')"
    by (auto split: prod.splits)
  show ?case
  proof (cases r)
    case None
    with r take_none [OF Cons.prems(1)] have "s1 = s" by blast
    with Cons.IH [OF Cons.prems(1)] rs None show ?thesis by (simp add: got_def)
  next
    case (Some i)
    with r take_some [OF Cons.prems(1)]
    have s1: "inv s1" "i < size" "\<not> used s i" "used s1 = (used s)(i := True)" by auto
    have "got rs = i # got rs'" using rs(1) Some by (simp add: got_def)
    with Cons.IH [OF s1(1) rs(2)] s1 show ?thesis by (auto split: if_splits)
  qed
qed

end

section \<open>Bounded maps\<close>

text \<open>A keyed store of bounded size, seen through the finite map it represents. Inserting fails only when a
  new key meets a full store.\<close>

locale bounded_map =
  fixes inv :: "'s \<Rightarrow> bool"
    and view :: "'s \<Rightarrow> 'k \<Rightarrow> 'v option"
    and val :: "'w \<Rightarrow> 'v"
    and ok :: "'k \<Rightarrow> 'w \<Rightarrow> bool"
    and limit :: nat
    and put :: "'s \<Rightarrow> 'k \<Rightarrow> 'w \<Rightarrow> bool \<times> 's"
    and del :: "'s \<Rightarrow> 'k \<Rightarrow> bool \<times> 's"
  assumes put_ok: "inv s \<Longrightarrow> ok k v \<Longrightarrow> view s k \<noteq> None \<or> card (dom (view s)) < limit \<Longrightarrow>
      \<exists>s'. put s k v = (True, s') \<and> inv s' \<and> view s' = (view s)(k \<mapsto> val v)"
    and put_full: "inv s \<Longrightarrow> ok k v \<Longrightarrow> view s k = None \<Longrightarrow> card (dom (view s)) \<ge> limit \<Longrightarrow> put s k v = (False, s)"
    and del_ok: "inv s \<Longrightarrow> \<exists>s'. del s k = (view s k \<noteq> None, s') \<and> inv s' \<and> view s' = (view s)(k := None)"
    and view_finite: "inv s \<Longrightarrow> finite (dom (view s)) \<and> card (dom (view s)) \<le> limit"
begin

lemma put_lookup: "inv s \<Longrightarrow> ok k v \<Longrightarrow> put s k v = (True, s') \<Longrightarrow> view s' j = (if j = k then Some (val v) else view s j)"
proof -
  assume a: "inv s" "ok k v" "put s k v = (True, s')"
  have "view s k \<noteq> None \<or> card (dom (view s)) < limit"
    using put_full [OF a(1,2)] a(3) by (cases "card (dom (view s)) < limit") (auto simp: not_less)
  from put_ok [OF a(1,2) this] a(3) show ?thesis by auto
qed

lemma put_del:
  assumes "inv s" and "ok k v" and "view s k = None" and "put s k v = (True, s')"
  shows "\<exists>s''. del s' k = (True, s'') \<and> inv s'' \<and> view s'' = view s"
proof -
  have room: "card (dom (view s)) < limit"
    using put_full [OF assms(1-3)] assms(4) by (cases "card (dom (view s)) < limit") (auto simp: not_less)
  with put_ok [OF assms(1,2)] assms(4) have s': "inv s'" "view s' = (view s)(k \<mapsto> val v)" by auto
  from del_ok [OF s'(1), of k] s'(2) assms(3) show ?thesis by (auto simp: fun_upd_idem_iff)
qed

lemma del_frees:
  assumes "inv s" and "view s j \<noteq> None" and "ok k v"
  shows "\<exists>s' s''. del s j = (True, s') \<and> put s' k v = (True, s'')"
proof -
  obtain s' where s': "del s j = (True, s')" "inv s'" "view s' = (view s)(j := None)"
    using del_ok [OF assms(1), of j] assms(2) by auto
  have "dom (view s') = dom (view s) - {j}" using s'(3) by auto
  moreover have "j \<in> dom (view s)" using assms(2) by auto
  ultimately have "card (dom (view s')) < card (dom (view s))"
    using card_Diff1_less [of "dom (view s)" j] view_finite [OF assms(1)] by simp
  then have "card (dom (view s')) < limit" using view_finite [OF assms(1)] by linarith
  with put_ok [OF s'(2) assms(3)] s'(1) show ?thesis by blast
qed

end

section \<open>Queues by priority\<close>

text \<open>A family of first-in-first-out queues, one for each level, that is emptied from the lowest level upwards: the
  discipline of a run queue. \<open>feed\<close> and \<open>drain\<close> push a list and pop up to \<open>n\<close> elements.\<close>

fun feed :: "('s \<Rightarrow> 'a \<Rightarrow> 's option) \<Rightarrow> 's \<Rightarrow> 'a list \<Rightarrow> 's option" where
  "feed push s [] = Some s"
| "feed push s (x # xs) = do { s1 \<leftarrow> push s x; feed push s1 xs }"

fun drain :: "('s \<Rightarrow> ('a option \<times> 's) option) \<Rightarrow> nat \<Rightarrow> 's \<Rightarrow> ('a list \<times> 's) option" where
  "drain pop 0 s = Some ([], s)"
| "drain pop (Suc n) s = do {
     (r, s1) \<leftarrow> pop s;
     case r of
       None \<Rightarrow> Some ([], s1)
     | Some x \<Rightarrow> do { (xs, s2) \<leftarrow> drain pop n s1; Some (x # xs, s2) } }"

definition by_level :: "nat \<Rightarrow> (nat \<Rightarrow> 'a list) \<Rightarrow> 'a list" where
  "by_level n L = concat (map L [0..<n])"

lemma by_level_first:
  assumes "p < n" and "L p = x # xs" and "\<forall>q < p. L q = []"
  shows "by_level n L = x # by_level n (L(p := xs))"
proof -
  have "[0..<n] = [0..<p] @ p # [Suc p..<n]" using assms(1) upt_add_eq_append [of 0 p "n - p"] by (simp add: upt_conv_Cons)
  moreover have "concat (map L [0..<p]) = []" "concat (map (L(p := xs)) [0..<p]) = []" using assms(3) by auto
  moreover have "map (L(p := xs)) [Suc p..<n] = map L [Suc p..<n]" by simp
  ultimately show ?thesis using assms(2) unfolding by_level_def by (simp del: concat_eq_Nil_conv)
qed

lemma by_level_empty: "by_level n L = [] \<longleftrightarrow> (\<forall>p < n. L p = [])"
  by (auto simp: by_level_def)

lemma insort_key_left: "\<forall>y \<in> set ys. k x \<le> k y \<Longrightarrow> insort_key k x (xs @ ys) = insort_key k x xs @ ys"
  by (induction xs) (cases ys; auto)+

lemma insort_key_right: "\<forall>y \<in> set xs. \<not> k x \<le> k y \<Longrightarrow> insort_key k x (xs @ ys) = xs @ insort_key k x ys"
  by (induction xs) auto

lemma by_level_insort:
  assumes "\<forall>p. \<forall>y \<in> set (L p). k y = p" and "k x < n"
  shows "by_level n (\<lambda>p. if p = k x then x # L p else L p) = insort_key k x (by_level n L)"
  using assms(2)
proof (induction n)
  case (Suc n)
  have step: "by_level (Suc n) M = by_level n M @ M n" for M :: "nat \<Rightarrow> 'a list" by (simp add: by_level_def)
  show ?case
  proof (cases "k x < n")
    case True
    then show ?thesis unfolding step using Suc.IH assms(1) by (subst insort_key_left) auto
  next
    case False
    then have e: "k x = n" using Suc.prems by simp
    have "by_level n (\<lambda>p. if p = k x then x # L p else L p) = by_level n L" using e by (auto simp: by_level_def intro!: arg_cong [where f = concat])
    moreover have "\<not> k x \<le> k y" if y: "y \<in> set (by_level n L)" for y
      using y assms(1) e by (auto simp: by_level_def)
    moreover have "insort_key k x (L n) = x # L n"
    proof (cases "L n")
      case (Cons y ys)
      then have "k y = n" using assms(1) by (metis list.set_intros(1))
      then show ?thesis using Cons e by simp
    qed simp
    ultimately show ?thesis unfolding step using e by (subst insort_key_right) auto
  qed
qed simp

lemma by_level_sort: "\<forall>x \<in> set xs. k x < n \<Longrightarrow> by_level n (\<lambda>p. filter (\<lambda>x. k x = p) xs) = sort_key k xs"
proof (induction xs)
  case Nil
  show ?case by (simp add: by_level_empty)
next
  case (Cons x xs)
  have "(\<lambda>p. filter (\<lambda>y. k y = p) (x # xs)) = (\<lambda>p. if p = k x then x # filter (\<lambda>y. k y = p) xs else filter (\<lambda>y. k y = p) xs)"
    by auto
  then show ?case using Cons by_level_insort [of "\<lambda>p. filter (\<lambda>y. k y = p) xs" k x n] by simp
qed

locale level_queues =
  fixes inv :: "'s \<Rightarrow> (nat \<Rightarrow> 'a list) \<Rightarrow> bool"
    and levels :: nat
    and ok :: "'s \<Rightarrow> 'a \<Rightarrow> nat \<Rightarrow> bool"
    and push :: "'s \<Rightarrow> 'a \<Rightarrow> 's option"
    and pop :: "'s \<Rightarrow> ('a option \<times> 's) option"
  assumes push_law: "inv s L \<Longrightarrow> ok s x p \<Longrightarrow> p < levels \<Longrightarrow> x \<notin> set (L p) \<Longrightarrow>
      \<exists>s'. push s x = Some s' \<and> inv s' (L(p := L p @ [x])) \<and> ok s' = ok s"
    and pop_empty: "inv s L \<Longrightarrow> \<forall>p < levels. L p = [] \<Longrightarrow> pop s = Some (None, s)"
    and pop_first: "inv s L \<Longrightarrow> p < levels \<Longrightarrow> L p = x # xs \<Longrightarrow> \<forall>q < p. L q = [] \<Longrightarrow>
      \<exists>s'. pop s = Some (Some x, s') \<and> inv s' (L(p := xs)) \<and> ok s' = ok s"
begin

lemma feed_levels:
  assumes "inv s L" and "\<forall>x \<in> set xs. ok s x (k x) \<and> k x < levels" and "distinct xs"
    and "\<forall>x \<in> set xs. x \<notin> set (L (k x))"
  shows "\<exists>s'. feed push s xs = Some s' \<and> inv s' (\<lambda>p. L p @ filter (\<lambda>x. k x = p) xs) \<and> ok s' = ok s"
  using assms
proof (induction xs arbitrary: s L)
  case (Cons x xs)
  then obtain s1 where s1: "push s x = Some s1" "inv s1 (L(k x := L (k x) @ [x]))" "ok s1 = ok s"
    using push_law [of s L x "k x"] by auto
  have "\<exists>s'. feed push s1 xs = Some s' \<and> inv s' (\<lambda>p. (L(k x := L (k x) @ [x])) p @ filter (\<lambda>x. k x = p) xs) \<and> ok s' = ok s1"
  proof (rule Cons.IH [OF s1(2)])
    show "\<forall>y \<in> set xs. y \<notin> set ((L(k x := L (k x) @ [x])) (k y))" using Cons.prems(3,4) by auto
  qed (use Cons.prems s1 in auto)
  moreover have "(\<lambda>p. (L(k x := L (k x) @ [x])) p @ filter (\<lambda>x. k x = p) xs) = (\<lambda>p. L p @ filter (\<lambda>x. k x = p) (x # xs))"
    by (auto simp: fun_eq_iff)
  ultimately show ?case using s1 by auto
qed simp

lemma drain_levels: "inv s L \<Longrightarrow> \<exists>s'. drain pop n s = Some (take n (by_level levels L), s')"
proof (induction n arbitrary: s L)
  case (Suc n)
  show ?case
  proof (cases "\<forall>p < levels. L p = []")
    case True
    then show ?thesis using pop_empty [OF Suc.prems] by_level_empty [of levels L] by auto
  next
    case False
    then obtain p where p: "p < levels" "L p \<noteq> []" "\<forall>q < p. L q = []"
      using exists_least_iff [of "\<lambda>p. p < levels \<and> L p \<noteq> []"] by (auto intro: less_trans)
    then obtain x xs where x: "L p = x # xs" by (cases "L p") auto
    obtain s1 where "pop s = Some (Some x, s1)" "inv s1 (L(p := xs))" using pop_first [OF Suc.prems p(1) x p(3)] by blast
    moreover from Suc.IH [OF this(2)] obtain s2 where "drain pop n s1 = Some (take n (by_level levels (L(p := xs))), s2)" by blast
    ultimately show ?thesis using by_level_first [of p levels L x xs] p x by simp
  qed
qed simp

text \<open>Elements that are pushed in any order come out sorted by level, and in the order of their arrival within a level:
  a stable sort.\<close>

lemma feed_drain_sorts:
  assumes "inv s (\<lambda>_. [])" and "\<forall>x \<in> set xs. ok s x (k x) \<and> k x < levels" and "distinct xs"
  shows "\<exists>s1 s2. feed push s xs = Some s1 \<and> drain pop (length xs) s1 = Some (sort_key k xs, s2)"
proof -
  obtain s1 where s1: "feed push s xs = Some s1" "inv s1 (\<lambda>p. filter (\<lambda>x. k x = p) xs)"
    using feed_levels [OF assms] by auto
  have "by_level levels (\<lambda>p. filter (\<lambda>x. k x = p) xs) = sort_key k xs" using assms(2) by (intro by_level_sort) blast
  with drain_levels [OF s1(2), of "length xs"] s1(1) show ?thesis by auto
qed

end

end
