(* ===== verification/Buddy_Tables.thy ===== *)
theory Buddy_Tables
  imports Buddy_Alloc Interfaces
begin

text \<open>
  The tracking tables of \<^verbatim>\<open>src/src/memory/buddy.rs\<close>: the used-page and freed-page bitmaps as
  interpretations of \<open>tracking_bitmap\<close>, and the quarantine ring for page-table pages as an
  interpretation of \<open>bounded_fifo\<close>.
\<close>

section \<open>The used and freed bitmaps\<close>

definition used_slot :: "buddy \<Rightarrow> u64 \<Rightarrow> nat option" where
  "used_slot s p = (if unat p < 2097152 then Some (unat p) else None)"

lemma used_ops:
  "used_set s p \<longleftrightarrow> unat p < 2097152 \<and> bmp_test (used_bmp s) p"
  "used_bmp (used_mark s p) = (if unat p < 2097152
     then (used_bmp s)(bmp_word p := used_bmp s (bmp_word p) OR 2 ^ bmp_bit p) else used_bmp s)"
  "used_bmp (used_clear s p) = (if unat p < 2097152
     then (used_bmp s)(bmp_word p := used_bmp s (bmp_word p) AND NOT (2 ^ bmp_bit p)) else used_bmp s)"
proof -
  have w: "BMP_WORDS \<le> bmp_word p \<longleftrightarrow> \<not> unat p < 2097152" by (auto simp: bmp_word_nat BMP_WORDS_def)
  show "used_set s p \<longleftrightarrow> unat p < 2097152 \<and> bmp_test (used_bmp s) p"
    by (auto simp: used_set_def used_word_def w bmp_test_def and_exp_eq_0_iff_not_bit)
  show "used_bmp (used_mark s p) = (if unat p < 2097152
     then (used_bmp s)(bmp_word p := used_bmp s (bmp_word p) OR 2 ^ bmp_bit p) else used_bmp s)"
    by (simp add: used_mark_def used_word_def w)
  show "used_bmp (used_clear s p) = (if unat p < 2097152
     then (used_bmp s)(bmp_word p := used_bmp s (bmp_word p) AND NOT (2 ^ bmp_bit p)) else used_bmp s)"
    by (simp add: used_clear_def used_word_def w)
qed

lemma used_slot_eq: "used_slot s k \<noteq> None \<and> used_slot s j = used_slot s k \<longleftrightarrow> unat k < 2097152 \<and> j = k"
  by (auto simp: used_slot_def simp flip: word_unat_eq_iff split: if_splits)

interpretation used: tracking_bitmap used_slot used_set used_mark used_clear
proof
  fix s k j
  show "used_slot (used_mark s k) = used_slot s" "used_slot (used_clear s k) = used_slot s"
    by (simp_all add: used_slot_def fun_eq_iff)
  show "used_set (used_mark s k) j \<longleftrightarrow> used_set s j \<or> (used_slot s k \<noteq> None \<and> used_slot s j = used_slot s k)"
    unfolding used_slot_eq by (auto simp: used_ops bmp_test_mark)
  show "used_set (used_clear s k) j \<longleftrightarrow> used_set s j \<and> \<not> (used_slot s k \<noteq> None \<and> used_slot s j = used_slot s k)"
    unfolding used_slot_eq by (auto simp: used_ops bmp_test_clear)
  show "used_slot s j = used_slot s k \<Longrightarrow> used_set s j = used_set s k"
    by (auto simp: used_slot_def used_ops simp flip: word_unat_eq_iff split: if_splits)
  show "used_slot s k = None \<Longrightarrow> \<not> used_set s k"
    by (auto simp: used_slot_def used_ops simp flip: word_unat_eq_iff split: if_splits)
qed

definition freed_slot :: "buddy \<Rightarrow> u64 \<Rightarrow> nat option" where
  "freed_slot s a = used_slot s (phys_to_idx s a)"

abbreviation freed_set :: "buddy \<Rightarrow> u64 \<Rightarrow> bool" where
  "freed_set s a \<equiv> fst (track_freed_page s a)"

abbreviation freed_mark :: "buddy \<Rightarrow> u64 \<Rightarrow> buddy" where
  "freed_mark s a \<equiv> snd (track_freed_page s a)"

lemma track_fields [simp]:
  "alloc_base (freed_mark s p) = alloc_base s" "alloc_pages (freed_mark s p) = alloc_pages s"
  "free_lists (freed_mark s p) = free_lists s" "hdr (freed_mark s p) = hdr s"
  "reserved (freed_mark s p) = reserved s" "reserved_count (freed_mark s p) = reserved_count s"
  "page_type (freed_mark s p) = page_type s" "used_bmp (freed_mark s p) = used_bmp s"
  "pte_refc (freed_mark s p) = pte_refc s" "quarantine (freed_mark s p) = quarantine s"
  "q_head (freed_mark s p) = q_head s" "q_count (freed_mark s p) = q_count s"
  by (simp_all add: track_freed_page_def split: option.split)

lemma idx_same [simp]:
  "phys_to_idx (freed_mark s a) = phys_to_idx s" "phys_to_idx (untrack_freed_page s a) = phys_to_idx s"
  "phys_to_idx (used_mark s p) = phys_to_idx s" "phys_to_idx (used_clear s p) = phys_to_idx s"
  "phys_to_idx (page_type_set s a t) = phys_to_idx s"
  by (simp_all add: phys_to_idx_def fun_eq_iff)

lemma freed_set_iff:
  "freed_set s a \<longleftrightarrow> unat (phys_to_idx s a) < 2097152 \<and> bmp_test (freed_bmp s) (phys_to_idx s a)"
  by (simp add: track_freed_page_def freed_bit_def Let_def bmp_test_def and_exp_eq_0_iff_not_bit)

lemma freed_bmp_mark:
  "freed_bmp (freed_mark s a) = (let i = phys_to_idx s a in
     if unat i < 2097152 \<and> \<not> freed_set s a
     then (freed_bmp s)(bmp_word i := freed_bmp s (bmp_word i) OR 2 ^ bmp_bit i) else freed_bmp s)"
  by (simp add: track_freed_page_def freed_bit_def Let_def)

lemma freed_bmp_untrack:
  "freed_bmp (untrack_freed_page s a) = (let i = phys_to_idx s a in
     if unat i < 2097152
     then (freed_bmp s)(bmp_word i := freed_bmp s (bmp_word i) AND NOT (2 ^ bmp_bit i)) else freed_bmp s)"
  by (simp add: untrack_freed_page_def freed_bit_def Let_def)

lemma freed_slot_eq:
  "freed_slot s k \<noteq> None \<and> freed_slot s j = freed_slot s k \<longleftrightarrow>
     unat (phys_to_idx s k) < 2097152 \<and> phys_to_idx s j = phys_to_idx s k"
  unfolding freed_slot_def using used_slot_eq [of s "phys_to_idx s k" "phys_to_idx s j"] by simp

interpretation freed: tracking_bitmap freed_slot freed_set freed_mark untrack_freed_page
proof
  fix s k j
  show "freed_slot (freed_mark s k) = freed_slot s" "freed_slot (untrack_freed_page s k) = freed_slot s"
    by (simp_all add: freed_slot_def used_slot_def fun_eq_iff)
  show "freed_set (freed_mark s k) j \<longleftrightarrow> freed_set s j \<or> (freed_slot s k \<noteq> None \<and> freed_slot s j = freed_slot s k)"
    unfolding freed_slot_eq freed_set_iff [of "freed_mark s k"]
    by (auto simp: freed_bmp_mark freed_set_iff bmp_test_mark Let_def)
  show "freed_set (untrack_freed_page s k) j \<longleftrightarrow>
      freed_set s j \<and> \<not> (freed_slot s k \<noteq> None \<and> freed_slot s j = freed_slot s k)"
    unfolding freed_slot_eq freed_set_iff
    by (auto simp: freed_bmp_untrack bmp_test_clear Let_def)
  show "freed_slot s j = freed_slot s k \<Longrightarrow> freed_set s j = freed_set s k"
    unfolding freed_set_iff by (auto simp: freed_slot_def used_slot_def simp flip: word_unat_eq_iff split: if_splits)
  show "freed_slot s k = None \<Longrightarrow> \<not> freed_set s k"
    unfolding freed_set_iff by (auto simp: freed_slot_def used_slot_def simp flip: word_unat_eq_iff split: if_splits)
qed

section \<open>The quarantine ring\<close>

definition q_index :: "buddy \<Rightarrow> nat \<Rightarrow> nat" where
  "q_index s i = (q_head s + QUARANTINE_MAX_CAP - q_count s + i) mod QUARANTINE_MAX_CAP"

definition q_elems :: "buddy \<Rightarrow> u64 list" where
  "q_elems s = map (\<lambda>i. quarantine s (q_index s i)) [0..<q_count s]"

definition q_ok :: "buddy \<Rightarrow> u64 \<Rightarrow> bool" where
  "q_ok s a \<longleftrightarrow> a \<noteq> 0 \<and> alloc_base s \<le> a \<and> a < alloc_base s + alloc_pages s * PAGE_SIZE"

definition q_inv :: "buddy \<Rightarrow> bool" where
  "q_inv s \<longleftrightarrow> q_head s < QUARANTINE_MAX_CAP \<and> q_count s \<le> QUARANTINE_MAX_CAP \<and>
     (\<forall>a \<in> set (q_elems s). q_ok s a)"

lemma q_elems_cong:
  "quarantine s' = quarantine s \<Longrightarrow> q_head s' = q_head s \<Longrightarrow> q_count s' = q_count s \<Longrightarrow>
   q_elems s' = q_elems s"
  by (simp add: q_elems_def q_index_def)

lemma pte_refc_inc_fields [simp]:
  "q_head (pte_refc_inc s a) = q_head s" "q_count (pte_refc_inc s a) = q_count s"
  "quarantine (pte_refc_inc s a) = quarantine s" "alloc_base (pte_refc_inc s a) = alloc_base s"
  "alloc_pages (pte_refc_inc s a) = alloc_pages s" "free_lists (pte_refc_inc s a) = free_lists s"
  "hdr (pte_refc_inc s a) = hdr s" "used_bmp (pte_refc_inc s a) = used_bmp s"
  "freed_bmp (pte_refc_inc s a) = freed_bmp s" "page_type (pte_refc_inc s a) = page_type s"
  "reserved_count (pte_refc_inc s a) = reserved_count s"
  by (simp_all add: pte_refc_inc_def Let_def)

lemma q_push_elems:
  fixes x :: u64
  assumes "q_head s < QUARANTINE_MAX_CAP" and "q_count s < QUARANTINE_MAX_CAP"
  defines "s' \<equiv> snd (q_push s x)"
  shows "q_elems s' = q_elems s @ [x]"
proof -
  let ?N = QUARANTINE_MAX_CAP
  have N: "0 < ?N" by (simp add: QUARANTINE_MAX_CAP_def)
  have s': "q_count s' = q_count s + 1" "q_head s' = (q_head s + 1) mod ?N"
    "quarantine s' = (quarantine s)(q_head s := x)"
    using assms by (simp_all add: q_push_def s'_def)
  have ix: "q_index s' i = q_index s i" for i
  proof -
    have "(q_head s' + ?N - (q_count s + 1) + i) mod ?N
        = ((q_head s + 1) mod ?N + (?N - (q_count s + 1) + i)) mod ?N"
      using assms(2) s'(2) by (simp add: add.assoc)
    also have "\<dots> = (q_head s + 1 + (?N - (q_count s + 1) + i)) mod ?N" by (simp add: mod_simps)
    also have "q_head s + 1 + (?N - (q_count s + 1) + i) = q_head s + ?N - q_count s + i" using assms by simp
    finally show ?thesis using s' by (simp add: q_index_def)
  qed
  have last: "q_index s (q_count s) = q_head s" using assms by (simp add: q_index_def)
  have "q_index s i \<noteq> q_head s" if "i < q_count s" for i
    using ring_inj [of i ?N "q_count s" "q_head s + ?N - q_count s"] that assms last
    by (auto simp: q_index_def)
  then show ?thesis by (simp add: q_elems_def s' ix last)
qed

definition q_popped :: "buddy \<Rightarrow> buddy" where
  "q_popped s = s\<lparr>quarantine := (quarantine s)(q_index s 0 := 0), q_count := q_count s - 1\<rparr>"

lemma q_pop_elems:
  assumes "q_count s \<le> QUARANTINE_MAX_CAP" and "q_elems s = x # xs" and "q_ok s x"
  shows "q_pop s = (Some x, pte_refc_inc (q_popped s) x)" and "q_elems (q_popped s) = xs"
proof -
  let ?N = QUARANTINE_MAX_CAP
  have c: "0 < q_count s" using assms(2) by (cases "q_count s") (auto simp: q_elems_def)
  then have up: "[0..<q_count s] = 0 # map Suc [0..<q_count s - 1]"
    by (simp add: upt_conv_Cons map_Suc_upt)
  with assms(2) have x: "x = quarantine s (q_index s 0)"
    and xs: "xs = map (\<lambda>i. quarantine s (q_index s (Suc i))) [0..<q_count s - 1]"
    by (auto simp: q_elems_def)
  show "q_pop s = (Some x, pte_refc_inc (q_popped s) x)"
    using c assms(3) x by (subst q_pop.simps) (simp add: Let_def q_index_def q_popped_def q_ok_def)
  have ix: "q_index (q_popped s) i = q_index s (Suc i)" for i
    using c assms(1) by (simp add: q_index_def q_popped_def Suc_diff_le)
  have "q_index s (Suc i) \<noteq> q_index s 0" if "i < q_count s - 1" for i
  proof -
    have "Suc i < ?N" "0 < ?N" using that assms(1) by simp_all
    from ring_inj [OF this] show ?thesis unfolding q_index_def by blast
  qed
  then show "q_elems (q_popped s) = xs" by (simp add: q_elems_def xs ix) (simp add: q_popped_def)
qed

lemma q_refc_inc [simp]:
  "q_elems (pte_refc_inc s x) = q_elems s" "q_ok (pte_refc_inc s x) = q_ok s"
  by (simp_all add: q_elems_def q_index_def q_ok_def fun_eq_iff)

lemma q_elems_length [simp]: "length (q_elems s) = q_count s"
  by (simp add: q_elems_def)

interpretation quarantine: bounded_fifo q_inv q_elems QUARANTINE_MAX_CAP q_push q_pop q_ok
proof
  fix s x
  assume inv: "q_inv s" and ok: "q_ok s x" and room: "length (q_elems s) < QUARANTINE_MAX_CAP"
  have e: "q_elems (snd (q_push s x)) = q_elems s @ [x]"
    using q_push_elems inv room by (simp add: q_inv_def)
  moreover have "q_ok (snd (q_push s x)) = q_ok s" "fst (q_push s x)"
    using room by (auto simp: q_push_def q_ok_def fun_eq_iff)
  ultimately show "\<exists>s'. q_push s x = (True, s') \<and> q_inv s' \<and> q_elems s' = q_elems s @ [x] \<and> q_ok s' = q_ok s"
    using inv ok room by (intro exI [of _ "snd (q_push s x)"])
      (auto simp: q_inv_def prod_eq_iff q_push_def QUARANTINE_MAX_CAP_def)
next
  fix s x
  assume inv: "q_inv s" and full: "QUARANTINE_MAX_CAP \<le> length (q_elems s)"
  then show "\<exists>s'. q_push s x = (False, s') \<and> q_inv s' \<and> q_elems s' = q_elems s \<and> q_ok s' = q_ok s"
    by (auto simp: q_push_def q_inv_def q_elems_def q_index_def q_ok_def fun_eq_iff)
next
  fix s assume "q_inv s" "q_elems s = []"
  then show "fst (q_pop s) = None" by (subst q_pop.simps) (auto simp: q_elems_def)
next
  fix s x xs assume inv: "q_inv s" and e: "q_elems s = x # xs"
  then have "q_pop s = (Some x, pte_refc_inc (q_popped s) x)" "q_elems (q_popped s) = xs"
    using q_pop_elems [of s x xs] by (auto simp: q_inv_def)
  moreover have "q_ok (q_popped s) = q_ok s" by (simp add: q_ok_def q_popped_def fun_eq_iff)
  ultimately show "\<exists>s'. q_pop s = (Some x, s') \<and> q_inv s' \<and> q_elems s' = xs \<and> q_ok s' = q_ok s"
    using inv e by (auto simp: q_inv_def q_popped_def)
qed

end
