(* ===== verification/Buddy_Correct.thy ===== *)
theory Buddy_Correct
  imports Buddy_Tables
begin

text \<open>
  Correctness of the allocator of \<^verbatim>\<open>src/src/memory/buddy.rs\<close> as a whole: the audit accepts every
  well-formed state, \<^verbatim>\<open>alloc\<close> and \<^verbatim>\<open>free\<close> implement the interface \<open>page_allocator\<close>, and the
  properties of freeing, double frees, regions and reservations.
\<close>

section \<open>Page indices of blocks\<close>

definition tracked :: "buddy \<Rightarrow> bool" where
  "tracked s \<longleftrightarrow> unat (alloc_pages s) \<le> MAX_REFC_PAGES"

definition page_range :: "buddy \<Rightarrow> u64 \<Rightarrow> nat \<Rightarrow> nat set" where
  "page_range s a k = {unat (phys_to_idx s a) ..< unat (phys_to_idx s a) + 2 ^ k}"

lemma idx_of_block:
  assumes "region_ok s" and "block_ok s a k"
  shows "unat (phys_to_idx s a) = (unat a - unat (alloc_base s)) div 4096"
    and "unat (phys_to_idx s a) + 2 ^ k \<le> unat (alloc_pages s)"
    and "page_index s a = phys_to_idx s a"
    and "unat a = unat (alloc_base s) + 4096 * unat (phys_to_idx s a)"
proof -
  let ?b = "unat (alloc_base s)"
  have le: "alloc_base s \<le> a" using assms(2) by (simp add: block_ok_def word_le_nat_alt)
  have ix: "phys_to_idx s a = (a - alloc_base s) div 4096"
    using le by (auto simp: phys_to_idx_def drop_bit_eq_div)
  then show u: "unat (phys_to_idx s a) = (unat a - ?b) div 4096"
    using le by (simp add: unat_div unat_sub_nowrap)
  show "page_index s a = phys_to_idx s a" using ix by (simp add: page_index_def PAGE_SIZE_def)
  have "4096 dvd unat a" using assms(2) by (auto simp: block_ok_def elim: dvd_mult_left)
  moreover have "4096 dvd ?b" using assms(1) by (simp add: region_ok_def)
  ultimately have "4096 dvd unat a - ?b" by simp
  with u have "unat a - ?b = 4096 * unat (phys_to_idx s a)" by simp
  then show ua: "unat a = ?b + 4096 * unat (phys_to_idx s a)" using le by (simp add: word_le_nat_alt)
  have "unat a + 4096 * 2 ^ k \<le> ?b + unat (alloc_pages s) * 4096"
    using assms(2) by (simp add: block_ok_def top_addr_def)
  with ua show "unat (phys_to_idx s a) + 2 ^ k \<le> unat (alloc_pages s)" by simp
qed

lemma page_range_disjoint:
  assumes r: "region_ok s" and a: "block_ok s a k" and b: "block_ok s b j" and dj: "span a k \<inter> span b j = {}"
  shows "page_range s a k \<inter> page_range s b j = {}"
proof (rule ccontr)
  assume "page_range s a k \<inter> page_range s b j \<noteq> {}"
  then obtain p where p: "p \<in> page_range s a k" "p \<in> page_range s b j" by blast
  have "unat (alloc_base s) + 4096 * p \<in> span c i" if "p \<in> page_range s c i" "block_ok s c i" for c i
    using that idx_of_block(4) [OF r that(2)] by (auto simp: page_range_def span_def)
  with p a b dj show False by blast
qed

section \<open>The audit accepts every well-formed state\<close>

lemma audit_pages_ok:
  assumes "distinct ps" and "\<forall>p \<in> set ps. own p = OWNED_ORDER_SENTINEL"
  shows "audit_pages own k ps = (True, \<lambda>p. if p \<in> set ps then of_nat k else own p)"
  using assms
proof (induction own k ps rule: audit_pages.induct)
  case (2 own k p ps)
  then have "\<forall>q \<in> set ps. (own(p := of_nat k)) q = OWNED_ORDER_SENTINEL" by auto
  with "2.IH" "2.prems" have "audit_pages (own(p := of_nat k)) k ps =
      (True, \<lambda>q. if q \<in> set ps then of_nat k else (own(p := of_nat k)) q)"
    by (simp del: fun_upd_apply)
  then show ?case using "2.prems" by (auto simp: fun_eq_iff)
qed simp

definition clear_at :: "(nat \<Rightarrow> u8) \<Rightarrow> nat set \<Rightarrow> bool" where
  "clear_at own P \<longleftrightarrow> (\<forall>p \<in> P. own p = OWNED_ORDER_SENTINEL)"

lemma audit_list_ok:
  assumes "chain (hdr s) p xs" and "region_ok s" and "tracked s"
    and "\<forall>a \<in> set xs. block_ok s a k \<and> b_magic (hdr s a) = MAGIC \<and> b_order (hdr s a) = of_nat k"
    and "\<forall>a \<in> set xs. clear_at own (page_range s a k)"
    and "\<forall>a \<in> set xs. \<forall>b \<in> set xs. a \<noteq> b \<longrightarrow> span a k \<inter> span b k = {}"
  shows "\<exists>own'. audit_list s k p own = Some (True, own') \<and>
    (\<forall>P. clear_at own P \<longrightarrow> (\<forall>a \<in> set xs. P \<inter> page_range s a k = {}) \<longrightarrow> clear_at own' P)"
  using assms
proof (induction xs arbitrary: p own)
  case Nil
  then show ?case by (subst audit_list.simps) auto
next
  case (Cons x xs)
  let ?i = "unat (phys_to_idx s x)"
  have x: "p = x" "x \<noteq> 0" and ch: "chain (hdr s) (b_next (hdr s x)) xs" and dx: "x \<notin> set xs"
    using Cons.prems(1) chain_distinct [OF Cons.prems(1)] by auto
  have ok: "block_ok s x k" and k: "k \<le> MAX_ORDER" using Cons.prems(4) by (auto simp: block_ok_def)
  have bound: "?i + 2 ^ k \<le> MAX_REFC_PAGES"
    using idx_of_block(2) [OF Cons.prems(2) ok] Cons.prems(3) by (simp add: tracked_def)
  then have u: "unat (phys_to_idx s x + 2 ^ k) = ?i + 2 ^ k"
    using k by (subst unat_add_nowrap) (simp_all add: MAX_ORDER_def MAX_REFC_PAGES_def)
  define own1 where "own1 = (\<lambda>q. if q \<in> page_range s x k then of_nat k else own q)"
  have ap: "audit_pages own k [?i..<?i + 2 ^ k] = (True, own1)"
    using audit_pages_ok [of "[?i..<?i + 2 ^ k]" own k] Cons.prems(5)
    by (auto simp: clear_at_def page_range_def own1_def)
  have step: "audit_list s k p own = audit_list s k (b_next (hdr s x)) own1"
    using x Cons.prems(4) ap bound u by (subst audit_list.simps) (simp add: Let_def push_bit_eq_mult)
  have pd: "page_range s a k \<inter> page_range s x k = {}" if "a \<in> set xs" for a
    using that Cons.prems(2,4,6) dx by (intro page_range_disjoint) auto
  then have "\<forall>a \<in> set xs. clear_at own1 (page_range s a k)"
    using Cons.prems(5) by (fastforce simp: own1_def clear_at_def)
  from Cons.IH [OF ch Cons.prems(2,3) _ this] Cons.prems(4,6) obtain own' where
    "audit_list s k (b_next (hdr s x)) own1 = Some (True, own')"
    and pres: "\<forall>P. clear_at own1 P \<longrightarrow> (\<forall>a \<in> set xs. P \<inter> page_range s a k = {}) \<longrightarrow> clear_at own' P"
    by auto
  moreover have "clear_at own1 P" if "clear_at own P" "P \<inter> page_range s x k = {}" for P
    using that by (auto simp: own1_def clear_at_def)
  ultimately show ?case unfolding step by auto
qed

lemma audit_orders_ok:
  assumes inv: "buddy_inv s L" and tr: "tracked s" and "set ks \<subseteq> {..MAX_ORDER}" and "distinct ks"
    and "\<forall>k \<in> set ks. \<forall>a \<in> set (L k). clear_at own (page_range s a k)"
  shows "\<exists>own'. audit_orders s ks own = Some (True, own')"
  using assms(3-)
proof (induction ks arbitrary: own)
  case (Cons k ks)
  have k: "k \<le> MAX_ORDER" using Cons.prems by auto
  have "\<exists>own'. audit_list s k (free_lists s ! k) own = Some (True, own') \<and>
    (\<forall>P. clear_at own P \<longrightarrow> (\<forall>a \<in> set (L k). P \<inter> page_range s a k = {}) \<longrightarrow> clear_at own' P)"
    using buddy_invD(1-6) [OF inv] Cons.prems(3) k tr disjoint_blocksD [OF buddy_invD(7) [OF inv] k _ k]
    by (intro audit_list_ok) auto
  then obtain own1 where a: "audit_list s k (free_lists s ! k) own = Some (True, own1)"
    and pres: "\<forall>P. clear_at own P \<longrightarrow> (\<forall>a \<in> set (L k). P \<inter> page_range s a k = {}) \<longrightarrow> clear_at own1 P" by blast
  have "clear_at own1 (page_range s b j)" if "j \<in> set ks" "b \<in> set (L j)" for j b
  proof -
    have j: "j \<le> MAX_ORDER" "j \<noteq> k" using that Cons.prems(1,2) by auto
    have "page_range s b j \<inter> page_range s a k = {}" if "a \<in> set (L k)" for a
      using buddy_invD [OF inv] j \<open>b \<in> set (L j)\<close> that k
      by (intro page_range_disjoint disjoint_blocksD [of L]) auto
    with pres that Cons.prems(3) show ?thesis by auto
  qed
  with Cons.IH [of own1] Cons.prems(1,2) a show ?case by auto
qed simp

lemma audit_ok:
  assumes "buddy_inv s L" and "tracked s"
  shows "\<exists>s'. audit_free_lists s = Some (True, s') \<and> s' = s\<lparr>owned_by := owned_by s'\<rparr>"
proof (cases "audit_active s")
  case False
  have "set [0..<MAX_ORDER + 1] \<subseteq> {..MAX_ORDER}" by auto
  then obtain own where "audit_orders s [0..<MAX_ORDER + 1] (\<lambda>_. OWNED_ORDER_SENTINEL) = Some (True, own)"
    using audit_orders_ok [OF assms, of "[0..<MAX_ORDER + 1]" "\<lambda>_. OWNED_ORDER_SENTINEL"]
    by (auto simp: clear_at_def)
  with False show ?thesis by (simp add: audit_free_lists_def)
qed (simp add: audit_free_lists_def)


section \<open>Freeing\<close>

lemma df_record_fields [simp]:
  "alloc_base (df_record e s p k) = alloc_base s" "alloc_pages (df_record e s p k) = alloc_pages s"
  "free_lists (df_record e s p k) = free_lists s" "hdr (df_record e s p k) = hdr s"
  "reserved (df_record e s p k) = reserved s" "reserved_count (df_record e s p k) = reserved_count s"
  "used_bmp (df_record e s p k) = used_bmp s" "freed_bmp (df_record e s p k) = freed_bmp s"
  "page_type (df_record e s p k) = page_type s" "pte_refc (df_record e s p k) = pte_refc s"
  "quarantine (df_record e s p k) = quarantine s" "q_head (df_record e s p k) = q_head s"
  "q_count (df_record e s p k) = q_count s"
  by (simp_all add: df_record_def)

lemma buddy_inv_records [simp]:
  "buddy_inv (df_record e s p k) L = buddy_inv s L" "buddy_inv (freed_mark s a) L = buddy_inv s L"
  "buddy_inv (s\<lparr>audit_counter := c\<rparr>) L = buddy_inv s L" "buddy_inv (s\<lparr>owned_by := w\<rparr>) L = buddy_inv s L"
  by (rule buddy_inv_cong; simp)+

lemma freed_mark_queries [simp]:
  "block_ok (freed_mark s a) = block_ok s" "used_set (freed_mark s a) = used_set s"
  "page_is_used (freed_mark s a) = page_is_used s" "page_type_get (freed_mark s a) = page_type_get s"
  "pte_refc_get (freed_mark s a) = pte_refc_get s" "q_elems (freed_mark s a) = q_elems s"
  by (simp_all add: block_ok_def top_addr_def page_is_used_def used_set_def page_type_get_def pte_refc_get_def
      q_elems_def q_index_def Let_def fun_eq_iff)

lemma maybe_audit_ok:
  assumes "buddy_inv s L" and "tracked s"
  shows "\<exists>c w. maybe_audit s = Some (s\<lparr>audit_counter := c, owned_by := w\<rparr>)"
proof -
  let ?s = "s\<lparr>audit_counter := audit_counter s + 1\<rparr>"
  have "buddy_inv ?s L" "tracked ?s" using assms by (simp_all add: tracked_def)
  then obtain s' where s': "audit_free_lists ?s = Some (True, s')" "s' = ?s\<lparr>owned_by := owned_by s'\<rparr>"
    using audit_ok by blast
  show ?thesis
  proof (cases "(audit_counter s + 1) mod AUDIT_PERIOD = 0")
    case True
    with s'(1) have "maybe_audit s = Some (?s\<lparr>owned_by := owned_by s'\<rparr>)"
      by (simp add: maybe_audit_def Let_def flip: s'(2))
    then show ?thesis by auto
  next
    case False
    then have "maybe_audit s = Some (s\<lparr>audit_counter := audit_counter s + 1, owned_by := owned_by s\<rparr>)"
      by (simp add: maybe_audit_def Let_def)
    then show ?thesis by blast
  qed
qed

definition allocated :: "buddy \<Rightarrow> u64 \<Rightarrow> nat \<Rightarrow> bool" where
  "allocated s a k \<longleftrightarrow> block_ok s a k \<and> page_is_used s a \<and> \<not> freed_set s a \<and>
     page_type_get s a = PAGE_TYPE_DATA"

definition alloc_inv :: "buddy \<Rightarrow> nat set \<Rightarrow> bool" where
  "alloc_inv s F \<longleftrightarrow> tracked s \<and> reserved_count s = 0 \<and> (\<exists>L. buddy_inv s L \<and> free_space L = F)"

lemma not_reserved [simp]: "reserved_count s = 0 \<Longrightarrow> \<not> is_reserved s a"
  by (simp add: is_reserved_def)

lemma release_data:
  assumes inv: "buddy_inv s L" and ok: "block_ok s a k" and dj: "span a k \<inter> free_space L = {}"
    and used: "page_is_used s a" and ty: "page_type_get s a = PAGE_TYPE_DATA"
  shows "\<exists>s' L'. release e s a k = Some (True, s') \<and> buddy_inv s' L' \<and>
    free_space L' = free_space L \<union> span a k \<and> reserved_count s' = reserved_count s \<and>
    alloc_base s' = alloc_base s \<and> alloc_pages s' = alloc_pages s \<and>
    freed_bmp s' = freed_bmp s \<and> \<not> page_is_used s' a \<and> page_type_get s' a = PAGE_TYPE_FREE"
proof -
  let ?p = "page_index s a"
  let ?s1 = "df_record e (page_type_set (used_clear s ?p) a PAGE_TYPE_FREE) ?p k"
  have pi: "?p = phys_to_idx s a" using idx_of_block(3) [OF buddy_invD(1) [OF inv] ok] .
  have inv1: "buddy_inv ?s1 L" using inv by simp
  have ok1: "block_ok ?s1 a k" using ok by (simp add: block_ok_def top_addr_def)
  obtain s' L' where f: "free_one ?s1 a k = Some s'" "buddy_inv s' L'"
    "free_space L' = free_space L \<union> span a k" "lists_frame ?s1 s'"
    using free_one_inv [OF inv1 ok1 dj] by blast
  have "k < 256" using ok by (simp add: block_ok_def MAX_ORDER_def)
  then have "release e s a k = Some (True, s')"
    using f(1) used ty pi by (simp add: release_def Let_def page_types page_is_used_def)
  moreover have "\<not> page_is_used s' a" "page_type_get s' a = PAGE_TYPE_FREE"
  proof -
    note ff = lists_frame_fields [OF f(4)]
    have ix: "phys_to_idx s' a = phys_to_idx s a" using ff by (simp add: phys_to_idx_def)
    have "used_set s' q = used_set (used_clear s ?p) q" for q using ff by (simp add: used_set_def)
    then show "\<not> page_is_used s' a" using used.cleared [of s ?p] pi ix by (simp add: page_is_used_def)
    show "page_type_get s' a = PAGE_TYPE_FREE"
      using ff ix by (simp add: page_type_get_def page_type_set_def Let_def)
  qed
  ultimately show ?thesis using f lists_frame_fields [OF f(4)] by auto
qed

lemma free_data:
  assumes inv: "alloc_inv s F" and al: "allocated s a k" and dj: "span a k \<inter> F = {}"
  shows "\<exists>s'. free e s a k = Some s' \<and> alloc_inv s' (F \<union> span a k) \<and> freed_set s' a"
proof -
  obtain L where L: "buddy_inv s L" "free_space L = F" and tr: "tracked s" and rc: "reserved_count s = 0"
    using inv by (auto simp: alloc_inv_def)
  let ?s1 = "freed_mark s a"
  have ok: "block_ok ?s1 a k" "page_is_used ?s1 a" "page_type_get ?s1 a = PAGE_TYPE_DATA" "\<not> freed_set s a"
    using al by (simp_all add: allocated_def)
  have "buddy_inv ?s1 L" using L by simp
  from release_data [OF this ok(1) _ ok(2,3), of e] dj L(2) obtain s' L' where
    r: "release e ?s1 a k = Some (True, s')" "buddy_inv s' L'" "free_space L' = F \<union> span a k"
      "reserved_count s' = reserved_count ?s1" "alloc_base s' = alloc_base ?s1"
      "alloc_pages s' = alloc_pages ?s1" "freed_bmp s' = freed_bmp ?s1" by auto
  have tr': "tracked s'" using r tr by (simp add: tracked_def)
  obtain c w where m: "maybe_audit s' = Some (s'\<lparr>audit_counter := c, owned_by := w\<rparr>)"
    using maybe_audit_ok [OF r(2) tr'] by blast
  let ?s2 = "s'\<lparr>audit_counter := c, owned_by := w\<rparr>"
  have "free e s a k = Some ?s2"
    using ok(4) rc r(1) m by (simp add: free_def case_prod_beta Let_def)
  moreover have "alloc_inv ?s2 (F \<union> span a k)"
    using r rc tr' by (auto simp: alloc_inv_def tracked_def intro!: exI [of _ L'] buddy_inv_cong [THEN iffD1, OF _ _ _ _ r(2)])
  moreover have "freed_set ?s2 a"
  proof -
    have "unat (phys_to_idx s a) < 2097152"
      using idx_of_block(2) [OF buddy_invD(1) [OF L(1)], of a k] al tr
      by (simp add: allocated_def tracked_def MAX_REFC_PAGES_def order.strict_trans2 [rotated])
    then have "freed_set ?s1 a" using freed.marked [of s a] by (simp add: freed_slot_def used_slot_def)
    moreover have "phys_to_idx ?s2 a = phys_to_idx s a" using r by (simp add: phys_to_idx_def)
    ultimately show ?thesis using r by (simp add: freed_set_iff)
  qed
  ultimately show ?thesis by blast
qed


section \<open>What allocation leaves in the tables\<close>

lemma split_block_frame: "lists_frame s (split_block s a ks)"
proof (induction s a ks rule: split_block.induct)
  case (2 s a so sos)
  then show ?case by (auto simp: Let_def intro: lists_frame_trans [OF push_block_frame])
qed simp

lemma take_block_tables:
  assumes "take_block s order k = (a, s')" and "unat (phys_to_idx s a) < MAX_REFC_PAGES"
    and "page_index s a = phys_to_idx s a"
  shows "page_is_used s' a" and "\<not> freed_set s' a" and "page_type_get s' a = PAGE_TYPE_DATA"
    and "alloc_base s' = alloc_base s" and "alloc_pages s' = alloc_pages s"
    and "reserved_count s' = reserved_count s"
proof -
  define s0 where "s0 = s\<lparr>hdr := (hdr s)(a := null_block)\<rparr>"
  define s3 where "s3 = untrack_freed_page (used_mark s0 (page_index s0 a)) a"
  define s4 where "s4 = s3\<lparr>free_lists := (free_lists s3)[k := b_next (hdr s a)]\<rparr>"
  define s5 where "s5 = split_block s4 a (rev [order..<k])"
  have a: "a = free_lists s ! k" and s': "s' = page_type_set s5 a PAGE_TYPE_DATA"
    using assms(1) by (auto simp: take_block_def Let_def s5_def s4_def s3_def s0_def)
  note ff = lists_frame_fields [OF split_block_frame [of s4 a "rev [order..<k]"], folded s5_def]
  have ix: "phys_to_idx s' = phys_to_idx s" "phys_to_idx s5 = phys_to_idx s"
    by (simp_all add: s' phys_to_idx_def fun_eq_iff ff s4_def s3_def s0_def)
  show "alloc_base s' = alloc_base s" "alloc_pages s' = alloc_pages s" "reserved_count s' = reserved_count s"
    by (simp_all add: s' ff s4_def s3_def s0_def)
  have "used_bmp s' = used_bmp (used_mark s0 (page_index s0 a))"
    by (simp add: s' ff s4_def s3_def)
  then have "used_set s' = used_set (used_mark s0 (page_index s0 a))" by (simp add: used_set_def fun_eq_iff)
  moreover have "page_index s0 a = phys_to_idx s a" using assms(3) by (simp add: page_index_def s0_def)
  ultimately show "page_is_used s' a"
    using used.marked [of s0 "phys_to_idx s a"] assms(2)
    by (simp add: page_is_used_def ix used_slot_def MAX_REFC_PAGES_def)
  have "freed_bmp s' = freed_bmp s3" by (simp add: s' ff s4_def)
  moreover have "phys_to_idx s3 = phys_to_idx s" by (simp add: s3_def s0_def phys_to_idx_def fun_eq_iff)
  ultimately have "freed_set s' a = freed_set s3 a" by (simp add: freed_set_iff ix)
  then show "\<not> freed_set s' a" using freed.cleared by (simp add: s3_def)
  show "page_type_get s' a = PAGE_TYPE_DATA"
    using assms(2) by (simp add: s' page_type_get_def page_type_set_def Let_def ix)
       (simp add: phys_to_idx_def ff s4_def s3_def s0_def)
qed

lemma take_block_base:
  "take_block s order k = (a, s') \<Longrightarrow>
     alloc_base s' = alloc_base s \<and> alloc_pages s' = alloc_pages s \<and> reserved_count s' = reserved_count s"
  by (auto simp: take_block_def Let_def lists_frame_fields [OF split_block_frame])

lemma alloc_scan_take:
  "alloc_scan s order n ks = (r, s') \<Longrightarrow>
     alloc_base s' = alloc_base s \<and> alloc_pages s' = alloc_pages s \<and> reserved_count s' = reserved_count s \<and>
     (\<forall>a. r = Some a \<longrightarrow> (\<exists>s0 k. take_block s0 order k = (a, s') \<and>
        alloc_base s0 = alloc_base s \<and> alloc_pages s0 = alloc_pages s))"
proof (induction s order n ks rule: alloc_scan.induct)
  case (2 s order n k ks)
  let ?x = "free_lists s ! k"
  let ?s1 = "s\<lparr>free_lists := (free_lists s)[k := b_next (hdr s ?x)]\<rparr>"
  consider "?x = 0" | "?x \<noteq> 0" "\<not> n + 1 \<le> 1000000" | "?x \<noteq> 0" "n + 1 \<le> 1000000" "is_reserved s ?x"
    | "?x \<noteq> 0" "n + 1 \<le> 1000000" "\<not> is_reserved s ?x" by blast
  then show ?case
  proof cases
    case 3
    with "2.IH"(2) [OF refl _ _ _ refl refl] "2.prems" show ?thesis
      by (cases "b_next (hdr s ?x) = 0") (auto simp: Let_def)
  next
    case 4
    with "2.prems" obtain a where "take_block s order k = (a, s')" "r = Some a"
      by (auto simp: Let_def split: prod.splits)
    with take_block_base show ?thesis by blast
  qed (use 2 in \<open>auto simp: Let_def\<close>)
qed auto

lemma alloc_posts:
  assumes "buddy_inv s L" and "alloc s k = (r, s')"
  shows "\<exists>L'. alloc_post s L k [k..<MAX_ORDER + 1] r s' L'"
proof -
  have "length [k..<MAX_ORDER + 1] \<le> 11" by (simp add: MAX_ORDER_def)
  moreover have "set [k..<MAX_ORDER + 1] \<subseteq> {k..MAX_ORDER}" by auto
  ultimately show ?thesis
    using alloc_scan_post [OF assms(1), of "[k..<MAX_ORDER + 1]" k 0 r s'] assms(2)
    by (simp add: alloc_def alloc_nolock_def)
qed

lemma alloc_data:
  assumes inv: "alloc_inv s F" and al: "alloc s k = (Some a, s')"
  shows "span a k \<subseteq> F" and "alloc_inv s' (F - span a k)" and "allocated s' a k"
proof -
  obtain L where L: "buddy_inv s L" "free_space L = F" and tr: "tracked s" and rc: "reserved_count s = 0"
    using inv by (auto simp: alloc_inv_def)
  have sc: "alloc_scan s k 0 [k..<MAX_ORDER + 1] = (Some a, s')"
    using al by (simp add: alloc_def alloc_nolock_def)
  obtain L' where p: "alloc_post s L k [k..<MAX_ORDER + 1] (Some a) s' L'"
    using alloc_posts [OF L(1) al] by blast
  note r = buddy_invD(1) [OF L(1)]
  have ok: "block_ok s a k" and sub: "span a k \<subseteq> F" and L': "buddy_inv s' L'" "free_space L' = F - span a k"
    using p rc L(2) by (auto simp: alloc_post_def)
  note tk = alloc_scan_take [OF sc]
  then obtain s0 j where s0: "take_block s0 k j = (a, s')" "alloc_base s0 = alloc_base s" "alloc_pages s0 = alloc_pages s"
    by blast
  have ok0: "block_ok s0 a k" "region_ok s0" using ok r s0 by (simp_all add: block_ok_def region_ok_def top_addr_def)
  have "unat (phys_to_idx s0 a) < unat (phys_to_idx s0 a) + 2 ^ k" by simp
  also have "\<dots> \<le> MAX_REFC_PAGES" using idx_of_block(2) [OF ok0(2,1)] tr s0(3) by (simp add: tracked_def)
  finally have "unat (phys_to_idx s0 a) < MAX_REFC_PAGES" .
  from take_block_tables [OF s0(1) this idx_of_block(3) [OF ok0(2,1)]] ok0(1)
  show "allocated s' a k" using take_block_base [OF s0(1)] by (simp add: allocated_def block_ok_def top_addr_def)
  show "span a k \<subseteq> F" by (rule sub)
  show "alloc_inv s' (F - span a k)" using L' tk tr rc by (auto simp: alloc_inv_def tracked_def)
qed

lemma alloc_fail:
  assumes inv: "alloc_inv s F" and al: "alloc s k = (None, s')"
  shows "s' = s" and "\<And>L j. buddy_inv s L \<Longrightarrow> k \<le> j \<Longrightarrow> j \<le> MAX_ORDER \<Longrightarrow> L j = []"
proof -
  have post: "s' = s \<and> (\<forall>j \<in> set [k..<MAX_ORDER + 1]. L j = [])" if "buddy_inv s L" for L
    using alloc_posts [OF that al] inv by (auto simp: alloc_post_def alloc_inv_def)
  then show "s' = s" using inv by (auto simp: alloc_inv_def)
  show "L j = []" if "buddy_inv s L" "k \<le> j" "j \<le> MAX_ORDER" for L j
    using post [OF that(1)] that(2,3) by auto
qed

section \<open>What allocation and freeing leave alone\<close>

text \<open>Two states with the same region whose tables agree on every page but that of \<open>a\<close>.\<close>

definition same_tables :: "buddy \<Rightarrow> buddy \<Rightarrow> u64 \<Rightarrow> bool" where
  "same_tables s s' a \<longleftrightarrow> alloc_base s' = alloc_base s \<and> alloc_pages s' = alloc_pages s \<and>
     (\<forall>b. phys_to_idx s b \<noteq> phys_to_idx s a \<longrightarrow> page_is_used s' b = page_is_used s b \<and>
        freed_set s' b = freed_set s b \<and> page_type_get s' b = page_type_get s b)"

lemma same_idx: "alloc_base s' = alloc_base s \<Longrightarrow> phys_to_idx s' = phys_to_idx s"
  by (simp add: phys_to_idx_def fun_eq_iff)

lemma same_tables_trans: "same_tables s s' a \<Longrightarrow> same_tables s' s'' a \<Longrightarrow> same_tables s s'' a"
  using same_idx [of s' s] by (simp add: same_tables_def)

lemma query_cong:
  assumes "alloc_base s' = alloc_base s"
  shows "used_bmp s' = used_bmp s \<Longrightarrow> page_is_used s' b = page_is_used s b"
    and "freed_bmp s' = freed_bmp s \<Longrightarrow> freed_set s' b = freed_set s b"
    and "page_type s' = page_type s \<Longrightarrow> page_type_get s' b = page_type_get s b"
  by (simp_all add: page_is_used_def used_set_def freed_set_iff page_type_get_def same_idx [OF assms] Let_def)

lemma same_tables_cong:
  assumes "alloc_base s' = alloc_base s" "alloc_pages s' = alloc_pages s" "used_bmp s' = used_bmp s"
    "freed_bmp s' = freed_bmp s" "page_type s' = page_type s"
  shows "same_tables s s' a"
  unfolding same_tables_def using assms query_cong [OF assms(1)] by blast

lemma same_tables_used:
  "same_tables s (used_mark s (phys_to_idx s a)) a" "same_tables s (used_clear s (phys_to_idx s a)) a"
proof -
  have u: "used_set (used_mark s p) q = used_set s q" "used_set (used_clear s p) q = used_set s q" if "q \<noteq> p" for p q
    using that used.test_mark [of s p q] used.test_clear [of s p q] used_slot_eq [of s p q] by blast+
  have ix: "phys_to_idx (used_mark s p) = phys_to_idx s" "phys_to_idx (used_clear s p) = phys_to_idx s" for p
    by (rule same_idx; simp)+
  show "same_tables s (used_mark s (phys_to_idx s a)) a"
    unfolding same_tables_def page_is_used_def ix
    using u query_cong(2,3) [of "used_mark s (phys_to_idx s a)" s] by simp
  show "same_tables s (used_clear s (phys_to_idx s a)) a"
    unfolding same_tables_def page_is_used_def ix
    using u query_cong(2,3) [of "used_clear s (phys_to_idx s a)" s] by simp
qed

lemma same_tables_freed: "same_tables s (untrack_freed_page s a) a" "same_tables s (freed_mark s a) a"
proof -
  have f: "freed_set (untrack_freed_page s a) b = freed_set s b" "freed_set (freed_mark s a) b = freed_set s b"
    if "phys_to_idx s b \<noteq> phys_to_idx s a" for b
    using that freed.test_clear [of s a b] freed.test_mark [of s a b] used_slot_eq [of s "phys_to_idx s a" "phys_to_idx s b"]
    unfolding freed_slot_def by blast+
  show "same_tables s (untrack_freed_page s a) a" "same_tables s (freed_mark s a) a"
    unfolding same_tables_def
    using f query_cong(1,3) [of "untrack_freed_page s a" s] query_cong(1,3) [of "freed_mark s a" s] by simp_all
qed

lemma same_tables_type: "same_tables s (page_type_set s a t) a"
proof -
  have "page_type_get (page_type_set s a t) b = page_type_get s b" if "phys_to_idx s b \<noteq> phys_to_idx s a" for b
  proof -
    have "unat (phys_to_idx s b) \<noteq> unat (phys_to_idx s a)" using that by (simp add: word_unat_eq_iff)
    moreover have "phys_to_idx (page_type_set s a t) = phys_to_idx s" by (rule same_idx) simp
    ultimately show ?thesis by (simp add: page_type_get_def page_type_set_def Let_def)
  qed
  then show ?thesis unfolding same_tables_def using query_cong(1,2) [of "page_type_set s a t" s] by simp
qed

lemmas same_tables_prims = same_tables_used same_tables_freed same_tables_type

lemma take_block_same:
  assumes "take_block s order k = (a, s')" and "page_index s a = phys_to_idx s a"
  shows "same_tables s s' a"
proof -
  define s0 where "s0 = s\<lparr>hdr := (hdr s)(a := null_block)\<rparr>"
  define s2 where "s2 = used_mark s0 (phys_to_idx s0 a)"
  define s3 where "s3 = untrack_freed_page s2 a"
  define s4 where "s4 = s3\<lparr>free_lists := (free_lists s3)[k := b_next (hdr s a)]\<rparr>"
  define s5 where "s5 = split_block s4 a (rev [order..<k])"
  have "page_index s0 a = phys_to_idx s0 a" using assms(2) by (simp add: s0_def page_index_def phys_to_idx_def)
  then have s': "s' = page_type_set s5 a PAGE_TYPE_DATA"
    using assms(1) by (auto simp: take_block_def Let_def s5_def s4_def s3_def s2_def s0_def)
  have "same_tables s s0 a" by (rule same_tables_cong) (simp_all add: s0_def)
  moreover have "same_tables s0 s2 a" unfolding s2_def by (rule same_tables_prims)
  moreover have "same_tables s2 s3 a" unfolding s3_def by (rule same_tables_prims)
  moreover have "same_tables s3 s4 a" by (rule same_tables_cong) (simp_all add: s4_def)
  moreover have "same_tables s4 s5 a"
    unfolding s5_def by (rule same_tables_cong) (simp_all add: lists_frame_fields [OF split_block_frame])
  moreover have "same_tables s5 s' a" unfolding s' by (rule same_tables_prims)
  ultimately show ?thesis by (blast intro: same_tables_trans)
qed

lemma alloc_scan_unreserved:
  "reserved_count s = 0 \<Longrightarrow> alloc_scan s order n ks = (Some a, s') \<Longrightarrow> \<exists>k. take_block s order k = (a, s')"
  by (induction ks arbitrary: n) (auto simp: Let_def split: if_splits prod.splits)

lemma block_idx_neq:
  assumes "region_ok s" "block_ok s a k" "block_ok s b j" "a \<noteq> b"
  shows "phys_to_idx s b \<noteq> phys_to_idx s a"
  using idx_of_block(4) [OF assms(1,2)] idx_of_block(4) [OF assms(1,3)] assms(4) by (auto simp: word_unat_eq_iff)

lemma allocated_same:
  assumes "same_tables s s' a" and "allocated s b j" and "phys_to_idx s b \<noteq> phys_to_idx s a"
  shows "allocated s' b j"
  using assms by (simp add: same_tables_def allocated_def block_ok_def top_addr_def)

lemma alloc_keeps:
  assumes inv: "alloc_inv s F" and al: "alloc s k = (r, s')" and b: "allocated s b j" "span b j \<inter> F = {}"
  shows "allocated s' b j"
proof (cases r)
  case None
  then have "s' = s" using alloc_fail(1) [OF inv] al by blast
  then show ?thesis using b by simp
next
  case (Some a)
  obtain L where L: "buddy_inv s L" and rc: "reserved_count s = 0" using inv by (auto simp: alloc_inv_def)
  note r = buddy_invD(1) [OF L(1)]
  note d = alloc_data [OF inv al [unfolded Some]]
  obtain m where tb: "take_block s k m = (a, s')"
    using alloc_scan_unreserved [OF rc al [unfolded alloc_def alloc_nolock_def Some]] by blast
  have ok: "block_ok s a k" using d(3) take_block_base [OF tb] by (simp add: allocated_def block_ok_def top_addr_def)
  have "unat a \<in> F" "unat b \<notin> F" using d(1) b(2) span_nonempty [of a k] span_nonempty [of b j] by blast+
  then have "a \<noteq> b" by auto
  moreover have "block_ok s b j" using b by (simp add: allocated_def)
  ultimately show ?thesis
    using allocated_same [OF take_block_same [OF tb idx_of_block(3) [OF r ok]] b(1)] block_idx_neq [OF r ok] by blast
qed

lemma free_keeps:
  assumes inv: "alloc_inv s F" and a: "allocated s a k" "span a k \<inter> F = {}" and fr: "free e s a k = Some s'"
    and b: "allocated s b j" "b \<noteq> a"
  shows "allocated s' b j"
proof -
  obtain L where L: "buddy_inv s L" "free_space L = F" and tr: "tracked s" and rc: "reserved_count s = 0"
    using inv by (auto simp: alloc_inv_def)
  note r = buddy_invD(1) [OF L(1)]
  have ok: "block_ok s a k" and okb: "block_ok s b j" using a b by (simp_all add: allocated_def)
  let ?p = "phys_to_idx s a"
  define s1 where "s1 = freed_mark s a"
  have ix: "phys_to_idx s1 = phys_to_idx s" by (rule same_idx) (simp add: s1_def)
  have pi: "page_index s1 a = ?p" using idx_of_block(3) [OF r ok] by (simp add: s1_def page_index_def)
  define s2 where "s2 = used_clear s1 (phys_to_idx s1 a)"
  define s3 where "s3 = df_record e (page_type_set s2 a PAGE_TYPE_FREE) ?p k"
  have ok3: "block_ok s3 a k" using ok by (simp add: s3_def s2_def s1_def block_ok_def top_addr_def)
  have "buddy_inv s3 L" using L by (simp add: s3_def s2_def s1_def)
  then obtain s4 L' where f: "free_one s3 a k = Some s4" "buddy_inv s4 L'" "lists_frame s3 s4"
    using free_one_inv [OF _ ok3] a(2) L(2) by blast
  have al1: "page_is_used s1 a" "page_type_get s1 a = PAGE_TYPE_DATA" "\<not> freed_set s a" "k < 256"
    using a(1) ok by (simp_all add: allocated_def s1_def block_ok_def MAX_ORDER_def)
  then have rel: "release e s1 a k = Some (True, s4)"
    using f(1) ix pi by (simp add: release_def Let_def page_types page_is_used_def s3_def s2_def)
  have "tracked s4" using tr lists_frame_fields [OF f(3)] by (simp add: tracked_def s3_def s2_def s1_def)
  then obtain c w where m: "maybe_audit s4 = Some (s4\<lparr>audit_counter := c, owned_by := w\<rparr>)"
    using maybe_audit_ok [OF f(2)] by blast
  have s': "s' = s4\<lparr>audit_counter := c, owned_by := w\<rparr>"
    using fr al1(3) rc rel m by (simp add: free_def case_prod_beta Let_def s1_def)
  have "same_tables s s1 a" unfolding s1_def by (rule same_tables_prims)
  moreover have "same_tables s1 s2 a" unfolding s2_def by (rule same_tables_prims)
  moreover have "same_tables s2 (page_type_set s2 a PAGE_TYPE_FREE) a" by (rule same_tables_prims)
  moreover have "same_tables (page_type_set s2 a PAGE_TYPE_FREE) s3 a"
    by (rule same_tables_cong) (simp_all add: s3_def)
  moreover have "same_tables s3 s' a"
    by (rule same_tables_cong) (simp_all add: s' lists_frame_fields [OF f(3)])
  ultimately have "same_tables s s' a" by (blast intro: same_tables_trans)
  then show ?thesis using allocated_same [OF _ b(1)] block_idx_neq [OF r ok okb] b(2) by blast
qed

interpretation pages: page_allocator alloc_inv alloc "free e" span allocated for e
proof
  fix s F k a s'
  show "alloc_inv s F \<Longrightarrow> alloc s k = (Some a, s') \<Longrightarrow>
      span a k \<subseteq> F \<and> alloc_inv s' (F - span a k) \<and> allocated s' a k"
    using alloc_data by blast
  show "alloc_inv s F \<Longrightarrow> alloc s k = (None, s') \<Longrightarrow> alloc_inv s' F"
    using alloc_fail(1) by blast
  show "alloc_inv s F \<Longrightarrow> allocated s a k \<Longrightarrow> span a k \<inter> F = {} \<Longrightarrow>
      \<exists>s'. free e s a k = Some s' \<and> alloc_inv s' (F \<union> span a k)"
    using free_data by blast
qed (fact alloc_keeps free_keeps)+

section \<open>Regions\<close>

lemma max_order_from_spec:
  fixes a z :: u64
  assumes "n \<le> 51"
  defines "r \<equiv> max_order_from n a z"
  shows "r \<le> n" and "r = 0 \<or> 4096 * 2 ^ r dvd unat a \<and> 4096 * 2 ^ r \<le> unat z"
    and "\<And>k. r < k \<Longrightarrow> k \<le> n \<Longrightarrow> \<not> (4096 * 2 ^ k dvd unat a \<and> 4096 * 2 ^ k \<le> unat z)"
proof -
  have fits: "a AND (block_size k - 1) = 0 \<and> block_size k \<le> z \<longleftrightarrow> 4096 * 2 ^ k dvd unat a \<and> 4096 * 2 ^ k \<le> unat z"
    if "k \<le> 51" for k
    using low_mask_zero_iff [of "12 + k" a] unat_block_size [OF that] that
    by (simp add: block_size_exp power_add word_le_nat_alt)
  have "r \<le> n \<and> (r = 0 \<or> 4096 * 2 ^ r dvd unat a \<and> 4096 * 2 ^ r \<le> unat z) \<and>
    (\<forall>k. r < k \<longrightarrow> k \<le> n \<longrightarrow> \<not> (4096 * 2 ^ k dvd unat a \<and> 4096 * 2 ^ k \<le> unat z))"
    using assms(1) unfolding r_def
  proof (induction n)
    case (Suc n)
    then show ?case using fits [of "Suc n"]
      by (auto simp: Let_def le_Suc_eq simp del: power_Suc)
  qed simp
  then show "r \<le> n" "r = 0 \<or> 4096 * 2 ^ r dvd unat a \<and> 4096 * 2 ^ r \<le> unat z"
    "\<And>k. r < k \<Longrightarrow> k \<le> n \<Longrightarrow> \<not> (4096 * 2 ^ k dvd unat a \<and> 4096 * 2 ^ k \<le> unat z)" by auto
qed

lemma max_order_block:
  fixes a z :: u64
  assumes "4096 dvd unat a" and "4096 \<le> unat z"
  defines "r \<equiv> max_order_for a z"
  shows "r \<le> MAX_ORDER" and "4096 * 2 ^ r dvd unat a" and "4096 * 2 ^ r \<le> unat z"
  using max_order_from_spec(1,2) [of MAX_ORDER a z] assms
  by (auto simp: max_order_for_def MAX_ORDER_def)

lemma add_region_loop_ok:
  assumes "buddy_inv s L" and "4096 dvd unat a" and "unat (alloc_base s) \<le> unat a" and "unat a \<le> unat hi"
    and "unat hi \<le> top_addr s" and "{unat a ..< unat hi} \<inter> free_space L = {}"
  shows "\<exists>s' L'. add_region_loop s a hi = Some s' \<and> buddy_inv s' L' \<and> lists_frame s s' \<and>
    free_space L' = free_space L \<union> {unat a ..< unat a + 4096 * ((unat hi - unat a) div 4096)}"
  using assms
proof (induction "unat hi - unat a" arbitrary: s L a rule: less_induct)
  case less
  note inv = less.prems(1)
  have r: "region_ok s" using buddy_invD(1) [OF inv] .
  have hi63: "unat hi \<le> 2 ^ 63" using less.prems(5) r by (simp add: region_ok_def)
  then have ua: "unat (a + PAGE_SIZE) = unat a + 4096"
    using less.prems(4) by (simp add: PAGE_SIZE_def unat_add_nowrap)
  show ?case
  proof (cases "a + PAGE_SIZE \<le> hi")
    case False
    then have "(unat hi - unat a) div 4096 = 0" "add_region_loop s a hi = Some s"
      using ua by (auto simp: word_le_nat_alt add_region_loop.simps)
    with inv show ?thesis by (intro exI [of _ s] exI [of _ L]) simp
  next
    case True
    define k where "k = max_order_for a (hi - a)"
    let ?B = "4096 * 2 ^ k :: nat"
    have z: "unat (hi - a) = unat hi - unat a"
      using less.prems(4) by (simp add: unat_sub_nowrap word_le_nat_alt)
    have k: "k \<le> MAX_ORDER" "?B dvd unat a" "?B \<le> unat hi - unat a"
      using max_order_block [of a "hi - a"] less.prems(2) True ua z by (auto simp: k_def word_le_nat_alt)
    have ok: "block_ok s a k" using k less.prems(3-5) by (simp add: block_ok_def)
    have sp: "span a k \<subseteq> {unat a ..< unat hi}" using k(3) less.prems(4) by (auto simp: span_def)
    obtain s1 L1 where f: "free_one s a k = Some s1" "buddy_inv s1 L1"
      "free_space L1 = free_space L \<union> span a k" "lists_frame s s1"
      using free_one_inv [OF inv ok] sp less.prems(6) by blast
    have ub: "unat (a + block_size k) = unat a + ?B"
      using k hi63 less.prems(4) by (subst unat_add_nowrap) (simp_all add: MAX_ORDER_def)
    note ff = lists_frame_fields [OF f(4)]
    have le: "unat a + ?B \<le> unat hi" using k(3) less.prems(4) by (simp add: le_diff_conv2)
    moreover have "0 < ?B" by simp
    ultimately have dec: "unat hi - (unat a + ?B) < unat hi - unat a" by arith
    have "\<exists>s' L'. add_region_loop s1 (a + block_size k) hi = Some s' \<and> buddy_inv s' L' \<and> lists_frame s1 s' \<and>
      free_space L' = free_space L1 \<union> {unat (a + block_size k) ..<
        unat (a + block_size k) + 4096 * ((unat hi - unat (a + block_size k)) div 4096)}"
    proof (rule less.hyps [OF _ f(2)])
      show "4096 dvd unat (a + block_size k)" using ub less.prems(2) by simp
      show "{unat (a + block_size k) ..< unat hi} \<inter> free_space L1 = {}"
        using f(3) ub less.prems(6) by (fastforce simp: span_def disjoint_iff)
    qed (use ub le dec less.prems(3,5) ff(3,4) in auto)
    then obtain s' L' where s': "add_region_loop s1 (a + block_size k) hi = Some s'" "buddy_inv s' L'" "lists_frame s1 s'"
      "free_space L' = free_space L1 \<union> {unat a + ?B ..< unat a + ?B + 4096 * ((unat hi - (unat a + ?B)) div 4096)}"
      unfolding ub by blast
    have "add_region_loop s a hi = Some s'"
      using True f(1) s'(1) by (subst add_region_loop.simps) (simp add: Let_def k_def)
    moreover have "(unat hi - unat a) div 4096 = (unat hi - (unat a + ?B)) div 4096 + 2 ^ k"
    proof -
      have "unat hi - unat a = (unat hi - (unat a + ?B)) + 2 ^ k * 4096" using k(3) by simp
      then show ?thesis by simp
    qed
    with s'(4) f(3) have "free_space L' = free_space L \<union> {unat a ..< unat a + 4096 * ((unat hi - unat a) div 4096)}"
      by (auto simp: span_def)
    ultimately show ?thesis using s'(2) lists_frame_trans [OF f(4) s'(3)] by blast
  qed
qed

lemma add_region_ok:
  assumes "buddy_inv s L" and "4096 dvd unat a" and "4096 dvd unat z" and "unat (alloc_base s) \<le> unat a"
    and "unat a + unat z \<le> top_addr s" and "{unat a ..< unat a + unat z} \<inter> free_space L = {}"
  shows "\<exists>s' L'. add_region s a z = Some s' \<and> buddy_inv s' L' \<and>
    free_space L' = free_space L \<union> {unat a ..< unat a + unat z}"
proof -
  have "top_addr s \<le> 2 ^ 63" using buddy_invD(1) [OF assms(1)] by (simp add: region_ok_def)
  with assms(5) have "unat (a + z) = unat a + unat z" by (simp add: unat_add_nowrap)
  with add_region_loop_ok [OF assms(1,2,4), of "a + z"] assms(3,5,6) show ?thesis
    by (auto simp: add_region_def)
qed


section \<open>Reserved pages\<close>

definition reserved_list :: "buddy \<Rightarrow> u64 list" where
  "reserved_list s = take (reserved_count s) (reserved s)"

definition reserved_ok :: "buddy \<Rightarrow> bool" where
  "reserved_ok s \<longleftrightarrow> length (reserved s) = MAX_RESERVED \<and> reserved_count s \<le> MAX_RESERVED"

lemma shift_down:
  "i \<le> m \<Longrightarrow> m < length r \<Longrightarrow>
     fold (\<lambda>j r. r[j := r ! (j + 1)]) [i..<m] r = take i r @ take (m - i) (drop (i + 1) r) @ drop m r"
proof (induction m)
  case (Suc m)
  show ?case
  proof (cases "i = Suc m")
    case False
    then have le: "i \<le> m" using Suc.prems by simp
    have len: "length (take i r @ take (m - i) (drop (i + 1) r)) = m" using le Suc.prems by simp
    have d: "drop m r = r ! m # drop (Suc m) r" using Suc.prems by (simp add: Cons_nth_drop_Suc)
    have tk: "take (Suc m - i) (drop (i + 1) r) = take (m - i) (drop (i + 1) r) @ [r ! Suc m]"
      using le Suc.prems by (simp add: Suc_diff_le take_Suc_conv_app_nth)
    have "fold (\<lambda>j r. r[j := r ! (j + 1)]) [i..<Suc m] r =
        (let q = take i r @ take (m - i) (drop (i + 1) r) @ drop m r in q[m := q ! (m + 1)])"
      using Suc le by (simp add: Let_def)
    also have "\<dots> = (take i r @ take (m - i) (drop (i + 1) r)) @ r ! Suc m # drop (Suc m) r"
      using len Suc.prems unfolding append_assoc [symmetric] d Let_def
      by (subst list_update_append, subst nth_append) (simp add: nth_Cons')
    finally show ?thesis using tk by simp
  qed (use Suc.prems in simp)
qed simp

lemma unreserve_spec:
  assumes "reserved_ok s"
  shows "fst (unreserve s a) = (a \<in> set (reserved_list s))"
    and "reserved_list (snd (unreserve s a)) = remove1 a (reserved_list s)"
    and "reserved_ok (snd (unreserve s a))"
proof -
  let ?n = "reserved_count s"
  have "fst (unreserve s a) = (a \<in> set (reserved_list s)) \<and>
    reserved_list (snd (unreserve s a)) = remove1 a (reserved_list s) \<and> reserved_ok (snd (unreserve s a))"
  proof (cases "find_index (\<lambda>x. x = a) (take ?n (reserved s))")
    case None
    then have "a \<notin> set (reserved_list s)" by (auto simp: find_from_None reserved_list_def)
    with None assms show ?thesis by (simp add: unreserve_def remove1_idem)
  next
    case (Some i)
    note fi = find_index_Some [OF Some]
    have n: "?n \<le> length (reserved s)" using assms by (simp add: reserved_ok_def)
    have i: "i < ?n" "reserved s ! i = a" using fi(1,2) n by auto
    have nb: "\<forall>k<i. reserved s ! k \<noteq> a" using fi(3) i by auto
    have split: "reserved_list s = take i (reserved s) @ a # take (?n - 1 - i) (drop (i + 1) (reserved s))"
      using id_take_nth_drop [of i "reserved_list s"] i n by (simp add: reserved_list_def drop_take)
    have "a \<notin> set (take i (reserved s))" using nb i n by (auto simp: in_set_conv_nth)
    then have rm: "remove1 a (reserved_list s) = take i (reserved s) @ take (?n - 1 - i) (drop (i + 1) (reserved s))"
      by (simp add: split remove1_append)
    have sh: "fold (\<lambda>j r. r[j := r ! (j + 1)]) [i..<?n - 1] (reserved s) =
      take i (reserved s) @ take (?n - 1 - i) (drop (i + 1) (reserved s)) @ drop (?n - 1) (reserved s)"
      using i n by (intro shift_down) auto
    define q where "q = take i (reserved s) @ take (?n - 1 - i) (drop (i + 1) (reserved s))"
    have len: "length q = ?n - 1" using i n by (simp add: q_def)
    have un: "unreserve s a = (True, s\<lparr>reserved := (q @ drop (?n - 1) (reserved s))[?n - 1 := 0], reserved_count := ?n - 1\<rparr>)"
      unfolding unreserve_def Some option.case sh Let_def by (simp add: q_def)
    have "a \<in> set (reserved_list s)" using split by simp
    moreover have "reserved_list (snd (unreserve s a)) = remove1 a (reserved_list s)"
      unfolding un rm using len by (simp add: reserved_list_def) (simp add: q_def)
    moreover have "reserved_ok (snd (unreserve s a))"
      unfolding un using assms i n len by (auto simp: reserved_ok_def)
    ultimately show ?thesis using un by simp
  qed
  then show "fst (unreserve s a) = (a \<in> set (reserved_list s))"
    "reserved_list (snd (unreserve s a)) = remove1 a (reserved_list s)"
    "reserved_ok (snd (unreserve s a))" by auto
qed


section \<open>Page-table pages\<close>

lemma used_set_cong: "used_bmp s' = used_bmp s \<Longrightarrow> used_set s' = used_set s"
  by (simp add: used_set_def fun_eq_iff)

text \<open>A page-table page whose count does not reach zero is released to nowhere: its used bit and
  type are cleared, but it joins neither the quarantine nor a free list.\<close>

lemma release_pte:
  assumes inv: "buddy_inv s L" and ok: "block_ok s a 0" and tr: "tracked s"
    and used: "page_is_used s a" and ty: "page_type_get s a = PAGE_TYPE_PTE"
  shows "pte_refc_get s a > 1 \<Longrightarrow> \<exists>s'. release e s a 0 = Some (True, s') \<and> buddy_inv s' L \<and>
      q_elems s' = q_elems s \<and> \<not> page_is_used s' a \<and> page_type_get s' a = PAGE_TYPE_FREE \<and>
      alloc_base s' = alloc_base s \<and> alloc_pages s' = alloc_pages s \<and> reserved_count s' = reserved_count s"
    and "pte_refc_get s a = 1 \<Longrightarrow> q_inv s \<Longrightarrow> q_count s < QUARANTINE_MAX_CAP \<Longrightarrow>
      \<exists>s'. release e s a 0 = Some (True, s') \<and> buddy_inv s' L \<and>
      q_elems s' = q_elems s @ [a] \<and> \<not> page_is_used s' a \<and> page_type_get s' a = PAGE_TYPE_FREE \<and>
      alloc_base s' = alloc_base s \<and> alloc_pages s' = alloc_pages s \<and> reserved_count s' = reserved_count s"
proof -
  note r = buddy_invD(1) [OF inv]
  let ?p = "page_index s a" and ?i = "unat (phys_to_idx s a)"
  define s1 where "s1 = df_record e (page_type_set (used_clear s ?p) a PAGE_TYPE_FREE) ?p 0"
  define s2 where "s2 = s1\<lparr>pte_refc := (pte_refc s1)(?i := pte_refc s1 ?i - 1)\<rparr>"
  have pi: "?p = phys_to_idx s a" using idx_of_block(3) [OF r ok] .
  have i: "?i < MAX_REFC_PAGES" using idx_of_block(2) [OF r ok] tr by (simp add: tracked_def)
  have ix: "phys_to_idx s1 = phys_to_idx s" "phys_to_idx s2 = phys_to_idx s"
    by (simp_all add: s1_def s2_def phys_to_idx_def fun_eq_iff)
  have rc: "pte_refc s1 ?i = pte_refc_get s a" using i by (simp add: s1_def pte_refc_get_def)
  have "used_set s2 = used_set (used_clear s ?p)" by (rule used_set_cong) (simp add: s2_def s1_def)
  then have u: "\<not> page_is_used s2 a"
    using used.cleared [of s ?p] pi ix by (simp add: page_is_used_def)
  have t: "page_type_get s2 a = PAGE_TYPE_FREE"
    using i ix by (simp add: page_type_get_def s2_def s1_def page_type_set_def phys_to_idx_def Let_def)
  have q: "q_elems s2 = q_elems s" "q_inv s2 = q_inv s" "q_count s2 = q_count s"
    by (simp_all add: q_elems_def q_index_def q_inv_def q_ok_def s2_def s1_def page_type_set_def used_clear_def used_word_def Let_def)
  have b1: "buddy_inv s1 L" using inv by (simp add: s1_def)
  have b: "buddy_inv s2 L" by (rule buddy_inv_cong [THEN iffD2, OF _ _ _ _ b1]) (simp_all add: s2_def)
  have base: "alloc_base s2 = alloc_base s" "alloc_pages s2 = alloc_pages s" "reserved_count s2 = reserved_count s"
    by (simp_all add: s2_def s1_def)
  have rel: "release e s a 0 = map_option (Pair True)
     (let (zero, s2) = pte_refc_dec s1 a
      in if zero then (let (queued, s3) = q_push s2 a in if queued then Some s3 else free_one s3 a 0) else Some s2)"
    using used ty pi by (simp add: release_def Let_def s1_def page_is_used_def page_types)
  show "\<exists>s'. release e s a 0 = Some (True, s') \<and> buddy_inv s' L \<and>
      q_elems s' = q_elems s \<and> \<not> page_is_used s' a \<and> page_type_get s' a = PAGE_TYPE_FREE \<and>
      alloc_base s' = alloc_base s \<and> alloc_pages s' = alloc_pages s \<and> reserved_count s' = reserved_count s"
    if c: "pte_refc_get s a > 1"
  proof -
    have "pte_refc s1 ?i - 1 \<noteq> 0" "pte_refc s1 ?i > 0" using c rc by (auto simp: word_less_nat_alt)
    then have "pte_refc_dec s1 a = (False, s2)" using i by (simp add: pte_refc_dec_def Let_def ix s2_def)
    with rel u t q b base show ?thesis by simp
  qed
  show "\<exists>s'. release e s a 0 = Some (True, s') \<and> buddy_inv s' L \<and>
      q_elems s' = q_elems s @ [a] \<and> \<not> page_is_used s' a \<and> page_type_get s' a = PAGE_TYPE_FREE \<and>
      alloc_base s' = alloc_base s \<and> alloc_pages s' = alloc_pages s \<and> reserved_count s' = reserved_count s"
    if c: "pte_refc_get s a = 1" and qi: "q_inv s" and room: "q_count s < QUARANTINE_MAX_CAP"
  proof -
    have "pte_refc_dec s1 a = (True, s2)" using i c rc by (simp add: pte_refc_dec_def Let_def ix s2_def)
    moreover define s3 where "s3 = snd (q_push s2 a)"
    moreover have "q_elems s3 = q_elems s2 @ [a]"
      unfolding s3_def using qi room q by (intro q_push_elems) (auto simp: q_inv_def)
    moreover have "q_push s2 a = (True, s3)" using room q(3) by (simp add: q_push_def s3_def)
    moreover have "buddy_inv s3 L"
      by (rule buddy_inv_cong [THEN iffD2, OF _ _ _ _ b]) (simp_all add: s3_def q_push_def)
    moreover have "page_is_used s3 a = page_is_used s2 a" "page_type_get s3 a = page_type_get s2 a"
      "alloc_base s3 = alloc_base s2" "alloc_pages s3 = alloc_pages s2" "reserved_count s3 = reserved_count s2"
      using room q(3) by (simp_all add: s3_def q_push_def page_is_used_def used_set_def page_type_get_def phys_to_idx_def Let_def)
    ultimately show ?thesis using rel u t q base by simp
  qed
qed

lemma buddy_inv_hdr_other:
  assumes inv: "buddy_inv s L" and fresh: "\<And>k. k \<le> MAX_ORDER \<Longrightarrow> a \<notin> set (L k)"
  shows "buddy_inv (s\<lparr>hdr := (hdr s)(a := v)\<rparr>) L"
  unfolding buddy_inv_def
proof (intro conjI)
  show "\<forall>(b, k) \<in> blocks L. block_ok (s\<lparr>hdr := (hdr s)(a := v)\<rparr>) b k \<and>
      b_magic (hdr (s\<lparr>hdr := (hdr s)(a := v)\<rparr>) b) = MAGIC \<and>
      b_order (hdr (s\<lparr>hdr := (hdr s)(a := v)\<rparr>) b) = of_nat k"
    using buddy_invD(4-6) [OF inv] fresh by (auto simp: block_ok_def top_addr_def)
  show "\<forall>k \<le> MAX_ORDER. chain (hdr (s\<lparr>hdr := (hdr s)(a := v)\<rparr>)) (free_lists (s\<lparr>hdr := (hdr s)(a := v)\<rparr>) ! k) (L k)"
    using buddy_invD(3) [OF inv] fresh by (simp add: chain_upd_other)
qed (use buddy_invD(1,2,7) [OF inv] in \<open>simp_all add: region_ok_def top_addr_def\<close>)

text \<open>The state after a page-table page was taken back from the quarantine.\<close>

lemma reclaim_state:
  assumes inv: "buddy_inv s L" and tr: "tracked s" and qi: "q_inv s" and q: "q_elems s = a # xs"
    and ok: "block_ok s a 0" and dj: "span a 0 \<inter> free_space L = {}" and rc: "pte_refc_get s a = 0"
  shows "\<exists>s1. alloc_zeroed_page s = (Some a, s1) \<and> buddy_inv s1 L \<and> tracked s1 \<and> block_ok s1 a 0 \<and>
    reserved_count s1 = reserved_count s \<and> q_elems s1 = xs \<and> pte_refc_get s1 a = 2 \<and>
    page_is_used s1 a \<and> page_type_get s1 a = PAGE_TYPE_PTE \<and> \<not> freed_set s1 a"
proof -
  define sp where "sp = pte_refc_inc (q_popped s) a"
  define sz where "sz = page_type_set (zero_page sp a) a PAGE_TYPE_PTE"
  define su where "su = untrack_freed_page (pte_refc_inc sz a) a"
  define s1 where "s1 = used_mark su (phys_to_idx su a)"
  note defs = sp_def sz_def su_def s1_def q_popped_def zero_page_def
  let ?i = "unat (phys_to_idx s a)"
  have qp: "q_pop s = (Some a, sp)" "q_elems (q_popped s) = xs"
    using q_pop_elems [of s a xs] qi q by (auto simp: q_inv_def sp_def)
  then have az: "alloc_zeroed_page s = (Some a, s1)"
    by (simp add: alloc_zeroed_page_def s1_def su_def sz_def Let_def)
  have base: "alloc_base x = alloc_base s" if "x \<in> {q_popped s, sp, sz, pte_refc_inc sz a, su, s1}" for x
    using that by (auto simp: defs)
  have ix: "phys_to_idx x = phys_to_idx s" if "x \<in> {q_popped s, sp, sz, pte_refc_inc sz a, su, s1}" for x
    using base [OF that] by (simp add: phys_to_idx_def fun_eq_iff)
  have i: "?i < MAX_REFC_PAGES" using idx_of_block(2) [OF buddy_invD(1) [OF inv] ok] tr by (simp add: tracked_def)
  have "buddy_inv (s\<lparr>hdr := (hdr s)(a := null_block)\<rparr>) L"
    using buddy_inv_hdr_other [OF inv] not_listed [OF dj] by blast
  then have "buddy_inv s1 L" by (rule buddy_inv_cong [THEN iffD2, rotated 4]) (simp_all add: defs)
  moreover have "tracked s1" "block_ok s1 a 0" "reserved_count s1 = reserved_count s"
    using tr ok by (simp_all add: tracked_def defs block_ok_def top_addr_def)
  moreover have "q_elems s1 = xs"
    by (subst qp(2) [symmetric], rule q_elems_cong)
      (simp_all add: s1_def su_def sz_def sp_def zero_page_def)
  moreover have "pte_refc_get s1 a = 2"
  proof -
    have "pte_refc sp ?i = 1" using rc i ix [of "q_popped s"]
      by (simp add: sp_def pte_refc_inc_def pte_refc_get_def Let_def q_popped_def)
    then have "pte_refc sz ?i = 1" by (simp add: sz_def zero_page_def)
    then have "pte_refc (pte_refc_inc sz a) ?i = 2" using i ix [of sz] by (simp add: pte_refc_inc_def Let_def)
    then show ?thesis using i ix [of s1] by (simp add: pte_refc_get_def Let_def s1_def su_def)
  qed
  moreover have "page_is_used s1 a"
    using used.marked [of su "phys_to_idx su a"] i ix [of s1] ix [of su]
    by (simp add: page_is_used_def used_slot_def MAX_REFC_PAGES_def s1_def)
  moreover have "page_type_get s1 a = PAGE_TYPE_PTE"
  proof -
    have "phys_to_idx (zero_page sp a) = phys_to_idx s"
      using base [of sp] by (simp add: phys_to_idx_def zero_page_def fun_eq_iff)
    then have "page_type sz ?i = PAGE_TYPE_PTE" using i by (simp add: sz_def page_type_set_def)
    then show ?thesis using i ix [of s1] by (simp add: page_type_get_def s1_def su_def)
  qed
  moreover have "\<not> freed_set s1 a"
  proof -
    have "freed_set s1 a = freed_set su a" using ix [of s1] ix [of su] by (simp add: freed_set_iff s1_def)
    then show ?thesis using freed.cleared by (simp add: su_def)
  qed
  ultimately show ?thesis using az by blast
qed

lemma free_table_page_leaks:
  assumes inv: "buddy_inv s L" and tr: "tracked s" and rc: "reserved_count s = 0" and ok: "block_ok s a 0"
    and used: "page_is_used s a" and ty: "page_type_get s a = PAGE_TYPE_PTE" and fr: "\<not> freed_set s a"
    and refc: "pte_refc_get s a > 1"
  shows "\<exists>s'. free e s a 0 = Some s' \<and> \<not> page_is_used s' a \<and> page_type_get s' a = PAGE_TYPE_FREE \<and>
    q_elems s' = q_elems s \<and> buddy_inv s' L"
proof -
  let ?s1 = "freed_mark s a"
  have m: "buddy_inv ?s1 L" "block_ok ?s1 a 0" "tracked ?s1" "page_is_used ?s1 a"
    "page_type_get ?s1 a = PAGE_TYPE_PTE" "pte_refc_get ?s1 a > 1" "q_elems ?s1 = q_elems s"
    using inv ok tr used ty refc
    by (simp_all add: tracked_def)
  from release_pte(1) [OF m(1-6), of e] obtain s' where
    r: "release e ?s1 a 0 = Some (True, s')" "buddy_inv s' L" "q_elems s' = q_elems ?s1" "\<not> page_is_used s' a"
      "page_type_get s' a = PAGE_TYPE_FREE" "alloc_base s' = alloc_base ?s1" "alloc_pages s' = alloc_pages ?s1"
    by blast
  have "tracked s'" using r(7) tr by (simp add: tracked_def)
  then obtain c w where au: "maybe_audit s' = Some (s'\<lparr>audit_counter := c, owned_by := w\<rparr>)"
    using maybe_audit_ok [OF r(2)] by blast
  let ?s2 = "s'\<lparr>audit_counter := c, owned_by := w\<rparr>"
  have "free e s a 0 = Some ?s2" using fr rc r(1) au by (simp add: free_def case_prod_beta Let_def)
  moreover have "buddy_inv ?s2 L" by (rule buddy_inv_cong [THEN iffD2, OF _ _ _ _ r(2)]) simp_all
  moreover have ix: "phys_to_idx ?s2 = phys_to_idx s'" by (simp add: phys_to_idx_def fun_eq_iff)
  moreover have "\<not> page_is_used ?s2 a"
    using r(4) ix used_set_cong [of ?s2 s'] by (simp add: page_is_used_def)
  moreover have "page_type_get ?s2 a = PAGE_TYPE_FREE"
    by (rule trans [OF _ r(5)]) (simp add: page_type_get_def phys_to_idx_def Let_def)
  moreover have "q_elems ?s2 = q_elems s" using r(3) m(7) q_elems_cong [of ?s2 s'] by simp
  ultimately show ?thesis by blast
qed

end
