(* ===== verification/Buddy_Props.thy ===== *)
theory Buddy_Props
  imports Buddy_Correct
begin

text \<open>
  The properties of the physical page allocator of \<^verbatim>\<open>src/src/memory/buddy.rs\<close>, each with a
  witness on a small concrete allocator (64 managed pages from 1 MiB, one free block).
\<close>

section \<open>A concrete allocator\<close>

definition demo :: buddy where
  "demo = push_block (init new_buddy 0x100000 64) 0x100000 2"

definition demo_env :: env where
  "demo_env = \<lparr>caller = 0x400123, ticks = 7\<rparr>"

fun alloc_seq :: "buddy \<Rightarrow> nat list \<Rightarrow> (u64 \<times> nat) list \<times> buddy" where
  "alloc_seq s [] = ([], s)"
| "alloc_seq s (k # ks) = (case alloc s k of
     (None, s1) \<Rightarrow> alloc_seq s1 ks
   | (Some a, s1) \<Rightarrow> (let (bs, s2) = alloc_seq s1 ks in ((a, k) # bs, s2)))"

definition pt_demo :: buddy where
  "pt_demo = snd (q_push demo 0x120000)"

definition pinned_demo :: buddy where
  "pinned_demo = (push_block demo 0x108000 3)\<lparr>reserved := 0x100000 # replicate 2047 0, reserved_count := 1\<rparr>"

lemmas demo_defs = demo_def push_block_def init_def new_buddy_def

lemma demo_inv: "buddy_inv demo ((\<lambda>_. [])(2 := [0x100000]))"
  and demo_alloc_inv: "alloc_inv demo {0x100000 ..< 0x104000}"
proof -
  let ?s = "init new_buddy 0x100000 64"
  have e: "buddy_inv ?s (\<lambda>_. [])"
    by (auto simp: buddy_inv_def init_def new_buddy_def region_ok_def top_addr_def disjoint_blocks_def
        blocks_def MAX_ORDER_def)
  have ok: "block_ok ?s 0x100000 2" by (simp add: block_ok_def init_def top_addr_def MAX_ORDER_def)
  have fs: "free_space (\<lambda>_. []) = {}" by (simp add: free_space_def blocks_def)
  show inv: "buddy_inv demo ((\<lambda>_. [])(2 := [0x100000]))"
    using push_block_inv [OF e ok] fs by (simp add: demo_def)
  have "free_space ((\<lambda>_. [])(2 := [0x100000])) = {0x100000 ..< 0x104000}"
    using free_space_push [of 2 "\<lambda>_. []" "0x100000"] fs by (simp add: MAX_ORDER_def span_def)
  with inv show "alloc_inv demo {0x100000 ..< 0x104000}"
    by (auto simp: alloc_inv_def demo_defs tracked_def MAX_REFC_PAGES_def)
qed

lemma demo_lists: "free_lists demo = [0, 0, 0x100000, 0, 0, 0, 0, 0, 0, 0, 0]"
  by code_simp

lemma demo_alloc: "fst (alloc demo 1) = Some 0x100000"
  by (simp add: alloc_def alloc_nolock_def demo_lists MAX_ORDER_def upt_rec is_reserved_def take_block_def Let_def)
     (simp add: demo_defs)

section \<open>Allocation and freeing\<close>

text \<open>C1: A block handed out by \<^verbatim>\<open>alloc\<close> can be freed again: \<^verbatim>\<open>free\<close> returns, and the set of free
  bytes is exactly what it was before the allocation.\<close>

theorem alloc_free_roundtrip:
  assumes "alloc_inv s F" and "alloc s k = (Some a, s1)"
  shows "\<exists>s2. free e s1 a k = Some s2 \<and> alloc_inv s2 F"
  by (rule pages.alloc_then_free [OF assms])

theorem alloc_free_roundtrip_witness:
  "\<exists>s2. free demo_env (snd (alloc demo 1)) 0x100000 1 = Some s2 \<and> alloc_inv s2 {0x100000 ..< 0x104000}"
proof -
  have "alloc demo 1 = (Some 0x100000, snd (alloc demo 1))"
    using demo_alloc by (metis prod.collapse)
  from alloc_free_roundtrip [OF demo_alloc_inv this] show ?thesis .
qed

lemma alloc_seq_many: "alloc_seq s ks = pages.alloc_many s ks"
  by (induction s ks rule: alloc_seq.induct) (auto split: prod.splits option.splits)

text \<open>C2: However many blocks of whatever orders are allocated in a row, no two of them overlap, all
  of them come from memory that was free before, and what stays free is exactly the rest.\<close>

theorem alloc_seq_disjoint:
  assumes "alloc_inv s F" and "alloc_seq s ks = (bs, s')"
  shows "alloc_inv s' (F - (\<Union>(a, k) \<in> set bs. span a k)) \<and> (\<Union>(a, k) \<in> set bs. span a k) \<subseteq> F \<and>
    pairwise (\<lambda>i j. span (fst (bs ! i)) (snd (bs ! i)) \<inter> span (fst (bs ! j)) (snd (bs ! j)) = {})
      {..<length bs}"
  using pages.alloc_many_disjoint [OF assms(1)] assms(2) by (simp add: alloc_seq_many)

theorem alloc_seq_disjoint_witness:
  "alloc_inv (snd (alloc_seq demo [1, 0, 0]))
     ({0x100000 ..< 0x104000} - (\<Union>(a, k) \<in> set (fst (alloc_seq demo [1, 0, 0])). span a k))"
  using alloc_seq_disjoint [OF demo_alloc_inv, of "[1, 0, 0]" "fst (alloc_seq demo [1, 0, 0])"
      "snd (alloc_seq demo [1, 0, 0])"] by simp

text \<open>C3: Freeing a block that is not free (\<^verbatim>\<open>free_one\<close>, with its merging of buddies) returns, keeps the
  free lists well formed (acyclic, headers valid, blocks aligned, inside the managed range and
  pairwise disjoint), and adds exactly the bytes of the block to the free space.\<close>

theorem free_one_exact:
  assumes "buddy_inv s L" and "block_ok s a k" and "span a k \<inter> free_space L = {}"
  shows "\<exists>s' L'. free_one s a k = Some s' \<and> buddy_inv s' L' \<and> free_space L' = free_space L \<union> span a k"
  using free_one_inv [OF assms] by blast

theorem free_one_exact_witness:
  "\<exists>s' L'. free_one demo 0x104000 2 = Some s' \<and> buddy_inv s' L' \<and>
     free_space L' = free_space ((\<lambda>_. [])(2 := [0x100000])) \<union> span 0x104000 2"
proof -
  have "block_ok demo 0x104000 2" by (simp add: block_ok_def demo_defs top_addr_def MAX_ORDER_def)
  moreover have "span 0x104000 2 \<inter> free_space ((\<lambda>_. [])(2 := [0x100000])) = {}"
    using free_space_push [of 2 "\<lambda>_. []" "0x100000"] by (simp add: MAX_ORDER_def span_def free_space_def blocks_def)
  ultimately show ?thesis using free_one_exact [OF demo_inv] by blast
qed

text \<open>C4: With nothing reserved, \<^verbatim>\<open>alloc\<close> fails only when no block of the requested order or a larger one is
  free, and a failed call changes nothing.\<close>

theorem alloc_fails_only_when_exhausted:
  assumes "alloc_inv s F" and "buddy_inv s L" and "alloc s k = (None, s')"
  shows "s' = s \<and> (\<forall>j. k \<le> j \<and> j \<le> MAX_ORDER \<longrightarrow> L j = [])"
  using alloc_fail [OF assms(1,3)] assms(2) by blast

theorem alloc_fails_only_when_exhausted_witness:
  "fst (alloc demo 3) = None \<and> snd (alloc demo 3) = demo"
proof -
  have none: "fst (alloc demo 3) = None"
    by (simp add: alloc_def alloc_nolock_def demo_defs MAX_ORDER_def upt_rec)
  then have "alloc demo 3 = (None, snd (alloc demo 3))" by (metis prod.collapse)
  from alloc_fails_only_when_exhausted [OF demo_alloc_inv demo_inv this] none show ?thesis by simp
qed

text \<open>C5: A second \<^verbatim>\<open>free\<close> of the same page without an allocation in between does nothing, whatever order it
  names: the allocator state is the one the first \<^verbatim>\<open>free\<close> left.\<close>

theorem double_free_ignored:
  assumes "alloc_inv s F" and "allocated s a k" and "span a k \<inter> F = {}"
  shows "\<exists>s'. free e s a k = Some s' \<and> alloc_inv s' (F \<union> span a k) \<and> free e' s' a j = Some s'"
proof -
  obtain s' where s': "free e s a k = Some s'" "alloc_inv s' (F \<union> span a k)" "freed_set s' a"
    using free_data [OF assms] by blast
  then have "track_freed_page s' a = (True, s')"
    by (auto simp: track_freed_page_def split: option.splits if_splits)
  with s' show ?thesis by (simp add: free_def)
qed

theorem double_free_ignored_witness:
  "\<exists>s'. free demo_env (snd (alloc demo 1)) 0x100000 1 = Some s' \<and>
     alloc_inv s' ({0x100000 ..< 0x104000} - span 0x100000 1 \<union> span 0x100000 1) \<and>
     free demo_env s' 0x100000 0 = Some s'"
proof -
  have "alloc demo 1 = (Some 0x100000, snd (alloc demo 1))"
    using demo_alloc by (metis prod.collapse)
  note d = alloc_data [OF demo_alloc_inv this]
  from double_free_ignored [OF d(2,3)] show ?thesis by blast
qed

text \<open>The consistency audit never reports a false overlap: on a state with well-formed free lists it
  returns true and changes nothing but its own ownership table.\<close>

lemma audit_accepts_well_formed:
  assumes "buddy_inv s L" and "tracked s"
  shows "\<exists>s'. audit_free_lists s = Some (True, s') \<and> s' = s\<lparr>owned_by := owned_by s'\<rparr>"
  by (rule audit_ok [OF assms])

lemma audit_accepts_well_formed_witness:
  "\<exists>s'. audit_free_lists demo = Some (True, s') \<and> s' = demo\<lparr>owned_by := owned_by s'\<rparr>"
  by (rule audit_accepts_well_formed [OF demo_inv])
     (simp add: tracked_def demo_defs MAX_REFC_PAGES_def)

text \<open>C6: Registering a page-aligned region that is not free yet (\<^verbatim>\<open>add_region\<close>, with its greedy choice of
  block orders) ends, keeps the free lists well formed, and makes exactly that region free.\<close>

theorem add_region_exact:
  assumes "buddy_inv s L" and "4096 dvd unat a" and "4096 dvd unat z" and "unat (alloc_base s) \<le> unat a"
    and "unat a + unat z \<le> top_addr s" and "{unat a ..< unat a + unat z} \<inter> free_space L = {}"
  shows "\<exists>s' L'. add_region s a z = Some s' \<and> buddy_inv s' L' \<and>
    free_space L' = free_space L \<union> {unat a ..< unat a + unat z}"
  by (rule add_region_ok [OF assms])

theorem add_region_exact_witness:
  "\<exists>s' L'. add_region demo 0x105000 0x7000 = Some s' \<and> buddy_inv s' L' \<and>
     free_space L' = free_space ((\<lambda>_. [])(2 := [0x100000])) \<union> {0x105000 ..< 0x10c000}"
proof -
  have "free_space ((\<lambda>_. [])(2 := [0x100000])) = {0x100000 ..< 0x104000}"
    using free_space_push [of 2 "\<lambda>_. []" "0x100000"] by (simp add: MAX_ORDER_def span_def free_space_def blocks_def)
  then show ?thesis
    using add_region_exact [OF demo_inv, of "0x105000" "0x7000"] by (simp add: demo_defs top_addr_def)
qed

section \<open>Quarantine and page-table pages\<close>

text \<open>C7: The quarantine ring is a first-in-first-out queue of 1024 pages: a push appends at the end or is
  refused when the ring is full, and a pop returns the oldest page and removes exactly it, across
  every wrap-around of the ring indices.\<close>

theorem quarantine_is_fifo:
  assumes "q_inv s" and "q_ok s a"
  shows "\<exists>s1. q_push s a = (length (q_elems s) < 1024, s1) \<and> q_inv s1 \<and>
      q_elems s1 = (if length (q_elems s) < 1024 then q_elems s @ [a] else q_elems s) \<and>
      (\<exists>s2. q_pop s1 = (Some (hd (q_elems s1)), s2) \<and> q_inv s2 \<and> q_elems s2 = tl (q_elems s1))"
proof -
  obtain s1 where s1: "q_push s a = (length (q_elems s) < 1024, s1)" "q_inv s1"
    "q_elems s1 = (if length (q_elems s) < 1024 then q_elems s @ [a] else q_elems s)"
    using quarantine.push_room [OF assms] quarantine.push_full [OF assms(1), of a]
    by (cases "length (q_elems s) < 1024") (auto simp: QUARANTINE_MAX_CAP_def)
  then have "q_elems s1 \<noteq> []" by (auto simp del: q_elems_length)
  then have xs: "q_elems s1 = hd (q_elems s1) # tl (q_elems s1)" by simp
  obtain s2 where "q_pop s1 = (Some (hd (q_elems s1)), s2)" "q_inv s2" "q_elems s2 = tl (q_elems s1)"
    using quarantine.pop_cons [OF s1(2) xs] by blast
  with s1 show ?thesis by blast
qed

theorem quarantine_is_fifo_witness:
  "\<exists>s1. q_push demo 0x120000 = (length (q_elems demo) < 1024, s1) \<and> q_inv s1 \<and>
      q_elems s1 = (if length (q_elems demo) < 1024 then q_elems demo @ [0x120000] else q_elems demo) \<and>
      (\<exists>s2. q_pop s1 = (Some (hd (q_elems s1)), s2) \<and> q_inv s2 \<and> q_elems s2 = tl (q_elems s1))"
  by (rule quarantine_is_fifo)
     (simp_all add: q_inv_def q_elems_def q_ok_def demo_defs QUARANTINE_MAX_CAP_def PAGE_SIZE_def)

text \<open>A page-table page that is taken back from the quarantine by \<^verbatim>\<open>alloc_zeroed_page\<close> comes out with
  reference count 2 (both \<^verbatim>\<open>q_pop\<close> and \<^verbatim>\<open>alloc_zeroed_page\<close> count it), so the next \<^verbatim>\<open>free\<close> of
  it only drops the count to 1: the page is marked unused and free, but it is in neither the quarantine
  nor the free lists, and is lost.\<close>

lemma reclaimed_table_page_leaks:
  assumes "buddy_inv s L" and "tracked s" and "reserved_count s = 0" and "q_inv s"
    and "q_elems s = a # xs" and "block_ok s a 0" and "span a 0 \<inter> free_space L = {}"
    and "a \<notin> set xs" and "pte_refc_get s a = 0"
  shows "\<exists>s1 s2. alloc_zeroed_page s = (Some a, s1) \<and> pte_refc_get s1 a = 2 \<and>
    free e s1 a 0 = Some s2 \<and> \<not> page_is_used s2 a \<and> page_type_get s2 a = PAGE_TYPE_FREE \<and>
    a \<notin> set (q_elems s2) \<and> (\<exists>L'. buddy_inv s2 L' \<and> span a 0 \<inter> free_space L' = {})"
proof -
  obtain s1 where s1: "alloc_zeroed_page s = (Some a, s1)" "buddy_inv s1 L" "tracked s1" "block_ok s1 a 0"
    "reserved_count s1 = 0" "q_elems s1 = xs" "pte_refc_get s1 a = 2" "page_is_used s1 a"
    "page_type_get s1 a = PAGE_TYPE_PTE" "\<not> freed_set s1 a"
    using reclaim_state [OF assms(1,2,4-7,9)] assms(3) by auto
  have "pte_refc_get s1 a > 1" using s1(7) by simp
  from free_table_page_leaks [OF s1(2,3,5,4,8,9,10) this, of e] obtain s2 where
    s2: "free e s1 a 0 = Some s2" "\<not> page_is_used s2 a" "page_type_get s2 a = PAGE_TYPE_FREE"
      "q_elems s2 = q_elems s1" "buddy_inv s2 L"
    by blast
  show ?thesis
    by (intro exI [of _ s1] exI [of _ s2] conjI exI [of _ L] s1(1,7) s2(1-3,5) assms(7)) (simp add: s2(4) s1(6) assms(8))
qed

lemma reclaimed_table_page_leaks_witness:
  "\<exists>s1 s2. alloc_zeroed_page pt_demo = (Some 0x120000, s1) \<and> pte_refc_get s1 0x120000 = 2 \<and>
    free demo_env s1 0x120000 0 = Some s2 \<and> \<not> page_is_used s2 0x120000 \<and>
    page_type_get s2 0x120000 = PAGE_TYPE_FREE \<and> 0x120000 \<notin> set (q_elems s2) \<and>
    (\<exists>L'. buddy_inv s2 L' \<and> span 0x120000 0 \<inter> free_space L' = {})"
proof (rule reclaimed_table_page_leaks [where xs = "[]"])
  show "buddy_inv pt_demo ((\<lambda>_. [])(2 := [0x100000]))"
    by (rule buddy_inv_cong [THEN iffD2, OF _ _ _ _ demo_inv]) (simp_all add: pt_demo_def q_push_def)
  show "span 0x120000 0 \<inter> free_space ((\<lambda>_. [])(2 := [0x100000])) = {}"
    using free_space_push [of 2 "\<lambda>_. []" "0x100000"] by (simp add: MAX_ORDER_def span_def free_space_def blocks_def)
qed (simp_all add: pt_demo_def q_push_def demo_defs tracked_def MAX_REFC_PAGES_def q_inv_def q_elems_def q_index_def
      q_ok_def QUARANTINE_MAX_CAP_def PAGE_SIZE_def block_ok_def top_addr_def MAX_ORDER_def pte_refc_get_def Let_def)

end
