(* ===== verification/Xattr.thy ===== *)
theory Xattr
  imports Interfaces "HOL-Library.Monad_Syntax" "HOL-Library.Multiset"
begin

text \<open>
  The extended attributes of an inode, \<^verbatim>\<open>src/src/vfs_core/xattr.rs\<close>: a fixed table of 16 name entries per
  inode (\<^verbatim>\<open>XattrBlock\<close>) and the registry of namespace handlers (\<^verbatim>\<open>XattrManager\<close>). An outer \<open>None\<close> is a call that
  panics on an out-of-range index or slice; \<open>Inl\<close> is the error string the code returns. The table is an
  interpretation of \<open>bounded_map\<close>, from attribute names to value lengths.
\<close>

section \<open>Model\<close>

definition XATTR_NAME_MAX :: nat where "XATTR_NAME_MAX = 255"
definition XATTR_SIZE_MAX :: nat where "XATTR_SIZE_MAX = 65536"
definition MAX_XATTR_PER_INODE :: nat where "MAX_XATTR_PER_INODE = 16"

record xattr_entry =
  xe_name :: bytes
  name_len :: u16
  value_len :: u32
  value_off :: u32

record xattr_block =
  xentries :: "xattr_entry list"
  xcount :: u16
  data_block :: u64

definition xattr_entry_empty :: xattr_entry where
  "xattr_entry_empty = \<lparr>xe_name = replicate XATTR_NAME_MAX 0, name_len = 0, value_len = 0, value_off = 0\<rparr>"

definition xattr_block_empty :: xattr_block where
  "xattr_block_empty = \<lparr>xentries = replicate MAX_XATTR_PER_INODE xattr_entry_empty, xcount = 0, data_block = 0\<rparr>"

definition slice_to :: "'a list \<Rightarrow> nat \<Rightarrow> 'a list option" where
  "slice_to xs n = (if n \<le> length xs then Some (take n xs) else None)"

definition xattr_match :: "xattr_entry \<Rightarrow> bytes \<Rightarrow> bool option" where
  "xattr_match e nm =
     (if unat (name_len e) = length nm
      then map_option (\<lambda>ename. ename = nm) (slice_to (xe_name e) (unat (name_len e)))
      else Some False)"

fun xattr_scan :: "xattr_entry list \<Rightarrow> bytes \<Rightarrow> nat list \<Rightarrow> nat option option" where
  "xattr_scan es nm [] = Some None"
| "xattr_scan es nm (i # is) =
     do { e \<leftarrow> arr_get es i;
          hit \<leftarrow> xattr_match e nm;
          if hit then Some (Some i) else xattr_scan es nm is }"

definition xattr_find :: "xattr_block \<Rightarrow> bytes \<Rightarrow> nat option option" where
  "xattr_find b nm = xattr_scan (xentries b) nm [0..<unat (xcount b)]"

definition xattr_set :: "xattr_block \<Rightarrow> bytes \<Rightarrow> bytes \<Rightarrow> ((string + nat) \<times> xattr_block) option" where
  "xattr_set b nm val =
     (if length nm > XATTR_NAME_MAX then Some (Inl ''xattr name too long'', b)
      else if length val > XATTR_SIZE_MAX then Some (Inl ''xattr value too long'', b)
      else do {
        r \<leftarrow> xattr_find b nm;
        case r of
          Some idx \<Rightarrow>
            Some (Inr idx, b\<lparr>xentries := (xentries b)[idx := (xentries b ! idx)\<lparr>value_len := of_nat (length val)\<rparr>]\<rparr>)
        | None \<Rightarrow>
            if unat (xcount b) \<ge> MAX_XATTR_PER_INODE then Some (Inl ''xattr table full'', b)
            else do {
              e \<leftarrow> arr_get (xentries b) (unat (xcount b));
              Some (Inr (unat (xcount b)),
                b\<lparr>xentries := (xentries b)[unat (xcount b) :=
                     e\<lparr>name_len := of_nat (length nm), value_len := of_nat (length val),
                       xe_name := nm @ drop (length nm) (xe_name e)\<rparr>],
                  xcount := xcount b + 1\<rparr>) } })"

definition xattr_get :: "xattr_block \<Rightarrow> bytes \<Rightarrow> xattr_entry option option" where
  "xattr_get b nm = map_option (map_option (\<lambda>i. xentries b ! i)) (xattr_find b nm)"

definition xattr_remove :: "xattr_block \<Rightarrow> bytes \<Rightarrow> (bool \<times> xattr_block) option" where
  "xattr_remove b nm =
     do { r \<leftarrow> xattr_find b nm;
          case r of
            Some idx \<Rightarrow>
              (let lst = unat (xcount b) - 1
               in Some (True, b\<lparr>xentries := (xentries b)[idx := xentries b ! lst, lst := xattr_entry_empty],
                                xcount := xcount b - 1\<rparr>))
          | None \<Rightarrow> Some (False, b) }"

text \<open>The registry of namespace handlers; a handler is code of the caller, a function of its arguments.\<close>

type_synonym xattr_handler = "u64 \<Rightarrow> bytes \<Rightarrow> bytes \<Rightarrow> (string + nat) \<times> bytes"

record xattr_manager =
  handlers :: "(xattr_handler \<times> bytes) option list"
  hcount :: nat

definition xattr_manager_new :: xattr_manager where
  "xattr_manager_new = \<lparr>handlers = replicate 8 None, hcount = 0\<rparr>"

definition xattr_register :: "xattr_manager \<Rightarrow> bytes \<Rightarrow> xattr_handler \<Rightarrow> (string + unit) \<times> xattr_manager" where
  "xattr_register m prefix h =
     (if hcount m \<ge> 8 then (Inl ''xattr handler table full'', m)
      else (Inr (), m\<lparr>handlers := (handlers m)[hcount m := Some (h, prefix)], hcount := hcount m + 1\<rparr>))"

fun xattr_dispatch :: "(xattr_handler \<times> bytes) option list \<Rightarrow> bytes \<Rightarrow> bytes \<Rightarrow> u64 \<Rightarrow> (string + nat) \<times> bytes" where
  "xattr_dispatch [] full_name val ino = (Inl ''no handler for xattr namespace'', val)"
| "xattr_dispatch (None # hs) full_name val ino = xattr_dispatch hs full_name val ino"
| "xattr_dispatch (Some (h, prefix) # hs) full_name val ino =
     (if take (length prefix) full_name = prefix then h ino (drop (length prefix) full_name) val
      else xattr_dispatch hs full_name val ino)"

definition xattr_handle :: "xattr_manager \<Rightarrow> bytes \<Rightarrow> bytes \<Rightarrow> u64 \<Rightarrow> (string + nat) \<times> bytes" where
  "xattr_handle m full_name val ino = xattr_dispatch (take (hcount m) (handlers m)) full_name val ino"

section \<open>The table as a map\<close>

definition xa_key :: "xattr_entry \<Rightarrow> bytes" where
  "xa_key e = take (unat (name_len e)) (xe_name e)"

definition xa_live :: "xattr_block \<Rightarrow> xattr_entry list" where
  "xa_live b = take (unat (xcount b)) (xentries b)"

definition xa_ok :: "xattr_entry \<Rightarrow> bool" where
  "xa_ok e \<longleftrightarrow> length (xe_name e) = XATTR_NAME_MAX \<and> unat (name_len e) \<le> XATTR_NAME_MAX \<and>
     unat (value_len e) \<le> XATTR_SIZE_MAX"

definition xa_inv :: "xattr_block \<Rightarrow> bool" where
  "xa_inv b \<longleftrightarrow> length (xentries b) = MAX_XATTR_PER_INODE \<and> unat (xcount b) \<le> MAX_XATTR_PER_INODE \<and>
     (\<forall>e \<in> set (xentries b). xa_ok e) \<and> distinct (map xa_key (xa_live b))"

definition xa_view :: "xattr_block \<Rightarrow> bytes \<Rightarrow> nat option" where
  "xa_view b = map_of (map (\<lambda>e. (xa_key e, unat (value_len e))) (xa_live b))"

lemma map_of_find_index:
  "map_of (map (\<lambda>e. (key e, v e)) xs) x = map_option (\<lambda>i. v (xs ! (i - j))) (find_from (\<lambda>e. key e = x) j xs)"
proof (induction xs arbitrary: j)
  case (Cons e xs)
  have "map_option (\<lambda>i. v (xs ! (i - Suc j))) (find_from (\<lambda>e. key e = x) (Suc j) xs) =
      map_option (\<lambda>i. v ((e # xs) ! (i - j))) (find_from (\<lambda>e. key e = x) (Suc j) xs)"
    by (cases "find_from (\<lambda>e. key e = x) (Suc j) xs") (auto dest!: find_from_Some simp: nth_Cons' Suc_le_eq)
  with Cons [of "Suc j"] show ?case by simp
qed simp

lemma swap_remove:
  assumes "i < length xs"
  shows "mset (butlast (xs[i := last xs])) = mset (remove1 (xs ! i) xs)"
proof -
  have ne: "xs \<noteq> []" using assms by auto
  let ?ys = "xs[i := last xs]"
  have ys: "?ys \<noteq> []" "last ?ys = last xs" using ne by (auto simp: last_conv_nth) (metis Suc_pred assms length_greater_0_conv lessI nth_list_update_eq nth_list_update_neq One_nat_def)
  have "add_mset (last xs) (mset (butlast ?ys)) = mset ?ys"
    using ys append_butlast_last_id [OF ys(1)] by (metis add.right_neutral mset.simps(2) mset_append union_mset_add_mset_right mset.simps(1))
  also have "\<dots> = add_mset (last xs) (mset xs - {#xs ! i#})" using assms by (rule mset_update)
  finally show ?thesis by simp
qed

lemma xa_match_key: "xa_ok e \<Longrightarrow> xattr_match e nm = Some (xa_key e = nm)"
  by (auto simp: xattr_match_def xa_key_def xa_ok_def slice_to_def)

lemma xattr_scan_find:
  "\<forall>e \<in> set es. xa_ok e \<Longrightarrow> n \<le> length es \<Longrightarrow> j \<le> n \<Longrightarrow>
     xattr_scan es nm [j..<n] = Some (find_from (\<lambda>e. xa_key e = nm) j (drop j (take n es)))"
proof (induction "n - j" arbitrary: j)
  case (Suc d)
  then have j: "j < n" "[j..<n] = j # [Suc j..<n]" by (auto simp: upt_conv_Cons)
  have "drop j (take n es) = es ! j # drop (Suc j) (take n es)"
    using j Suc.prems by (simp add: Cons_nth_drop_Suc [symmetric])
  moreover have "xa_ok (es ! j)" using Suc.prems j by simp
  ultimately show ?case using Suc.hyps(1) [of "Suc j"] Suc j by (simp add: xa_match_key)
qed simp

lemma xattr_find_live: "xa_inv b \<Longrightarrow> xattr_find b nm = Some (find_index (\<lambda>e. xa_key e = nm) (xa_live b))"
  unfolding xattr_find_def xa_live_def
  by (subst xattr_scan_find) (auto simp: xa_inv_def)

lemma xa_view_find:
  "xa_view b nm = map_option (\<lambda>i. unat (value_len (xa_live b ! i))) (find_index (\<lambda>e. xa_key e = nm) (xa_live b))"
  using map_of_find_index [where j = 0] by (simp add: xa_view_def)

lemma xa_dom: "dom (xa_view b) = xa_key ` set (xa_live b)"
  by (force simp: xa_view_def dom_map_of_conv_image_fst)

lemma xa_card: "xa_inv b \<Longrightarrow> card (dom (xa_view b)) = unat (xcount b)"
proof -
  assume inv: "xa_inv b"
  then have "card (set (map xa_key (xa_live b))) = length (xa_live b)"
    by (metis distinct_card length_map xa_inv_def)
  with inv show ?thesis by (simp add: xa_dom xa_live_def xa_inv_def)
qed

lemma xa_find_bound:
  assumes "xa_inv b" and "find_index (\<lambda>e. xa_key e = nm) (xa_live b) = Some i"
  shows "i < unat (xcount b)" and "i < length (xentries b)" and "xa_key (xentries b ! i) = nm"
    and "xa_live b ! i = xentries b ! i"
  using find_index_Some [OF assms(2)] assms(1) by (auto simp: xa_live_def xa_inv_def)

text \<open>Overwriting a known attribute changes its length only; a new one is appended behind the live entries.\<close>

lemma xattr_set_known:
  assumes inv: "xa_inv b" and f: "find_index (\<lambda>e. xa_key e = nm) (xa_live b) = Some i"
    and len: "length nm \<le> XATTR_NAME_MAX" "length val \<le> XATTR_SIZE_MAX"
  shows "\<exists>b'. xattr_set b nm val = Some (Inr i, b') \<and> xa_inv b' \<and> xa_view b' = (xa_view b)(nm \<mapsto> length val)"
proof -
  let ?e = "(xentries b ! i)\<lparr>value_len := of_nat (length val)\<rparr>"
  define b' where "b' = b\<lparr>xentries := (xentries b)[i := ?e]\<rparr>"
  note bd = xa_find_bound [OF inv f]
  have live: "xa_live b' = (xa_live b)[i := ?e]" by (simp add: xa_live_def b'_def take_update_swap)
  have key: "xa_key ?e = nm" using bd(3) by (simp add: xa_key_def)
  have keys: "map xa_key (xa_live b') = map xa_key (xa_live b)"
    using bd key by (simp add: live map_update list_update_same_conv)
      (metis length_map list_update_id bd(3) nth_map xa_live_def length_take min_less_iff_conj)
  have "unat (of_nat (length val) :: u32) = length val"
    using len(2) by (simp add: XATTR_SIZE_MAX_def unat_of_nat_lt)
  then have ok: "xa_ok ?e" and v: "unat (value_len ?e) = length val"
    using inv len(2) bd(2) by (auto simp: xa_inv_def xa_ok_def)
  have "xa_inv b'"
    using inv ok keys by (auto simp: xa_inv_def b'_def dest!: set_update_subset_insert [THEN subsetD])
  moreover have "xa_view b' = (xa_view b)(nm \<mapsto> length val)"
  proof
    fix x
    have il: "i < length (xa_live b)" using bd inv by (simp add: xa_live_def xa_inv_def)
    have fi: "find_index (\<lambda>e. xa_key e = x) (xa_live b') = find_index (\<lambda>e. xa_key e = x) (xa_live b)" for x
      using keys find_index_map [of "\<lambda>k. k = x" xa_key] by metis
    show "xa_view b' x = ((xa_view b)(nm \<mapsto> length val)) x"
    proof (cases "x = nm")
      case True
      then show ?thesis using f fi v il by (simp add: xa_view_find live)
    next
      case False
      then have "j \<noteq> i" if "find_index (\<lambda>e. xa_key e = x) (xa_live b) = Some j" for j
        using that bd find_index_Some [OF that] by auto
      then show ?thesis using False fi by (cases "find_index (\<lambda>e. xa_key e = x) (xa_live b)") (auto simp: xa_view_find live)
    qed
  qed
  ultimately show ?thesis using len f by (auto simp: xattr_set_def xattr_find_live [OF inv] b'_def)
qed

lemma xattr_set_new:
  assumes inv: "xa_inv b" and f: "find_index (\<lambda>e. xa_key e = nm) (xa_live b) = None"
    and len: "length nm \<le> XATTR_NAME_MAX" "length val \<le> XATTR_SIZE_MAX"
    and room: "unat (xcount b) < MAX_XATTR_PER_INODE"
  shows "\<exists>b'. xattr_set b nm val = Some (Inr (unat (xcount b)), b') \<and> xa_inv b' \<and>
    xa_view b' = (xa_view b)(nm \<mapsto> length val)"
proof -
  let ?n = "unat (xcount b)"
  let ?e = "(xentries b ! ?n)\<lparr>name_len := of_nat (length nm), value_len := of_nat (length val),
    xe_name := nm @ drop (length nm) (xe_name (xentries b ! ?n))\<rparr>"
  define b' where "b' = b\<lparr>xentries := (xentries b)[?n := ?e], xcount := xcount b + 1\<rparr>"
  have n: "?n < length (xentries b)" using inv room by (simp add: xa_inv_def)
  have cnt: "unat (xcount b + 1) = ?n + 1"
    using room by (subst unat_inc) (simp_all add: MAX_XATTR_PER_INODE_def)
  have live: "xa_live b' = xa_live b @ [?e]"
    using n cnt by (simp add: xa_live_def b'_def take_Suc_conv_app_nth take_update_cancel)
  have w: "unat (of_nat (length val) :: u32) = length val" "unat (of_nat (length nm) :: u16) = length nm"
    using len by (simp_all add: XATTR_SIZE_MAX_def XATTR_NAME_MAX_def unat_of_nat_lt)
  have key: "xa_key ?e = nm" using w by (simp add: xa_key_def)
  have "xa_ok (xentries b ! ?n)" using inv n by (auto simp: xa_inv_def)
  then have ok: "xa_ok ?e" using w len by (simp add: xa_ok_def)
  have fresh: "nm \<notin> xa_key ` set (xa_live b)" using f by (auto simp: find_from_None)
  have dst: "distinct (map xa_key (xa_live b))" using inv by (simp add: xa_inv_def)
  have "\<forall>e \<in> set (xentries b'). xa_ok e"
    using inv ok by (auto simp: xa_inv_def b'_def dest!: set_update_subset_insert [THEN subsetD])
  then have "xa_inv b'"
    using inv key fresh dst room cnt live unfolding xa_inv_def by (simp add: b'_def MAX_XATTR_PER_INODE_def)
  moreover have "xa_view b' = (xa_view b)(nm \<mapsto> length val)"
  proof -
    have "xa_view b nm = None" using fresh xa_dom by blast
    then show ?thesis using key w unfolding xa_view_def live
      by (auto simp: map_add_def fun_eq_iff split: option.split)
  qed
  ultimately show ?thesis
    using len f room n by (auto simp: xattr_set_def xattr_find_live [OF inv] b'_def)
qed

lemma xattr_set_full:
  assumes "xa_inv b" and "find_index (\<lambda>e. xa_key e = nm) (xa_live b) = None"
    and "length nm \<le> XATTR_NAME_MAX" "length val \<le> XATTR_SIZE_MAX" and "unat (xcount b) \<ge> MAX_XATTR_PER_INODE"
  shows "xattr_set b nm val = Some (Inl ''xattr table full'', b)"
  using assms by (simp add: xattr_set_def xattr_find_live)

lemma xattr_remove_spec:
  assumes inv: "xa_inv b"
  shows "\<exists>b'. xattr_remove b nm = Some (xa_view b nm \<noteq> None, b') \<and> xa_inv b' \<and> xa_view b' = (xa_view b)(nm := None)"
proof (cases "find_index (\<lambda>e. xa_key e = nm) (xa_live b)")
  case None
  then have "xa_view b nm = None" by (simp add: xa_view_find)
  with None inv show ?thesis by (simp add: xattr_remove_def xattr_find_live fun_upd_idem)
next
  case (Some i)
  note bd = xa_find_bound [OF inv Some]
  let ?l = "unat (xcount b) - 1"
  define b' where "b' = b\<lparr>xentries := (xentries b)[i := xentries b ! ?l, ?l := xattr_entry_empty], xcount := xcount b - 1\<rparr>"
  have l: "?l < length (xentries b)" "?l < unat (xcount b)" using bd(1) inv by (auto simp: xa_inv_def)
  have "xcount b \<noteq> 0" using bd(1) by auto
  then have cnt: "unat (xcount b - 1) = ?l" by (simp add: unat_minus_one)
  have il: "i < length (xa_live b)" and ll: "length (xa_live b) = unat (xcount b)"
    using bd inv by (auto simp: xa_live_def xa_inv_def)
  have last: "last (xa_live b) = xentries b ! ?l" 
  proof -
    have "xa_live b \<noteq> []" using il by auto
    then show ?thesis using l(2) by (simp add: last_conv_nth ll) (simp add: xa_live_def)
  qed
  have live: "xa_live b' = butlast ((xa_live b)[i := last (xa_live b)])"
    using l ll unfolding last
    by (simp add: xa_live_def b'_def cnt butlast_conv_take take_update_swap list_update_beyond)
  then have ms: "mset (xa_live b') = mset (remove1 (xa_live b ! i) (xa_live b))" using swap_remove [OF il] by simp
  let ?r = "remove1 (xa_live b ! i) (xa_live b)"
  have dst: "distinct (map xa_key (xa_live b))" using inv by (simp add: xa_inv_def)
  then have dl: "distinct (xa_live b)" by (simp add: distinct_map)
  have dr: "distinct (map xa_key ?r)" using dst by (metis distinct_map distinct_remove1 inj_on_subset notin_set_remove1 subsetI)
  have keys: "distinct (map xa_key (xa_live b'))" using dr ms by (metis mset_eq_imp_distinct_iff mset_map)
  have "xa_ok xattr_entry_empty" by (simp add: xa_ok_def xattr_entry_empty_def XATTR_NAME_MAX_def)
  then have "xa_inv b'" using inv keys cnt l
    by (auto simp: xa_inv_def b'_def dest!: set_update_subset_insert [THEN subsetD])
  moreover have "xa_view b' = (xa_view b)(nm := None)"
  proof (rule ext)
    fix x
    have mem: "xa_view c x = Some v \<longleftrightarrow> (\<exists>e \<in> set (xa_live c). xa_key e = x \<and> unat (value_len e) = v)"
      if "distinct (map xa_key (xa_live c))" for c v
      using that by (force simp: xa_view_def map_of_eq_Some_iff comp_def)
    have set: "set (xa_live b') = set (xa_live b) - {xa_live b ! i}"
      using ms dl by (metis mset_eq_setD set_remove1_eq)
    have uniq: "e = xa_live b ! i" if "e \<in> set (xa_live b)" "xa_key e = nm" for e
      using that dst il bd(3,4) by (metis distinct_map inj_onD nth_mem)
    have "xa_view b' x = Some v \<longleftrightarrow> ((xa_view b)(nm := None)) x = Some v" for v
      using mem [OF keys] mem [OF dst] set uniq bd(3,4) by auto
    then show "xa_view b' x = ((xa_view b)(nm := None)) x" by (metis not_Some_eq)
  qed
  moreover have "xa_view b nm \<noteq> None" using Some by (simp add: xa_view_find)
  ultimately show ?thesis using Some by (auto simp: xattr_remove_def xattr_find_live [OF inv] b'_def Let_def)
qed

definition xa_put :: "xattr_block \<Rightarrow> bytes \<Rightarrow> bytes \<Rightarrow> bool \<times> xattr_block" where
  "xa_put b nm val = (case xattr_set b nm val of Some (Inr _, b') \<Rightarrow> (True, b') | Some (Inl _, b') \<Rightarrow> (False, b') | None \<Rightarrow> (False, b))"

definition xa_del :: "xattr_block \<Rightarrow> bytes \<Rightarrow> bool \<times> xattr_block" where
  "xa_del b nm = the (xattr_remove b nm)"

definition xa_fits :: "bytes \<Rightarrow> bytes \<Rightarrow> bool" where
  "xa_fits nm val \<longleftrightarrow> length nm \<le> XATTR_NAME_MAX \<and> length val \<le> XATTR_SIZE_MAX"

interpretation xattrs: bounded_map xa_inv xa_view length xa_fits MAX_XATTR_PER_INODE xa_put xa_del
proof
  fix b nm val
  assume inv: "xa_inv b"
  show "finite (dom (xa_view b)) \<and> card (dom (xa_view b)) \<le> MAX_XATTR_PER_INODE"
    using inv xa_card [OF inv] by (simp add: xa_dom xa_inv_def)
  show "\<exists>s'. xa_del b nm = (xa_view b nm \<noteq> None, s') \<and> xa_inv s' \<and> xa_view s' = (xa_view b)(nm := None)"
    using xattr_remove_spec [OF inv, of nm] by (auto simp: xa_del_def)
  assume fits: "xa_fits nm val"
  show "\<exists>s'. xa_put b nm val = (True, s') \<and> xa_inv s' \<and> xa_view s' = (xa_view b)(nm \<mapsto> length val)"
    if "xa_view b nm \<noteq> None \<or> card (dom (xa_view b)) < MAX_XATTR_PER_INODE"
  proof (cases "find_index (\<lambda>e. xa_key e = nm) (xa_live b)")
    case None
    then have "xa_view b nm = None" by (simp add: xa_view_find)
    with xattr_set_new [OF inv None, of val] fits that xa_card [OF inv] show ?thesis
      by (auto simp: xa_fits_def xa_put_def)
  next
    case (Some i)
    with xattr_set_known [OF inv Some, of val] fits show ?thesis by (auto simp: xa_fits_def xa_put_def)
  qed
  show "xa_put b nm val = (False, b)"
    if "xa_view b nm = None" "MAX_XATTR_PER_INODE \<le> card (dom (xa_view b))"
    using xattr_set_full [OF inv, of nm val] that fits xa_card [OF inv]
    by (simp add: xa_view_find xa_fits_def xa_put_def)
qed

section \<open>Properties\<close>

lemma xa_empty_inv [simp]: "xa_inv xattr_block_empty"
  by (simp add: xa_inv_def xattr_block_empty_def xa_live_def xa_ok_def xattr_entry_empty_def XATTR_NAME_MAX_def)

lemma xa_empty_view [simp]: "xa_view xattr_block_empty = Map.empty"
  by (simp add: xa_view_def xattr_block_empty_def xa_live_def)



text \<open>Removing an attribute reports whether it was present and removes exactly it, although the code fills
  the gap with the last entry; adding a new attribute and removing it again gives back the same attributes.\<close>

lemma xattr_remove_behaviour:
  assumes "xa_inv b"
  shows "(\<exists>b'. xattr_remove b nm = Some (xa_view b nm \<noteq> None, b') \<and> xa_inv b' \<and> xa_view b' = (xa_view b)(nm := None)) \<and>
    (\<forall>val i b1. xa_view b nm = None \<longrightarrow> xattr_set b nm val = Some (Inr i, b1) \<longrightarrow>
       (\<exists>b2. xattr_remove b1 nm = Some (True, b2) \<and> xa_inv b2 \<and> xa_view b2 = xa_view b))"
proof (intro conjI allI impI)
  show "\<exists>b'. xattr_remove b nm = Some (xa_view b nm \<noteq> None, b') \<and> xa_inv b' \<and> xa_view b' = (xa_view b)(nm := None)"
    by (rule xattr_remove_spec [OF assms])
  fix val i b1
  assume n: "xa_view b nm = None" and s: "xattr_set b nm val = Some (Inr i, b1)"
  have fits: "xa_fits nm val" using s by (auto simp: xattr_set_def xa_fits_def split: if_splits)
  have "xa_put b nm val = (True, b1)" using s by (simp add: xa_put_def)
  from xattrs.put_lookup [OF assms fits this] xattrs.put_del [OF assms fits n this]
  obtain b2 where "xa_del b1 nm = (True, b2)" "xa_inv b2" "xa_view b2 = xa_view b" by blast
  moreover have "xa_inv b1"
    using xattrs.put_ok [OF assms fits] xattrs.put_full [OF assms fits n] \<open>xa_put b nm val = (True, b1)\<close>
    by (cases "card (dom (xa_view b)) < MAX_XATTR_PER_INODE") auto
  then obtain q where "xattr_remove b1 nm = Some q" using xattr_remove_spec by blast
  ultimately show "\<exists>b2. xattr_remove b1 nm = Some (True, b2) \<and> xa_inv b2 \<and> xa_view b2 = xa_view b"
    by (auto simp: xa_del_def)
qed

lemma xattr_remove_behaviour_witness:
  "\<exists>b'. xattr_remove xattr_block_empty [117] = Some (False, b') \<and> xa_inv b'"
  using xattr_remove_behaviour [OF xa_empty_inv, of "[117]"] by auto

end
