(* ===== verification/Paths.thy ===== *)
theory Paths
  imports Prelude "HOL-Library.Monad_Syntax"
begin

text \<open>
  Path handling: \<^verbatim>\<open>parent_path\<close>, \<^verbatim>\<open>file_name\<close>, \<^verbatim>\<open>trim_ascii\<close> and the component walk of
  \<^verbatim>\<open>src/src/vfs_core/mod.rs\<close>, and the in-place path canonicalisation \<^verbatim>\<open>normalize_path\<close> of
  \<^verbatim>\<open>src/src/vfs.rs\<close>, with the reference definitions they are compared with: the list of the components of
  a path (\<open>comps\<close>) and the resolution of \<^verbatim>\<open>.\<close> and \<^verbatim>\<open>..\<close> on that list (\<open>canon\<close>).
\<close>

section \<open>Model\<close>

abbreviation slash :: u8 where "slash \<equiv> 47"
abbreviation dot :: u8 where "dot \<equiv> 46"

definition rposition :: "('a \<Rightarrow> bool) \<Rightarrow> 'a list \<Rightarrow> nat option" where
  "rposition p xs = map_option (\<lambda>i. length xs - 1 - i) (find_index p (rev xs))"

definition parent_path :: "bytes \<Rightarrow> bytes" where
  "parent_path path =
     (if path = [] \<or> path = [slash] then [slash]
      else let trimmed = (if last path = slash then butlast path else path)
           in case rposition (\<lambda>c. c = slash) trimmed of
                Some pos \<Rightarrow> (if pos = 0 then [slash] else take pos path)
              | None \<Rightarrow> [slash])"

definition file_name :: "bytes \<Rightarrow> bytes" where
  "file_name path =
     (if path = [] \<or> path = [slash] then path
      else let trimmed = (if last path = slash then butlast path else path)
           in case rposition (\<lambda>c. c = slash) trimmed of
                Some pos \<Rightarrow> drop (pos + 1) trimmed
              | None \<Rightarrow> trimmed)"

definition is_blank :: "u8 \<Rightarrow> bool" where
  "is_blank c \<longleftrightarrow> c = 32 \<or> c = 9 \<or> c = 10 \<or> c = 13"

definition trim_ascii :: "bytes \<Rightarrow> bytes" where
  "trim_ascii bs =
     (let s = (case find_index (\<lambda>c. \<not> is_blank c) bs of Some i \<Rightarrow> i | None \<Rightarrow> length bs);
          e = (case rposition (\<lambda>c. \<not> is_blank c) bs of Some p \<Rightarrow> p + 1 | None \<Rightarrow> s)
      in drop s (take e bs))"

text \<open>The loop of \<^verbatim>\<open>path_resolve\<close> and \<^verbatim>\<open>path_to_vnode\<close> over the components of a relative path; \<open>bs\<close> is the part
  of the path from the loop's position on, \<open>look\<close> the mounted file system's \<^verbatim>\<open>lookup\<close>.\<close>

function walk :: "('w \<Rightarrow> u64 \<Rightarrow> bytes \<Rightarrow> ((string + u64) \<times> 'w) option) \<Rightarrow> 'w \<Rightarrow> u64 \<Rightarrow> bytes \<Rightarrow> ((string + u64) \<times> 'w) option" where
  "walk look w ino bs =
     (case bs of [] \<Rightarrow> Some (Inr ino, w)
      | c # cs \<Rightarrow>
          if c = slash then walk look w ino cs
          else let component = takeWhile (\<lambda>c. c \<noteq> slash) bs
               in case look w ino component of
                    None \<Rightarrow> None
                  | Some (Inl e, w') \<Rightarrow> Some (Inl e, w')
                  | Some (Inr next_ino, w') \<Rightarrow> walk look w' next_ino (dropWhile (\<lambda>c. c \<noteq> slash) bs))"
  by pat_completeness auto
termination
  by (relation "measure (\<lambda>(look, w, ino, bs). length bs)") (auto simp: le_imp_less_Suc length_dropWhile_le)

declare walk.simps [simp del]

text \<open>\<^verbatim>\<open>normalize_path\<close>: the raw path is copied into the buffer, its segments are recorded as index pairs,
  and the kept segments are moved to the front of the same buffer.\<close>

fun fill :: "bytes \<Rightarrow> nat \<Rightarrow> bytes \<Rightarrow> nat option \<times> bytes" where
  "fill out len [] = (Some len, out)"
| "fill out len (c # cs) = (if len \<ge> length out then (None, out) else fill (out[len := c]) (len + 1) cs)"

function seg_end :: "bytes \<Rightarrow> nat \<Rightarrow> nat \<Rightarrow> nat" where
  "seg_end b len i = (if i < len \<and> b ! i \<noteq> slash then seg_end b len (i + 1) else i)"
  by pat_completeness auto
termination
  by (relation "measure (\<lambda>(b, len, i). len - i)") auto

declare seg_end.simps [simp del]

lemma seg_end_ge: "i \<le> seg_end b len i"
proof (induction b len i rule: seg_end.induct)
  case (1 b len i)
  then show ?case by (subst seg_end.simps) auto
qed

function scan_segs :: "bytes \<Rightarrow> nat \<Rightarrow> nat \<Rightarrow> (nat \<times> nat) list \<Rightarrow> (nat \<times> nat) list option" where
  "scan_segs b len i segs =
     (if i < len
      then if b ! i = slash then scan_segs b len (i + 1) segs
           else let j = seg_end b len i; sl = j - i
                in if sl = 1 \<and> b ! i = dot then scan_segs b len j segs
                   else if sl = 2 \<and> b ! i = dot \<and> b ! (i + 1) = dot then scan_segs b len j (butlast segs)
                   else if length segs \<ge> 64 then None
                   else scan_segs b len j (segs @ [(i, j)])
      else Some segs)"
  by pat_completeness auto
termination
proof (relation "measure (\<lambda>(b, len, i, segs). len - i)", goal_cases)
  case (3 b len i segs j sl)
  then show ?case using seg_end_ge [of "i + 1" b len] seg_end.simps [of b len i] by auto
next
  case (4 b len i segs j sl)
  then show ?case using seg_end_ge [of "i + 1" b len] seg_end.simps [of b len i] by auto
next
  case (5 b len i segs j sl)
  then show ?case using seg_end_ge [of "i + 1" b len] seg_end.simps [of b len i] by auto
qed auto

declare scan_segs.simps [simp del]

definition copy_within :: "bytes \<Rightarrow> nat \<Rightarrow> nat \<Rightarrow> nat \<Rightarrow> bytes" where
  "copy_within b s d n = take d b @ take n (drop s b) @ drop (d + n) b"

fun compact :: "bytes \<Rightarrow> nat \<Rightarrow> (nat \<times> nat) list \<Rightarrow> nat option \<times> bytes" where
  "compact b pos [] = (Some pos, b)"
| "compact b pos ((s, e) # segs) =
     (if pos \<ge> length b then (None, b)
      else let b1 = b[pos := slash]; sl = e - s
           in if pos + 1 + sl > length b then (None, b1)
              else compact (copy_within b1 s (pos + 1) sl) (pos + 1 + sl) segs)"

definition normalize_path :: "bytes \<Rightarrow> bytes \<Rightarrow> bytes \<Rightarrow> nat option \<times> bytes" where
  "normalize_path cwd input out =
     (if input = [] then (Some 0, out)
      else let absolute = (hd input = slash);
               pre = (if absolute then [slash]
                      else if cwd = [] \<or> last cwd \<noteq> slash then cwd @ [slash] else cwd);
               rest = (if absolute then tl input else input)
           in case fill out 0 (pre @ rest) of
                (None, b) \<Rightarrow> (None, b)
              | (Some len, b) \<Rightarrow>
                  (case scan_segs b len 0 [] of
                     None \<Rightarrow> (None, b)
                   | Some segs \<Rightarrow>
                       if segs = [] then (if length b = 0 then (None, b) else (Some 1, b[0 := slash]))
                       else compact b 0 segs))"

section \<open>Components\<close>

function comps :: "bytes \<Rightarrow> bytes list" where
  "comps bs = (case bs of [] \<Rightarrow> []
     | c # cs \<Rightarrow> if c = slash then comps cs
         else takeWhile (\<lambda>c. c \<noteq> slash) bs # comps (dropWhile (\<lambda>c. c \<noteq> slash) bs))"
  by pat_completeness auto
termination
  by (relation "measure length") (auto simp: le_imp_less_Suc length_dropWhile_le)

declare comps.simps [simp del]

lemma comps_simps [simp]:
  "comps [] = []" "comps (slash # cs) = comps cs"
  "c \<noteq> slash \<Longrightarrow> comps (c # cs) = takeWhile (\<lambda>c. c \<noteq> slash) (c # cs) # comps (dropWhile (\<lambda>c. c \<noteq> slash) (c # cs))"
  by (subst comps.simps, simp)+

lemma comps_ok: "s \<in> set (comps bs) \<Longrightarrow> s \<noteq> [] \<and> slash \<notin> set s"
proof (induction bs rule: comps.induct)
  case (1 bs)
  show ?case
  proof (cases bs)
    case (Cons c cs)
    then show ?thesis using 1 by (cases "c = slash") (auto dest: set_takeWhileD)
  qed (use 1 in simp)
qed

definition join :: "bytes list \<Rightarrow> bytes" where
  "join ss = concat (map (\<lambda>s. slash # s) ss)"

lemma join_simps [simp]: "join [] = []" "join (s # ss) = slash # s @ join ss"
  by (simp_all add: join_def)

lemma comps_seg:
  assumes "slash \<notin> set s" and "s \<noteq> []" and "r = [] \<or> hd r = slash"
  shows "comps (s @ r) = s # comps r"
proof -
  obtain c cs where s: "s = c # cs" using assms(2) by (cases s) auto
  have tw: "takeWhile (\<lambda>c. c \<noteq> slash) (s @ r) = s" "dropWhile (\<lambda>c. c \<noteq> slash) (s @ r) = r"
    using assms by (cases r; force simp: takeWhile_append dropWhile_append)+
  have "c \<noteq> slash" using assms(1) s by auto
  then show ?thesis using tw s by simp
qed

lemma join_hd: "join ss = [] \<or> hd (join ss) = slash"
  by (cases ss) auto

lemma comps_join: "\<forall>s \<in> set ss. s \<noteq> [] \<and> slash \<notin> set s \<Longrightarrow> comps (join ss) = ss"
  by (induction ss) (auto simp: comps_seg join_hd)

text \<open>The walk visits exactly the components, in order, and stops at the first failed lookup.\<close>

fun look_all :: "('w \<Rightarrow> u64 \<Rightarrow> bytes \<Rightarrow> ((string + u64) \<times> 'w) option) \<Rightarrow> 'w \<Rightarrow> u64 \<Rightarrow> bytes list \<Rightarrow> ((string + u64) \<times> 'w) option" where
  "look_all look w ino [] = Some (Inr ino, w)"
| "look_all look w ino (s # ss) = (case look w ino s of
     None \<Rightarrow> None | Some (Inl e, w') \<Rightarrow> Some (Inl e, w') | Some (Inr ino', w') \<Rightarrow> look_all look w' ino' ss)"

lemma look_all_append:
  "look_all look w ino (ss @ ts) = (case look_all look w ino ss of
     None \<Rightarrow> None | Some (Inl e, w') \<Rightarrow> Some (Inl e, w') | Some (Inr ino', w') \<Rightarrow> look_all look w' ino' ts)"
  by (induction look w ino ss rule: look_all.induct) (auto split: option.splits sum.splits)

lemma walk_comps: "walk look w ino bs = look_all look w ino (comps bs)"
proof (induction look w ino bs rule: walk.induct)
  case (1 look w ino bs)
  show ?case
  proof (cases bs)
    case (Cons c cs)
    then show ?thesis using 1
      by (cases "c = slash"; subst walk.simps) (auto split: option.split sum.split)
  qed (simp add: walk.simps)
qed

section \<open>Canonicalisation\<close>

fun canon :: "bytes list \<Rightarrow> bytes list \<Rightarrow> bytes list option" where
  "canon st [] = Some st"
| "canon st (s # ss) =
     (if s = [dot] then canon st ss
      else if s = [dot, dot] then canon (butlast st) ss
      else if length st \<ge> 64 then None
      else canon (st @ [s]) ss)"

definition part :: "bytes \<Rightarrow> nat \<times> nat \<Rightarrow> bytes" where
  "part b = (\<lambda>(s, e). take (e - s) (drop s b))"

lemma fill_spec:
  "fill out len cs =
     (if len + length cs \<le> length out then (Some (len + length cs), take len out @ cs @ drop (len + length cs) out)
      else (None, take len out @ take (length out - len) cs @ drop (max len (length out)) out))"
  if "len \<le> length out"
  using that
proof (induction out len cs rule: fill.induct)
  case (2 out len c cs)
  show ?case
  proof (cases "len < length out")
    case True
    then show ?thesis using "2.IH" "2.prems"
      by (simp add: take_Suc_conv_app_nth drop_update_cancel take_update_cancel max_def Suc_diff_le Suc_diff_Suc [symmetric])
  next
    case False
    then show ?thesis using "2.prems" by simp
  qed
qed simp

lemma seg_end_spec:
  "len \<le> length b \<Longrightarrow> i \<le> len \<Longrightarrow> seg_end b len i = i + length (takeWhile (\<lambda>c. c \<noteq> slash) (drop i (take len b)))"
proof (induction b len i rule: seg_end.induct)
  case (1 b len i)
  show ?case
  proof (cases "i < len \<and> b ! i \<noteq> slash")
    case True
    then have "drop i (take len b) = b ! i # drop (Suc i) (take len b)"
      using 1 by (simp add: Cons_nth_drop_Suc [symmetric])
    with True 1 show ?thesis by (subst seg_end.simps) simp
  next
    case False
    then have "drop i (take len b) = [] \<or> (\<exists>cs. drop i (take len b) = slash # cs)"
      using 1 by (cases "i < len") (auto simp: Cons_nth_drop_Suc [symmetric])
    with False show ?thesis by (subst seg_end.simps) auto
  qed
qed

fun spaced :: "nat \<Rightarrow> nat \<Rightarrow> (nat \<times> nat) list \<Rightarrow> bool" where
  "spaced n p [] = True"
| "spaced n p ((s, e) # r) = (p < s \<and> s \<le> e \<and> e \<le> n \<and> spaced n e r)"

lemma spaced_snoc:
  "spaced n p (segs @ [(s, e)]) \<longleftrightarrow> spaced n p segs \<and> p < s \<and> (\<forall>x \<in> set segs. snd x < s) \<and> s \<le> e \<and> e \<le> n"
  by (induction n p segs rule: spaced.induct) auto

lemma spaced_butlast: "spaced n p segs \<Longrightarrow> spaced n p (butlast segs)"
  by (induction n p segs rule: spaced.induct) auto

lemma spaced_mono: "spaced n p segs \<Longrightarrow> q \<le> p \<Longrightarrow> spaced n q segs"
  by (cases segs) auto

lemma seg_facts:
  assumes len: "len \<le> length b" and i: "i < len" and nsl: "b ! i \<noteq> slash"
  defines "j \<equiv> seg_end b len i"
  shows "comps (drop i (take len b)) = part b (i, j) # comps (drop j (take len b))" and "i < j" and "j \<le> len"
    and "j < len \<longrightarrow> b ! j = slash" and "part b (i, j) = [dot] \<longleftrightarrow> j - i = 1 \<and> b ! i = dot"
    and "part b (i, j) = [dot, dot] \<longleftrightarrow> j - i = 2 \<and> b ! i = dot \<and> b ! (i + 1) = dot"
proof -
  let ?xs = "drop i (take len b)" and ?P = "\<lambda>c. c \<noteq> slash"
  define c where "c = takeWhile ?P ?xs"
  have d: "?xs = b ! i # drop (Suc i) (take len b)" using len i by (simp add: Cons_nth_drop_Suc [symmetric])
  have j: "j = i + length c" using seg_end_spec len i by (simp add: j_def c_def)
  have cne: "c \<noteq> []" using nsl d by (simp add: c_def)
  then show ij: "i < j" using j by simp
  show jl: "j \<le> len" using j length_takeWhile_le [of ?P ?xs] len i by (simp add: c_def)
  have pc: "part b (i, j) = c"
  proof -
    have "c = take (length c) ?xs" by (simp add: c_def takeWhile_eq_take [symmetric])
    also have "\<dots> = take (length c) (drop i b)" using j jl by (simp add: drop_take take_take min_def)
    finally show ?thesis by (simp add: part_def j)
  qed
  have dw: "drop j (take len b) = dropWhile ?P ?xs" by (simp add: dropWhile_eq_drop j c_def add.commute)
  show "comps ?xs = part b (i, j) # comps (drop j (take len b))"
    unfolding dw pc c_def using d nsl by (metis comps_simps(3))
  show "j < len \<longrightarrow> b ! j = slash"
  proof
    assume "j < len"
    then have "dropWhile ?P ?xs \<noteq> []" "hd (drop j (take len b)) = b ! j"
      using dw len by (simp_all add: hd_drop_conv_nth flip: dw)
    with hd_dropWhile [of ?P ?xs] dw show "b ! j = slash" by simp
  qed
  have ln: "length c = j - i" using j by simp
  have nt: "c ! k = b ! (i + k)" if "k < j - i" for k
    using that jl len unfolding pc [symmetric] by (simp add: part_def)
  show "part b (i, j) = [dot] \<longleftrightarrow> j - i = 1 \<and> b ! i = dot"
    unfolding pc using ln nt [of 0] ij by (cases c; cases "tl c") auto
  have "c = [dot, dot] \<longleftrightarrow> length c = 2 \<and> c ! 0 = dot \<and> c ! 1 = dot"
    by (cases c; cases "tl c") auto
  then show "part b (i, j) = [dot, dot] \<longleftrightarrow> j - i = 2 \<and> b ! i = dot \<and> b ! (i + 1) = dot"
    unfolding pc using ln ij nt [of 0] nt [of 1] by auto
qed

text \<open>The scan computes the canonical components of the buffer, as index pairs that follow each other with a
  gap of at least one byte.\<close>

definition scan_inv :: "bytes \<Rightarrow> nat \<Rightarrow> nat \<Rightarrow> (nat \<times> nat) list \<Rightarrow> bool" where
  "scan_inv b len i segs \<longleftrightarrow> len \<le> length b \<and> i \<le> len \<and> (len > 0 \<longrightarrow> b ! 0 = slash) \<and> spaced len 0 segs \<and>
     (\<forall>x \<in> set segs. snd x \<le> i \<and> (snd x = i \<longrightarrow> i < len \<longrightarrow> b ! i = slash))"

lemma scan_segs_spec:
  "scan_inv b len i segs \<Longrightarrow>
    map_option (map (part b)) (scan_segs b len i segs) = canon (map (part b) segs) (comps (drop i (take len b))) \<and>
    (\<forall>r. scan_segs b len i segs = Some r \<longrightarrow> spaced len 0 r)"
proof (induction b len i segs rule: scan_segs.induct)
  case (1 b len i segs)
  note inv = "1.prems" [unfolded scan_inv_def]
  consider (fin) "\<not> i < len" | (sep) "i < len" "b ! i = slash" | (seg) "i < len" "b ! i \<noteq> slash" by blast
  then show ?case
  proof cases
    case fin
    with inv show ?thesis by (subst (1 2) scan_segs.simps) simp
  next
    case sep
    then have d: "drop i (take len b) = slash # drop (Suc i) (take len b)"
      using inv by (simp add: Cons_nth_drop_Suc [symmetric])
    have "scan_inv b len (i + 1) segs" using inv sep unfolding scan_inv_def by force
    with "1.IH"(1) [OF sep] sep d show ?thesis by (subst (1 2) scan_segs.simps) simp
  next
    case seg
    define j where "j = seg_end b len i"
    have f: "len \<le> length b" using inv by simp
    note sf = seg_facts [OF f seg, folded j_def]
    have lt: "\<forall>x \<in> set segs. snd x < i" using inv seg by force
    have i0: "0 < i" using inv seg by (cases i) auto
    have keep: "scan_inv b len j segs" "scan_inv b len j (butlast segs)" "scan_inv b len j (segs @ [(i, j)])"
      using inv lt sf(2-4) i0 spaced_butlast [of len 0 segs]
      by (auto simp: scan_inv_def spaced_snoc dest!: in_set_butlastD)
    show ?thesis
      using "1.IH"(2) [OF seg j_def refl _ keep(1)] "1.IH"(3) [OF seg j_def refl _ _ keep(2)]
        "1.IH"(4) [OF seg j_def refl _ _ _ keep(3)] seg sf(1,5,6)
      by (subst (1 2) scan_segs.simps) (simp add: j_def [symmetric] Let_def map_butlast)
  qed
qed

lemma copy_within_length [simp]: "s + n \<le> length b \<Longrightarrow> d + n \<le> length b \<Longrightarrow> length (copy_within b s d n) = length b"
  by (simp add: copy_within_def)

lemma part_after:
  assumes "drop n b' = drop n b" and "n \<le> s"
  shows "part b' (s, e) = part b (s, e)"
proof -
  have "drop s b' = drop s b" using assms by (metis drop_drop le_add_diff_inverse2)
  then show ?thesis by (simp add: part_def)
qed

lemma spaced_ge: "spaced n p segs \<Longrightarrow> x \<in> set segs \<Longrightarrow> p < fst x"
proof (induction n p segs rule: spaced.induct)
  case (2 n p s e r)
  then show ?case by (cases "x = (s, e)") auto
qed simp

text \<open>Moving the segments to the front of the buffer never overwrites a segment that is still to be moved.\<close>

lemma compact_spec:
  "spaced (length b) pos segs \<Longrightarrow> pos \<le> length b \<Longrightarrow>
   compact b pos segs = (Some (pos + length (join (map (part b) segs))),
     take pos b @ join (map (part b) segs) @ drop (pos + length (join (map (part b) segs))) b) \<and>
   pos + length (join (map (part b) segs)) \<le> length b"
proof (induction segs arbitrary: b pos)
  case (Cons x segs)
  obtain s e where x: "x = (s, e)" by fastforce
  have sp: "pos < s" "s \<le> e" "e \<le> length b" "spaced (length b) e segs" using Cons.prems x by auto
  define b1 where "b1 = b[pos := slash]"
  define b2 where "b2 = copy_within b1 s (pos + 1) (e - s)"
  have "part b1 (s, e) = part b (s, e)" using sp(1) by (simp add: part_def b1_def)
  then have b2: "b2 = take pos b @ (slash # part b (s, e)) @ drop (pos + 1 + (e - s)) b"
    using sp by (simp add: b2_def b1_def copy_within_def part_def take_Suc_conv_app_nth)
  have pl: "length (part b (s, e)) = e - s" using sp by (simp add: part_def)
  have len: "length b2 = length b" using sp pl by (simp add: b2)
  define q where "q = pos + 1 + (e - s)"
  define A where "A = take pos b @ (slash # part b (s, e))"
  have A: "length A = q" "b2 = A @ drop q b" using sp pl b2 by (simp_all add: A_def q_def)
  have tk: "take q b2 = A" and dq: "drop (q + n) b2 = drop (q + n) b" for n
    using A by (simp_all add: add.commute)
  have "q \<le> e" using sp by (simp add: q_def)
  then have dr: "drop e b2 = drop e b" using dq [of "e - q"] by simp
  have same: "map (part b2) segs = map (part b) segs"
    using spaced_ge [OF sp(4)] dr by (auto intro!: part_after [of e] less_imp_le)
  have "spaced (length b2) q segs" "q \<le> length b2" using sp len spaced_mono [OF sp(4), of q] by (simp_all add: q_def)
  from Cons.IH [OF this] same len tk dq have "compact b2 (pos + 1 + (e - s)) segs =
     (Some (pos + length (join (map (part b) (x # segs)))),
      take pos b @ join (map (part b) (x # segs)) @ drop (pos + length (join (map (part b) (x # segs)))) b) \<and>
     pos + length (join (map (part b) (x # segs))) \<le> length b"
    using pl by (simp add: x q_def A_def add.assoc)
  moreover have "compact b pos (x # segs) = compact b2 (pos + 1 + (e - s)) segs"
  proof -
    have "\<not> pos \<ge> length b" "\<not> pos + 1 + (e - s) > length b" using sp by linarith+
    then show ?thesis by (simp add: x b2_def b1_def Let_def)
  qed
  ultimately show ?case by simp
qed simp

definition raw_path :: "bytes \<Rightarrow> bytes \<Rightarrow> bytes" where
  "raw_path cwd input = (if hd input = slash then input
     else (if cwd = [] \<or> last cwd \<noteq> slash then cwd @ [slash] else cwd) @ input)"

lemma normalize_raw:
  assumes inp: "input \<noteq> []" and cwd: "cwd = [] \<or> hd cwd = slash" and len: "length (raw_path cwd input) \<le> length out"
  shows "case canon [] (comps (raw_path cwd input)) of
      None \<Rightarrow> fst (normalize_path cwd input out) = None
    | Some ss \<Rightarrow> let p = (if ss = [] then [slash] else join ss)
        in fst (normalize_path cwd input out) = Some (length p) \<and> length (snd (normalize_path cwd input out)) = length out \<and>
           take (length p) (snd (normalize_path cwd input out)) = p"
proof -
  let ?raw = "raw_path cwd input"
  define b where "b = ?raw @ drop (length ?raw) out"
  have raw: "?raw = (if hd input = slash then [slash] else if cwd = [] \<or> last cwd \<noteq> slash then cwd @ [slash] else cwd) @
      (if hd input = slash then tl input else input)"
    using inp by (cases input) (auto simp: raw_path_def)
  have hd: "?raw \<noteq> []" "?raw ! 0 = slash" using inp cwd by (cases cwd; cases input; auto simp: raw_path_def)+
  have f: "fill out 0 ?raw = (Some (length ?raw), b)" using fill_spec [of 0 out ?raw] len by (simp add: b_def)
  have lb: "length b = length out" using len by (simp add: b_def)
  have "scan_inv b (length ?raw) 0 []" using hd len lb by (simp add: scan_inv_def b_def nth_append)
  from scan_segs_spec [OF this] have sc:
    "map_option (map (part b)) (scan_segs b (length ?raw) 0 []) = canon [] (comps ?raw)"
    "\<And>r. scan_segs b (length ?raw) 0 [] = Some r \<Longrightarrow> spaced (length ?raw) 0 r"
    by (auto simp: b_def)
  have n: "normalize_path cwd input out = (case scan_segs b (length ?raw) 0 [] of
      None \<Rightarrow> (None, b) | Some segs \<Rightarrow> if segs = [] then (Some 1, b[0 := slash]) else compact b 0 segs)"
    using inp f lb hd len unfolding raw normalize_path_def by (auto simp: Let_def split: option.split)
  show ?thesis
  proof (cases "scan_segs b (length ?raw) 0 []")
    case None
    then show ?thesis using sc(1) n by simp
  next
    case (Some segs)
    then have c: "canon [] (comps ?raw) = Some (map (part b) segs)" using sc(1) by simp
    have sp: "spaced (length b) 0 segs"
    proof -
      have "spaced n p r \<Longrightarrow> n \<le> m \<Longrightarrow> spaced m p r" for n m p r by (induction n p r rule: spaced.induct) auto
      with sc(2) [OF Some] show ?thesis using len lb by auto
    qed
    from compact_spec [OF this] have cp: "compact b 0 segs = (Some (length (join (map (part b) segs))),
        join (map (part b) segs) @ drop (length (join (map (part b) segs))) b)"
      "length (join (map (part b) segs)) \<le> length b" by simp_all
    have b0: "take 1 (b[0 := slash]) = [slash]" using lb hd len by (cases b) auto
    show ?thesis using c n Some cp b0 lb by (auto simp: Let_def)
  qed
qed

lemma canon_kept: "canon st ss = Some r \<Longrightarrow> s \<in> set r \<Longrightarrow> s \<in> set st \<or> (s \<in> set ss \<and> s \<noteq> [dot] \<and> s \<noteq> [dot, dot])"
  by (induction st ss rule: canon.induct) (auto split: if_splits dest: in_set_butlastD)

lemma canon_length: "canon st ss = Some r \<Longrightarrow> length st \<le> 64 \<Longrightarrow> length r \<le> 64"
  by (induction st ss rule: canon.induct) (auto split: if_splits)

lemma canon_id:
  "\<forall>s \<in> set ss. s \<noteq> [dot] \<and> s \<noteq> [dot, dot] \<Longrightarrow> length st + length ss \<le> 64 \<Longrightarrow> canon st ss = Some (st @ ss)"
  by (induction ss arbitrary: st) auto

lemma canon_comps:
  assumes "canon [] (comps bs) = Some ss"
  shows "comps (join ss) = ss" and "canon [] ss = Some ss"
proof -
  have ok: "s \<noteq> [] \<and> slash \<notin> set s \<and> s \<noteq> [dot] \<and> s \<noteq> [dot, dot]" if "s \<in> set ss" for s
    using canon_kept [OF assms that] comps_ok by auto
  then show "comps (join ss) = ss" by (intro comps_join) blast
  show "canon [] ss = Some ss" using canon_id [of ss "[]"] ok canon_length [OF assms] by simp
qed

lemma rposition_Some:
  assumes "rposition p xs = Some i"
  shows "i < length xs" and "p (xs ! i)" and "\<forall>x \<in> set (drop (Suc i) xs). \<not> p x"
proof -
  obtain k where f: "find_index p (rev xs) = Some k" and i: "i = length xs - 1 - k"
    using assms by (auto simp: rposition_def)
  have k: "k < length xs" "p (rev xs ! k)" "\<forall>j < k. \<not> p (rev xs ! j)"
    using find_index_Some [OF f] by auto
  then show "i < length xs" "p (xs ! i)" by (auto simp: i rev_nth)
  show "\<forall>x \<in> set (drop (Suc i) xs). \<not> p x"
  proof
    fix x assume "x \<in> set (drop (Suc i) xs)"
    then obtain m where m: "m < length xs - Suc i" "x = xs ! (Suc i + m)" by (auto simp: in_set_conv_nth)
    then have "x = rev xs ! (length xs - 1 - (Suc i + m))" "length xs - 1 - (Suc i + m) < k"
      using k(1) i m(1) by (auto simp: rev_nth Suc_diff_Suc)
    with k(3) show "\<not> p x" by auto
  qed
qed

lemma rposition_None: "rposition p xs = None \<longleftrightarrow> (\<forall>x \<in> set xs. \<not> p x)"
  by (simp add: rposition_def find_from_None)

lemma parent_split:
  assumes "hd path = slash" and "path \<noteq> []" and "last path \<noteq> slash"
  shows "slash \<notin> set (file_name path) \<and> file_name path \<noteq> [] \<and>
    (path = parent_path path @ slash # file_name path \<or> parent_path path = [slash] \<and> path = slash # file_name path)"
proof -
  have np: "path \<noteq> [slash]" using assms by auto
  have "slash \<in> set path" using assms(1,2) by (metis list.set_sel(1))
  then obtain i where r: "rposition (\<lambda>c. c = slash) path = Some i"
    by (cases "rposition (\<lambda>c. c = slash) path") (auto simp: rposition_None)
  note ri = rposition_Some [OF r]
  have n: "file_name path = drop (Suc i) path" and pp: "parent_path path = (if i = 0 then [slash] else take i path)"
    using assms np r by (simp_all add: file_name_def parent_path_def)
  have dec: "path = take i path @ slash # drop (Suc i) path" using id_take_nth_drop [OF ri(1)] ri(2) by simp
  have ne: "drop (Suc i) path \<noteq> []"
  proof
    assume "drop (Suc i) path = []"
    with dec have "last path = slash" by (metis last_snoc)
    with assms(3) show False by simp
  qed
  show ?thesis using dec ne ri(3) n pp by (cases "i = 0") auto
qed

section \<open>Properties\<close>



text \<open>A canonical path is a fixed point: canonicalising the result of a successful call again, in any
  buffer that holds it and from any working directory, returns the same path.\<close>

theorem normalize_path_idempotent:
  assumes "input \<noteq> []" and "cwd = [] \<or> hd cwd = slash" and "length (raw_path cwd input) \<le> length out"
    and "normalize_path cwd input out = (Some n, out1)" and "cwd' = [] \<or> hd cwd' = slash" and "n \<le> length out'"
  shows "\<exists>out2. normalize_path cwd' (take n out1) out' = (Some n, out2) \<and> take n out2 = take n out1"
proof -
  obtain ss where ss: "canon [] (comps (raw_path cwd input)) = Some ss"
    using normalize_raw [OF assms(1-3)] assms(4) by (cases "canon [] (comps (raw_path cwd input))") auto
  define p where "p = (if ss = [] then [slash] else join ss)"
  have p: "n = length p" "take n out1 = p"
    using normalize_raw [OF assms(1-3)] assms(4) ss by (auto simp: Let_def p_def)
  have "hd p = slash" "p \<noteq> []" by (cases ss; simp add: p_def)+
  then have raw: "raw_path cwd' p = p" by (simp add: raw_path_def)
  have "canon [] (comps p) = Some ss" using canon_comps [OF ss] by (auto simp: p_def)
  then show ?thesis
    using normalize_raw [of p cwd' out'] \<open>p \<noteq> []\<close> assms(5,6) p raw
    by (cases "normalize_path cwd' p out'") (auto simp: Let_def p_def)
qed

theorem normalize_path_idempotent_witness:
  "\<exists>out2. normalize_path [] [47, 98] (replicate 8 0) = (Some 2, out2) \<and> take 2 out2 = [47, 98]"
proof -
  have "normalize_path [47, 97] [46, 46, 47, 98] (replicate 16 0) = (Some 2, [47, 98, 47, 46, 46, 47, 98, 0, 0, 0, 0, 0, 0, 0, 0, 0])"
    by code_simp
  from normalize_path_idempotent [OF _ _ _ this, of "[]" "replicate 8 0"] show ?thesis
    by (simp add: raw_path_def)
qed

text \<open>Splitting an absolute path that does not end in a slash into parent and file name loses nothing: the
  name is a single component, and joining the two with one slash gives the path back.\<close>

lemma parent_file_name_join:
  assumes "hd path = slash" and "path \<noteq> []" and "last path \<noteq> slash"
  shows "slash \<notin> set (file_name path) \<and> file_name path \<noteq> [] \<and>
    (path = parent_path path @ slash # file_name path \<or> parent_path path = [slash] \<and> path = slash # file_name path)"
  by (rule parent_split [OF assms])

lemma parent_file_name_join_witness:
  "slash \<notin> set (file_name [47, 97, 47, 98]) \<and> [47, 97, 47, 98] = parent_path [47, 97, 47, 98] @ slash # file_name [47, 97, 47, 98]"
proof -
  have "parent_path [47, 97, 47, 98] \<noteq> [slash]" by code_simp
  then show ?thesis using parent_file_name_join [of "[47, 97, 47, 98]"] by simp
qed

end
