(* ===== verification/Vfs_Tables.thy ===== *)
theory Vfs_Tables
  imports Interfaces Paths
begin

text \<open>
  The tables of \<^verbatim>\<open>src/src/vfs_core/mod.rs\<close>: file descriptors (\<^verbatim>\<open>FdTable\<close>), vnodes (\<^verbatim>\<open>VnodeTableInner\<close>) and
  mounts (\<^verbatim>\<open>MountTableInner\<close>). The descriptor and vnode tables are interpretations of \<open>slot_table\<close>. A vnode's
  \<^verbatim>\<open>ops\<close> is a reference to one of the file systems' operation tables and is modelled as that table's number.
\<close>

section \<open>Model\<close>

definition MAX_MOUNTS :: nat where "MAX_MOUNTS = 16"
definition MAX_VNODES :: nat where "MAX_VNODES = 256"
definition MAX_FDS :: nat where "MAX_FDS = 16"
definition MAX_PATH :: nat where "MAX_PATH = 4096"

type_synonym ops_id = nat

definition NOP_VNODE :: ops_id where "NOP_VNODE = 0"

record file_desc =
  fd_vnode :: u16
  fd_ino :: u64
  fd_offset :: u64
  fd_flags :: u32
  fd_used :: bool

type_synonym fd_table = "file_desc list"

definition file_desc_empty :: file_desc where
  "file_desc_empty = \<lparr>fd_vnode = 0, fd_ino = 0, fd_offset = 0, fd_flags = 0, fd_used = False\<rparr>"

definition fd_table_new :: fd_table where
  "fd_table_new = replicate MAX_FDS file_desc_empty"

definition alloc_fd :: "fd_table \<Rightarrow> u16 \<Rightarrow> u64 \<Rightarrow> u32 \<Rightarrow> nat option \<times> fd_table" where
  "alloc_fd t vnode_id ino flags =
     (case find_index (\<lambda>d. \<not> fd_used d) t of
        Some i \<Rightarrow> (Some i, t[i := (t ! i)\<lparr>fd_used := True, fd_vnode := vnode_id, fd_ino := ino, fd_offset := 0, fd_flags := flags\<rparr>])
      | None \<Rightarrow> (None, t))"

definition get_fd :: "fd_table \<Rightarrow> nat \<Rightarrow> file_desc option" where
  "get_fd t fd = (if fd < MAX_FDS \<and> fd_used (t ! fd) then Some (t ! fd) else None)"

definition close_fd :: "fd_table \<Rightarrow> nat \<Rightarrow> bool \<times> fd_table" where
  "close_fd t fd =
     (if fd < MAX_FDS \<and> fd_used (t ! fd) then (True, t[fd := (t ! fd)\<lparr>fd_used := False\<rparr>]) else (False, t))"

record vnode =
  v_ino :: u64
  v_fs_id :: u64
  v_mount_id :: u64
  v_ops :: ops_id
  v_used :: bool

record vnode_table =
  vnodes :: "vnode list"
  vcount :: u64

definition vnode_empty :: vnode where
  "vnode_empty = \<lparr>v_ino = 0, v_fs_id = 0, v_mount_id = 0, v_ops = NOP_VNODE, v_used = False\<rparr>"

definition vnode_table_new :: vnode_table where
  "vnode_table_new = \<lparr>vnodes = replicate MAX_VNODES vnode_empty, vcount = 0\<rparr>"

definition vt_alloc :: "vnode_table \<Rightarrow> u64 \<Rightarrow> u64 \<Rightarrow> u64 \<Rightarrow> ops_id \<Rightarrow> u16 option \<times> vnode_table" where
  "vt_alloc t ino fs_id mount_id ops =
     (case find_index (\<lambda>v. \<not> v_used v) (vnodes t) of
        Some i \<Rightarrow> (Some (of_nat i),
          t\<lparr>vnodes := (vnodes t)[i := \<lparr>v_ino = ino, v_fs_id = fs_id, v_mount_id = mount_id, v_ops = ops, v_used = True\<rparr>],
            vcount := vcount t + 1\<rparr>)
      | None \<Rightarrow> (None, t))"

definition vt_get :: "vnode_table \<Rightarrow> u16 \<Rightarrow> vnode option" where
  "vt_get t vid = (let i = unat vid in
     if i < MAX_VNODES \<and> v_used (vnodes t ! i) then Some (vnodes t ! i) else None)"

definition vt_free :: "vnode_table \<Rightarrow> u16 \<Rightarrow> bool \<times> vnode_table" where
  "vt_free t vid = (let i = unat vid in
     if i < MAX_VNODES \<and> v_used (vnodes t ! i)
     then (True, t\<lparr>vnodes := (vnodes t)[i := (vnodes t ! i)\<lparr>v_used := False\<rparr>], vcount := vcount t - 1\<rparr>)
     else (False, t))"

fun vt_free_loop :: "vnode_table \<Rightarrow> u64 \<Rightarrow> nat list \<Rightarrow> vnode_table" where
  "vt_free_loop t ino [] = t"
| "vt_free_loop t ino (i # is) =
     vt_free_loop
       (if v_used (vnodes t ! i) \<and> v_ino (vnodes t ! i) = ino
        then t\<lparr>vnodes := (vnodes t)[i := (vnodes t ! i)\<lparr>v_used := False\<rparr>],
               vcount := (if vcount t = 0 then 0 else vcount t - 1)\<rparr>
        else t) ino is"

definition vt_free_by_ino :: "vnode_table \<Rightarrow> u64 \<Rightarrow> vnode_table" where
  "vt_free_by_ino t ino = vt_free_loop t ino [0..<MAX_VNODES]"

record mount_entry =
  mount_point :: bytes
  mp_len :: nat
  m_fs_id :: u64
  m_root :: u64
  m_ops :: ops_id
  m_flags :: u32
  m_used :: bool

record mount_table =
  mounts :: "mount_entry list"
  mcount :: u64

definition mount_entry_empty :: mount_entry where
  "mount_entry_empty = \<lparr>mount_point = replicate MAX_PATH 0, mp_len = 0, m_fs_id = 0, m_root = 0,
     m_ops = NOP_VNODE, m_flags = 0, m_used = False\<rparr>"

definition mount_table_new :: mount_table where
  "mount_table_new = \<lparr>mounts = replicate MAX_MOUNTS mount_entry_empty, mcount = 0\<rparr>"

definition mt_alloc :: "mount_table \<Rightarrow> bytes \<Rightarrow> u64 \<Rightarrow> u64 \<Rightarrow> ops_id \<Rightarrow> nat option \<times> mount_table" where
  "mt_alloc t mp fs_id root_ino ops =
     (if mcount t \<ge> of_nat MAX_MOUNTS then (None, t)
      else case find_index (\<lambda>m. \<not> m_used m) (mounts t) of
             Some i \<Rightarrow>
               (let len = min (length mp) (MAX_PATH - 1);
                    entry = mount_entry_empty\<lparr>mount_point := take len mp @ drop len (mount_point mount_entry_empty),
                      mp_len := len, m_fs_id := fs_id, m_root := root_ino, m_ops := ops, m_used := True\<rparr>
                in (Some i, t\<lparr>mounts := (mounts t)[i := entry], mcount := mcount t + 1\<rparr>))
           | None \<Rightarrow> (None, t))"

definition mp_bytes :: "mount_entry \<Rightarrow> bytes" where
  "mp_bytes m = take (mp_len m) (mount_point m)"

fun find_mount_loop :: "mount_entry list \<Rightarrow> bytes \<Rightarrow> nat list \<Rightarrow> nat option \<Rightarrow> nat \<Rightarrow> nat option" where
  "find_mount_loop ms path [] best best_len = best"
| "find_mount_loop ms path (i # is) best best_len =
     (let mp = mp_bytes (ms ! i)
      in if \<not> m_used (ms ! i) then find_mount_loop ms path is best best_len
         else if length path < length mp then find_mount_loop ms path is best best_len
         else if take (length mp) path = mp \<and> length mp > best_len
         then find_mount_loop ms path is (Some i) (length mp)
         else find_mount_loop ms path is best best_len)"

definition find_mount :: "mount_table \<Rightarrow> bytes \<Rightarrow> nat option" where
  "find_mount t path = find_mount_loop (mounts t) path [0..<MAX_MOUNTS] None 0"

definition unmount :: "mount_table \<Rightarrow> nat \<Rightarrow> bool \<times> mount_table" where
  "unmount t idx =
     (if idx < MAX_MOUNTS \<and> m_used (mounts t ! idx)
      then (True, t\<lparr>mounts := (mounts t)[idx := (mounts t ! idx)\<lparr>m_used := False\<rparr>], mcount := mcount t - 1\<rparr>)
      else (False, t))"

section \<open>Descriptors and vnodes as slot tables\<close>

definition fd_inv :: "fd_table \<Rightarrow> bool" where
  "fd_inv t \<longleftrightarrow> length t = MAX_FDS"

definition fd_busy :: "fd_table \<Rightarrow> nat \<Rightarrow> bool" where
  "fd_busy t i \<longleftrightarrow> i < length t \<and> fd_used (t ! i)"

lemma first_free:
  assumes "find_index (\<lambda>x. \<not> u x) xs = Some i"
  shows "i < length xs" "\<not> u (xs ! i)" "\<forall>j < i. j < length xs \<and> u (xs ! j)"
  using find_index_Some [OF assms] by auto

interpretation fds: slot_table fd_inv fd_busy MAX_FDS "\<lambda>t (v, ino, fl). alloc_fd t v ino fl" close_fd
proof
  fix t :: fd_table and x :: "u16 \<times> u64 \<times> u32" and i t'
  obtain v ino fl where x: "x = (v, ino, fl)" by (cases x)
  assume inv: "fd_inv t"
  show "fd_inv t' \<and> i < MAX_FDS \<and> \<not> fd_busy t i \<and> (\<forall>j < i. fd_busy t j) \<and> fd_busy t' = (fd_busy t)(i := True)"
    if "(case x of (v, ino, fl) \<Rightarrow> alloc_fd t v ino fl) = (Some i, t')"
  proof -
    from that x have f: "find_index (\<lambda>d. \<not> fd_used d) t = Some i" and t':
      "t' = t[i := (t ! i)\<lparr>fd_used := True, fd_vnode := v, fd_ino := ino, fd_offset := 0, fd_flags := fl\<rparr>]"
      by (auto simp: alloc_fd_def split: option.splits)
    with first_free [OF f] inv show ?thesis
      by (auto simp: fd_inv_def fd_busy_def fun_eq_iff nth_list_update)
  qed
  show "t' = t \<and> (\<forall>i < MAX_FDS. fd_busy t i)" if "(case x of (v, ino, fl) \<Rightarrow> alloc_fd t v ino fl) = (None, t')"
    using that inv by (auto simp: x alloc_fd_def find_index_None fd_inv_def fd_busy_def split: option.splits)
  show "\<exists>t'. close_fd t i = (True, t') \<and> fd_inv t' \<and> fd_busy t' = (fd_busy t)(i := False)"
    if "i < MAX_FDS" "fd_busy t i"
    using that inv by (auto simp: close_fd_def fd_inv_def fd_busy_def fun_eq_iff nth_list_update)
  show "close_fd t i = (False, t)" if "\<not> (i < MAX_FDS \<and> fd_busy t i)"
    using that inv by (auto simp: close_fd_def fd_inv_def fd_busy_def)
qed

definition vt_inv :: "vnode_table \<Rightarrow> bool" where
  "vt_inv t \<longleftrightarrow> length (vnodes t) = MAX_VNODES \<and> unat (vcount t) = length (filter v_used (vnodes t))"

definition vt_busy :: "vnode_table \<Rightarrow> nat \<Rightarrow> bool" where
  "vt_busy t i \<longleftrightarrow> i < length (vnodes t) \<and> v_used (vnodes t ! i)"

definition vt_take :: "vnode_table \<Rightarrow> u64 \<times> u64 \<times> u64 \<times> ops_id \<Rightarrow> nat option \<times> vnode_table" where
  "vt_take t = (\<lambda>(ino, fs_id, mount_id, ops). apfst (map_option unat) (vt_alloc t ino fs_id mount_id ops))"

definition vt_drop :: "vnode_table \<Rightarrow> nat \<Rightarrow> bool \<times> vnode_table" where
  "vt_drop t i = (if i < 65536 then vt_free t (of_nat i) else (False, t))"

lemma vcount_bound: "vt_inv t \<Longrightarrow> unat (vcount t) \<le> 256"
  using length_filter_le [of v_used "vnodes t"] by (simp add: vt_inv_def MAX_VNODES_def)

lemma vt_set_inv:
  assumes "vt_inv t" and "i < MAX_VNODES" and "v_used (vnodes t ! i) \<noteq> v_used v"
    and "c = (if v_used v then vcount t + 1 else vcount t - 1)"
  shows "vt_inv (t\<lparr>vnodes := (vnodes t)[i := v], vcount := c\<rparr>)"
proof -
  have n: "length (filter v_used ((vnodes t)[i := v])) + (if v_used (vnodes t ! i) then 1 else 0) =
      unat (vcount t) + (if v_used v then 1 else 0)"
    using length_filter_update [of i "vnodes t" v_used v] assms(1,2) by (simp add: vt_inv_def)
  have "unat (vcount t + 1) = unat (vcount t) + 1" using vcount_bound [OF assms(1)] by (intro unat_inc) simp
  moreover have "unat (vcount t - 1) = unat (vcount t) - 1" if "vcount t \<noteq> 0"
    using that by (simp add: unat_minus_one)
  moreover have "vcount t \<noteq> 0" if "\<not> v_used v" using n that assms(3) by auto
  ultimately have "unat c = length (filter v_used ((vnodes t)[i := v]))" using n assms(3,4) by (auto split: if_splits)
  then show ?thesis using assms(1) by (simp add: vt_inv_def)
qed

lemma vt_alloc_some:
  assumes inv: "vt_inv t" and al: "vt_alloc t ino fs mnt ops = (Some v, t')"
  shows "vt_inv t'" and "unat v < MAX_VNODES" and "\<not> vt_busy t (unat v)" and "\<forall>j < unat v. vt_busy t j"
    and "vt_get t' v = Some \<lparr>v_ino = ino, v_fs_id = fs, v_mount_id = mnt, v_ops = ops, v_used = True\<rparr>"
    and "\<And>i. i \<noteq> unat v \<Longrightarrow> vnodes t' ! i = vnodes t ! i" and "vt_busy t' = (vt_busy t)(unat v := True)"
proof -
  from al obtain i where f: "find_index (\<lambda>v. \<not> v_used v) (vnodes t) = Some i" and v: "v = of_nat i"
    and t': "t' = t\<lparr>vnodes := (vnodes t)[i := \<lparr>v_ino = ino, v_fs_id = fs, v_mount_id = mnt, v_ops = ops, v_used = True\<rparr>],
            vcount := vcount t + 1\<rparr>"
    by (auto simp: vt_alloc_def split: option.splits)
  note ff = first_free [OF f]
  have i: "i < MAX_VNODES" "length (vnodes t) = MAX_VNODES" using ff inv by (simp_all add: vt_inv_def)
  then have u: "unat v = i" using v by (simp add: unat_of_nat_lt MAX_VNODES_def)
  show "vt_inv t'" unfolding t' by (rule vt_set_inv [OF inv i(1)]) (use ff in simp_all)
  show "unat v < MAX_VNODES" "\<not> vt_busy t (unat v)" "\<forall>j < unat v. vt_busy t j"
    using ff i u by (auto simp: vt_busy_def)
  show "vt_get t' v = Some \<lparr>v_ino = ino, v_fs_id = fs, v_mount_id = mnt, v_ops = ops, v_used = True\<rparr>"
    using i u by (simp add: vt_get_def t')
  show "vnodes t' ! j = vnodes t ! j" if "j \<noteq> unat v" for j using that u by (simp add: t')
  show "vt_busy t' = (vt_busy t)(unat v := True)"
    using i u by (auto simp: vt_busy_def t' fun_eq_iff nth_list_update)
qed

lemma vt_alloc_none: "vt_inv t \<Longrightarrow> vt_alloc t ino fs mnt ops = (None, t') \<Longrightarrow> t' = t \<and> (\<forall>i < MAX_VNODES. vt_busy t i)"
  by (auto simp: vt_alloc_def find_index_None vt_inv_def vt_busy_def split: option.splits)

interpretation vts: slot_table vt_inv vt_busy MAX_VNODES vt_take vt_drop
proof
  fix t :: vnode_table and x :: "u64 \<times> u64 \<times> u64 \<times> ops_id" and i t'
  obtain ino fs mnt ops where x: "x = (ino, fs, mnt, ops)" by (cases x)
  assume inv: "vt_inv t"
  show "vt_inv t' \<and> i < MAX_VNODES \<and> \<not> vt_busy t i \<and> (\<forall>j < i. vt_busy t j) \<and> vt_busy t' = (vt_busy t)(i := True)"
    if "vt_take t x = (Some i, t')"
  proof -
    from that obtain v where al: "vt_alloc t ino fs mnt ops = (Some v, t')" "i = unat v"
      by (cases "vt_alloc t ino fs mnt ops") (auto simp: vt_take_def x)
    show ?thesis using vt_alloc_some(1-4,7) [OF inv al(1)] al(2) by simp
  qed
  show "t' = t \<and> (\<forall>i < MAX_VNODES. vt_busy t i)" if "vt_take t x = (None, t')"
    using that vt_alloc_none [OF inv] by (cases "vt_alloc t ino fs mnt ops") (auto simp: vt_take_def x)
  show "\<exists>t'. vt_drop t i = (True, t') \<and> vt_inv t' \<and> vt_busy t' = (vt_busy t)(i := False)"
    if "i < MAX_VNODES" "vt_busy t i"
  proof -
    let ?t = "t\<lparr>vnodes := (vnodes t)[i := (vnodes t ! i)\<lparr>v_used := False\<rparr>], vcount := vcount t - 1\<rparr>"
    have "vt_inv ?t" by (rule vt_set_inv [OF inv that(1)]) (use that in \<open>simp_all add: vt_busy_def\<close>)
    moreover have "vt_busy ?t = (vt_busy t)(i := False)" by (auto simp: vt_busy_def fun_eq_iff nth_list_update)
    moreover have "vt_drop t i = (True, ?t)"
      using that by (simp add: vt_drop_def vt_free_def vt_busy_def unat_of_nat_lt MAX_VNODES_def)
    ultimately show ?thesis by blast
  qed
  show "vt_drop t i = (False, t)" if "\<not> (i < MAX_VNODES \<and> vt_busy t i)"
    using that inv by (auto simp: vt_drop_def vt_free_def vt_busy_def vt_inv_def unat_of_nat_lt)
qed

section \<open>The longest mount\<close>

definition mount_covers :: "mount_table \<Rightarrow> bytes \<Rightarrow> nat \<Rightarrow> bool" where
  "mount_covers t path i \<longleftrightarrow> i < MAX_MOUNTS \<and> m_used (mounts t ! i) \<and>
     take (length (mp_bytes (mounts t ! i))) path = mp_bytes (mounts t ! i)"

abbreviation mp_length :: "mount_table \<Rightarrow> nat \<Rightarrow> nat" where
  "mp_length t i \<equiv> length (mp_bytes (mounts t ! i))"

lemma take_eq_length: "take (length xs) ys = xs \<Longrightarrow> length xs \<le> length ys"
  by (metis length_take min.cobounded1)

lemma find_mount_loop_spec:
  assumes "\<forall>i \<in> set is. i < MAX_MOUNTS"
    and "case best of None \<Rightarrow> bl = 0 | Some b \<Rightarrow> mount_covers t path b \<and> bl = mp_length t b"
  shows "case find_mount_loop (mounts t) path is best bl of
      None \<Rightarrow> best = None \<and> (\<forall>i \<in> set is. mount_covers t path i \<longrightarrow> mp_length t i = 0)
    | Some b \<Rightarrow> mount_covers t path b \<and> bl \<le> mp_length t b \<and>
        (\<forall>i \<in> set is. mount_covers t path i \<longrightarrow> mp_length t i \<le> mp_length t b)"
  using assms
proof (induction "mounts t" path "is" best bl rule: find_mount_loop.induct)
  case (2 path i ist best bl)
  show ?case
  proof (cases "mount_covers t path i \<and> mp_length t i > bl")
    case True
    then have "m_used (mounts t ! i)" "\<not> length path < mp_length t i" "take (mp_length t i) path = mp_bytes (mounts t ! i)"
      by (auto simp: mount_covers_def dest: take_eq_length)
    then have "find_mount_loop (mounts t) path (i # ist) best bl = find_mount_loop (mounts t) path ist (Some i) (mp_length t i)"
      using True by simp
    with "2.hyps"(3) [OF refl] True "2.prems" show ?thesis
      by (auto simp: mount_covers_def split: option.splits dest: take_eq_length)
  next
    case False
    have i: "i < MAX_MOUNTS" using "2.prems" by simp
    then have eq: "find_mount_loop (mounts t) path (i # ist) best bl = find_mount_loop (mounts t) path ist best bl"
      using False by (auto simp: mount_covers_def Let_def)
    have "case find_mount_loop (mounts t) path ist best bl of
      None \<Rightarrow> best = None \<and> (\<forall>i \<in> set ist. mount_covers t path i \<longrightarrow> mp_length t i = 0)
    | Some b \<Rightarrow> mount_covers t path b \<and> bl \<le> mp_length t b \<and>
        (\<forall>i \<in> set ist. mount_covers t path i \<longrightarrow> mp_length t i \<le> mp_length t b)"
    proof (cases "m_used (mounts t ! i)")
      case u: True
      show ?thesis
      proof (cases "length path < mp_length t i")
        case True
        then show ?thesis using "2.hyps"(2) [OF refl] u "2.prems" by simp
      next
        case nl: False
        then have "\<not> (take (mp_length t i) path = mp_bytes (mounts t ! i) \<and> mp_length t i > bl)"
          using False u i by (auto simp: mount_covers_def)
        then show ?thesis using "2.hyps"(4) [OF refl] u nl "2.prems" by simp
      qed
    next
      case False
      then show ?thesis using "2.hyps"(1) [OF refl] "2.prems" by simp
    qed
    with False "2.prems"(2) show ?thesis unfolding eq by (auto split: option.splits)
  qed
qed (auto split: option.splits)

lemma find_mount_spec:
  "case find_mount t path of
      None \<Rightarrow> \<forall>i. mount_covers t path i \<longrightarrow> mp_length t i = 0
    | Some b \<Rightarrow> mount_covers t path b \<and> (\<forall>i. mount_covers t path i \<longrightarrow> mp_length t i \<le> mp_length t b)"
  using find_mount_loop_spec [of "[0..<MAX_MOUNTS]" 0 t path None]
  by (auto simp: find_mount_def mount_covers_def split: option.splits)

lemma vt_free_loop_keeps:
  "vt_inv t \<Longrightarrow> \<forall>i \<in> set is. i < MAX_VNODES \<Longrightarrow> vt_inv (vt_free_loop t ino is) \<and>
     (\<forall>i. vt_busy (vt_free_loop t ino is) i \<longleftrightarrow> vt_busy t i \<and> \<not> (i \<in> set is \<and> v_ino (vnodes t ! i) = ino)) \<and>
     (\<forall>i. v_ino (vnodes (vt_free_loop t ino is) ! i) = v_ino (vnodes t ! i))"
proof (induction t ino "is" rule: vt_free_loop.induct)
  case (2 t ino i ist)
  let ?hit = "v_used (vnodes t ! i) \<and> v_ino (vnodes t ! i) = ino"
  define t1 where "t1 = (if ?hit
        then t\<lparr>vnodes := (vnodes t)[i := (vnodes t ! i)\<lparr>v_used := False\<rparr>],
               vcount := (if vcount t = 0 then 0 else vcount t - 1)\<rparr> else t)"
  have i: "i < MAX_VNODES" using "2.prems" by simp
  have len: "length (vnodes t) = MAX_VNODES" using "2.prems" by (simp add: vt_inv_def)
  have nz: "vcount t \<noteq> 0" if ?hit
  proof
    assume "vcount t = 0"
    then have "filter v_used (vnodes t) = []" using "2.prems"(1) by (simp add: vt_inv_def)
    then show False using that i len by (auto simp: filter_empty_conv)
  qed
  have "vt_inv t1"
    using vt_set_inv [OF "2.prems"(1) i, of "(vnodes t ! i)\<lparr>v_used := False\<rparr>"] nz "2.prems"(1) by (simp add: t1_def)
  moreover have b1: "vt_busy t1 j \<longleftrightarrow> vt_busy t j \<and> \<not> (j = i \<and> v_ino (vnodes t ! j) = ino)" for j
    using i len by (cases "j = i") (auto simp: t1_def vt_busy_def)
  moreover have i1: "v_ino (vnodes t1 ! j) = v_ino (vnodes t ! j)" for j
    using i len by (cases "j = i") (auto simp: t1_def nth_list_update)
  ultimately have IH: "vt_inv (vt_free_loop t1 ino ist)"
    "\<forall>j. vt_busy (vt_free_loop t1 ino ist) j \<longleftrightarrow> vt_busy t1 j \<and> \<not> (j \<in> set ist \<and> v_ino (vnodes t1 ! j) = ino)"
    "\<forall>j. v_ino (vnodes (vt_free_loop t1 ino ist) ! j) = v_ino (vnodes t1 ! j)"
    using "2.IH" [folded t1_def] "2.prems"(2) by auto
  have eq: "vt_free_loop t ino (i # ist) = vt_free_loop t1 ino ist" by (simp add: t1_def)
  show ?case unfolding eq using IH b1 i1 by auto
qed simp

section \<open>Properties\<close>

text \<open>C20: A path is served by the longest mount point that is a prefix of it: \<^verbatim>\<open>find_mount\<close> returns a mounted entry
  whose mount point is a prefix of the path and at least as long as every other such entry's, and it finds none
  only if no non-empty mount point is a prefix of the path.\<close>

theorem find_mount_longest_prefix:
  "case find_mount t path of
      None \<Rightarrow> \<forall>i. mount_covers t path i \<longrightarrow> mp_length t i = 0
    | Some b \<Rightarrow> mount_covers t path b \<and> (\<forall>i. mount_covers t path i \<longrightarrow> mp_length t i \<le> mp_length t b)"
  by (rule find_mount_spec)

definition demo_mount :: "bytes \<Rightarrow> mount_entry" where
  "demo_mount mp = \<lparr>mount_point = mp, mp_len = length mp, m_fs_id = 1, m_root = 0, m_ops = 1, m_flags = 0, m_used = (mp \<noteq> [])\<rparr>"

definition demo_mounts :: mount_table where
  "demo_mounts = \<lparr>mounts = [demo_mount [47], demo_mount [47, 112]] @ replicate 14 (demo_mount []), mcount = 2\<rparr>"

theorem find_mount_longest_prefix_witness:
  "find_mount demo_mounts [47, 112, 47, 120] = Some 1 \<and> mount_covers demo_mounts [47, 112, 47, 120] 1"
proof -
  have "find_mount demo_mounts [47, 112, 47, 120] = Some 1" by code_simp
  with find_mount_longest_prefix [of demo_mounts "[47, 112, 47, 120]"] show ?thesis by simp
qed

text \<open>C21: File descriptors follow the lowest-number rule: \<^verbatim>\<open>alloc_fd\<close> returns the smallest unused number with
  offset 0, fails only when all 16 are in use, and leaves every other descriptor alone; the numbers handed out by
  any sequence of calls are pairwise different.\<close>

theorem alloc_fd_lowest:
  assumes "fd_inv t"
  shows "(case alloc_fd t v ino fl of
      (Some i, t') \<Rightarrow> i < 16 \<and> \<not> fd_busy t i \<and> (\<forall>j. j < i \<longrightarrow> fd_busy t j) \<and>
        get_fd t' i = Some \<lparr>fd_vnode = v, fd_ino = ino, fd_offset = 0, fd_flags = fl, fd_used = True\<rparr> \<and>
        (\<forall>j. j \<noteq> i \<longrightarrow> t' ! j = t ! j)
    | (None, t') \<Rightarrow> t' = t \<and> (\<forall>i. i < 16 \<longrightarrow> fd_busy t i)) \<and>
   distinct (fds.got (fst (fds.take_many t xs)))"
proof (intro conjI)
  show "distinct (fds.got (fst (fds.take_many t xs)))"
    using fds.take_many_distinct [OF assms, of xs] by (cases "fds.take_many t xs") auto
  show "case alloc_fd t v ino fl of
      (Some i, t') \<Rightarrow> i < 16 \<and> \<not> fd_busy t i \<and> (\<forall>j. j < i \<longrightarrow> fd_busy t j) \<and>
        get_fd t' i = Some \<lparr>fd_vnode = v, fd_ino = ino, fd_offset = 0, fd_flags = fl, fd_used = True\<rparr> \<and>
        (\<forall>j. j \<noteq> i \<longrightarrow> t' ! j = t ! j)
    | (None, t') \<Rightarrow> t' = t \<and> (\<forall>i. i < 16 \<longrightarrow> fd_busy t i)"
  proof (cases "find_index (\<lambda>d. \<not> fd_used d) t")
    case None
    then have "\<forall>i. i < 16 \<longrightarrow> fd_busy t i" using assms
      by (simp add: find_index_None fd_inv_def fd_busy_def MAX_FDS_def)
    then show ?thesis by (simp add: alloc_fd_def None)
  next
    case (Some i)
    with first_free [OF Some] assms show ?thesis
      by (auto simp: alloc_fd_def get_fd_def fd_inv_def fd_busy_def MAX_FDS_def)
  qed
qed

theorem alloc_fd_lowest_witness:
  "distinct (fds.got (fst (fds.take_many fd_table_new [(1, 2, 0), (3, 4, 0)])))"
  using alloc_fd_lowest [of fd_table_new 0 0 0 "[(1, 2, 0), (3, 4, 0)]"] by (simp add: fd_inv_def fd_table_new_def)

text \<open>The vnode table keeps its counter equal to the number of used slots under allocation, release and
  release by inode number.\<close>

lemma vnode_count_exact:
  assumes "vt_inv t"
  shows "vt_inv (snd (vt_alloc t ino fs mnt ops)) \<and> vt_inv (snd (vt_free t v)) \<and> vt_inv (vt_free_by_ino t ino)"
proof (intro conjI)
  obtain r t' where al: "vt_alloc t ino fs mnt ops = (r, t')" by fastforce
  then show "vt_inv (snd (vt_alloc t ino fs mnt ops))"
    using vt_alloc_some(1) [OF assms] vt_alloc_none [OF assms] assms by (cases r) (simp | blast)+
  have "vt_free t v = vt_drop t (unat v)" by (simp add: vt_drop_def)
  then show "vt_inv (snd (vt_free t v))"
    using vts.release_used [OF assms, of "unat v"] vts.release_free [OF assms, of "unat v"] assms
    by (cases "unat v < MAX_VNODES \<and> vt_busy t (unat v)") auto
  show "vt_inv (vt_free_by_ino t ino)"
    using vt_free_loop_keeps [OF assms, of "[0..<MAX_VNODES]" ino] by (simp add: vt_free_by_ino_def)
qed

lemma vnode_count_exact_witness: "vt_inv (snd (vt_alloc vnode_table_new 5 1 0 1))"
  using vnode_count_exact [of vnode_table_new 5 1 0 1]
  by (simp add: vt_inv_def vnode_table_new_def vnode_empty_def)

text \<open>Releasing vnodes by inode number does not look at the file system: every vnode with that inode number is
  released, also those that belong to another mounted file system.\<close>

lemma free_by_ino_crosses_filesystems:
  assumes "vt_inv t" and "vt_get t v = Some n" and "v_ino n = ino"
  shows "vt_get (vt_free_by_ino t ino) v = None"
proof -
  have "\<not> vt_busy (vt_free_by_ino t ino) (unat v)"
    using vt_free_loop_keeps [OF assms(1), of "[0..<MAX_VNODES]" ino] assms(2,3)
    by (auto simp: vt_free_by_ino_def vt_get_def Let_def split: if_splits)
  moreover have "length (vnodes (vt_free_by_ino t ino)) = MAX_VNODES"
    using vt_free_loop_keeps [OF assms(1), of "[0..<MAX_VNODES]" ino] by (simp add: vt_free_by_ino_def vt_inv_def)
  ultimately show ?thesis by (auto simp: vt_get_def vt_busy_def)
qed

lemma free_by_ino_crosses_filesystems_witness:
  "vt_get (vt_free_by_ino (snd (vt_alloc vnode_table_new 5 2 1 3)) 5) 0 = None"
proof -
  have "vt_inv vnode_table_new" by (simp add: vt_inv_def vnode_table_new_def vnode_empty_def)
  then have "vt_inv (snd (vt_alloc vnode_table_new 5 2 1 3))" using vt_alloc_some(1)
    by (simp add: vt_alloc_def vnode_table_new_def MAX_VNODES_def vnode_empty_def numeral_eq_Suc)
  moreover have "vt_get (snd (vt_alloc vnode_table_new 5 2 1 3)) 0 =
      Some \<lparr>v_ino = 5, v_fs_id = 2, v_mount_id = 1, v_ops = 3, v_used = True\<rparr>" by code_simp
  ultimately show ?thesis by (rule free_by_ino_crosses_filesystems) simp
qed

end
