(* ===== verification/Ramfs.thy ===== *)
theory Ramfs
  imports Buddy Xattr Vfs_Tables
begin

text \<open>
  The in-memory file system of \<^verbatim>\<open>src/src/vfs_core/ramfs.rs\<close>: a table of 256 inodes with up to 1024 blocks of 4 KiB
  each, directories of 64 entries, symbolic links and extended attributes. Blocks are pages of the buddy allocator,
  so the state carries the allocator, the bytes of memory and, for \<^verbatim>\<open>rename\<close>, the vnode table. An operation
  returns \<open>None\<close> when it panics (an index or slice out of range), else its result, \<open>Inl\<close> with the error string or
  \<open>Inr\<close> with the value, and the new state; the code changes state on some error paths and so does the model.
  A buffer that is read into is represented by the bytes stored at its front.
\<close>

unbundle bit_operations_syntax

section \<open>Data\<close>

definition MAX_INODES :: nat where "MAX_INODES = 256"
definition MAX_DIRENTS :: nat where "MAX_DIRENTS = 64"
definition RAMFS_BLOCK :: nat where "RAMFS_BLOCK = 4096"
definition MAX_BLOCKS_PER_INODE :: nat where "MAX_BLOCKS_PER_INODE = 1024"
definition MAX_SYMLINK_LEN :: nat where "MAX_SYMLINK_LEN = 256"
definition MAX_NAME :: nat where "MAX_NAME = 255"

definition FT_REG_FILE :: u8 where "FT_REG_FILE = 1"
definition FT_DIR :: u8 where "FT_DIR = 2"
definition FT_SYMLINK :: u8 where "FT_SYMLINK = 7"

definition S_IFMT :: u32 where "S_IFMT = 0xF000"
definition S_IFLNK :: u32 where "S_IFLNK = 0xA000"
definition S_IFREG :: u32 where "S_IFREG = 0x8000"
definition S_IFDIR :: u32 where "S_IFDIR = 0x4000"

record ram_dirent =
  de_ino :: u64
  de_name :: bytes
  de_len :: u16
  de_type :: u8
  de_used :: bool

definition ram_dirent_empty :: ram_dirent where
  "ram_dirent_empty = \<lparr>de_ino = 0, de_name = replicate MAX_NAME 0, de_len = 0, de_type = 0, de_used = False\<rparr>"

definition dirent_set :: "ram_dirent \<Rightarrow> u64 \<Rightarrow> bytes \<Rightarrow> u8 \<Rightarrow> ram_dirent" where
  "dirent_set d ino nm ftype =
     (let len = min (length nm) MAX_NAME
      in d\<lparr>de_ino := ino, de_len := of_nat (length nm), de_type := ftype,
           de_name := take len nm @ drop len (de_name d), de_used := True\<rparr>)"

record ram_inode =
  i_mode :: u32
  i_uid :: u32
  i_gid :: u32
  i_size :: u64
  i_nlink :: u32
  i_blocks :: "u64 list"
  i_block_count :: nat
  i_used :: bool
  i_symlink :: bytes
  i_symlink_len :: nat
  i_xattr :: xattr_block
  i_dirents :: "ram_dirent list"
  i_dirent_count :: nat

definition ram_inode_empty :: ram_inode where
  "ram_inode_empty = \<lparr>i_mode = 0, i_uid = 0, i_gid = 0, i_size = 0, i_nlink = 0,
     i_blocks = replicate MAX_BLOCKS_PER_INODE 0, i_block_count = 0, i_used = False,
     i_symlink = replicate MAX_SYMLINK_LEN 0, i_symlink_len = 0, i_xattr = xattr_block_empty,
     i_dirents = replicate MAX_DIRENTS ram_dirent_empty, i_dirent_count = 0\<rparr>"

record ramfs =
  pages :: buddy
  mem :: "u64 \<Rightarrow> u8"
  inodes :: "ram_inode list"
  fs_vnodes :: vnode_table

definition ramfs_new :: "buddy \<Rightarrow> ramfs" where
  "ramfs_new p = \<lparr>pages = p, mem = (\<lambda>_. 0), inodes = replicate MAX_INODES ram_inode_empty, fs_vnodes = vnode_table_new\<rparr>"

record stat =
  st_ino :: u64
  st_mode :: u32
  st_nlink :: u32
  st_uid :: u32
  st_gid :: u32
  st_size :: u64
  st_blksize :: u64
  st_blocks :: u64

record dirent =
  d_ino :: u64
  d_offset :: u64
  d_namelen :: u16
  d_type :: u8
  d_name :: bytes

record attr =
  a_mode :: u32
  a_uid :: u32
  a_gid :: u32

section \<open>Memory\<close>

definition mem_write :: "(u64 \<Rightarrow> u8) \<Rightarrow> u64 \<Rightarrow> bytes \<Rightarrow> u64 \<Rightarrow> u8" where
  "mem_write m p bs = (\<lambda>a. let k = unat (a - p) in if k < length bs then bs ! k else m a)"

definition mem_read :: "(u64 \<Rightarrow> u8) \<Rightarrow> u64 \<Rightarrow> nat \<Rightarrow> bytes" where
  "mem_read m p n = map (\<lambda>k. m (p + of_nat k)) [0..<n]"

text \<open>\<^verbatim>\<open>write_bytes(ptr, 0, n)\<close>: besides the bytes, the block headers that lie in the range are zeroed.\<close>

definition zero_bytes :: "ramfs \<Rightarrow> u64 \<Rightarrow> nat \<Rightarrow> ramfs" where
  "zero_bytes s p n =
     s\<lparr>mem := (\<lambda>a. if unat (a - p) < n then 0 else mem s a),
       pages := (pages s)\<lparr>hdr := (\<lambda>a. if unat (a - p) < n then null_block else hdr (pages s) a)\<rparr>\<rparr>"

definition upd_inode :: "ramfs \<Rightarrow> nat \<Rightarrow> (ram_inode \<Rightarrow> ram_inode) \<Rightarrow> ramfs" where
  "upd_inode s i f = s\<lparr>inodes := (inodes s)[i := f (inodes s ! i)]\<rparr>"

section \<open>Inodes and blocks\<close>

type_synonym 'a result = "((string + 'a) \<times> ramfs) option"

definition alloc_inode :: "ramfs \<Rightarrow> nat option \<times> ramfs" where
  "alloc_inode s =
     (case find_index (\<lambda>nd. \<not> i_used nd) (inodes s) of
        Some i \<Rightarrow> (Some i, upd_inode s i (\<lambda>nd. nd\<lparr>i_used := True, i_mode := 0, i_uid := 0, i_gid := 0, i_size := 0,
            i_nlink := 1, i_block_count := 0, i_symlink_len := 0, i_dirent_count := 0,
            i_xattr := xattr_block_empty, i_blocks := replicate MAX_BLOCKS_PER_INODE 0\<rparr>))
      | None \<Rightarrow> (None, s))"

definition get_ino :: "ramfs \<Rightarrow> u64 \<Rightarrow> nat option" where
  "get_ino s ino = (let i = unat ino in if i < MAX_INODES \<and> i_used (inodes s ! i) then Some i else None)"

fun free_blocks_loop :: "env \<Rightarrow> ramfs \<Rightarrow> nat \<Rightarrow> nat list \<Rightarrow> ramfs option" where
  "free_blocks_loop e s i [] = Some s"
| "free_blocks_loop e s i (b # bs) =
     do { p \<leftarrow> arr_get (i_blocks (inodes s ! i)) b;
          s1 \<leftarrow> (if p \<noteq> 0
                 then map_option (\<lambda>pg. upd_inode (s\<lparr>pages := pg\<rparr>) i (\<lambda>nd. nd\<lparr>i_blocks := (i_blocks nd)[b := 0]\<rparr>))
                        (free e (pages s) p 0)
                 else Some s);
          free_blocks_loop e s1 i bs }"

definition free_inode_blocks :: "env \<Rightarrow> ramfs \<Rightarrow> nat \<Rightarrow> ramfs option" where
  "free_inode_blocks e s i =
     map_option (\<lambda>s1. upd_inode s1 i (\<lambda>nd. nd\<lparr>i_block_count := 0\<rparr>))
       (free_blocks_loop e s i [0..<i_block_count (inodes s ! i)])"

definition ensure_block :: "ramfs \<Rightarrow> nat \<Rightarrow> nat \<Rightarrow> (string + u64) \<times> ramfs" where
  "ensure_block s i bi =
     (if bi \<ge> MAX_BLOCKS_PER_INODE then (Inl ''ramfs: too many blocks'', s)
      else if i_blocks (inodes s ! i) ! bi = 0
      then (let (r, pg) = alloc (pages s) 0; s1 = s\<lparr>pages := pg\<rparr>; p = (case r of Some a \<Rightarrow> a | None \<Rightarrow> 0)
            in if p = 0 then (Inl ''ramfs: oom'', s1)
               else let s2 = zero_bytes s1 p RAMFS_BLOCK
                    in (Inr p, upd_inode s2 i (\<lambda>nd. nd\<lparr>i_blocks := (i_blocks nd)[bi := p],
                          i_block_count := (if bi \<ge> i_block_count nd then bi + 1 else i_block_count nd)\<rparr>)))
      else (Inr (i_blocks (inodes s ! i) ! bi), s))"

section \<open>Reading and writing\<close>

function read_loop :: "(u64 \<Rightarrow> u8) \<Rightarrow> ram_inode \<Rightarrow> u64 \<Rightarrow> nat \<Rightarrow> bytes \<Rightarrow> bytes option" where
  "read_loop m nd pos left acc =
     (if left = 0 then Some acc
      else let bi = unat (pos div 4096); bo = unat (pos mod 4096)
           in if bi \<ge> i_block_count nd then Some acc
              else case arr_get (i_blocks nd) bi of
                     None \<Rightarrow> None
                   | Some p \<Rightarrow>
                       if p = 0 then Some acc
                       else let chunk = min left (RAMFS_BLOCK - bo)
                            in read_loop m nd (pos + of_nat chunk) (left - chunk) (acc @ mem_read m (p + of_nat bo) chunk))"
  by pat_completeness auto
termination
proof (relation "measure (\<lambda>(m, nd, pos, left, acc). left)", goal_cases)
  case (2 m nd pos left acc bi bo p chunk)
  have "bo < 4096" using 2 by (simp add: unat_mod)
  then show ?case using 2 by (simp add: RAMFS_BLOCK_def)
qed simp

declare read_loop.simps [simp del]

definition ram_read :: "ramfs \<Rightarrow> u64 \<Rightarrow> u64 \<Rightarrow> nat \<Rightarrow> (string + bytes) option" where
  "ram_read s ino offset blen =
     (case get_ino s ino of
        None \<Rightarrow> Some (Inl ''bad ino'')
      | Some i \<Rightarrow>
          let nd = inodes s ! i
          in if offset \<ge> i_size nd then Some (Inr [])
             else map_option Inr
                    (read_loop (mem s) nd offset (unat (min (i_size nd - offset) (of_nat blen))) []))"

function write_loop :: "ramfs \<Rightarrow> nat \<Rightarrow> u64 \<Rightarrow> bytes \<Rightarrow> (string + unit) \<times> ramfs" where
  "write_loop s i pos bs =
     (if bs = [] then (Inr (), s)
      else let bi = unat (pos div 4096); bo = unat (pos mod 4096)
           in case ensure_block s i bi of
                (Inl err, s1) \<Rightarrow> (Inl err, s1)
              | (Inr p, s1) \<Rightarrow>
                  let chunk = min (length bs) (RAMFS_BLOCK - bo)
                  in write_loop (s1\<lparr>mem := mem_write (mem s1) (p + of_nat bo) (take chunk bs)\<rparr>) i
                       (pos + of_nat chunk) (drop chunk bs))"
  by pat_completeness auto
termination
proof (relation "measure (\<lambda>(s, i, pos, bs). length bs)", goal_cases)
  case (2 s i pos bs bi bo r s1 p chunk)
  have "bo < 4096" using 2 by (simp add: unat_mod)
  then show ?case using 2 by (simp add: RAMFS_BLOCK_def)
qed simp

declare write_loop.simps [simp del]

definition ram_write :: "ramfs \<Rightarrow> u64 \<Rightarrow> u64 \<Rightarrow> bytes \<Rightarrow> (string + nat) \<times> ramfs" where
  "ram_write s ino offset buf =
     (case get_ino s ino of
        None \<Rightarrow> (Inl ''bad ino'', s)
      | Some i \<Rightarrow>
          let hi = offset + of_nat (length buf);
              s1 = (if hi > i_size (inodes s ! i) then upd_inode s i (\<lambda>nd. nd\<lparr>i_size := hi\<rparr>) else s)
          in case write_loop s1 i offset buf of
               (Inl err, s2) \<Rightarrow> (Inl err, s2)
             | (Inr _, s2) \<Rightarrow> (Inr (length buf), s2))"

section \<open>Directories\<close>

definition dirent_match :: "ram_dirent \<Rightarrow> bytes \<Rightarrow> bool option" where
  "dirent_match d nm =
     (if \<not> de_used d then Some False
      else if unat (de_len d) = length nm then map_option (\<lambda>n. n = nm) (slice_to (de_name d) (unat (de_len d)))
      else Some False)"

fun dirent_scan :: "ram_dirent list \<Rightarrow> bytes \<Rightarrow> nat list \<Rightarrow> nat option option" where
  "dirent_scan ds nm [] = Some None"
| "dirent_scan ds nm (i # is) =
     do { d \<leftarrow> arr_get ds i;
          hit \<leftarrow> dirent_match d nm;
          if hit then Some (Some i) else dirent_scan ds nm is }"

definition find_dirent :: "ram_inode \<Rightarrow> bytes \<Rightarrow> nat option option" where
  "find_dirent nd nm = dirent_scan (i_dirents nd) nm [0..<i_dirent_count nd]"

definition ram_lookup :: "ramfs \<Rightarrow> u64 \<Rightarrow> bytes \<Rightarrow> (string + u64) option" where
  "ram_lookup s parent_ino nm =
     (if parent_ino = 0 \<and> nm = [47] then Some (Inr 0)
      else case get_ino s parent_ino of
             None \<Rightarrow> Some (Inl ''bad ino'')
           | Some p \<Rightarrow>
               do { r \<leftarrow> find_dirent (inodes s ! p) nm;
                    Some (case r of Some i \<Rightarrow> Inr (de_ino (i_dirents (inodes s ! p) ! i)) | None \<Rightarrow> Inl ''ramfs: not found'') })"

fun readdir_loop :: "ram_dirent list \<Rightarrow> nat \<Rightarrow> nat \<Rightarrow> nat list \<Rightarrow> dirent list \<Rightarrow> dirent list option" where
  "readdir_loop ds start cap [] acc = Some acc"
| "readdir_loop ds start cap (i # is) acc =
     (if length acc < cap
      then do { d \<leftarrow> arr_get ds i;
                if de_used d \<and> i \<ge> start
                then do { n \<leftarrow> slice_to (de_name d) (unat (de_len d));
                          readdir_loop ds start cap is
                            (acc @ [\<lparr>d_ino = de_ino d, d_offset = of_nat i, d_namelen = de_len d, d_type = de_type d,
                                      d_name = n @ replicate (MAX_NAME - length n) 0\<rparr>]) }
                else readdir_loop ds start cap is acc }
      else Some acc)"

definition ram_readdir :: "ramfs \<Rightarrow> u64 \<Rightarrow> u64 \<Rightarrow> nat \<Rightarrow> (string + dirent list) option" where
  "ram_readdir s dir_ino offset cap =
     (case get_ino s dir_ino of
        None \<Rightarrow> Some (Inl ''bad ino'')
      | Some p \<Rightarrow> map_option Inr (readdir_loop (i_dirents (inodes s ! p)) (unat offset) cap [0..<i_dirent_count (inodes s ! p)] []))"

definition free_slot :: "ram_inode \<Rightarrow> nat option" where
  "free_slot nd = find_index (\<lambda>d. \<not> de_used d) (take (i_dirent_count nd) (i_dirents nd))"

definition put_dirent :: "ramfs \<Rightarrow> nat \<Rightarrow> nat \<Rightarrow> u64 \<Rightarrow> bytes \<Rightarrow> u8 \<Rightarrow> ramfs" where
  "put_dirent s p slot ino nm ftype =
     upd_inode s p (\<lambda>nd. nd\<lparr>i_dirents := (i_dirents nd)[slot := dirent_set (i_dirents nd ! slot) ino nm ftype]\<rparr>)"

definition ram_create :: "env \<Rightarrow> ramfs \<Rightarrow> u64 \<Rightarrow> bytes \<Rightarrow> u32 \<Rightarrow> u64 result" where
  "ram_create e s parent_ino nm mode =
     (case get_ino s parent_ino of
        None \<Rightarrow> Some (Inl ''bad parent'', s)
      | Some p \<Rightarrow>
          (case alloc_inode s of
             (None, s1) \<Rightarrow> Some (Inl ''ramfs: no inodes'', s1)
           | (Some c, s1) \<Rightarrow>
               let s2 = upd_inode s1 c (\<lambda>nd. nd\<lparr>i_mode := (if mode AND S_IFMT \<noteq> 0 then mode else mode OR S_IFREG)\<rparr>)
               in case free_slot (inodes s2 ! p) of
                    Some slot \<Rightarrow>
                      Some (Inr (of_nat c), upd_inode (put_dirent s2 p slot (of_nat c) nm FT_REG_FILE) c (\<lambda>nd. nd\<lparr>i_nlink := 1\<rparr>))
                  | None \<Rightarrow>
                      if i_dirent_count (inodes s2 ! p) \<ge> MAX_DIRENTS
                      then do { s3 \<leftarrow> free_inode_blocks e s2 c;
                                Some (Inl ''ramfs: dirents full'', upd_inode s3 c (\<lambda>nd. nd\<lparr>i_used := False\<rparr>)) }
                      else let slot = i_dirent_count (inodes s2 ! p);
                               s3 = upd_inode s2 p (\<lambda>nd. nd\<lparr>i_dirent_count := i_dirent_count nd + 1\<rparr>)
                           in Some (Inr (of_nat c),
                                upd_inode (put_dirent s3 p slot (of_nat c) nm FT_REG_FILE) c (\<lambda>nd. nd\<lparr>i_nlink := 1\<rparr>))))"

definition ram_mkdir :: "ramfs \<Rightarrow> u64 \<Rightarrow> bytes \<Rightarrow> u32 \<Rightarrow> (string + u64) \<times> ramfs" where
  "ram_mkdir s parent_ino nm mode =
     (case get_ino s parent_ino of
        None \<Rightarrow> (Inl ''bad parent'', s)
      | Some p \<Rightarrow>
          (case alloc_inode s of
             (None, s1) \<Rightarrow> (Inl ''ramfs: no inodes'', s1)
           | (Some c, s1) \<Rightarrow>
               let s2 = upd_inode s1 c (\<lambda>nd. nd\<lparr>i_mode := mode OR S_IFDIR, i_nlink := 1\<rparr>)
               in if i_dirent_count (inodes s2 ! p) \<ge> MAX_DIRENTS
                  then (Inl ''ramfs: dirents full'', upd_inode s2 c (\<lambda>nd. nd\<lparr>i_used := False\<rparr>))
                  else (case free_slot (inodes s2 ! p) of
                          Some slot \<Rightarrow> (Inr (of_nat c), put_dirent s2 p slot (of_nat c) nm FT_DIR)
                        | None \<Rightarrow>
                            let slot = i_dirent_count (inodes s2 ! p);
                                s3 = upd_inode s2 p (\<lambda>nd. nd\<lparr>i_dirent_count := i_dirent_count nd + 1\<rparr>)
                            in (Inr (of_nat c), put_dirent s3 p slot (of_nat c) nm FT_DIR))))"

definition clear_dirent :: "ramfs \<Rightarrow> nat \<Rightarrow> nat \<Rightarrow> ramfs" where
  "clear_dirent s p i =
     upd_inode s p (\<lambda>nd. nd\<lparr>i_dirents := (i_dirents nd)[i := (i_dirents nd ! i)\<lparr>de_used := False\<rparr>]\<rparr>)"

definition drop_inode :: "env \<Rightarrow> ramfs \<Rightarrow> nat \<Rightarrow> ramfs option" where
  "drop_inode e s i = map_option (\<lambda>s1. upd_inode s1 i (\<lambda>nd. nd\<lparr>i_used := False\<rparr>)) (free_inode_blocks e s i)"

definition ram_remove :: "env \<Rightarrow> ramfs \<Rightarrow> u64 \<Rightarrow> bytes \<Rightarrow> unit result" where
  "ram_remove e s parent_ino nm =
     (case get_ino s parent_ino of
        None \<Rightarrow> Some (Inl ''bad parent'', s)
      | Some p \<Rightarrow>
          do { r \<leftarrow> find_dirent (inodes s ! p) nm;
               case r of
                 None \<Rightarrow> Some (Inl ''ramfs: not found'', s)
               | Some i \<Rightarrow>
                   (let target_ino = de_ino (i_dirents (inodes s ! p) ! i);
                        s1 = clear_dirent s p i
                    in case get_ino s1 target_ino of
                         None \<Rightarrow> Some (Inr (), s1)
                       | Some tgt \<Rightarrow> map_option (\<lambda>s2. (Inr (), s2)) (drop_inode e s1 tgt)) })"

definition ram_rmdir :: "env \<Rightarrow> ramfs \<Rightarrow> u64 \<Rightarrow> bytes \<Rightarrow> unit result" where
  "ram_rmdir e s parent_ino nm = ram_remove e s parent_ino nm"

definition ram_stat :: "ramfs \<Rightarrow> u64 \<Rightarrow> string + stat" where
  "ram_stat s ino =
     (case get_ino s ino of
        None \<Rightarrow> Inl ''bad ino''
      | Some i \<Rightarrow> (let nd = inodes s ! i
                   in Inr \<lparr>st_ino = ino, st_mode = i_mode nd, st_nlink = i_nlink nd, st_uid = i_uid nd, st_gid = i_gid nd,
                           st_size = i_size nd, st_blksize = of_nat RAMFS_BLOCK, st_blocks = of_nat (i_block_count nd)\<rparr>))"

definition ram_readlink :: "ramfs \<Rightarrow> u64 \<Rightarrow> string + bytes" where
  "ram_readlink s ino =
     (case get_ino s ino of
        None \<Rightarrow> Inl ''bad ino''
      | Some i \<Rightarrow> (let nd = inodes s ! i
                   in if i_symlink_len nd = 0 then Inl ''not a symlink'' else Inr (take (i_symlink_len nd) (i_symlink nd))))"

definition ram_symlink :: "ramfs \<Rightarrow> u64 \<Rightarrow> bytes \<Rightarrow> bytes \<Rightarrow> (string + u64) \<times> ramfs" where
  "ram_symlink s parent_ino nm target =
     (case get_ino s parent_ino of
        None \<Rightarrow> (Inl ''bad parent'', s)
      | Some p \<Rightarrow>
          (case alloc_inode s of
             (None, s1) \<Rightarrow> (Inl ''ramfs: no inodes'', s1)
           | (Some c, s1) \<Rightarrow>
               let len = min (length target) MAX_SYMLINK_LEN;
                   s2 = upd_inode s1 c (\<lambda>nd. nd\<lparr>i_mode := S_IFLNK OR 0x1FF, i_symlink_len := len,
                          i_symlink := take len target @ drop len (i_symlink nd)\<rparr>)
               in if i_dirent_count (inodes s2 ! p) \<ge> MAX_DIRENTS
                  then (Inl ''ramfs: dirents full'', upd_inode s2 c (\<lambda>nd. nd\<lparr>i_used := False\<rparr>))
                  else (Inr (of_nat c),
                        upd_inode (put_dirent s2 p (i_dirent_count (inodes s2 ! p)) (of_nat c) nm FT_SYMLINK) p
                          (\<lambda>nd. nd\<lparr>i_dirent_count := i_dirent_count nd + 1\<rparr>))))"

definition rename_into :: "ramfs \<Rightarrow> nat \<Rightarrow> nat option \<Rightarrow> u64 \<Rightarrow> bytes \<Rightarrow> u8 \<Rightarrow> (string + unit) \<times> ramfs" where
  "rename_into s q slot ino nm ftype =
     (case slot of
        Some i \<Rightarrow> (Inr (), put_dirent s q i ino nm ftype)
      | None \<Rightarrow>
          if i_dirent_count (inodes s ! q) \<ge> MAX_DIRENTS then (Inl ''ramfs: dirents full'', s)
          else (Inr (), upd_inode (put_dirent s q (i_dirent_count (inodes s ! q)) ino nm ftype) q
                          (\<lambda>nd. nd\<lparr>i_dirent_count := i_dirent_count nd + 1\<rparr>)))"

definition ram_rename :: "env \<Rightarrow> ramfs \<Rightarrow> u64 \<Rightarrow> bytes \<Rightarrow> u64 \<Rightarrow> bytes \<Rightarrow> unit result" where
  "ram_rename e s old_parent old_name new_parent new_name =
     (case get_ino s old_parent of
        None \<Rightarrow> Some (Inl ''bad old parent'', s)
      | Some p \<Rightarrow>
          do { f \<leftarrow> find_dirent (inodes s ! p) old_name;
               case f of
                 None \<Rightarrow> Some (Inl ''ramfs: not found'', s)
               | Some idx \<Rightarrow>
                   (let d = i_dirents (inodes s ! p) ! idx;
                        s1 = clear_dirent s p idx
                    in case get_ino s1 new_parent of
                         None \<Rightarrow> Some (Inl ''bad new parent'', s1)
                       | Some q \<Rightarrow>
                           do { h \<leftarrow> find_dirent (inodes s1 ! q) new_name;
                                case h of
                                  None \<Rightarrow> Some (rename_into s1 q None (de_ino d) new_name (de_type d))
                                | Some i \<Rightarrow>
                                    (let tino = de_ino (i_dirents (inodes s1 ! q) ! i)
                                     in case get_ino s1 tino of
                                          None \<Rightarrow> Some (Inl ''bad target ino'', s1)
                                        | Some t \<Rightarrow>
                                            do { s2 \<leftarrow> drop_inode e s1 t;
                                                 let s3 = s2\<lparr>fs_vnodes := vt_free_by_ino (fs_vnodes s2) tino\<rparr>;
                                                     s4 = clear_dirent s3 q i
                                                 in Some (rename_into s4 q (Some i) (de_ino d) new_name (de_type d)) }) }) })"

section \<open>Attributes, truncation and initialisation\<close>

definition ram_setattr :: "ramfs \<Rightarrow> u64 \<Rightarrow> attr \<Rightarrow> (string + unit) \<times> ramfs" where
  "ram_setattr s ino a =
     (case get_ino s ino of
        None \<Rightarrow> (Inl ''bad ino'', s)
      | Some i \<Rightarrow> (Inr (), upd_inode s i (\<lambda>nd. nd\<lparr>i_mode := a_mode a, i_uid := a_uid a, i_gid := a_gid a\<rparr>)))"

definition ram_getxattr :: "ramfs \<Rightarrow> u64 \<Rightarrow> bytes \<Rightarrow> nat \<Rightarrow> (string + bytes) option" where
  "ram_getxattr s ino nm cap =
     (case get_ino s ino of
        None \<Rightarrow> Some (Inl ''bad ino'')
      | Some i \<Rightarrow>
          do { g \<leftarrow> xattr_get (i_xattr (inodes s ! i)) nm;
               Some (case g of
                 None \<Rightarrow> Inl ''xattr not found''
               | Some en \<Rightarrow>
                   (let len = unat (value_len en); blk = data_block (i_xattr (inodes s ! i))
                    in if len > cap then Inl ''buf too small''
                       else if blk = 0 then Inl ''no xattr data''
                       else Inr (mem_read (mem s) (blk + of_nat (unat (value_off en))) len))) })"

definition ram_setxattr :: "ramfs \<Rightarrow> u64 \<Rightarrow> bytes \<Rightarrow> bytes \<Rightarrow> unit result" where
  "ram_setxattr s ino nm val =
     (case get_ino s ino of
        None \<Rightarrow> Some (Inl ''bad ino'', s)
      | Some i \<Rightarrow>
          let (ok, s1) =
            (if data_block (i_xattr (inodes s ! i)) = 0
             then (let (r, pg) = alloc (pages s) 0; p = (case r of Some a \<Rightarrow> a | None \<Rightarrow> 0); s0 = s\<lparr>pages := pg\<rparr>
                   in if p = 0 then (False, s0)
                      else (True, upd_inode (zero_bytes s0 p XATTR_SIZE_MAX) i
                                    (\<lambda>nd. nd\<lparr>i_xattr := (i_xattr nd)\<lparr>data_block := p\<rparr>\<rparr>)))
             else (True, s))
          in if \<not> ok then Some (Inl ''oom'', s1)
             else do { (r, b) \<leftarrow> xattr_set (i_xattr (inodes s1 ! i)) nm val;
                       let s2 = upd_inode s1 i (\<lambda>nd. nd\<lparr>i_xattr := b\<rparr>)
                       in Some (case r of
                            Inl err \<Rightarrow> (Inl err, s2)
                          | Inr idx \<Rightarrow>
                              (Inr (), s2\<lparr>mem := mem_write (mem s2)
                                 (data_block b + of_nat (unat (value_off (xentries b ! idx)))) val\<rparr>)) })"

fun listxattr_loop :: "xattr_entry list \<Rightarrow> nat \<Rightarrow> nat list \<Rightarrow> bytes \<Rightarrow> bytes option" where
  "listxattr_loop es cap [] acc = Some acc"
| "listxattr_loop es cap (i # is) acc =
     do { en \<leftarrow> arr_get es i;
          n \<leftarrow> slice_to (xe_name en) (unat (name_len en));
          if length acc + length n + 1 > cap then Some acc
          else listxattr_loop es cap is (acc @ n @ [0]) }"

definition ram_listxattr :: "ramfs \<Rightarrow> u64 \<Rightarrow> nat \<Rightarrow> (string + bytes) option" where
  "ram_listxattr s ino cap =
     (case get_ino s ino of
        None \<Rightarrow> Some (Inl ''bad ino'')
      | Some i \<Rightarrow> map_option Inr (listxattr_loop (xentries (i_xattr (inodes s ! i))) cap
                    [0..<unat (xcount (i_xattr (inodes s ! i)))] []))"

definition ram_truncate :: "env \<Rightarrow> ramfs \<Rightarrow> u64 \<Rightarrow> u64 \<Rightarrow> unit result" where
  "ram_truncate e s ino sz =
     (case get_ino s ino of
        None \<Rightarrow> Some (Inl ''bad ino'', s)
      | Some i \<Rightarrow>
          let new_blocks = unat ((sz + of_nat RAMFS_BLOCK - 1) div of_nat RAMFS_BLOCK)
          in do { s1 \<leftarrow> free_blocks_loop e s i [new_blocks..<i_block_count (inodes s ! i)];
                  Some (Inr (), upd_inode s1 i (\<lambda>nd. nd\<lparr>i_block_count := new_blocks, i_size := sz\<rparr>)) })"

definition ram_ioctl :: "ramfs \<Rightarrow> u64 \<Rightarrow> u64 \<Rightarrow> u64 \<Rightarrow> string + nat" where
  "ram_ioctl s ino request arg = Inl ''ENOTTY''"

definition DIR_MODE :: u32 where "DIR_MODE = S_IFDIR OR 0x1ED"

definition init_dir :: "ramfs \<Rightarrow> (nat \<times> ramfs) option" where
  "init_dir s = (case alloc_inode s of
     (None, _) \<Rightarrow> None
   | (Some i, s1) \<Rightarrow> Some (i, upd_inode s1 i (\<lambda>nd. nd\<lparr>i_mode := DIR_MODE, i_uid := 0, i_gid := 0, i_nlink := 2\<rparr>)))"

definition ramfs_init :: "ramfs \<Rightarrow> ramfs option" where
  "ramfs_init s =
     do { (root, s1) \<leftarrow> init_dir s;
          (bin, s2) \<leftarrow> init_dir s1;
          let s3 = upd_inode (put_dirent s2 root 0 (of_nat bin) [98, 105, 110] FT_DIR) root (\<lambda>nd. nd\<lparr>i_dirent_count := 1\<rparr>)
          in do { (lib, s4) \<leftarrow> init_dir s3;
                  Some (upd_inode (put_dirent s4 root 1 (of_nat lib) [108, 105, 98] FT_DIR) root
                          (\<lambda>nd. nd\<lparr>i_dirent_count := 2\<rparr>)) } }"

end
