(* ===== verification/Machine_Memory.thy ===== *)
theory Machine_Memory
  imports Ramfs
begin

text \<open>
  Little-endian integers in byte-addressed memory: the volatile reads and writes through raw pointers of the kernel
  (message headers, signal frames, user structures), with the lemmas that a load sees the last store to its own address
  and is unaffected by a store that does not overlap it.
\<close>

unbundle bit_operations_syntax

section \<open>Integers as bytes\<close>

definition le_bytes :: "nat \<Rightarrow> 'a::len word \<Rightarrow> bytes" where
  "le_bytes n w = map (\<lambda>k. ucast (drop_bit (8 * k) w)) [0..<n]"

definition of_le :: "bytes \<Rightarrow> 'a::len word" where
  "of_le bs = foldr (\<lambda>b a. push_bit 8 a OR ucast b) bs 0"

definition load :: "nat \<Rightarrow> (u64 \<Rightarrow> u8) \<Rightarrow> u64 \<Rightarrow> 'a::len word" where
  "load n m p = of_le (mem_read m p n)"

definition store :: "nat \<Rightarrow> (u64 \<Rightarrow> u8) \<Rightarrow> u64 \<Rightarrow> 'a::len word \<Rightarrow> u64 \<Rightarrow> u8" where
  "store n m p v = mem_write m p (le_bytes n v)"

lemma length_le_bytes [simp]: "length (le_bytes n w) = n"
  by (simp add: le_bytes_def)

lemma bit_of_le:
  "bit (of_le bs :: 'a::len word) i \<longleftrightarrow> i < LENGTH('a) \<and> i div 8 < length bs \<and> bit (bs ! (i div 8)) (i mod 8)"
proof (induction bs arbitrary: i)
  case (Cons b bs)
  have "bit (of_le (b # bs) :: 'a word) i \<longleftrightarrow>
      i < LENGTH('a) \<and> (8 \<le> i \<and> bit (of_le bs :: 'a word) (i - 8) \<or> bit b i)"
    by (auto simp: of_le_def bit_simps)
  also have "\<dots> \<longleftrightarrow> i < LENGTH('a) \<and> i div 8 < length (b # bs) \<and> bit ((b # bs) ! (i div 8)) (i mod 8)"
  proof (cases "8 \<le> i")
    case True
    then have "i div 8 = Suc ((i - 8) div 8)" "i mod 8 = (i - 8) mod 8" "\<not> bit b i"
      using bit_imp_le_length [of b i] by (auto simp: le_div_geq le_mod_geq)
    with True Cons.IH [of "i - 8"] show ?thesis by auto
  next
    case False
    then show ?thesis by simp
  qed
  finally show ?case .
qed (simp add: of_le_def)

lemma of_le_bytes: "LENGTH('a) \<le> 8 * n \<Longrightarrow> of_le (le_bytes n w) = (w :: 'a::len word)"
  by (rule bit_eqI) (auto simp: bit_of_le le_bytes_def bit_simps)

section \<open>Loads and stores\<close>

lemma mem_read_length [simp]: "length (mem_read m p n) = n"
  by (simp add: mem_read_def)

lemma mem_read_write_prefix:
  assumes "length bs \<le> 2 ^ 64" and "n \<le> length bs"
  shows "mem_read (mem_write m p bs) p n = take n bs"
proof (rule nth_equalityI)
  fix i assume "i < length (mem_read (mem_write m p bs) p n)"
  then have "i < n" by simp
  with assms have "unat (of_nat i :: u64) = i" by (intro unat_of_nat_lt) simp
  with \<open>i < n\<close> assms show "mem_read (mem_write m p bs) p n ! i = take n bs ! i"
    by (simp add: mem_read_def mem_write_def Let_def)
qed (use assms in simp)

text \<open>Two ranges of one object, at offsets \<open>x\<close> and \<open>y\<close> from its base.\<close>

definition apart :: "u64 \<Rightarrow> nat \<Rightarrow> u64 \<Rightarrow> nat \<Rightarrow> bool" where
  "apart x n y k \<longleftrightarrow> unat x + n \<le> unat y \<and> unat y + k \<le> 2 ^ 64 \<or> unat y + k \<le> unat x \<and> unat x + n \<le> 2 ^ 64"

lemma unat_neg: "d \<noteq> 0 \<Longrightarrow> unat (- d :: u64) = 2 ^ 64 - unat d"
  using unat_sub_if_size [of 0 d] by (simp add: word_size unat_gt_0)

lemma apart_offset:
  assumes "apart x n y k" and "j < k"
  shows "n \<le> unat (b + y + of_nat j - (b + x))"
proof -
  have "j < 2 ^ 64" using assms unat_lt64 [of x] unat_lt64 [of y] by (auto simp: apart_def)
  then have j: "unat (of_nat j :: u64) = j" by (intro unat_of_nat_lt) simp
  have e: "b + y + of_nat j - (b + x) = (y + of_nat j) - x" by simp
  have s: "unat (y + of_nat j) = unat y + j" if "unat y + k \<le> 2 ^ 64"
    using that assms(2) j by (simp add: unat_add_nowrap)
  from assms(1) show ?thesis unfolding apart_def
  proof (elim disjE conjE)
    assume a: "unat x + n \<le> unat y" "unat y + k \<le> 2 ^ 64"
    then have "x \<le> y + of_nat j" using s by (simp add: word_le_nat_alt)
    then have "unat ((y + of_nat j) - x) = unat y + j - unat x" using s [OF a(2)] by (simp add: unat_sub_nowrap)
    then show ?thesis unfolding e using a by simp
  next
    assume a: "unat y + k \<le> unat x" "unat x + n \<le> 2 ^ 64"
    have sy: "unat (y + of_nat j) = unat y + j" using s a unat_lt64 [of x] by simp
    have "(y + of_nat j) - x = - (x - (y + of_nat j))" by simp
    moreover have "y + of_nat j \<le> x" using sy a assms(2) by (simp add: word_le_nat_alt)
    then have d: "unat (x - (y + of_nat j)) = unat x - (unat y + j)" using sy by (simp add: unat_sub_nowrap)
    moreover have "unat (x - (y + of_nat j)) > 0" using d a assms(2) by linarith
    then have "x - (y + of_nat j) \<noteq> 0" by auto
    ultimately have "unat ((y + of_nat j) - x) = 2 ^ 64 - (unat x - (unat y + j))"
      by (metis unat_neg)
    then show ?thesis unfolding e using a assms(2) by simp
  qed
qed

lemma mem_read_write_apart:
  assumes "apart x (length bs) y k"
  shows "mem_read (mem_write m (b + x) bs) (b + y) k = mem_read m (b + y) k"
proof (rule nth_equalityI)
  fix j assume "j < length (mem_read (mem_write m (b + x) bs) (b + y) k)"
  then have "j < k" by simp
  from apart_offset [OF assms this, of b] this
  show "mem_read (mem_write m (b + x) bs) (b + y) k ! j = mem_read m (b + y) k ! j"
    unfolding mem_read_def mem_write_def Let_def by simp
qed simp

lemma load_store_same [simp]:
  assumes "LENGTH('a) \<le> 8 * n" and "n \<le> 2 ^ 64"
  shows "load n (store n m p v) p = (v :: 'a::len word)"
  using assms mem_read_write_prefix [of "le_bytes n v" n m p] by (simp add: load_def store_def of_le_bytes)

lemma load_store_apart:
  "apart x n y k \<Longrightarrow> load k (store n m (b + x) v) (b + y) = load k m (b + y)"
  by (simp add: load_def store_def mem_read_write_apart)

end
