(* ===== verification/Multiboot.thy ===== *)
theory Multiboot
  imports Machine_Memory
begin

text \<open>
  The parser of the boot information that the loader leaves in memory (\<^verbatim>\<open>src/src/multiboot2.rs\<close>): a sequence of tags, each
  with a type and a size, padded to eight bytes.

  The six functions that read it repeat one loop, which is \<open>tag_loop\<close> here with the body of each function as an argument. The
  offset is a \<open>u32\<close> that can wrap around, so the loop need not end: it is a partial function, and \<open>None\<close> means that it
  runs for ever. An output slice with room for \<open>n\<close> entries is the list of the entries written.
\<close>

unbundle bit_operations_syntax

section \<open>Constants and records\<close>

definition TAG_END :: u32 where "TAG_END = 0"
definition TAG_MODULE :: u32 where "TAG_MODULE = 3"
definition TAG_MMAP :: u32 where "TAG_MMAP = 6"
definition TAG_FRAMEBUFFER :: u32 where "TAG_FRAMEBUFFER = 8"
definition MMAP_USABLE :: u32 where "MMAP_USABLE = 1"
definition TAG_EFI32_SYS_TABLE :: u32 where "TAG_EFI32_SYS_TABLE = 11"
definition TAG_EFI64_SYS_TABLE :: u32 where "TAG_EFI64_SYS_TABLE = 12"
definition TAG_EFI_MMAP :: u32 where "TAG_EFI_MMAP = 17"
definition TAG_EFI_BS :: u32 where "TAG_EFI_BS = 18"
definition TAG_EFI32_IMAGE_HANDLE :: u32 where "TAG_EFI32_IMAGE_HANDLE = 19"
definition TAG_EFI64_IMAGE_HANDLE :: u32 where "TAG_EFI64_IMAGE_HANDLE = 20"
definition TAG_ACPI_OLD :: u32 where "TAG_ACPI_OLD = 14"
definition TAG_ACPI_NEW :: u32 where "TAG_ACPI_NEW = 15"

lemmas mb_tags = TAG_END_def TAG_MODULE_def TAG_MMAP_def TAG_FRAMEBUFFER_def MMAP_USABLE_def TAG_EFI32_SYS_TABLE_def
  TAG_EFI64_SYS_TABLE_def TAG_EFI_MMAP_def TAG_EFI_BS_def TAG_EFI32_IMAGE_HANDLE_def TAG_EFI64_IMAGE_HANDLE_def
  TAG_ACPI_OLD_def TAG_ACPI_NEW_def

record module_info =
  mi_start :: u64
  mi_end :: u64
  mi_name :: bytes

record mem_region =
  mr_base :: u64
  mr_len :: u64

record rgb_desc =
  red_pos :: u8
  red_mask :: u8
  green_pos :: u8
  green_mask :: u8
  blue_pos :: u8
  blue_mask :: u8

record framebuffer_info =
  fb_addr :: u64
  fb_pitch :: u32
  fb_width :: u32
  fb_height :: u32
  fb_bpp :: u8
  fb_type :: u8
  fb_rgb :: rgb_desc

section \<open>The loop over the tags\<close>

datatype 'a turn = Halt 'a | Go 'a

definition total_size :: "(u64 \<Rightarrow> u8) \<Rightarrow> u32 \<Rightarrow> u32" where
  "total_size m info = load 4 m (ucast info)"

definition tag_ptr :: "u32 \<Rightarrow> u32 \<Rightarrow> u64" where
  "tag_ptr info off = ucast info + ucast off"

definition next_tag :: "u32 \<Rightarrow> u32 \<Rightarrow> u32" where
  "next_tag off sz = (off + sz + 7) AND NOT 7"

partial_function (option) tag_loop ::
  "(u64 \<Rightarrow> u8) \<Rightarrow> u32 \<Rightarrow> (u32 \<Rightarrow> u32 \<Rightarrow> u32 \<Rightarrow> 'a \<Rightarrow> 'a turn option) \<Rightarrow> u32 \<Rightarrow> 'a \<Rightarrow> 'a option" where
  "tag_loop m info body off acc =
     (if off + 8 \<le> total_size m info
      then let typ = load 4 m (tag_ptr info off); sz = load 4 m (tag_ptr info off + 4)
           in if typ = TAG_END \<or> sz < 8 then Some acc
              else (case body off typ sz acc of
                      None \<Rightarrow> None
                    | Some nx \<Rightarrow> (case nx of Halt r \<Rightarrow> Some r | Go acc1 \<Rightarrow> tag_loop m info body (next_tag off sz) acc1))
      else Some acc)"

section \<open>Modules\<close>

fun base_start :: "nat \<Rightarrow> bytes \<Rightarrow> nat \<Rightarrow> nat" where
  "base_start j [] b = b"
| "base_start j (c # cs) b = (if c = 0 then b else base_start (j + 1) cs (if c = 47 then j + 1 else b))"

fun shift_name :: "bytes \<Rightarrow> nat \<Rightarrow> nat list \<Rightarrow> bytes \<times> nat" where
  "shift_name name n [] = (name, n)"
| "shift_name name n (j # js) = (if name ! j = 0 then (name, n) else shift_name (name[n := name ! j]) (n + 1) js)"

definition cmdline :: "(u64 \<Rightarrow> u8) \<Rightarrow> u64 \<Rightarrow> bytes" where
  "cmdline m cmd = (let cs = takeWhile (\<lambda>c. c \<noteq> 0) (mem_read m cmd 63) in cs @ replicate (64 - length cs) 0)"

definition name_of_module :: "(u64 \<Rightarrow> u8) \<Rightarrow> u64 \<Rightarrow> bytes" where
  "name_of_module m cmd =
     (let name = cmdline m cmd; (name1, n) = shift_name name 0 [base_start 0 name 0..<64]
      in fold (\<lambda>j nm. nm[j := 0]) [n..<64] name1)"

definition module_at :: "(u64 \<Rightarrow> u8) \<Rightarrow> u64 \<Rightarrow> module_info" where
  "module_at m p = \<lparr>mi_start = ucast (load 4 m (p + 8) :: u32), mi_end = ucast (load 4 m (p + 12) :: u32), mi_name = name_of_module m (p + 16)\<rparr>"

definition find_modules :: "(u64 \<Rightarrow> u8) \<Rightarrow> u32 \<Rightarrow> nat \<Rightarrow> module_info list option" where
  "find_modules m info n =
     tag_loop m info (\<lambda>off typ sz out. Some (Go
       (if typ = TAG_MODULE \<and> length out < n then out @ [module_at m (tag_ptr info off)] else out))) 8 []"

section \<open>Memory regions\<close>

partial_function (option) entry_loop ::
  "(u64 \<Rightarrow> u8) \<Rightarrow> u32 \<Rightarrow> nat \<Rightarrow> u32 \<Rightarrow> u32 \<Rightarrow> u32 \<Rightarrow> mem_region list \<Rightarrow> mem_region list option" where
  "entry_loop m info n esize eend eoff out =
     (if eoff + esize \<le> eend \<and> length out < n
      then let ep = tag_ptr info eoff; b = load 8 m ep; l = load 8 m (ep + 8); t = load 4 m (ep + 16)
           in entry_loop m info n esize eend (eoff + esize)
                (if t = MMAP_USABLE \<and> l > 0 then out @ [\<lparr>mr_base = b, mr_len = l\<rparr>] else out)
      else Some out)"

definition memory_regions :: "(u64 \<Rightarrow> u8) \<Rightarrow> u32 \<Rightarrow> nat \<Rightarrow> mem_region list option" where
  "memory_regions m info n =
     tag_loop m info (\<lambda>off typ sz out.
       if typ = TAG_MMAP
       then let esize = load 4 m (tag_ptr info off + 8)
            in if esize < 20 then Some (Halt out)
               else map_option Halt (entry_loop m info n esize (off + sz) (off + 16) out)
       else Some (Go out)) 8 []"

section \<open>The frame buffer\<close>

definition read_rgb :: "(u64 \<Rightarrow> u8) \<Rightarrow> u64 \<Rightarrow> u64 \<Rightarrow> rgb_desc" where
  "read_rgb m p off = \<lparr>red_pos = m (p + off), red_mask = m (p + off + 1), green_pos = m (p + off + 2), green_mask = m (p + off + 3),
     blue_pos = m (p + off + 4), blue_mask = m (p + off + 5)\<rparr>"

definition default_rgb :: "u8 \<Rightarrow> rgb_desc" where
  "default_rgb bpp =
     (if bpp = 15 then \<lparr>red_pos = 10, red_mask = 5, green_pos = 5, green_mask = 5, blue_pos = 0, blue_mask = 5\<rparr>
      else if bpp = 16 then \<lparr>red_pos = 11, red_mask = 5, green_pos = 5, green_mask = 6, blue_pos = 0, blue_mask = 5\<rparr>
      else \<lparr>red_pos = 16, red_mask = 8, green_pos = 8, green_mask = 8, blue_pos = 0, blue_mask = 8\<rparr>)"

fun claim_bits :: "nat list \<Rightarrow> bool list \<Rightarrow> bool list option" where
  "claim_bits [] offs = Some offs"
| "claim_bits (b # bs) offs = (if offs ! b then None else claim_bits bs (offs[b := True]))"

fun claim_fields :: "(u8 \<times> u8) list \<Rightarrow> bool list \<Rightarrow> bool" where
  "claim_fields [] offs = True"
| "claim_fields ((ps, mk) # fs) offs =
     (if mk = 0 \<or> mk > 8 \<or> unat ps + unat mk > 32 then False
      else case claim_bits [unat ps..<unat (ps + mk)] offs of None \<Rightarrow> False | Some offs1 \<Rightarrow> claim_fields fs offs1)"

definition is_sane :: "rgb_desc \<Rightarrow> u8 \<Rightarrow> bool" where
  "is_sane d bpp \<longleftrightarrow>
     claim_fields [(red_pos d, red_mask d), (green_pos d, green_mask d), (blue_pos d, blue_mask d)] (replicate 32 False) \<and>
     red_pos d + red_mask d \<le> bpp \<and> green_pos d + green_mask d \<le> bpp \<and> blue_pos d + blue_mask d \<le> bpp"

definition framebuffer_at :: "(u64 \<Rightarrow> u8) \<Rightarrow> u64 \<Rightarrow> framebuffer_info" where
  "framebuffer_at m p =
     (let bpp = m (p + 28); rgb30 = read_rgb m p 30; rgb32 = read_rgb m p 32
      in \<lparr>fb_addr = load 8 m (p + 8), fb_pitch = load 4 m (p + 16), fb_width = load 4 m (p + 20), fb_height = load 4 m (p + 24),
          fb_bpp = bpp, fb_type = m (p + 29),
          fb_rgb = (if is_sane rgb30 bpp then rgb30 else if is_sane rgb32 bpp then rgb32 else default_rgb bpp)\<rparr>)"

definition find_framebuffer :: "(u64 \<Rightarrow> u8) \<Rightarrow> u32 \<Rightarrow> framebuffer_info option option" where
  "find_framebuffer m info =
     tag_loop m info (\<lambda>off typ sz out. Some
       (if typ = TAG_FRAMEBUFFER \<and> sz \<ge> 30 then Halt (Some (framebuffer_at m (tag_ptr info off))) else Go out)) 8 None"

section \<open>Firmware tags\<close>

definition uefi_handoff :: "(u64 \<Rightarrow> u8) \<Rightarrow> u32 \<Rightarrow> bool option" where
  "uefi_handoff m info =
     tag_loop m info (\<lambda>off typ sz r. Some
       (if typ \<in> {TAG_EFI32_SYS_TABLE, TAG_EFI64_SYS_TABLE, TAG_EFI_MMAP, TAG_EFI_BS, TAG_EFI32_IMAGE_HANDLE, TAG_EFI64_IMAGE_HANDLE}
        then Halt True else Go r)) 8 False"

definition acpi_tags :: "(u64 \<Rightarrow> u8) \<Rightarrow> u32 \<Rightarrow> (bool \<times> bool) option" where
  "acpi_tags m info =
     tag_loop m info (\<lambda>off typ sz (old, new). Some (Go (old \<or> typ = TAG_ACPI_OLD, new \<or> typ = TAG_ACPI_NEW))) 8 (False, False)"

definition dump_tag_types :: "(u64 \<Rightarrow> u8) \<Rightarrow> u32 \<Rightarrow> u32 list option" where
  "dump_tag_types m info = tag_loop m info (\<lambda>off typ sz out. Some (Go (out @ [typ]))) 8 []"

end
