(* ===== verification/Memory_Setup.thy ===== *)
theory Memory_Setup
  imports Multiboot Buddy_Correct
begin

text \<open>
  The set-up of physical memory at boot (\<^verbatim>\<open>src/src/memory/mod.rs\<close>): the choice of a memory region from the boot information, the
  carving out of the kernel's data, the boot modules and the allocator's own tables, the registration of the rest with the page
  allocator, and the kernel's heap on top of it.

  The addresses of the kernel's sections come from the linker and are the argument \<open>kernel_image\<close>. The zeroing of the table arena
  makes the tables \<open>page_type\<close> and \<open>owned_by\<close> zero. The last step of \<^verbatim>\<open>init\<close>, which looks for stale page tables of tasks
  that do not exist yet at boot, is not modelled. An index past the end of a fixed array is a panic, \<open>None\<close>.
\<close>

unbundle bit_operations_syntax

section \<open>State\<close>

definition MAX_REGIONS :: nat where "MAX_REGIONS = 32"
definition IDENTITY_LIMIT :: u64 where "IDENTITY_LIMIT = 0x40000000"
definition MAX_MODULE_REGIONS :: nat where "MAX_MODULE_REGIONS = 32"

type_synonym interval = "u64 \<times> u64"

record kernel_image =
  k_start :: u64
  k_data_end :: u64
  k_bss_start :: u64
  k_bss_end :: u64

record memory_state =
  mm_alloc :: buddy
  module_regions :: "interval list"
  module_regions_count :: nat
  total_pages :: u64

definition memory_new :: memory_state where
  "memory_new = \<lparr>mm_alloc = new_buddy, module_regions = replicate MAX_MODULE_REGIONS (0, 0), module_regions_count = 0, total_pages = 0\<rparr>"

definition is_in_module_region :: "memory_state \<Rightarrow> u64 \<Rightarrow> bool" where
  "is_in_module_region s addr \<longleftrightarrow>
     (\<exists>i \<in> set [0..<module_regions_count s]. fst (module_regions s ! i) \<le> addr \<and> addr < snd (module_regions s ! i))"

section \<open>Choosing a region\<close>

definition usable_size :: "mem_region \<Rightarrow> u64" where
  "usable_size r =
     (let a = page_align_up (mr_base r); z = page_align_down (mr_base r + mr_len r) in if a < z then z - a else 0)"

fun best_loop :: "mem_region list \<Rightarrow> nat \<Rightarrow> u64 \<times> nat \<Rightarrow> u64 \<times> nat" where
  "best_loop [] i b = b"
| "best_loop (r # rs) i b = best_loop rs (i + 1) (if fst b < usable_size r then (usable_size r, i) else b)"

text \<open>The base and the number of pages of the region that is used; \<open>None\<close> where \<^verbatim>\<open>init\<close> returns early.\<close>

definition pick_region :: "mem_region list \<Rightarrow> (u64 \<times> u64) option" where
  "pick_region regs =
     (if regs = [] then None
      else let (best, bi) = best_loop regs 0 (0, 0); r = regs ! bi; b = page_align_up (mr_base r);
               z = page_align_down (mr_base r + mr_len r); n = (z - b) div PAGE_SIZE; mx = (IDENTITY_LIMIT - b) div PAGE_SIZE
           in if best < PAGE_SIZE \<or> IDENTITY_LIMIT \<le> b then None else Some (b, if mx < n then mx else n))"

section \<open>Free regions around what is in use\<close>

definition push_interval :: "nat \<Rightarrow> interval list \<Rightarrow> interval \<Rightarrow> interval list option" where
  "push_interval cap xs x = (if length xs < cap then Some (xs @ [x]) else None)"

fun module_intervals :: "u64 \<Rightarrow> u64 \<Rightarrow> module_info list \<Rightarrow> interval list \<Rightarrow> interval list option" where
  "module_intervals lo hi [] xs = Some xs"
| "module_intervals lo hi (d # ds) xs =
     (let ms = page_align_down (mi_start d); me = page_align_up (mi_end d); rs = max ms lo; re = min me hi
      in do { xs1 \<leftarrow> (if ms < hi \<and> lo < me \<and> rs < re then push_interval 34 xs (rs, re) else Some xs);
              module_intervals lo hi ds xs1 })"

definition reserved_intervals :: "u64 \<Rightarrow> u64 \<Rightarrow> module_info list \<Rightarrow> u64 \<Rightarrow> u64 \<Rightarrow> u64 \<Rightarrow> u64 \<Rightarrow> u64 \<Rightarrow> interval list option" where
  "reserved_intervals lo hi mods info_page arena_base arena_size bs be =
     do { xs0 \<leftarrow> (if arena_base < hi \<and> lo < arena_base + arena_size
                  then push_interval 34 [] (max arena_base lo, min (arena_base + arena_size) hi) else Some []);
          xs1 \<leftarrow> (if bs < hi \<and> lo < be then push_interval 34 xs0 (max bs lo, min be hi) else Some xs0);
          xs2 \<leftarrow> module_intervals lo hi mods xs1;
          if lo \<le> info_page \<and> info_page < hi then push_interval 34 xs2 (info_page, info_page + PAGE_SIZE) else Some xs2 }"

definition exch :: "nat \<Rightarrow> nat \<Rightarrow> interval list \<Rightarrow> interval list" where
  "exch i j xs = (if fst (xs ! j) < fst (xs ! i) then xs[i := xs ! j, j := xs ! i] else xs)"

definition sort_intervals :: "interval list \<Rightarrow> interval list" where
  "sort_intervals xs = fold (\<lambda>i ys. fold (exch i) [i + 1..<length xs] ys) [0..<length xs] xs"

fun merge_loop :: "interval list \<Rightarrow> interval list \<Rightarrow> interval list option" where
  "merge_loop mg [] = Some mg"
| "merge_loop mg ((rs, re) # xs) =
     (if mg = [] \<or> snd (last mg) < rs then push_interval 32 mg (rs, re) \<bind> (\<lambda>mg1. merge_loop mg1 xs)
      else if snd (last mg) < re then merge_loop (butlast mg @ [(fst (last mg), re)]) xs
      else merge_loop mg xs)"

fun gap_loop :: "buddy \<Rightarrow> u64 \<Rightarrow> interval list \<Rightarrow> (u64 \<times> buddy) option" where
  "gap_loop s cur [] = Some (cur, s)"
| "gap_loop s cur ((rs, re) # xs) =
     do { s1 \<leftarrow> (if cur < rs then add_region s cur (rs - cur) else Some s); gap_loop s1 (max cur re) xs }"

definition add_free_region_skipping ::
  "buddy \<Rightarrow> u64 \<Rightarrow> u64 \<Rightarrow> module_info list \<Rightarrow> u64 \<Rightarrow> u64 \<Rightarrow> u64 \<Rightarrow> u64 \<Rightarrow> u64 \<Rightarrow> buddy option" where
  "add_free_region_skipping s lo hi mods info_page arena_base arena_size bs be =
     do { xs \<leftarrow> reserved_intervals lo hi mods info_page arena_base arena_size bs be;
          mg \<leftarrow> merge_loop [] (sort_intervals xs);
          (cur, s1) \<leftarrow> gap_loop s lo mg;
          if cur < hi then add_region s1 cur (hi - cur) else Some s1 }"

section \<open>Setting up memory\<close>

definition ARENA_SIZE :: u64 where "ARENA_SIZE = 2 * of_nat MAX_REFC_PAGES"

definition arena_of :: "u64 \<Rightarrow> u64 \<Rightarrow> u64" where
  "arena_of b n = (b + n * PAGE_SIZE - ARENA_SIZE) AND NOT (of_nat MAX_REFC_PAGES - 1)"

definition first_module_start :: "u64 \<Rightarrow> module_info list \<Rightarrow> u64" where
  "first_module_start z mods =
     fold (\<lambda>d a. if page_align_down (mi_start d) < a then page_align_down (mi_start d) else a) mods z"

definition module_table :: "memory_state \<Rightarrow> module_info list \<Rightarrow> memory_state" where
  "module_table st mods =
     st\<lparr>module_regions_count := min (length mods) MAX_MODULE_REGIONS,
        module_regions := fold (\<lambda>i rs. rs[i := (page_align_down (mi_start (mods ! i)), page_align_up (mi_end (mods ! i)))])
          [0..<length mods] (module_regions st)\<rparr>"

definition register_regions :: "buddy \<Rightarrow> kernel_image \<Rightarrow> module_info list \<Rightarrow> u64 \<Rightarrow> u64 \<Rightarrow> u64 \<Rightarrow> buddy option" where
  "register_regions s k mods info_page b n =
     (let ks = page_align_down (k_start k); kd = page_align_up (k_data_end k);
          bs = page_align_down (k_bss_start k); be = page_align_up (k_bss_end k);
          z = b + n * PAGE_SIZE; ab = arena_of b n; fm = first_module_start z mods;
          ae = (if z < kd then z else kd)
      in if b \<le> ks \<and> ks < z
         then do { s1 \<leftarrow> add_free_region_skipping s b ks mods info_page ab ARENA_SIZE bs be;
                   s2 \<leftarrow> mark_allocated s1 ks (ae - ks);
                   s3 \<leftarrow> mark_allocated s2 bs (be - bs);
                   s4 \<leftarrow> (if ae < fm then mark_allocated s3 ae (fm - ae) else Some s3);
                   if fm < z then add_free_region_skipping s4 fm z mods info_page ab ARENA_SIZE bs be else Some s4 }
         else add_free_region_skipping s b z mods info_page ab ARENA_SIZE bs be)"

definition memory_init :: "(u64 \<Rightarrow> u8) \<Rightarrow> kernel_image \<Rightarrow> u32 \<Rightarrow> memory_state \<Rightarrow> memory_state option" where
  "memory_init m k info st =
     do { regs \<leftarrow> memory_regions m info MAX_REGIONS;
          case pick_region regs of
            None \<Rightarrow> Some st
          | Some (b, n) \<Rightarrow>
              do { let s0 = (init (mm_alloc st) b n)\<lparr>page_type := (\<lambda>_. 0), owned_by := (\<lambda>_. 0)\<rparr>;
                   mods \<leftarrow> find_modules m info 32;
                   s1 \<leftarrow> register_regions s0 k mods (page_align_down (ucast info)) b n;
                   s2 \<leftarrow> mark_allocated s1 (arena_of b n) ARENA_SIZE;
                   Some ((module_table st mods)\<lparr>mm_alloc := s2, total_pages := n\<rparr>) } }"

section \<open>The kernel heap\<close>

text \<open>The order of a block of \<open>sz\<close> bytes: the loop tries the orders below 10 in turn and stops at 10.\<close>

fun layout_loop :: "u64 \<Rightarrow> nat list \<Rightarrow> nat" where
  "layout_loop sz [] = 10"
| "layout_loop sz (k # ks) = (if block_size k < sz then layout_loop sz ks else k)"

definition layout_order :: "u64 \<Rightarrow> nat" where
  "layout_order sz = layout_loop sz [0..<10]"

definition heap_alloc :: "buddy \<Rightarrow> u64 \<Rightarrow> u64 \<times> buddy" where
  "heap_alloc s sz =
     (case alloc s (layout_order ((sz + 4095) AND NOT 4095)) of (None, s1) \<Rightarrow> (0, s1) | (Some p, s1) \<Rightarrow> (p, s1))"

definition heap_dealloc :: "env \<Rightarrow> buddy \<Rightarrow> u64 \<Rightarrow> u64 \<Rightarrow> buddy option" where
  "heap_dealloc e s p sz = free e s p (layout_order sz)"

end
