(* ===== verification/Memory_Intervals.thy ===== *)
theory Memory_Intervals
  imports Memory_Setup Buddy_Correct "HOL-Library.Multiset"
begin

text \<open>
  The intervals of memory in use: the exchange sort sorts them, merging keeps what they cover, and registering the gaps between them
  makes exactly the rest of a region free.
\<close>

unbundle bit_operations_syntax

section \<open>Sorting\<close>

lemma mset_exch: "i < length xs \<Longrightarrow> j < length xs \<Longrightarrow> mset (exch i j xs) = mset xs \<and> length (exch i j xs) = length xs"
  by (simp add: exch_def mset_swap)

lemma exch_inner:
  assumes "i < a" and "a \<le> n" and "n = length xs" and "\<forall>k < a. i < k \<longrightarrow> fst (xs ! i) \<le> fst (xs ! k)"
  defines "ys \<equiv> fold (exch i) [a..<n] xs"
  shows "mset ys = mset xs \<and> length ys = n \<and> take i ys = take i xs \<and> (\<forall>k < n. i < k \<longrightarrow> fst (ys ! i) \<le> fst (ys ! k))"
  using assms(1-4) unfolding ys_def
proof (induction "n - a" arbitrary: a xs)
  case (Suc d)
  then have u: "[a..<n] = a # [Suc a..<n]" and l: "i < length xs" "a < length xs" by (auto simp: upt_conv_Cons)
  note e = mset_exch [OF l]
  have "\<forall>k < Suc a. i < k \<longrightarrow> fst (exch i a xs ! i) \<le> fst (exch i a xs ! k)"
    using Suc.prems l by (fastforce simp: exch_def nth_list_update less_Suc_eq)
  then have "mset (fold (exch i) [Suc a..<n] (exch i a xs)) = mset (exch i a xs) \<and> length (fold (exch i) [Suc a..<n] (exch i a xs)) = n \<and>
      take i (fold (exch i) [Suc a..<n] (exch i a xs)) = take i (exch i a xs) \<and>
      (\<forall>k < n. i < k \<longrightarrow> fst (fold (exch i) [Suc a..<n] (exch i a xs) ! i) \<le> fst (fold (exch i) [Suc a..<n] (exch i a xs) ! k))"
    using Suc.hyps(1) [of "Suc a" "exch i a xs"] Suc.hyps(2) Suc.prems e by simp
  moreover have "take i (exch i a xs) = take i xs" using Suc.prems by (simp add: exch_def)
  ultimately show ?case using e by (simp add: u)
qed simp

lemma sort_outer:
  assumes "i \<le> n" and "n = length xs" and "sorted (map fst (take i xs))" and "\<forall>x \<in> set (take i xs). \<forall>y \<in> set (drop i xs). fst x \<le> fst y"
  defines "ys \<equiv> fold (\<lambda>i ys. fold (exch i) [i + 1..<n] ys) [i..<n] xs"
  shows "mset ys = mset xs \<and> sorted (map fst ys)"
  using assms(1-4) unfolding ys_def
proof (induction "n - i" arbitrary: i xs)
  case (Suc d)
  then have i: "i < n" and u: "[i..<n] = i # [Suc i..<n]" by (auto simp: upt_conv_Cons)
  define zs where "zs = fold (exch i) [i + 1..<n] xs"
  have z: "mset zs = mset xs" "length zs = n" "take i zs = take i xs" "\<forall>k < n. i < k \<longrightarrow> fst (zs ! i) \<le> fst (zs ! k)"
    using exch_inner [of i "i + 1" n xs] i Suc.prems(2) by (auto simp: zs_def)
  have "mset (drop i zs) = mset (drop i xs)"
    using z(1,3) by (metis append_take_drop_id mset_append add_left_imp_eq)
  then have dr: "set (drop i zs) = set (drop i xs)" by (rule mset_eq_setD)
  have t: "take (Suc i) zs = take i zs @ [zs ! i]" using i z(2) by (simp add: take_Suc_conv_app_nth)
  have "drop i zs = zs ! i # drop (Suc i) zs" using i z(2) by (simp add: Cons_nth_drop_Suc)
  then have mem: "zs ! i \<in> set (drop i xs)" "set (drop (Suc i) zs) \<subseteq> set (drop i xs)" using dr by auto
  have "sorted (map fst (take (Suc i) zs))" using t z(3) Suc.prems(3,4) mem(1) by (auto simp: sorted_append)
  moreover have "\<forall>y \<in> set (drop (Suc i) zs). fst (zs ! i) \<le> fst y"
  proof
    fix y assume "y \<in> set (drop (Suc i) zs)"
    then obtain j where "j < n - Suc i" "y = zs ! (Suc i + j)" using z(2) by (auto simp: in_set_conv_nth)
    then show "fst (zs ! i) \<le> fst y" using z(4) by simp
  qed
  then have "\<forall>x \<in> set (take (Suc i) zs). \<forall>y \<in> set (drop (Suc i) zs). fst x \<le> fst y"
    using t z(3) Suc.prems(4) mem(2) by auto
  ultimately have "mset (fold (\<lambda>i ys. fold (exch i) [i + 1..<n] ys) [Suc i..<n] zs) = mset zs \<and>
      sorted (map fst (fold (\<lambda>i ys. fold (exch i) [i + 1..<n] ys) [Suc i..<n] zs))"
    using Suc.hyps(2) i z(2) by (intro Suc.hyps(1)) auto
  then show ?case unfolding u fold_simps zs_def [symmetric] z(1) .
qed simp

lemma sort_intervals_sorts: "mset (sort_intervals xs) = mset xs \<and> sorted (map fst (sort_intervals xs))"
  using sort_outer [of 0 "length xs" xs] by (simp add: sort_intervals_def)

section \<open>Merging\<close>

definition covered :: "interval list \<Rightarrow> nat set" where
  "covered xs = (\<Union>(a, z) \<in> set xs. {unat a ..< unat z})"

lemma covered_simps [simp]: "covered [] = {}" "covered ((a, z) # xs) = {unat a ..< unat z} \<union> covered xs"
    "covered (xs @ ys) = covered xs \<union> covered ys"
  by (auto simp: covered_def)

lemma covered_mset: "mset xs = mset ys \<Longrightarrow> covered xs = covered ys"
  using mset_eq_setD [of xs ys] by (simp add: covered_def)

definition intervals_ok :: "nat \<Rightarrow> nat \<Rightarrow> interval list \<Rightarrow> bool" where
  "intervals_ok lo hi xs \<longleftrightarrow> (\<forall>(a, z) \<in> set xs. lo \<le> unat a \<and> unat a \<le> unat z \<and> unat z \<le> hi \<and> 4096 dvd unat a \<and> 4096 dvd unat z)"

lemma merge_loop_ok:
  assumes "length mg + length xs \<le> 32" and "sorted (map fst (mg @ xs))" and "intervals_ok lo hi (mg @ xs)"
  shows "\<exists>ys. merge_loop mg xs = Some ys \<and> sorted (map fst ys) \<and> intervals_ok lo hi ys \<and> covered ys = covered (mg @ xs)"
  using assms
proof (induction xs arbitrary: mg)
  case (Cons x xs)
  obtain rs re where x: "x = (rs, re)" by fastforce
  show ?case
  proof (cases "mg = [] \<or> snd (last mg) < rs")
    case True
    have "\<exists>ys. merge_loop (mg @ [x]) xs = Some ys \<and> sorted (map fst ys) \<and> intervals_ok lo hi ys \<and> covered ys = covered ((mg @ [x]) @ xs)"
      by (rule Cons.IH) (use Cons.prems in auto)
    then show ?thesis using True Cons.prems(1) by (simp add: x push_interval_def)
  next
    case False
    then obtain pre la lz where mg: "mg = pre @ [(la, lz)]" by (metis append_butlast_last_id prod.exhaust)
    have o: "la \<le> rs" "rs \<le> lz" "unat la \<le> unat lz" "unat rs \<le> unat re"
      using Cons.prems(2,3) False by (auto simp: mg x sorted_append intervals_ok_def)
    then have o5: "unat la \<le> unat re" by (simp add: word_le_nat_alt)
    let ?z = "if lz < re then re else lz"
    have "\<exists>ys. merge_loop (pre @ [(la, ?z)]) xs = Some ys \<and> sorted (map fst ys) \<and> intervals_ok lo hi ys \<and>
        covered ys = covered ((pre @ [(la, ?z)]) @ xs)"
      by (rule Cons.IH) (use Cons.prems o o5 in \<open>auto simp: mg x sorted_append intervals_ok_def\<close>)
    moreover have "{unat la ..< unat ?z} = {unat la ..< unat lz} \<union> {unat rs ..< unat re}"
      using o by (auto simp: word_le_nat_alt word_less_nat_alt)
    ultimately show ?thesis using False by (cases "lz < re") (auto simp: mg x)
  qed
qed simp

section \<open>Gaps\<close>

lemma add_region_framed:
  assumes "buddy_inv s L" and "4096 dvd unat a" and "4096 dvd unat z" and "unat (alloc_base s) \<le> unat a" and "a \<le> z"
    and "unat z \<le> top_addr s" and "{unat a ..< unat z} \<inter> free_space L = {}"
  shows "\<exists>s' L'. add_region s a (z - a) = Some s' \<and> buddy_inv s' L' \<and> lists_frame s s' \<and> free_space L' = free_space L \<union> {unat a ..< unat z}"
proof -
  have "unat a + 4096 * ((unat z - unat a) div 4096) = unat z" using assms(2,3,5) by (auto simp: word_le_nat_alt dvd_div_mult_self)
  then show ?thesis using add_region_loop_ok [OF assms(1,2,4), of z] assms(5-7) by (simp add: add_region_def word_le_nat_alt)
qed

lemma gaps_ok:
  assumes "buddy_inv s L" and "sorted (map fst xs)" and "intervals_ok lo (unat hi) xs" and "4096 dvd unat cur" and "4096 dvd unat hi"
    and "unat (alloc_base s) \<le> unat cur" and "unat hi \<le> top_addr s" and "{unat cur ..< unat hi} \<inter> free_space L = {}"
  shows "\<exists>s' L'. gap_loop s cur xs \<bind> (\<lambda>(c, s1). if c < hi then add_region s1 c (hi - c) else Some s1) = Some s' \<and>
    buddy_inv s' L' \<and> lists_frame s s' \<and> free_space L' = free_space L \<union> ({unat cur ..< unat hi} - covered xs)"
  using assms
proof (induction xs arbitrary: s L cur)
  case Nil
  then show ?case using add_region_framed [OF Nil(1,4,5,6), OF _ Nil(7,8)] lists_frame_refl
    by (cases "cur < hi") (auto simp: word_less_nat_alt word_le_nat_alt)
next
  case (Cons x xs)
  obtain rs re where x: "x = (rs, re)" by fastforce
  have iv: "unat rs \<le> unat re" "unat re \<le> unat hi" "4096 dvd unat rs" "4096 dvd unat re" "intervals_ok lo (unat hi) xs"
    using Cons.prems(3) by (auto simp: x intervals_ok_def)
  have after: "covered xs \<subseteq> {unat rs ..}" using Cons.prems(2) by (auto simp: covered_def x word_le_nat_alt)
  let ?cur = "max cur re"
  have um: "unat ?cur = max (unat cur) (unat re)" by (simp add: max_def word_le_nat_alt)
  obtain s1 L1 where s1: "(if cur < rs then add_region s cur (rs - cur) else Some s) = Some s1" "buddy_inv s1 L1" "lists_frame s s1"
      "free_space L1 = free_space L \<union> {unat cur ..< unat rs}"
  proof (cases "cur < rs")
    case True
    then show ?thesis using add_region_framed [OF Cons.prems(1,4) iv(3) Cons.prems(6)] Cons.prems(7,8) iv that
      by (fastforce simp: word_less_nat_alt word_le_nat_alt)
  next
    case False
    then show ?thesis using that [of s L] Cons.prems(1) by (simp add: word_less_nat_alt)
  qed
  note ff = lists_frame_fields [OF s1(3)]
  have dj: "{unat ?cur ..< unat hi} \<inter> free_space L1 = {}" using s1(4) Cons.prems(8) um iv(1) by (auto simp: disjoint_iff)
  have "\<exists>s' L'. gap_loop s1 ?cur xs \<bind> (\<lambda>(c, s1). if c < hi then add_region s1 c (hi - c) else Some s1) = Some s' \<and>
    buddy_inv s' L' \<and> lists_frame s1 s' \<and> free_space L' = free_space L1 \<union> ({unat ?cur ..< unat hi} - covered xs)"
    by (rule Cons.IH [OF s1(2)])
       (use Cons.prems(2,4-7) iv ff(3,4) um dj in \<open>auto simp: max_def word_le_nat_alt\<close>)
  then obtain s' L' where s': "gap_loop s1 ?cur xs \<bind> (\<lambda>(c, s1). if c < hi then add_region s1 c (hi - c) else Some s1) = Some s'"
    "buddy_inv s' L'" "lists_frame s1 s'" "free_space L' = free_space L1 \<union> ({unat ?cur ..< unat hi} - covered xs)" by blast
  have "free_space L' = free_space L \<union> ({unat cur ..< unat hi} - covered (x # xs))"
    using s'(4) s1(4) after iv(1,2) um by (auto simp: x)
  then show ?case using s1(1) s'(1,2) lists_frame_trans [OF s1(3) s'(3)] by (auto simp: x)
qed

section \<open>What is in use\<close>

lemma unat_align_down: "unat (page_align_down a) = unat a - unat a mod 4096"
  using unat_and_high_mask [of 12 a] by (simp add: page_align_down_def PAGE_SIZE_def)

lemma unat_align_up: "unat a + 4095 < 2 ^ 64 \<Longrightarrow> unat (page_align_up a) = unat a + 4095 - (unat a + 4095) mod 4096"
proof -
  assume "unat a + 4095 < 2 ^ 64"
  moreover have "page_align_up a = a + 4095 AND NOT (2 ^ 12 - 1)" by (simp add: page_align_up_def PAGE_SIZE_def add.commute)
  ultimately show ?thesis using unat_and_high_mask [of 12 "a + 4095"] unat_add_nowrap [of a 4095] by simp
qed

lemma align_dvd: "4096 dvd unat (page_align_down a)" "unat a + 4095 < 2 ^ 64 \<Longrightarrow> 4096 dvd unat (page_align_up a)"
  by (simp_all add: unat_align_down unat_align_up dvd_minus_mod)

lemma align_order:
  assumes "unat a \<le> unat z" and "unat z + 4095 < 2 ^ 64"
  shows "unat (page_align_down a) \<le> unat (page_align_up z)" "unat (page_align_down a) \<le> unat a" "unat z \<le> unat (page_align_up z)"
proof -
  have "(unat z + 4095) mod 4096 < 4096" by simp
  then show "unat z \<le> unat (page_align_up z)" using unat_align_up [OF assms(2)] by linarith
  moreover show "unat (page_align_down a) \<le> unat a" by (simp add: unat_align_down)
  ultimately show "unat (page_align_down a) \<le> unat (page_align_up z)" using assms(1) by linarith
qed

definition module_ok :: "module_info \<Rightarrow> bool" where
  "module_ok d \<longleftrightarrow> unat (mi_start d) \<le> unat (mi_end d) \<and> unat (mi_end d) + 4095 < 2 ^ 64"

definition module_pages :: "module_info \<Rightarrow> nat set" where
  "module_pages d = {unat (page_align_down (mi_start d)) ..< unat (page_align_up (mi_end d))}"

lemma push_clip:
  assumes "intervals_ok (unat lo) (unat hi) xs" and "length xs < 34" and "P \<Longrightarrow> max a lo \<le> min z hi" and "\<not> P \<Longrightarrow> min z hi \<le> max a lo"
    and "4096 dvd unat a" "4096 dvd unat z" "4096 dvd unat lo" "4096 dvd unat hi"
  shows "\<exists>ys. (if P then push_interval 34 xs (max a lo, min z hi) else Some xs) = Some ys \<and> length ys \<le> length xs + 1 \<and>
    intervals_ok (unat lo) (unat hi) ys \<and> covered ys = covered xs \<union> {unat a ..< unat z} \<inter> {unat lo ..< unat hi}"
proof -
  have mm: "unat (max a lo) = max (unat a) (unat lo)" "unat (min z hi) = min (unat z) (unat hi)"
    by (simp_all add: max_def min_def word_le_nat_alt)
  have clip: "{unat (max a lo) ..< unat (min z hi)} = {unat a ..< unat z} \<inter> {unat lo ..< unat hi}" unfolding mm by auto
  show ?thesis
  proof (cases P)
    case True
    have "4096 dvd max (unat a) (unat lo)" "4096 dvd min (unat z) (unat hi)" using assms(5-8) by (auto simp: max_def min_def)
    then have "intervals_ok (unat lo) (unat hi) (xs @ [(max a lo, min z hi)])"
      using assms(1) assms(3) [OF True] by (auto simp: intervals_ok_def mm word_le_nat_alt)
    then show ?thesis using True assms(2) clip by (simp add: push_interval_def)
  next
    case False
    then have "{unat (max a lo) ..< unat (min z hi)} = {}" using assms(4) by (simp add: word_le_nat_alt)
    then have "{unat a ..< unat z} \<inter> {unat lo ..< unat hi} = {}" by (simp only: clip)
    then show ?thesis using False assms(1) by (simp only: if_False Un_empty_right) auto
  qed
qed

lemma clip_order:
  fixes a z lo hi :: u64
  shows "a < hi \<and> lo < z \<Longrightarrow> a \<le> z \<Longrightarrow> lo \<le> hi \<Longrightarrow> max a lo \<le> min z hi" and "\<not> (a < hi \<and> lo < z) \<Longrightarrow> min z hi \<le> max a lo"
    and "max a lo < min z hi \<Longrightarrow> max a lo \<le> min z hi" and "\<not> (a < hi \<and> lo < z \<and> max a lo < min z hi) \<Longrightarrow> min z hi \<le> max a lo"
  by (auto simp: max_def min_def)

lemma push_area:
  assumes "intervals_ok (unat lo) (unat hi) xs" and "length xs < 34" and "a \<le> z" "lo \<le> hi"
    and "4096 dvd unat a" "4096 dvd unat z" "4096 dvd unat lo" "4096 dvd unat hi"
  shows "\<exists>ys. (if a < hi \<and> lo < z then push_interval 34 xs (max a lo, min z hi) else Some xs) = Some ys \<and> length ys \<le> length xs + 1 \<and>
    intervals_ok (unat lo) (unat hi) ys \<and> covered ys = covered xs \<union> {unat a ..< unat z} \<inter> {unat lo ..< unat hi}"
  by (rule push_clip [OF assms(1,2) _ _ assms(5-8)]) (use assms(3,4) clip_order(1,2) in blast)+

lemma module_intervals_ok:
  assumes "intervals_ok (unat lo) (unat hi) xs" and "length xs + length ds \<le> 34" and "\<forall>d \<in> set ds. module_ok d"
    and "4096 dvd unat lo" and "4096 dvd unat hi"
  shows "\<exists>ys. module_intervals lo hi ds xs = Some ys \<and> length ys \<le> length xs + length ds \<and> intervals_ok (unat lo) (unat hi) ys \<and>
    covered ys = covered xs \<union> (\<Union>d \<in> set ds. module_pages d) \<inter> {unat lo ..< unat hi}"
  using assms
proof (induction ds arbitrary: xs)
  case (Cons d ds)
  let ?ms = "page_align_down (mi_start d)" and ?me = "page_align_up (mi_end d)"
  let ?P = "?ms < hi \<and> lo < ?me \<and> max ?ms lo < min ?me hi"
  have d: "unat (mi_end d) + 4095 < 2 ^ 64" using Cons.prems(3) by (simp add: module_ok_def)
  obtain ys where ys: "(if ?P then push_interval 34 xs (max ?ms lo, min ?me hi) else Some xs) = Some ys" "length ys \<le> length xs + 1"
      "intervals_ok (unat lo) (unat hi) ys" "covered ys = covered xs \<union> module_pages d \<inter> {unat lo ..< unat hi}"
    unfolding module_pages_def
  proof -
    have "\<exists>ys. (if ?P then push_interval 34 xs (max ?ms lo, min ?me hi) else Some xs) = Some ys \<and> length ys \<le> length xs + 1 \<and>
      intervals_ok (unat lo) (unat hi) ys \<and> covered ys = covered xs \<union> {unat ?ms ..< unat ?me} \<inter> {unat lo ..< unat hi}"
      using Cons.prems(2) clip_order(3) clip_order(4) [of ?ms hi lo ?me]
      by (intro push_clip [OF Cons.prems(1) _ _ _ align_dvd(1) align_dvd(2) [OF d] Cons.prems(4,5)]) auto
    then show ?thesis unfolding module_pages_def [symmetric] by (elim exE conjE) (rule that)
  qed
  obtain zs where zs: "module_intervals lo hi ds ys = Some zs" "length zs \<le> length ys + length ds" "intervals_ok (unat lo) (unat hi) zs"
      "covered zs = covered ys \<union> (\<Union>d \<in> set ds. module_pages d) \<inter> {unat lo ..< unat hi}"
    using Cons.IH [OF ys(3)] Cons.prems ys(2) by auto
  have "module_intervals lo hi (d # ds) xs = Some zs" using ys(1) zs(1) by (simp add: Let_def)
  moreover have "covered zs = covered xs \<union> (\<Union>d \<in> set (d # ds). module_pages d) \<inter> {unat lo ..< unat hi}"
    unfolding zs(4) ys(4) by auto
  ultimately show ?case using ys(2) zs(2,3) by auto
qed simp

definition in_use :: "module_info list \<Rightarrow> u64 \<Rightarrow> u64 \<Rightarrow> u64 \<Rightarrow> u64 \<Rightarrow> u64 \<Rightarrow> nat set" where
  "in_use mods info_page ab asz bs be = {unat ab ..< unat ab + unat asz} \<union> {unat bs ..< unat be} \<union>
     {unat info_page ..< unat info_page + 4096} \<union> (\<Union>d \<in> set mods. module_pages d)"

definition areas_ok :: "module_info list \<Rightarrow> u64 \<Rightarrow> u64 \<Rightarrow> u64 \<Rightarrow> u64 \<Rightarrow> u64 \<Rightarrow> bool" where
  "areas_ok mods info_page ab asz bs be \<longleftrightarrow> length mods \<le> 29 \<and> (\<forall>d \<in> set mods. module_ok d) \<and> 4096 dvd unat info_page \<and>
     unat info_page + 4096 < 2 ^ 64 \<and> 4096 dvd unat ab \<and> 4096 dvd unat asz \<and> unat ab + unat asz < 2 ^ 64 \<and>
     4096 dvd unat bs \<and> 4096 dvd unat be \<and> unat bs \<le> unat be"

lemma reserved_intervals_ok:
  assumes ok: "areas_ok mods info_page ab asz bs be" and al: "4096 dvd unat lo" "4096 dvd unat hi" and le: "lo \<le> hi"
  shows "\<exists>xs. reserved_intervals lo hi mods info_page ab asz bs be = Some xs \<and> length xs \<le> 32 \<and> intervals_ok (unat lo) (unat hi) xs \<and>
    covered xs = in_use mods info_page ab asz bs be \<inter> {unat lo ..< unat hi}"
proof -
  note o = ok [unfolded areas_ok_def]
  have ua: "unat (ab + asz) = unat ab + unat asz" "unat (info_page + PAGE_SIZE) = unat info_page + 4096"
    using o by (simp_all add: unat_add_nowrap PAGE_SIZE_def)
  obtain x0 where x0: "(if ab < hi \<and> lo < ab + asz then push_interval 34 [] (max ab lo, min (ab + asz) hi) else Some []) = Some x0"
      "length x0 \<le> 1" "intervals_ok (unat lo) (unat hi) x0" "covered x0 = {unat ab ..< unat ab + unat asz} \<inter> {unat lo ..< unat hi}"
  proof -
    have e: "intervals_ok (unat lo) (unat hi) []" by (simp add: intervals_ok_def)
    have "4096 dvd unat ab" "4096 dvd unat (ab + asz)" "ab \<le> ab + asz" using o ua(1) by (simp_all add: word_le_nat_alt)
    then show ?thesis using push_area [OF e, of ab "ab + asz"] al le ua(1) that by auto
  qed
  obtain x1 where x1: "(if bs < hi \<and> lo < be then push_interval 34 x0 (max bs lo, min be hi) else Some x0) = Some x1" "length x1 \<le> 2"
      "intervals_ok (unat lo) (unat hi) x1" "covered x1 = covered x0 \<union> {unat bs ..< unat be} \<inter> {unat lo ..< unat hi}"
  proof -
    have "bs \<le> be" "length x0 < 34" using o x0(2) by (simp_all add: word_le_nat_alt)
    then show ?thesis using push_area [OF x0(3), of bs be] o al le x0(2) that by auto
  qed
  obtain x2 where x2: "module_intervals lo hi mods x1 = Some x2" "length x2 \<le> 31" "intervals_ok (unat lo) (unat hi) x2"
      "covered x2 = covered x1 \<union> (\<Union>d \<in> set mods. module_pages d) \<inter> {unat lo ..< unat hi}"
    using module_intervals_ok [OF x1(3), of mods] o al x1(2) by auto
  let ?P = "lo \<le> info_page \<and> info_page < hi"
  have c: "unat hi \<ge> unat info_page + 4096" if "info_page < hi"
    using that o al(2) by (auto simp: word_less_nat_alt elim!: dvdE)
  have "max info_page lo = info_page \<and> min (info_page + PAGE_SIZE) hi = info_page + PAGE_SIZE" if ?P
    using that c ua(2) by (auto simp: max_absorb1 min_absorb1 word_le_nat_alt)
  moreover have "min (info_page + PAGE_SIZE) hi \<le> max info_page lo" if "\<not> ?P"
  proof (cases "lo \<le> info_page")
    case False
    then have "unat info_page + 4096 \<le> unat lo" using o al(1) by (auto simp: word_le_nat_alt elim!: dvdE)
    then show ?thesis using ua(2) by (auto simp: max_def min_def word_le_nat_alt)
  qed (use that in \<open>auto simp: max_def min_def word_le_nat_alt word_less_nat_alt\<close>)
  moreover have "info_page \<le> info_page + PAGE_SIZE" using ua(2) by (simp add: word_le_nat_alt)
  ultimately obtain x3 where x3: "(if ?P then push_interval 34 x2 (info_page, info_page + PAGE_SIZE) else Some x2) = Some x3" "length x3 \<le> 32"
      "intervals_ok (unat lo) (unat hi) x3" "covered x3 = covered x2 \<union> {unat info_page ..< unat info_page + 4096} \<inter> {unat lo ..< unat hi}"
    using push_clip [OF x2(3), of ?P info_page "info_page + PAGE_SIZE"] o al ua(2) x2(2) by (auto split: if_splits)
  have "reserved_intervals lo hi mods info_page ab asz bs be = Some x3"
    unfolding reserved_intervals_def x0(1) x1(1) using x1(1) x2(1) x3(1) by (simp add: x0(1))
  moreover have "covered x3 = in_use mods info_page ab asz bs be \<inter> {unat lo ..< unat hi}"
    unfolding x3(4) x2(4) x1(4) x0(4) in_use_def by blast
  ultimately show ?thesis using x3 by blast
qed

lemma add_free_region_skipping_ok:
  assumes inv: "buddy_inv s L" and ok: "areas_ok mods info_page ab asz bs be" and al: "4096 dvd unat lo" "4096 dvd unat hi" and le: "lo \<le> hi"
    and r: "unat (alloc_base s) \<le> unat lo" "unat hi \<le> top_addr s" "{unat lo ..< unat hi} \<inter> free_space L = {}"
  shows "\<exists>s' L'. add_free_region_skipping s lo hi mods info_page ab asz bs be = Some s' \<and> buddy_inv s' L' \<and> lists_frame s s' \<and>
    free_space L' = free_space L \<union> ({unat lo ..< unat hi} - in_use mods info_page ab asz bs be)"
proof -
  obtain xs where xs: "reserved_intervals lo hi mods info_page ab asz bs be = Some xs" "length xs \<le> 32" "intervals_ok (unat lo) (unat hi) xs"
      "covered xs = in_use mods info_page ab asz bs be \<inter> {unat lo ..< unat hi}"
    using reserved_intervals_ok [OF ok al le] by blast
  have so: "mset (sort_intervals xs) = mset xs" "sorted (map fst (sort_intervals xs))" using sort_intervals_sorts by auto
  have "length (sort_intervals xs) = length xs" using so(1) by (metis size_mset)
  moreover have "intervals_ok (unat lo) (unat hi) (sort_intervals xs)" using xs(3) mset_eq_setD [OF so(1)] by (simp add: intervals_ok_def)
  ultimately obtain mg where mg: "merge_loop [] (sort_intervals xs) = Some mg" "sorted (map fst mg)" "intervals_ok (unat lo) (unat hi) mg"
      "covered mg = covered (sort_intervals xs)"
    using merge_loop_ok [of "[]" "sort_intervals xs" "unat lo" "unat hi"] so(2) xs(2) by auto
  have "covered mg = in_use mods info_page ab asz bs be \<inter> {unat lo ..< unat hi}" using mg(4) covered_mset [OF so(1)] xs(4) by simp
  then have "{unat lo ..< unat hi} - covered mg = {unat lo ..< unat hi} - in_use mods info_page ab asz bs be" by blast
  with gaps_ok [OF inv mg(2,3) al r] show ?thesis using xs(1) mg(1) by (simp add: add_free_region_skipping_def)
qed

end
