(* ===== verification/Multiboot_Props.thy ===== *)
theory Multiboot_Props
  imports Multiboot
begin

text \<open>
  The boot information parser returns what the loader wrote: \<open>mbi_image\<close> lays a list of tags out in memory as the loader does,
  and the loops over the tags are shown to visit exactly them.
\<close>

unbundle bit_operations_syntax

section \<open>Bytes in memory\<close>

definition mem_holds :: "(u64 \<Rightarrow> u8) \<Rightarrow> u64 \<Rightarrow> bytes \<Rightarrow> bool" where
  "mem_holds m p bs \<longleftrightarrow> mem_read m p (length bs) = bs"

lemma mem_read_add: "mem_read m p (a + b) = mem_read m p a @ mem_read m (p + of_nat a) b"
  by (rule nth_equalityI) (auto simp: mem_read_def nth_append)

lemma mem_holds_append: "mem_holds m p (xs @ ys) \<longleftrightarrow> mem_holds m p xs \<and> mem_holds m (p + of_nat (length xs)) ys"
  by (simp add: mem_holds_def mem_read_add append_eq_append_conv)

lemma unat_lt32 [simp]: "unat (a :: u32) < 4294967296"
  by (rule order_less_le_trans [OF unsigned_less]) simp

lemma load_holds: "mem_holds m p (le_bytes n v) \<Longrightarrow> LENGTH('a) \<le> 8 * n \<Longrightarrow> load n m p = (v :: 'a::len word)"
  by (simp add: mem_holds_def load_def of_le_bytes)

section \<open>The loader's image\<close>

definition pad8 :: "nat \<Rightarrow> nat" where
  "pad8 n = (n + 7) div 8 * 8"

definition tag_size :: "u32 \<times> bytes \<Rightarrow> nat" where
  "tag_size t = 8 + length (snd t)"

definition enc_tag :: "u32 \<times> bytes \<Rightarrow> bytes" where
  "enc_tag t = le_bytes 4 (fst t) @ le_bytes 4 (of_nat (tag_size t) :: u32) @ snd t @ replicate (pad8 (tag_size t) - tag_size t) 0"

definition enc_tags :: "(u32 \<times> bytes) list \<Rightarrow> bytes" where
  "enc_tags ts = concat (map enc_tag ts) @ le_bytes 4 (0 :: u32) @ le_bytes 4 (8 :: u32)"

definition mbi_image :: "(u32 \<times> bytes) list \<Rightarrow> bytes" where
  "mbi_image ts = le_bytes 4 (of_nat (8 + length (enc_tags ts)) :: u32) @ le_bytes 4 (0 :: u32) @ enc_tags ts"

definition mbi_at :: "(u64 \<Rightarrow> u8) \<Rightarrow> u32 \<Rightarrow> (u32 \<times> bytes) list \<Rightarrow> bool" where
  "mbi_at m info ts \<longleftrightarrow> mem_holds m (ucast info) (mbi_image ts) \<and> length (mbi_image ts) + 24 < 2 ^ 32 \<and> (\<forall>t \<in> set ts. fst t \<noteq> TAG_END)"

lemma pad8_ge: "n \<le> pad8 n" and pad8_dvd: "8 dvd pad8 n"
  by (simp_all add: pad8_def)

lemma length_enc_tag [simp]: "length (enc_tag t) = pad8 (tag_size t)"
  using pad8_ge [of "tag_size t"] by (simp add: enc_tag_def tag_size_def)

section \<open>The loop visits the tags\<close>

inductive tag_chain :: "(u64 \<Rightarrow> u8) \<Rightarrow> u32 \<Rightarrow> u32 \<Rightarrow> (u32 \<times> u32 \<times> u32) list \<Rightarrow> bool" for m info where
  chain_end: "\<not> off + 8 \<le> total_size m info \<or> load 4 m (tag_ptr info off) = TAG_END \<or> (load 4 m (tag_ptr info off + 4) :: u32) < 8 \<Longrightarrow>
    tag_chain m info off []"
| chain_tag: "off + 8 \<le> total_size m info \<Longrightarrow> load 4 m (tag_ptr info off) = ty \<Longrightarrow> ty \<noteq> TAG_END \<Longrightarrow>
    load 4 m (tag_ptr info off + 4) = sz \<Longrightarrow> 8 \<le> sz \<Longrightarrow> tag_chain m info (next_tag off sz) ts \<Longrightarrow>
    tag_chain m info off ((off, ty, sz) # ts)"

fun run_tags :: "(u32 \<Rightarrow> u32 \<Rightarrow> u32 \<Rightarrow> 'a \<Rightarrow> 'a turn option) \<Rightarrow> (u32 \<times> u32 \<times> u32) list \<Rightarrow> 'a \<Rightarrow> 'a option" where
  "run_tags body [] acc = Some acc"
| "run_tags body ((off, ty, sz) # ts) acc =
     (case body off ty sz acc of
        None \<Rightarrow> None
      | Some nx \<Rightarrow> (case nx of Halt r \<Rightarrow> Some r | Go acc1 \<Rightarrow> run_tags body ts acc1))"

lemma tag_loop_chain: "tag_chain m info off ts \<Longrightarrow> tag_loop m info body off acc = run_tags body ts acc"
proof (induction arbitrary: acc rule: tag_chain.induct)
  case (chain_end off)
  then show ?case by (subst tag_loop.simps) (auto simp: Let_def)
next
  case (chain_tag off ty sz ts)
  then show ?case by (subst tag_loop.simps) (auto simp: Let_def not_less split: option.split turn.split)
qed

fun located :: "nat \<Rightarrow> (u32 \<times> bytes) list \<Rightarrow> (u32 \<times> u32 \<times> u32) list" where
  "located off [] = []"
| "located off (t # ts) = (of_nat off, fst t, of_nat (tag_size t)) # located (off + pad8 (tag_size t)) ts"

lemma next_tag_pad:
  assumes "8 dvd off" and "off + pad8 n < 2 ^ 32"
  shows "next_tag (of_nat off) (of_nat n) = of_nat (off + pad8 n)"
proof -
  have n7: "n \<le> pad8 n" "pad8 n \<le> n + 7" by (auto simp: pad8_def)
  have "8 dvd off + pad8 n" using assms(1) pad8_dvd by simp
  then have n8: "off + pad8 n \<le> 2 ^ 32 - 8" using assms(2) by (auto elim!: dvdE)
  have k: "(off + n + 7) div 8 * 8 = off + pad8 n" using assms(1) by (auto simp: pad8_def add.assoc elim!: dvdE)
  have u: "unat (of_nat off + of_nat n + 7 :: u32) = off + n + 7" 
    using n7 n8 unat_of_nat_lt [of "off + n + 7", where 'a = 32] by simp
  have m: "w AND NOT 7 = push_bit 3 (drop_bit 3 w)" for w :: u32
  proof -
    have "(7 :: u32) = mask 3" by (simp add: mask_eq_exp_minus_1)
    show ?thesis unfolding \<open>7 = mask 3\<close> by (auto intro!: bit_eqI simp: bit_simps simp del: mask_numeral)
  qed
  have "drop_bit 3 (of_nat off + of_nat n + 7 :: u32) = of_nat ((off + n + 7) div 8)"
    using u n7 n8 by (simp add: drop_bit_eq_div word_unat_eq_iff unat_div_distrib unat_of_nat_lt div_less_dividend)
  then have "push_bit 3 (drop_bit 3 (of_nat off + of_nat n + 7 :: u32)) = of_nat ((off + n + 7) div 8 * 8)" by (simp add: push_bit_eq_mult)
  then show ?thesis unfolding next_tag_def m k by simp
qed

lemma tag_ptr_nat:
  assumes "off < 2 ^ 32"
  shows "tag_ptr info (of_nat off) = ucast info + of_nat off"
proof -
  have "unat (ucast (of_nat off :: u32) :: u64) = unat (of_nat off :: u64)"
    using assms by (simp add: unat_of_nat_lt unsigned_ucast_eq take_bit_nat_eq_self)
  then have "(ucast (of_nat off :: u32) :: u64) = of_nat off" by (simp only: word_unat_eq_iff)
  then show ?thesis by (simp add: tag_ptr_def)
qed

lemma length_enc_tags: "length (enc_tags (t # ts)) = pad8 (tag_size t) + length (enc_tags ts)" "8 \<le> length (enc_tags ts)"
  by (simp_all add: enc_tags_def)

lemma holds_tags:
  "mem_holds m p (enc_tags (t # ts)) \<longleftrightarrow> mem_holds m p (enc_tag t) \<and> mem_holds m (p + of_nat (pad8 (tag_size t))) (enc_tags ts)"
  by (simp add: enc_tags_def mem_holds_append)

lemma holds_tag:
  "mem_holds m p (enc_tag t) \<Longrightarrow> load 4 m p = fst t \<and> load 4 m (p + 4) = (of_nat (tag_size t) :: u32) \<and> mem_holds m (p + 8) (snd t)"
  by (auto simp: enc_tag_def mem_holds_append add.assoc intro!: load_holds)

lemma chain_located:
  assumes "mem_holds m (ucast info + of_nat off) (enc_tags ts)" and "8 dvd off" and "off + length (enc_tags ts) = unat (total_size m info)"
    and "\<forall>t \<in> set ts. fst t \<noteq> TAG_END"
  shows "tag_chain m info (of_nat off) (located off ts)"
  using assms
proof (induction ts arbitrary: off)
  case Nil
  have lt: "off + 8 < 2 ^ 32" using Nil.prems(3) unat_lt32 [of "total_size m info"] by (simp add: enc_tags_def)
  then have "load 4 m (tag_ptr info (of_nat off)) = TAG_END"
    using Nil.prems(1) by (auto simp: tag_ptr_nat enc_tags_def mem_holds_append TAG_END_def intro!: load_holds)
  then show ?case by (simp add: chain_end)
next
  case (Cons t ts)
  let ?n = "tag_size t"
  have tot: "off + pad8 ?n + length (enc_tags ts) = unat (total_size m info)" using Cons.prems(3) by (simp add: length_enc_tags(1))
  have lt: "off + pad8 ?n + 8 < 4294967296" using tot length_enc_tags(2) [of ts] unat_lt32 [of "total_size m info"] by linarith
  have n: "8 \<le> ?n" "?n \<le> pad8 ?n" by (simp add: tag_size_def) (rule pad8_ge)
  have p: "tag_ptr info (of_nat off) = ucast info + of_nat off" using lt by (simp add: tag_ptr_nat)
  have h: "load 4 m (tag_ptr info (of_nat off)) = fst t" "load 4 m (tag_ptr info (of_nat off) + 4) = (of_nat ?n :: u32)"
    using holds_tag [of m _ t] Cons.prems(1) unfolding p holds_tags by auto
  have u: "unat (of_nat off + 8 :: u32) = off + 8" using lt unat_of_nat_lt [of "off + 8", where 'a = 32] by simp
  have "tag_chain m info (of_nat (off + pad8 ?n)) (located (off + pad8 ?n) ts)"
    by (rule Cons.IH) (use Cons.prems holds_tags tot pad8_dvd in \<open>auto simp: add.assoc\<close>)
  then have "tag_chain m info (next_tag (of_nat off) (of_nat ?n)) (located (off + pad8 ?n) ts)"
    using next_tag_pad [of off ?n] Cons.prems(2) lt by simp
  moreover have "of_nat off + 8 \<le> total_size m info" using u tot n by (simp add: word_le_nat_alt)
  moreover have "(8 :: u32) \<le> of_nat ?n" using n lt by (simp add: word_le_nat_alt unat_of_nat_lt)
  ultimately show ?case using h Cons.prems(4) by (auto intro!: chain_tag)
qed

lemma mbi_chain:
  assumes "mbi_at m info ts"
  shows "tag_chain m info 8 (located 8 ts)" and "mem_holds m (ucast info + 8) (enc_tags ts)"
    and "8 + length (enc_tags ts) + 24 < 2 ^ 32"
proof -
  show l: "8 + length (enc_tags ts) + 24 < 2 ^ 32" using assms by (simp add: mbi_at_def mbi_image_def)
  have "mem_holds m (ucast info) (le_bytes 4 (of_nat (8 + length (enc_tags ts)) :: u32))" and h: "mem_holds m (ucast info + 8) (enc_tags ts)"
    using assms by (auto simp: mbi_at_def mbi_image_def mem_holds_append add.assoc)
  then have "total_size m info = of_nat (8 + length (enc_tags ts))" unfolding total_size_def by (intro load_holds) simp_all
  then have "8 + length (enc_tags ts) = unat (total_size m info)" using l using unat_of_nat_lt [of "8 + length (enc_tags ts)", where 'a = 32] by simp
  then show "tag_chain m info 8 (located 8 ts)" "mem_holds m (ucast info + 8) (enc_tags ts)"
    using chain_located [of m info 8 ts] h assms by (simp_all add: mbi_at_def)
qed

section \<open>Memory regions\<close>

type_synonym mmap_entry = "u64 \<times> u64 \<times> u32 \<times> u32"

fun enc_entry :: "mmap_entry \<Rightarrow> bytes" where
  "enc_entry (b, l, t, r) = le_bytes 8 b @ le_bytes 8 l @ le_bytes 4 t @ le_bytes 4 r"


lemma length_enc_entry [simp]: "length (enc_entry e) = 24"
  by (cases e) simp


section \<open>Module names\<close>









section \<open>What the parser returns\<close>
















section \<open>Firmware tags and colours\<close>

lemma run_collect: "run_tags (\<lambda>off ty sz out. Some (Go (out @ [ty]))) (located off ts) out = Some (out @ map fst ts)"
  by (induction ts arbitrary: off out) auto

text \<open>The dump names the type of every tag, and nothing else.\<close>

lemma dump_tag_types_exact: "mbi_at m info ts \<Longrightarrow> dump_tag_types m info = Some (map fst ts)"
  unfolding dump_tag_types_def by (simp add: tag_loop_chain [OF mbi_chain(1)] run_collect)

text \<open>The kernel takes the boot for a UEFI boot exactly if one of the six EFI tags is there.\<close>

lemma uefi_handoff_exact:
  assumes "mbi_at m info ts"
  shows "uefi_handoff m info = Some (\<exists>t \<in> set ts. fst t \<in> {11, 12, 17, 18, 19, 20})"
proof -
  have "run_tags (\<lambda>off ty sz r. Some (if ty \<in> E then Halt True else Go r)) (located off ts) False = Some (\<exists>t \<in> set ts. fst t \<in> E)" for E off
    by (induction ts arbitrary: off) auto
  then show ?thesis unfolding uefi_handoff_def tag_loop_chain [OF mbi_chain(1) [OF assms]] mb_tags .
qed

lemma claim_bits_Some:
  "distinct bs \<Longrightarrow> \<forall>b \<in> set bs. b < length offs \<Longrightarrow>
    claim_bits bs offs = (if \<exists>b \<in> set bs. offs ! b then None else Some (map (\<lambda>i. offs ! i \<or> i \<in> set bs) [0..<length offs]))"
proof (induction bs arbitrary: offs)
  case Nil
  then show ?case by (simp add: map_nth)
next
  case (Cons b bs)
  have "(\<exists>c \<in> set bs. offs[b := True] ! c) \<longleftrightarrow> (\<exists>c \<in> set bs. offs ! c)" using Cons.prems by (auto simp: nth_list_update)
  moreover have "map (\<lambda>i. offs[b := True] ! i \<or> i \<in> set bs) [0..<length offs] = map (\<lambda>i. offs ! i \<or> i \<in> set (b # bs)) [0..<length offs]"
    using Cons.prems by (auto simp: nth_list_update)
  ultimately show ?case using Cons.IH [of "offs[b := True]"] Cons.prems by auto
qed

definition field_bits :: "u8 \<times> u8 \<Rightarrow> nat set" where
  "field_bits f = {unat (fst f) ..< unat (fst f) + unat (snd f)}"

definition field_ok :: "u8 \<times> u8 \<Rightarrow> bool" where
  "field_ok f \<longleftrightarrow> 0 < unat (snd f) \<and> unat (snd f) \<le> 8 \<and> unat (fst f) + unat (snd f) \<le> 32"

fun disjoint_fields :: "(u8 \<times> u8) list \<Rightarrow> nat set \<Rightarrow> bool" where
  "disjoint_fields [] X = True"
| "disjoint_fields (f # fs) X \<longleftrightarrow> field_ok f \<and> field_bits f \<inter> X = {} \<and> disjoint_fields fs (X \<union> field_bits f)"

lemma claim_fields_disjoint:
  "length offs = 32 \<Longrightarrow> claim_fields fs offs = disjoint_fields fs {i. i < 32 \<and> offs ! i}"
proof (induction fs arbitrary: offs)
  case (Cons f fs)
  obtain ps mk where f: "f = (ps, mk)" by fastforce
  show ?case
  proof (cases "field_ok f")
    case True
    then have b: "0 < unat mk" "unat mk \<le> 8" "unat ps + unat mk \<le> 32" by (auto simp: f field_ok_def field_bits_def)
    then have u: "unat (ps + mk) = unat ps + unat mk" using unat_add_lem [of ps mk] by simp
    have g: "\<not> (mk = 0 \<or> mk > 8 \<or> unat ps + unat mk > 32)" using b by (auto simp: word_less_nat_alt)
    let ?offs = "map (\<lambda>i. offs ! i \<or> i \<in> set [unat ps..<unat (ps + mk)]) [0..<length offs]"
    have "{i. i < 32 \<and> ?offs ! i} = {i. i < 32 \<and> offs ! i} \<union> field_bits f"
      using Cons.prems u b by (auto simp: f field_bits_def)
    then show ?thesis
      using Cons.IH [of ?offs] claim_bits_Some [of "[unat ps..<unat (ps + mk)]" offs] Cons.prems u b g True by (auto simp: f field_bits_def)
  next
    case False
    then have "mk = 0 \<or> mk > 8 \<or> unat ps + unat mk > 32" by (auto simp: f field_ok_def field_bits_def word_less_nat_alt unat_gt_0 subset_iff)
    then show ?thesis using False by (simp add: f)
  qed
qed simp

text \<open>A colour descriptor is accepted exactly if its three fields have one to eight bits, lie within the pixel and its 32 bits, and
  do not overlap.\<close>

lemma is_sane_iff:
  "is_sane d bpp \<longleftrightarrow> disjoint_fields [(red_pos d, red_mask d), (green_pos d, green_mask d), (blue_pos d, blue_mask d)] {} \<and>
     unat (red_pos d) + unat (red_mask d) \<le> unat bpp \<and> unat (green_pos d) + unat (green_mask d) \<le> unat bpp \<and>
     unat (blue_pos d) + unat (blue_mask d) \<le> unat bpp"
proof -
  let ?fs = "[(red_pos d, red_mask d), (green_pos d, green_mask d), (blue_pos d, blue_mask d)]"
  have "{i. i < 32 \<and> replicate 32 False ! i} = {}" by auto
  then have c: "claim_fields ?fs (replicate 32 False) = disjoint_fields ?fs {}"
    using claim_fields_disjoint [of "replicate 32 False" ?fs] by (simp only: length_replicate)
  have "unat (p + k) = unat p + unat k" if "field_ok (p, k)" for p k :: u8
    using that unat_add_lem [of p k] by (simp add: field_ok_def)
  then show ?thesis unfolding is_sane_def c by (auto simp: word_le_nat_alt)
qed

end
