(* ===== verification/Memory_Setup_Props.thy ===== *)
theory Memory_Setup_Props
  imports Memory_Intervals Multiboot_Props Buddy_Props
begin

text \<open>
  What the set-up of memory leaves free, from the boot information to the free space of the page allocator after \<^verbatim>\<open>init\<close>, and
  the kernel's heap.
\<close>

unbundle bit_operations_syntax

section \<open>Marking memory that is not free\<close>

lemma remove_at_absent: "slot_get s c = h \<Longrightarrow> chain (hdr s) h xs \<Longrightarrow> t \<notin> set xs \<Longrightarrow> remove_at s c t = Some s"
proof (induction xs arbitrary: c h)
  case (Cons x xs)
  then show ?case using Cons.IH [of "NextSlot x"] by (subst remove_at.simps) auto
qed (subst remove_at.simps; simp)

lemma mark_allocated_skip:
  assumes inv: "buddy_inv s L" and al: "4096 dvd unat a" and hi: "unat hi \<le> 2 ^ 63" and dj: "{unat a ..< unat hi} \<inter> free_space L = {}"
  shows "mark_allocated_loop s a hi = Some s"
  using al dj
proof (induction "unat hi - unat a" arbitrary: a rule: less_induct)
  case less
  show ?case
  proof (cases "a < hi")
    case True
    define k where "k = max_order_for a (hi - a)"
    have k: "k \<le> MAX_ORDER" using max_order_from_spec(1) [of MAX_ORDER a "hi - a"] by (simp add: k_def max_order_for_def MAX_ORDER_def)
    have "unat a \<in> {unat a ..< unat hi}" using True by (simp add: word_less_nat_alt)
    then have "unat a \<notin> free_space L" using less.prems(2) by blast
    then have "a \<notin> set (L k)" using k by (force simp: free_space_def span_def)
    then have "remove_from_list s k a = Some s"
      using remove_at_absent [of s "HeadSlot k" _ "L k" a] buddy_invD(2,3) [OF inv] k by (simp add: remove_from_list_def)
    moreover have u: "unat (a + block_size k) = unat a + 4096 * 2 ^ k"
    proof -
      have "(2 :: nat) ^ k \<le> 2 ^ 10" using k by (intro power_increasing) (simp_all add: MAX_ORDER_def)
      then show ?thesis using k True hi by (subst unat_add_nowrap) (simp_all add: MAX_ORDER_def word_less_nat_alt)
    qed
    moreover have "mark_allocated_loop s (a + block_size k) hi = Some s"
    proof (rule less.hyps)
      show "unat hi - unat (a + block_size k) < unat hi - unat a" using True u by (auto simp: word_less_nat_alt intro: diff_less_mono2)
      show "{unat (a + block_size k) ..< unat hi} \<inter> free_space L = {}" using u less.prems(2) by (auto simp: disjoint_iff)
    qed (use u less.prems(1) in auto)
    ultimately show ?thesis using True by (subst mark_allocated_loop.simps) (simp add: Let_def k_def [symmetric])
  qed (subst mark_allocated_loop.simps; simp)
qed

lemma mark_allocated_used:
  assumes "buddy_inv s L" and "4096 dvd unat a" and "unat hi \<le> 2 ^ 63" and "{unat a ..< unat hi} \<inter> free_space L = {}"
  shows "mark_allocated s a (hi - a) = Some s"
  using mark_allocated_skip [OF assms] by (simp add: mark_allocated_def)

section \<open>Setting up memory\<close>

lemma align_up_dvd: "4096 dvd unat (page_align_up a)"
  using unat_and_high_mask [of 12 "a + PAGE_SIZE - 1"] by (simp add: page_align_up_def) (simp add: PAGE_SIZE_def dvd_minus_mod)

lemma pick_region_ok:
  assumes "pick_region regs = Some (b, n)"
  shows "4096 dvd unat b" and "unat b + unat n * 4096 \<le> 0x40000000" and "unat (b + n * PAGE_SIZE) = unat b + unat n * 4096"
proof -
  obtain best bi where "best_loop regs 0 (0, 0) = (best, bi)" by fastforce
  then have r: "b = page_align_up (mr_base (regs ! bi))" "\<not> IDENTITY_LIMIT \<le> b" "n \<le> (IDENTITY_LIMIT - b) div PAGE_SIZE"
    using assms by (auto simp: pick_region_def Let_def split: if_splits)
  then show "4096 dvd unat b" using align_up_dvd by simp
  have b: "unat b < 0x40000000" using r(2) by (simp add: IDENTITY_LIMIT_def word_le_nat_alt)
  then have "unat (IDENTITY_LIMIT - b) = 0x40000000 - unat b" by (subst unat_sub_nowrap) (simp_all add: IDENTITY_LIMIT_def word_le_nat_alt)
  then have n: "unat n \<le> (0x40000000 - unat b) div 4096" using r(3) by (simp add: word_le_nat_alt unat_div_distrib PAGE_SIZE_def)
  then show le: "unat b + unat n * 4096 \<le> 0x40000000" using b by (simp add: le_div_geq)
  have "unat (n * PAGE_SIZE) = unat n * 4096" using le by (subst unat_mult_lem [THEN iffD1]) (simp_all add: PAGE_SIZE_def)
  then show "unat (b + n * PAGE_SIZE) = unat b + unat n * 4096" using le by (subst unat_add_nowrap) simp_all
qed

lemma first_module_bounds:
  "unat (first_module_start z mods) \<le> unat z"
  "\<forall>d \<in> set mods. lo \<le> unat (page_align_down (mi_start d)) \<Longrightarrow> lo \<le> unat z \<Longrightarrow> lo \<le> unat (first_module_start z mods)"
  "4096 dvd unat z \<Longrightarrow> 4096 dvd unat (first_module_start z mods)"
proof -
  have "unat (first_module_start z mods) \<le> unat z \<and>
      (\<forall>lo. (\<forall>d \<in> set mods. lo \<le> unat (page_align_down (mi_start d))) \<longrightarrow> lo \<le> unat z \<longrightarrow> lo \<le> unat (first_module_start z mods)) \<and>
      (4096 dvd unat z \<longrightarrow> 4096 dvd unat (first_module_start z mods))"
    unfolding first_module_start_def
  proof (induction mods arbitrary: z)
    case (Cons d mods)
    let ?z = "if page_align_down (mi_start d) < z then page_align_down (mi_start d) else z"
    have "unat ?z \<le> unat z" "4096 dvd unat z \<longrightarrow> 4096 dvd unat ?z" using align_dvd(1) by (auto simp: word_less_nat_alt)
    moreover have "lo \<le> unat (page_align_down (mi_start d)) \<Longrightarrow> lo \<le> unat z \<Longrightarrow> lo \<le> unat ?z" for lo by auto
    ultimately show ?case unfolding fold_simps using Cons.IH [of ?z] by fastforce
  qed simp
  then show "unat (first_module_start z mods) \<le> unat z"
    "\<forall>d \<in> set mods. lo \<le> unat (page_align_down (mi_start d)) \<Longrightarrow> lo \<le> unat z \<Longrightarrow> lo \<le> unat (first_module_start z mods)"
    "4096 dvd unat z \<Longrightarrow> 4096 dvd unat (first_module_start z mods)" by auto
qed

definition boot_ok :: "kernel_image \<Rightarrow> module_info list \<Rightarrow> u64 \<Rightarrow> u64 \<Rightarrow> bool" where
  "boot_ok k mods b n \<longleftrightarrow>
     (let z = unat b + unat n * 4096; ks = unat (page_align_down (k_start k)); kd = unat (page_align_up (k_data_end k))
      in 0 < unat b \<and> 0x400000 \<le> z \<and> unat b \<le> ks \<and> ks < z \<and> unat (k_start k) \<le> unat (k_data_end k) \<and> unat (k_data_end k) + 4095 < 2 ^ 64 \<and>
         unat (k_bss_start k) \<le> unat (k_bss_end k) \<and> unat (k_bss_end k) < 2 ^ 62 \<and> length mods \<le> 29 \<and>
         (\<forall>d \<in> set mods. module_ok d \<and> min z kd \<le> unat (page_align_down (mi_start d))))"

definition boot_in_use :: "kernel_image \<Rightarrow> module_info list \<Rightarrow> u32 \<Rightarrow> u64 \<Rightarrow> u64 \<Rightarrow> nat set" where
  "boot_in_use k mods info b n = in_use mods (page_align_down (ucast info)) (arena_of b n) ARENA_SIZE (page_align_down (k_bss_start k)) (page_align_up (k_bss_end k))"

lemma arena_ok:
  assumes "0x400000 \<le> unat b + unat n * 4096" and "unat b + unat n * 4096 \<le> 0x40000000"
  shows "4096 dvd unat (arena_of b n)" and "unat (arena_of b n) + unat ARENA_SIZE \<le> unat b + unat n * 4096" and "unat ARENA_SIZE = 0x400000"
    and "unat (b + n * PAGE_SIZE) = unat b + unat n * 4096"
proof -
  show a: "unat ARENA_SIZE = 0x400000" by (simp add: ARENA_SIZE_def MAX_REFC_PAGES_def)
  have "unat (n * PAGE_SIZE) = unat n * 4096" using assms by (subst unat_mult_lem [THEN iffD1]) (simp_all add: PAGE_SIZE_def)
  then show z: "unat (b + n * PAGE_SIZE) = unat b + unat n * 4096" using assms by (subst unat_add_nowrap) simp_all
  have d: "unat (b + n * PAGE_SIZE - ARENA_SIZE) = unat b + unat n * 4096 - 0x400000"
    using assms(1) z a by (subst unat_sub_nowrap) (simp_all add: word_le_nat_alt)
  let ?w = "unat b + unat n * 4096 - 0x400000"
  have e: "unat (arena_of b n) = ?w - ?w mod 2097152"
    using unat_and_high_mask [of 21 "b + n * PAGE_SIZE - ARENA_SIZE"] d by (simp add: arena_of_def MAX_REFC_PAGES_def)
  have "2097152 dvd ?w - ?w mod 2097152" by (rule dvd_minus_mod)
  then show "4096 dvd unat (arena_of b n)" unfolding e by (rule dvd_trans [rotated]) simp
  show "unat (arena_of b n) + unat ARENA_SIZE \<le> unat b + unat n * 4096" unfolding e a using assms(1) by simp
qed

lemma boot_areas:
  fixes info :: u32
  assumes "boot_ok k mods b n" and "unat b + unat n * 4096 \<le> 0x40000000"
  shows "areas_ok mods (page_align_down (ucast info)) (arena_of b n) ARENA_SIZE (page_align_down (k_bss_start k)) (page_align_up (k_bss_end k))"
proof -
  note o = assms(1) [unfolded boot_ok_def Let_def]
  note a = arena_ok [of b n, OF _ assms(2)]
  have "unat (ucast info :: u64) = unat info" 
  proof -
    have "unat info < 4294967296" by (rule unat_lt32)
    then have "unat info < 2 ^ 64" by (rule order_less_trans) simp
    then show ?thesis by (simp add: unsigned_ucast_eq take_bit_nat_eq_self)
  qed
  then have "unat (page_align_down (ucast info)) < 2 ^ 32" using unat_lt32 [of info] by (simp add: unat_align_down del: unat_lt32)
  then show ?thesis
    using o a align_dvd(1) align_up_dvd align_order(1) [of "k_bss_start k" "k_bss_end k"] assms(2)
    by (auto simp: areas_ok_def)
qed

lemma register_regions_ok:
  assumes inv: "buddy_inv s L" "free_space L = {}" and s: "alloc_base s = b" "alloc_pages s = n"
    and b: "4096 dvd unat b" "unat b + unat n * 4096 \<le> 0x40000000" and ok: "boot_ok k mods b n"
  defines "ks \<equiv> page_align_down (k_start k)" and "z \<equiv> b + n * PAGE_SIZE"
  shows "\<exists>s' L'. register_regions s k mods (page_align_down (ucast info)) b n = Some s' \<and> buddy_inv s' L' \<and> lists_frame s s' \<and>
    free_space L' = {unat b ..< unat ks} \<union> {unat (first_module_start z mods) ..< unat z} - boot_in_use k mods info b n"
proof -
  note o = ok [unfolded boot_ok_def Let_def]
  note ar = boot_areas [OF ok b(2), of info]
  let ?U = "boot_in_use k mods info b n" and ?ip = "page_align_down (ucast info)"
  let ?bs = "page_align_down (k_bss_start k)" and ?be = "page_align_up (k_bss_end k)" and ?kd = "page_align_up (k_data_end k)"
  define fm where "fm = first_module_start z mods"
  define ae where "ae = (if z < ?kd then z else ?kd)"
  have z: "unat z = unat b + unat n * 4096" unfolding z_def using o by (intro arena_ok(4) b(2)) simp
  have zd: "4096 dvd unat z" "top_addr s = unat z" using b(1) s by (simp_all add: z top_addr_def)
  have kb: "unat b \<le> unat ks" "unat ks < unat z" "4096 dvd unat ks" using o z by (simp_all add: ks_def align_dvd(1))
  have mn: "unat ae = min (unat z) (unat ?kd)" by (simp add: ae_def word_less_nat_alt min_def)
  have "unat ks \<le> unat ?kd" unfolding ks_def using o by (intro align_order(1)) simp_all
  then have ae: "unat ks \<le> unat ae" "unat ae \<le> unat z" "4096 dvd unat ae" using kb zd(1) align_up_dvd by (auto simp: mn) (simp add: min_def)
  have fm: "unat ae \<le> unat fm" "unat fm \<le> unat z" "4096 dvd unat fm"
    using first_module_bounds [where z = z and mods = mods] o z mn zd(1) by (simp_all add: fm_def)
  have z63: "unat z \<le> 2 ^ 63" using b(2) z by simp
  have "areas_ok mods ?ip (arena_of b n) ARENA_SIZE ?bs ?be" by (rule ar)
  note skip = add_free_region_skipping_ok [OF _ this, folded boot_in_use_def]
  obtain s1 L1 where s1: "add_free_region_skipping s b ks mods ?ip (arena_of b n) ARENA_SIZE ?bs ?be = Some s1" "buddy_inv s1 L1" "lists_frame s s1"
      "free_space L1 = {unat b ..< unat ks} - ?U"
    using skip [OF inv(1) b(1) kb(3)] inv(2) kb zd(2) s by (auto simp: word_le_nat_alt)
  note ff = lists_frame_fields [OF s1(3)]
  have used: "mark_allocated s1 a (h - a) = Some s1" if "4096 dvd unat a" "unat h \<le> 2 ^ 63" "{unat a ..< unat h} \<inter> ({unat b ..< unat ks} - ?U) = {}" for a h
    by (rule mark_allocated_used [OF s1(2) that(1,2)]) (use that(3) s1(4) in simp)
  have bss: "{unat ?bs ..< unat ?be} \<subseteq> ?U" "unat ?be \<le> 2 ^ 63"
    using unat_align_up [of "k_bss_end k"] o by (auto simp: boot_in_use_def in_use_def)
  have m1: "mark_allocated s1 ks (ae - ks) = Some s1" by (rule used [OF kb(3)]) (use ae(2) z63 in auto)
  have m2: "mark_allocated s1 ?bs (?be - ?bs) = Some s1" by (rule used [OF align_dvd(1) bss(2)]) (use bss(1) in blast)
  have m3: "mark_allocated s1 ae (fm - ae) = Some s1" by (rule used [OF ae(3)]) (use ae(1) fm(2) z63 in auto)
  have "\<exists>s' L'. (if fm < z then add_free_region_skipping s1 fm z mods ?ip (arena_of b n) ARENA_SIZE ?bs ?be else Some s1) = Some s' \<and>
      buddy_inv s' L' \<and> lists_frame s1 s' \<and> free_space L' = free_space L1 \<union> ({unat fm ..< unat z} - ?U)"
  proof (cases "fm < z")
    case True
    have "{unat fm ..< unat z} \<inter> free_space L1 = {}" using s1(4) ae(1) fm(1) by auto
    then show ?thesis using True skip [OF s1(2) fm(3) zd(1)] fm ae kb ff(3,4) zd(2) s by (simp add: word_le_nat_alt)
  next
    case False
    then show ?thesis using s1(2) lists_frame_refl by (auto simp: word_less_nat_alt)
  qed
  then obtain s' L' where s': "(if fm < z then add_free_region_skipping s1 fm z mods ?ip (arena_of b n) ARENA_SIZE ?bs ?be else Some s1) = Some s'"
      "buddy_inv s' L'" "lists_frame s1 s'" "free_space L' = free_space L1 \<union> ({unat fm ..< unat z} - ?U)" by blast
  have "register_regions s k mods ?ip b n = Some s'"
  proof -
    have "b \<le> ks \<and> ks < z" using kb by (simp add: word_le_nat_alt word_less_nat_alt)
    then show ?thesis using s1(1) m1 m2 m3 s'(1)
      by (simp add: register_regions_def Let_def ks_def [symmetric] z_def [symmetric] fm_def [symmetric] ae_def [symmetric] split: if_splits)
  qed
  moreover have "free_space L' = {unat b ..< unat ks} \<union> {unat fm ..< unat z} - ?U" unfolding s'(4) s1(4) by blast
  ultimately show ?thesis using s'(2) lists_frame_trans [OF s1(3) s'(3)] by (auto simp: fm_def)
qed

lemma module_table_exact:
  assumes "length mods \<le> 32" and "length (module_regions st) = 32"
  shows "is_in_module_region (module_table st mods) a \<longleftrightarrow> (\<exists>d \<in> set mods. unat a \<in> module_pages d)"
proof -
  let ?f = "\<lambda>d. (page_align_down (mi_start d), page_align_up (mi_end d))"
  have "fold (\<lambda>i rs. rs[i := ?f (mods ! i)]) [0..<n] rs = map (\<lambda>i. ?f (mods ! i)) [0..<n] @ drop n rs" if "n \<le> length rs" for n rs
    using that
  proof (induction n)
    case (Suc n)
    then have "drop n rs = rs ! n # drop (Suc n) rs" by (simp add: Cons_nth_drop_Suc)
    with Suc show ?case by (simp add: list_update_append)
  qed simp
  then have "module_regions (module_table st mods) = map (\<lambda>i. ?f (mods ! i)) [0..<length mods] @ drop (length mods) (module_regions st)"
    using assms by (simp add: module_table_def)
  then have "module_regions (module_table st mods) ! i = ?f (mods ! i)" if "i < length mods" for i using that by (simp add: nth_append)
  moreover have "module_regions_count (module_table st mods) = length mods" using assms by (simp add: module_table_def MAX_MODULE_REGIONS_def)
  moreover have "(\<exists>d \<in> set mods. P d) \<longleftrightarrow> (\<exists>i < length mods. P (mods ! i))" for P by (metis in_set_conv_nth)
  ultimately show ?thesis by (auto simp: is_in_module_region_def module_pages_def word_le_nat_alt word_less_nat_alt)
qed

lemma fresh_allocator:
  assumes "0 < unat b" and "4096 dvd unat b" and "unat b + unat n * 4096 \<le> 0x40000000"
  shows "buddy_inv ((init new_buddy b n)\<lparr>page_type := t, owned_by := o1\<rparr>) (\<lambda>_. [])" and "free_space (\<lambda>_. []) = {}"
  using assms by (auto simp: buddy_inv_def init_def new_buddy_def region_ok_def top_addr_def disjoint_blocks_def blocks_def free_space_def MAX_ORDER_def)

lemma init_free_space:
  assumes "memory_regions m info 32 = Some regs" and "pick_region regs = Some (b, n)" and "find_modules m info 32 = Some mods"
    and "boot_ok k mods b n"
  shows "\<exists>st. memory_init m k info memory_new = Some st \<and> total_pages st = n \<and>
    alloc_inv (mm_alloc st) ({unat b ..< unat (page_align_down (k_start k))} \<union>
      {unat (first_module_start (b + n * PAGE_SIZE) mods) ..< unat b + unat n * 4096} - boot_in_use k mods info b n) \<and>
    (\<forall>a. is_in_module_region st a \<longleftrightarrow> (\<exists>d \<in> set mods. unat a \<in> module_pages d))"
proof -
  note p = pick_region_ok [OF assms(2)]
  note o = assms(4) [unfolded boot_ok_def Let_def]
  let ?s = "(init new_buddy b n)\<lparr>page_type := (\<lambda>_. 0), owned_by := (\<lambda>_. 0)\<rparr>" and ?F = "{unat b ..< unat (page_align_down (k_start k))} \<union>
      {unat (first_module_start (b + n * PAGE_SIZE) mods) ..< unat b + unat n * 4096} - boot_in_use k mods info b n"
  have fresh: "buddy_inv ?s (\<lambda>_. [])" "free_space (\<lambda>_. []) = {}" using fresh_allocator [OF _ p(1,2)] o by auto
  have f: "alloc_base ?s = b" "alloc_pages ?s = n" "reserved_count ?s = 0" by (simp_all add: init_def new_buddy_def)
  obtain s1 L1 where s1: "register_regions ?s k mods (page_align_down (ucast info)) b n = Some s1" "buddy_inv s1 L1" "lists_frame ?s s1"
      "free_space L1 = ?F"
    using register_regions_ok [OF fresh f(1,2) p(1,2) assms(4), of info] unfolding p(3) by blast
  have a: "4096 dvd unat (arena_of b n)" "unat (arena_of b n + ARENA_SIZE) \<le> unat b + unat n * 4096"
      "{unat (arena_of b n) ..< unat (arena_of b n + ARENA_SIZE)} \<subseteq> boot_in_use k mods info b n"
    using arena_ok [of b n] o p(2) by (auto simp: boot_in_use_def in_use_def unat_add_nowrap)
  have mk: "mark_allocated s1 (arena_of b n) ARENA_SIZE = Some s1"
    unfolding mark_allocated_def by (rule mark_allocated_skip [OF s1(2) a(1)]) (use a p(2) s1(4) in auto)
  note ff = lists_frame_fields [OF s1(3)]
  have "alloc_inv s1 ?F"
    using s1(2,4) p(2) f ff by (auto simp: alloc_inv_def tracked_def MAX_REFC_PAGES_def)
  moreover have "memory_init m k info memory_new = Some ((module_table memory_new mods)\<lparr>mm_alloc := s1, total_pages := n\<rparr>)"
    using assms(1-3) s1(1) mk by (simp add: memory_init_def MAX_REGIONS_def memory_new_def)
  moreover have "is_in_module_region ((module_table memory_new mods)\<lparr>mm_alloc := s1, total_pages := n\<rparr>) x \<longleftrightarrow>
      (\<exists>d \<in> set mods. unat x \<in> module_pages d)" for x
    using module_table_exact [of mods memory_new] o by (simp add: is_in_module_region_def memory_new_def MAX_MODULE_REGIONS_def)
  ultimately show ?thesis by simp
qed




section \<open>Boots that lose memory, and the heap\<close>

text \<open>Without boot modules everything above the kernel counts as the gap before the first module: only the memory below the kernel
  becomes free.\<close>

lemma no_modules_no_memory_above:
  assumes "memory_regions m info 32 = Some regs" and "pick_region regs = Some (b, n)" and "find_modules m info 32 = Some []" and "boot_ok k [] b n"
  shows "\<exists>st F. memory_init m k info memory_new = Some st \<and> alloc_inv (mm_alloc st) F \<and> F \<subseteq> {unat b ..< unat (page_align_down (k_start k))}"
proof -
  note p = pick_region_ok [OF assms(2)]
  show ?thesis using init_free_space [OF assms] p(3) by (fastforce simp: first_module_start_def)
qed

text \<open>The kernel's modules and one interval for each of the other areas need 35 slots; the array has 34.\<close>

lemma too_many_modules_panic:
  assumes "length mods = 32" and "\<forall>d \<in> set mods. lo \<le> page_align_down (mi_start d) \<and> page_align_down (mi_start d) < page_align_up (mi_end d) \<and> page_align_up (mi_end d) \<le> hi"
    and "ab < hi" "lo < ab + asz" "bs < hi" "lo < be" "lo \<le> info_page" "info_page < hi"
  shows "add_free_region_skipping s lo hi mods info_page ab asz bs be = None"
proof -
  have "\<exists>ys. module_intervals lo hi ds xs = Some ys \<and> length ys = length xs + length ds" if "length xs + length ds \<le> 34"
    and "\<forall>d \<in> set ds. lo \<le> page_align_down (mi_start d) \<and> page_align_down (mi_start d) < page_align_up (mi_end d) \<and> page_align_up (mi_end d) \<le> hi" for ds xs
    using that
  proof (induction ds arbitrary: xs)
    case (Cons d ds)
    then have "page_align_down (mi_start d) < hi" "lo < page_align_up (mi_end d)" by auto
    then show ?case using Cons.IH [of "xs @ [(page_align_down (mi_start d), page_align_up (mi_end d))]"] Cons.prems
      by (auto simp: Let_def push_interval_def max_absorb1 min_absorb1)
  qed simp
  from this [of "[(max ab lo, min (ab + asz) hi), (max bs lo, min be hi)]" mods] assms
  show ?thesis by (auto simp: add_free_region_skipping_def reserved_intervals_def push_interval_def)
qed

lemma layout_loop_spec:
  "sorted ks \<Longrightarrow> \<forall>k \<in> set ks. k < 10 \<Longrightarrow>
    (\<forall>k \<in> set ks. k < layout_loop sz ks \<longrightarrow> block_size k < sz) \<and> (layout_loop sz ks = 10 \<or> layout_loop sz ks \<in> set ks \<and> sz \<le> block_size (layout_loop sz ks))"
  by (induction ks) (auto simp: not_less)

lemma layout_order_spec:
  "layout_order sz \<le> 10" "k < layout_order sz \<Longrightarrow> 4096 * 2 ^ k < unat sz" "unat sz \<le> 0x400000 \<Longrightarrow> unat sz \<le> 4096 * 2 ^ layout_order sz"
proof -
  have s: "(\<forall>k < 10. k < layout_order sz \<longrightarrow> block_size k < sz) \<and> (layout_order sz = 10 \<or> layout_order sz < 10 \<and> sz \<le> block_size (layout_order sz))"
    using layout_loop_spec [of "[0..<10]" sz] by (auto simp: layout_order_def)
  then show le: "layout_order sz \<le> 10" by auto
  show "k < layout_order sz \<Longrightarrow> 4096 * 2 ^ k < unat sz" using s le by (auto simp: word_less_nat_alt dest!: spec [of _ k])
  show "unat sz \<le> 0x400000 \<Longrightarrow> unat sz \<le> 4096 * 2 ^ layout_order sz" using s by (auto simp: word_le_nat_alt)
qed

text \<open>A request of at most 4 MiB gets a block that is large enough, and releasing it with the same size gives the whole block back. A larger
  request gets a block of 4 MiB all the same, which is too small for it.\<close>

lemma round_up_size: "unat sz + 4095 < 2 ^ 64 \<Longrightarrow> (sz + 4095) AND NOT 4095 = page_align_up sz"
  by (simp add: page_align_up_def PAGE_SIZE_def add.commute)

lemma layout_order_rounded:
  assumes "unat sz + 4095 < 2 ^ 64"
  shows "layout_order ((sz + 4095) AND NOT 4095) = layout_order sz"
proof -
  let ?r = "page_align_up sz"
  have r: "unat sz \<le> unat ?r" "4096 dvd unat ?r" "unat ?r < unat sz + 4096" using align_order(3) [OF _ assms] align_up_dvd unat_align_up [OF assms] by auto
  have "4096 * 2 ^ k < unat ?r \<longleftrightarrow> 4096 * 2 ^ k < unat sz" for k :: nat
    using r by (auto elim!: dvdE)
  then have "block_size k < ?r \<longleftrightarrow> block_size k < sz" if "k < 10" for k using that by (simp add: word_less_nat_alt)
  then have "layout_loop ?r ks = layout_loop sz ks" if "\<forall>k \<in> set ks. k < 10" for ks using that by (induction ks) auto
  then show ?thesis unfolding round_up_size [OF assms] layout_order_def by simp
qed

lemma heap_roundtrip:
  assumes "alloc_inv s F" and "unat sz \<le> 0x400000" and "heap_alloc s sz = (p, s1)" and "p \<noteq> 0"
  shows "{unat p ..< unat p + unat sz} \<subseteq> F \<and> (\<exists>s2. heap_dealloc e s1 p sz = Some s2 \<and> alloc_inv s2 F)"
proof -
  have r: "layout_order ((sz + 4095) AND NOT 4095) = layout_order sz" using assms(2) by (intro layout_order_rounded) simp
  then have al: "alloc s (layout_order sz) = (Some p, s1)" using assms(3,4) by (auto simp: heap_alloc_def split: prod.splits option.splits)
  have "span p (layout_order sz) \<subseteq> F" using pages.alloc_some [OF assms(1) al] by auto
  moreover have "{unat p ..< unat p + unat sz} \<subseteq> span p (layout_order sz)" using layout_order_spec(3) [OF assms(2)] by (auto simp: span_def)
  moreover have "\<exists>s2. free e s1 p (layout_order sz) = Some s2 \<and> alloc_inv s2 F" by (rule pages.alloc_then_free [OF assms(1) al])
  ultimately show ?thesis unfolding heap_dealloc_def by blast
qed

lemma large_request_gets_small_block: "0x400000 < unat sz \<Longrightarrow> layout_order sz = 10 \<and> 4096 * 2 ^ layout_order sz < unat sz"
proof -
  assume a: "0x400000 < unat sz"
  have "\<not> sz \<le> block_size k" if "k < 10" for k
  proof -
    have "(2 :: nat) ^ k \<le> 2 ^ 9" using that by (intro power_increasing) simp_all
    then show ?thesis using that a by (simp add: word_le_nat_alt)
  qed
  then have "layout_order sz = 10" using layout_loop_spec [of "[0..<10]" sz] by (auto simp: layout_order_def)
  then show ?thesis using a by simp
qed

end
