(* ===== verification/Paging.thy ===== *)
theory Paging
  imports Machine_Memory
begin

text \<open>
  Page tables (\<^verbatim>\<open>src/src/paging.rs\<close>): the four-level tables of the processor in physical memory, mapping and unmapping of pages, the
  copy-on-write sharing of an address space between a task and its fork, and the release of an address space.

  Physical memory is identity mapped, so a table is the 512 words at its physical address (\<open>entry\<close>, \<open>put_entry\<close>) in the memory
  \<open>pg_mem\<close>. \<^verbatim>\<open>PAGING_LOCK\<close> makes every operation one step. Flushes of the translation buffer, loads of \<^verbatim>\<open>cr3\<close> and messages are left
  out; the value of \<^verbatim>\<open>cr3\<close>, where it is read, is an argument. The block headers that the page allocator keeps in free pages are part
  of its own state. A result with an outer \<open>None\<close> does not return.
\<close>

unbundle bit_operations_syntax

section \<open>Constants and state\<close>

definition PTE_PRESENT :: u64 where "PTE_PRESENT = 1"
definition PTE_WRITABLE :: u64 where "PTE_WRITABLE = 2"
definition PTE_USER :: u64 where "PTE_USER = 4"
definition PTE_CACHE_DISABLE :: u64 where "PTE_CACHE_DISABLE = 16"
definition PTE_ACCESSED :: u64 where "PTE_ACCESSED = 32"
definition PTE_DIRTY :: u64 where "PTE_DIRTY = 64"
definition PTE_HUGE :: u64 where "PTE_HUGE = 128"
definition PTE_NO_EXECUTE :: u64 where "PTE_NO_EXECUTE = 0x8000000000000000"
definition PTE_ADDR_MASK :: u64 where "PTE_ADDR_MASK = 0x000FFFFFFFFFF000"
definition PAGE_SIZE_4K :: u64 where "PAGE_SIZE_4K = 4096"
definition PAGE_SIZE_2M :: u64 where "PAGE_SIZE_2M = 0x200000"

lemmas pte_bits = PTE_PRESENT_def PTE_WRITABLE_def PTE_USER_def PTE_HUGE_def PTE_ADDR_MASK_def

record paging =
  pg_buddy :: buddy
  pg_mem :: "u64 \<Rightarrow> u8"
  page_refc :: "nat \<Rightarrow> u8"
  kernel_root :: u64
  mgr_root :: u64

definition vpn :: "u64 \<Rightarrow> nat \<Rightarrow> nat" where
  "vpn virt k = unat (drop_bit (39 - 9 * k) virt AND 0x1FF)"

definition entry :: "(u64 \<Rightarrow> u8) \<Rightarrow> u64 \<Rightarrow> nat \<Rightarrow> u64" where
  "entry m t i = load 8 m (t + of_nat (8 * i))"

definition put_entry :: "(u64 \<Rightarrow> u8) \<Rightarrow> u64 \<Rightarrow> nat \<Rightarrow> u64 \<Rightarrow> u64 \<Rightarrow> u8" where
  "put_entry m t i v = store 8 m (t + of_nat (8 * i)) v"

definition set_pte :: "paging \<Rightarrow> u64 \<Rightarrow> nat \<Rightarrow> u64 \<Rightarrow> paging" where
  "set_pte s t i v = s\<lparr>pg_mem := put_entry (pg_mem s) t i v\<rparr>"

definition get_pte_at :: "paging \<Rightarrow> u64 \<Rightarrow> nat \<Rightarrow> u64" where
  "get_pte_at s t i = entry (pg_mem s) t i"

definition zero_frame :: "paging \<Rightarrow> u64 \<Rightarrow> paging" where
  "zero_frame s p = s\<lparr>pg_mem := mem_write (pg_mem s) p (replicate 4096 0)\<rparr>"

definition copy_frame :: "paging \<Rightarrow> u64 \<Rightarrow> u64 \<Rightarrow> paging" where
  "copy_frame s src dst = s\<lparr>pg_mem := mem_write (pg_mem s) dst (mem_read (pg_mem s) src 4096)\<rparr>"

abbreviation present :: "u64 \<Rightarrow> bool" where
  "present e \<equiv> e AND PTE_PRESENT \<noteq> 0"

abbreviation huge :: "u64 \<Rightarrow> bool" where
  "huge e \<equiv> e AND PTE_HUGE \<noteq> 0"

section \<open>Reference counts of shared pages\<close>

definition refc_idx :: "u64 \<Rightarrow> nat" where
  "refc_idx phys = unat (drop_bit 12 phys)"

definition refc_get :: "paging \<Rightarrow> u64 \<Rightarrow> u8" where
  "refc_get s phys = (let i = refc_idx phys in if i < MAX_REFC_PAGES then page_refc s i else 0)"

definition refc_inc :: "paging \<Rightarrow> u64 \<Rightarrow> paging" where
  "refc_inc s phys = (let i = refc_idx phys in
     if i < MAX_REFC_PAGES
     then s\<lparr>page_refc := (page_refc s)(i := (if page_refc s i = - 1 then - 1 else page_refc s i + 1))\<rparr> else s)"

definition refc_dec :: "paging \<Rightarrow> u64 \<Rightarrow> paging" where
  "refc_dec s phys = (let i = refc_idx phys in
     if i < MAX_REFC_PAGES \<and> page_refc s i > 0 then s\<lparr>page_refc := (page_refc s)(i := page_refc s i - 1)\<rparr> else s)"

definition refc_of :: "paging \<Rightarrow> u64 \<Rightarrow> u8" where
  "refc_of s phys = (let i = refc_idx phys in if i < MAX_REFC_PAGES then page_refc s i else 0)"

definition upd_buddy :: "(buddy \<Rightarrow> buddy) \<Rightarrow> paging \<Rightarrow> paging" where
  "upd_buddy f s = s\<lparr>pg_buddy := f (pg_buddy s)\<rparr>"

definition fork_share_refc :: "paging \<Rightarrow> u64 \<Rightarrow> paging" where
  "fork_share_refc s phys =
     (let s1 = upd_buddy (\<lambda>b. mark_page_used b phys) s
      in if refc_get s1 phys = 0 then refc_inc (refc_inc s1 phys) phys else refc_inc s1 phys)"

definition fork_share_pte_refc :: "paging \<Rightarrow> u64 \<Rightarrow> paging" where
  "fork_share_pte_refc s phys =
     (let s1 = upd_buddy (\<lambda>b. mark_page_used b phys) s
      in if pte_refc_get (pg_buddy s1) phys = 0
         then upd_buddy (\<lambda>b. pte_refc_inc (pte_refc_inc b phys) phys) s1
         else upd_buddy (\<lambda>b. pte_refc_inc b phys) s1)"

section \<open>Table pages\<close>

definition alloc_page_table :: "paging \<Rightarrow> u64 option \<times> paging" where
  "alloc_page_table s =
     (case alloc_zeroed_page (pg_buddy s) of
        (None, b) \<Rightarrow> (None, s\<lparr>pg_buddy := b\<rparr>)
      | (Some p, b) \<Rightarrow> (Some p, zero_frame (s\<lparr>pg_buddy := b\<rparr>) p))"

definition alloc_page :: "paging \<Rightarrow> (string + u64) \<times> paging" where
  "alloc_page s = (case alloc_page_table s of (None, s1) \<Rightarrow> (Inl ''OOM'', s1) | (Some p, s1) \<Rightarrow> (Inr p, s1))"

text \<open>A table whose words are given by their index.\<close>

definition fill_table :: "paging \<Rightarrow> u64 \<Rightarrow> (u64 \<Rightarrow> u64) \<Rightarrow> paging" where
  "fill_table s t f = fold (\<lambda>i s. set_pte s t i (f (of_nat i))) [0..<512] s"

section \<open>Mapping a page of any address space\<close>

definition map_pdpt :: "paging \<Rightarrow> u64 \<Rightarrow> nat \<Rightarrow> (string + u64) \<times> paging" where
  "map_pdpt s pml4 i =
     (let pml4e = get_pte_at s pml4 i
      in if present pml4e then (Inr (pml4e AND PTE_ADDR_MASK), s)
         else case alloc_page s of
           (Inl e, s1) \<Rightarrow> (Inl e, s1)
         | (Inr t, s1) \<Rightarrow> (Inr t, set_pte (zero_frame s1 t) pml4 i (t OR PTE_PRESENT OR PTE_WRITABLE OR PTE_USER)))"

definition map_pd :: "paging \<Rightarrow> u64 \<Rightarrow> nat \<Rightarrow> (string + u64) \<times> paging" where
  "map_pd s pdpt i =
     (let pdpte = get_pte_at s pdpt i
      in if present pdpte \<and> \<not> huge pdpte then (Inr (pdpte AND PTE_ADDR_MASK), s)
         else case alloc_page s of
           (Inl e, s1) \<Rightarrow> (Inl e, s1)
         | (Inr t, s1) \<Rightarrow>
             let s2 = zero_frame s1 t;
                 s3 = (if huge pdpte
                       then let base = pdpte AND push_bit 30 0xFFFFFFFFFF;
                                fl = ((pdpte AND NOT PTE_ADDR_MASK) OR PTE_HUGE) AND NOT PTE_USER
                            in fill_table s2 t (\<lambda>i. (base + i * 0x200000) OR fl)
                       else s2)
             in (Inr t, set_pte s3 pdpt i (t OR PTE_PRESENT OR PTE_WRITABLE OR PTE_USER)))"

definition map_pt :: "paging \<Rightarrow> u64 \<Rightarrow> nat \<Rightarrow> (string + u64) \<times> paging" where
  "map_pt s pd i =
     (let pde = get_pte_at s pd i
      in if present pde \<and> \<not> huge pde
         then (Inr (pde AND PTE_ADDR_MASK), set_pte s pd i (pde OR PTE_USER))
         else case alloc_page s of
           (Inl e, s1) \<Rightarrow> (Inl e, s1)
         | (Inr t, s1) \<Rightarrow>
             let s2 = zero_frame s1 t;
                 s3 = (if huge pde
                       then let base = pde AND push_bit 21 0xFFFFFFFFFF; fl = (pde AND 0x7F) AND NOT PTE_USER
                            in fill_table s2 t (\<lambda>i. (base + i * 4096) OR fl)
                       else s2)
             in (Inr t, set_pte s3 pd i (t OR PTE_PRESENT OR PTE_WRITABLE OR PTE_USER)))"

definition map_into :: "paging \<Rightarrow> u64 \<Rightarrow> u64 \<Rightarrow> u64 \<Rightarrow> u64 \<Rightarrow> (string + unit) \<times> paging" where
  "map_into s pml4 virt phys flags =
     (case map_pdpt s pml4 (vpn virt 0) of
        (Inl e, s1) \<Rightarrow> (Inl e, s1)
      | (Inr pdpt, s1) \<Rightarrow>
          (case map_pd s1 pdpt (vpn virt 1) of
             (Inl e, s2) \<Rightarrow> (Inl e, s2)
           | (Inr pd, s2) \<Rightarrow>
               (case map_pt s2 pd (vpn virt 2) of
                  (Inl e, s3) \<Rightarrow> (Inl e, s3)
                | (Inr pt, s3) \<Rightarrow> (Inr (), set_pte s3 pt (vpn virt 3) (phys OR flags OR PTE_PRESENT)))))"

section \<open>Walks\<close>

definition unmap_into :: "paging \<Rightarrow> u64 \<Rightarrow> u64 \<Rightarrow> (string + u64) \<times> paging" where
  "unmap_into s pml4 virt =
     (let pml4e = get_pte_at s pml4 (vpn virt 0); pdpte = get_pte_at s (pml4e AND PTE_ADDR_MASK) (vpn virt 1);
          pde = get_pte_at s (pdpte AND PTE_ADDR_MASK) (vpn virt 2); pt = pde AND PTE_ADDR_MASK;
          pte = get_pte_at s pt (vpn virt 3)
      in if \<not> present pml4e then (Inl ''no pml4e'', s)
         else if \<not> present pdpte then (Inl ''no pdpte'', s)
         else if huge pdpte then (Inl ''huge pdpte'', s)
         else if \<not> present pde then (Inl ''no pde'', s)
         else if huge pde then (Inl ''huge pde'', s)
         else if \<not> present pte then (Inl ''no pte'', s)
         else (Inr (pte AND PTE_ADDR_MASK), set_pte s pt (vpn virt 3) 0))"

definition resolve_phys_flags :: "paging \<Rightarrow> u64 \<Rightarrow> u64 \<Rightarrow> (u64 \<times> u64) option" where
  "resolve_phys_flags s pml4 virt =
     (let pml4e = get_pte_at s pml4 (vpn virt 0); pdpte = get_pte_at s (pml4e AND PTE_ADDR_MASK) (vpn virt 1);
          pde = get_pte_at s (pdpte AND PTE_ADDR_MASK) (vpn virt 2); pte = get_pte_at s (pde AND PTE_ADDR_MASK) (vpn virt 3)
      in if \<not> present pml4e \<or> \<not> present pdpte \<or> \<not> present pde then None
         else if huge pde then Some ((pde AND PTE_ADDR_MASK) OR (virt AND (PAGE_SIZE_2M - 1)), pde)
         else if \<not> present pte then None
         else Some ((pte AND PTE_ADDR_MASK) OR (virt AND (PAGE_SIZE_4K - 1)), pte))"

definition resolve_phys :: "paging \<Rightarrow> u64 \<Rightarrow> u64 \<Rightarrow> u64 option" where
  "resolve_phys s pml4 virt =
     (let pml4e = get_pte_at s pml4 (vpn virt 0); pdpte = get_pte_at s (pml4e AND PTE_ADDR_MASK) (vpn virt 1);
          pde = get_pte_at s (pdpte AND PTE_ADDR_MASK) (vpn virt 2); pte = get_pte_at s (pde AND PTE_ADDR_MASK) (vpn virt 3)
      in if \<not> present pml4e \<or> \<not> present pdpte \<or> \<not> present pde then None
         else if huge pde then Some ((pde AND PTE_ADDR_MASK) OR (virt AND (PAGE_SIZE_2M - 1)))
         else if \<not> present pte then None
         else Some ((pte AND PTE_ADDR_MASK) OR (virt AND (PAGE_SIZE_4K - 1))))"

text \<open>A reference to an entry is the table and the index.\<close>

definition get_pte_in :: "paging \<Rightarrow> u64 \<Rightarrow> u64 \<Rightarrow> (u64 \<times> nat) option" where
  "get_pte_in s pml4 virt =
     (let pml4e = get_pte_at s pml4 (vpn virt 0); pdpte = get_pte_at s (pml4e AND PTE_ADDR_MASK) (vpn virt 1);
          pde = get_pte_at s (pdpte AND PTE_ADDR_MASK) (vpn virt 2); pt = pde AND PTE_ADDR_MASK;
          pte = get_pte_at s pt (vpn virt 3)
      in if \<not> present pml4e \<or> \<not> present pdpte \<or> \<not> present pde \<or> huge pde \<or> \<not> present pte then None
         else Some (pt, vpn virt 3))"

definition get_pte :: "paging \<Rightarrow> u64 \<Rightarrow> (u64 \<times> nat) option" where
  "get_pte s virt = get_pte_in s (kernel_root s) virt"

definition is_user_addr :: "u64 \<Rightarrow> bool" where
  "is_user_addr addr \<longleftrightarrow> addr < 0x0000800000000000"

definition default_flags :: "bool \<Rightarrow> u64" where
  "default_flags user = (let f = PTE_WRITABLE OR PTE_ACCESSED OR PTE_DIRTY in if user then f OR PTE_USER else f)"

section \<open>The kernel's own tables\<close>

definition walk_create :: "paging \<Rightarrow> u64 \<Rightarrow> u64 option \<times> paging" where
  "walk_create s virt =
     (let pml4 = mgr_root s; pml4e = get_pte_at s pml4 (vpn virt 0);
          (r1, s1) = (if present pml4e then (Some (pml4e AND PTE_ADDR_MASK), s)
                      else case alloc_page_table s of
                        (None, s1) \<Rightarrow> (None, s1)
                      | (Some t, s1) \<Rightarrow> (Some t, set_pte s1 pml4 (vpn virt 0) (t OR PTE_PRESENT OR PTE_WRITABLE OR PTE_USER)))
      in case r1 of
           None \<Rightarrow> (None, s1)
         | Some pdpt \<Rightarrow>
             (let pdpte = get_pte_at s1 pdpt (vpn virt 1)
              in if present pdpte then (Some (pdpte AND PTE_ADDR_MASK), s1)
                 else case alloc_page_table s1 of
                   (None, s2) \<Rightarrow> (None, s2)
                 | (Some t, s2) \<Rightarrow> (Some t, set_pte s2 pdpt (vpn virt 1) (t OR PTE_PRESENT OR PTE_WRITABLE OR PTE_USER))))"

definition map_page :: "paging \<Rightarrow> u64 \<Rightarrow> u64 \<Rightarrow> u64 \<Rightarrow> (string + unit) \<times> paging" where
  "map_page s virt phys flags =
     (case walk_create s virt of
        (None, s1) \<Rightarrow> (Inl ''OOM: no PD'', s1)
      | (Some pd, s1) \<Rightarrow>
          (let pde = get_pte_at s1 pd (vpn virt 2);
               (r, s2) = (if present pde then (Some (pde AND PTE_ADDR_MASK), s1)
                          else case alloc_page_table s1 of
                            (None, s2) \<Rightarrow> (None, s2)
                          | (Some t, s2) \<Rightarrow> (Some t, set_pte s2 pd (vpn virt 2) (t OR PTE_PRESENT OR PTE_WRITABLE OR PTE_USER)))
           in case r of
                None \<Rightarrow> (Inl ''OOM: no PT'', s2)
              | Some pt \<Rightarrow>
                  if present (get_pte_at s2 pt (vpn virt 3)) then (Inl ''page already mapped'', s2)
                  else (Inr (), set_pte s2 pt (vpn virt 3) (phys OR flags OR PTE_PRESENT))))"

definition map_2m :: "paging \<Rightarrow> u64 \<Rightarrow> u64 \<Rightarrow> u64 \<Rightarrow> (string + unit) \<times> paging" where
  "map_2m s virt phys flags =
     (case walk_create s virt of
        (None, s1) \<Rightarrow> (Inl ''OOM: no PD'', s1)
      | (Some pd, s1) \<Rightarrow>
          if present (get_pte_at s1 pd (vpn virt 2)) then (Inl ''2M page already mapped'', s1)
          else (Inr (), set_pte s1 pd (vpn virt 2) (phys OR flags OR PTE_PRESENT OR PTE_HUGE)))"

definition unmap_page :: "paging \<Rightarrow> u64 \<Rightarrow> (string + unit) \<times> paging" where
  "unmap_page s virt =
     (let pml4e = get_pte_at s (mgr_root s) (vpn virt 0); pdpte = get_pte_at s (pml4e AND PTE_ADDR_MASK) (vpn virt 1);
          pde = get_pte_at s (pdpte AND PTE_ADDR_MASK) (vpn virt 2); pt = pde AND PTE_ADDR_MASK;
          pte = get_pte_at s pt (vpn virt 3)
      in if \<not> present pml4e \<or> \<not> present pdpte \<or> \<not> present pde then (Inl ''not mapped'', s)
         else if huge pde then (Inl ''2M page - use unmap_2m'', s)
         else if \<not> present pte then (Inl ''not mapped'', s)
         else (Inr (), set_pte s pt (vpn virt 3) 0))"

definition unmap_2m :: "paging \<Rightarrow> u64 \<Rightarrow> (string + unit) \<times> paging" where
  "unmap_2m s virt =
     (let pml4e = get_pte_at s (mgr_root s) (vpn virt 0); pdpte = get_pte_at s (pml4e AND PTE_ADDR_MASK) (vpn virt 1);
          pd = pdpte AND PTE_ADDR_MASK; pde = get_pte_at s pd (vpn virt 2)
      in if \<not> present pml4e \<or> \<not> present pdpte then (Inl ''not mapped'', s)
         else if \<not> present pde \<or> \<not> huge pde then (Inl ''not a 2M page'', s)
         else (Inr (), set_pte s pd (vpn virt 2) 0))"

definition translate :: "paging \<Rightarrow> u64 \<Rightarrow> u64 option" where
  "translate s virt =
     (let pml4e = get_pte_at s (mgr_root s) (vpn virt 0); pdpte = get_pte_at s (pml4e AND PTE_ADDR_MASK) (vpn virt 1);
          pde = get_pte_at s (pdpte AND PTE_ADDR_MASK) (vpn virt 2); pte = get_pte_at s (pde AND PTE_ADDR_MASK) (vpn virt 3)
      in if \<not> present pml4e \<or> \<not> present pdpte \<or> \<not> present pde then None
         else if huge pde then Some ((pde AND PTE_ADDR_MASK) OR (virt AND (PAGE_SIZE_2M - 1)))
         else if \<not> present pte then None
         else Some ((pte AND PTE_ADDR_MASK) OR (virt AND (PAGE_SIZE_4K - 1))))"

definition clone_kernel :: "paging \<Rightarrow> u64 option \<times> paging" where
  "clone_kernel s =
     (case alloc_page_table s of
        (None, s1) \<Rightarrow> (None, s1)
      | (Some t, s1) \<Rightarrow> (Some t, copy_frame s1 (mgr_root s1) t))"

text \<open>One level of \<^verbatim>\<open>map_kernel_page\<close>: the table behind an entry, or a new one.\<close>

definition kernel_table :: "paging \<Rightarrow> u64 \<Rightarrow> nat \<Rightarrow> string \<Rightarrow> (string + u64) \<times> paging" where
  "kernel_table s t i err =
     (let e = get_pte_at s t i
      in if present e then (Inr (e AND PTE_ADDR_MASK), s)
         else case alloc_page_table s of
           (None, s1) \<Rightarrow> (Inl err, s1)
         | (Some n, s1) \<Rightarrow> (Inr n, set_pte (zero_frame s1 n) t i (n OR PTE_PRESENT OR PTE_WRITABLE)))"

definition map_kernel_page :: "paging \<Rightarrow> u64 \<Rightarrow> u64 \<Rightarrow> u64 \<Rightarrow> (string + unit) \<times> paging" where
  "map_kernel_page s virt phys flags =
     (if kernel_root s = 0 then (Inl ''kernel PML4 not set'', s)
      else case kernel_table s (kernel_root s) (vpn virt 0) ''OOM: PDPT'' of
        (Inl e, s1) \<Rightarrow> (Inl e, s1)
      | (Inr pdpt, s1) \<Rightarrow>
          (case kernel_table s1 pdpt (vpn virt 1) ''OOM: PD'' of
             (Inl e, s2) \<Rightarrow> (Inl e, s2)
           | (Inr pd, s2) \<Rightarrow>
               (case kernel_table s2 pd (vpn virt 2) ''OOM: PT'' of
                  (Inl e, s3) \<Rightarrow> (Inl e, s3)
                | (Inr pt, s3) \<Rightarrow>
                    if present (get_pte_at s3 pt (vpn virt 3)) then (Inl ''already mapped'', s3)
                    else (Inr (), set_pte s3 pt (vpn virt 3) (phys OR flags OR PTE_PRESENT)))))"

text \<open>The mapping of the start-up code of the other CPUs, and of the interrupt controller. The address of a table is taken with a
  mask that keeps the high bits of the entry.\<close>

definition boot_table :: "paging \<Rightarrow> u64 \<Rightarrow> nat \<Rightarrow> u64 option \<times> paging" where
  "boot_table s t i =
     (let e = get_pte_at s t i
      in if e AND 1 \<noteq> 0 then (Some (e AND 0xFFFFFFFFFFFFF000), s)
         else case alloc_page_table s of
           (None, s1) \<Rightarrow> (None, s1)
         | (Some p, s1) \<Rightarrow> if p = 0 then (None, s1) else (Some p, set_pte s1 t i (p OR 3)))"

definition map_one :: "paging \<Rightarrow> u64 \<Rightarrow> u64 \<Rightarrow> u64 \<Rightarrow> paging" where
  "map_one s pml4 virt phys =
     (case boot_table s pml4 (vpn virt 0) of
        (None, s1) \<Rightarrow> s1
      | (Some pdpt, s1) \<Rightarrow>
          (case boot_table s1 pdpt (vpn virt 1) of
             (None, s2) \<Rightarrow> s2
           | (Some pd, s2) \<Rightarrow>
               (case boot_table s2 pd (vpn virt 2) of
                  (None, s3) \<Rightarrow> s3
                | (Some pt, s3) \<Rightarrow> set_pte s3 pt (vpn virt 3) (phys OR 0x83))))"

definition map_trampoline_page :: "paging \<Rightarrow> paging" where
  "map_trampoline_page s =
     (let pml4 = kernel_root s
      in if pml4 = 0 then s
         else fold (\<lambda>i s. let phys = 0x8000 + i * 0x1000
                          in map_one (map_one s pml4 (0xFFFF800000008000 + i * 0x1000) phys) pml4 phys phys) [0, 1, 2, 3]
                (map_one (map_one s pml4 0xFFFF800000007000 0x7000) pml4 0x7000 0x7000))"

definition lapic_table :: "paging \<Rightarrow> u64 \<Rightarrow> nat \<Rightarrow> u64 option \<times> paging" where
  "lapic_table s t i =
     (let e = get_pte_at s t i
      in if e AND 1 \<noteq> 0 then (Some (e AND 0xFFFFFFFFFFFFF000), s)
         else case alloc_page_table s of
           (None, s1) \<Rightarrow> (None, s1)
         | (Some p, s1) \<Rightarrow> (Some p, set_pte (zero_frame s1 p) t i (p OR 3)))"

definition map_lapic_region :: "paging \<Rightarrow> paging" where
  "map_lapic_region s =
     (let pml4 = kernel_root s; virt = 0xFFFF8000FEE00000
      in if pml4 = 0 then s
         else case lapic_table s pml4 (vpn virt 0) of
           (None, s1) \<Rightarrow> s1
         | (Some pdpt, s1) \<Rightarrow>
             (case lapic_table s1 pdpt (vpn virt 1) of
                (None, s2) \<Rightarrow> s2
              | (Some pd, s2) \<Rightarrow>
                  (case lapic_table s2 pd (vpn virt 2) of
                     (None, s3) \<Rightarrow> s3
                   | (Some pt, s3) \<Rightarrow> set_pte s3 pt (vpn virt 3) (0xFEE00000 OR 0x83))))"

text \<open>\<^verbatim>\<open>init\<close> with the boot loader's \<^verbatim>\<open>cr3\<close>; without memory the unwrapping of the first page panics.\<close>

definition paging_init :: "paging \<Rightarrow> u64 \<Rightarrow> paging option" where
  "paging_init s cr3 =
     (case alloc_page_table s of
        (None, _) \<Rightarrow> None
      | (Some p, s1) \<Rightarrow>
          Some (map_lapic_region (map_trampoline_page
            (copy_frame (zero_frame (s1\<lparr>mgr_root := p, kernel_root := p\<rparr>) p) cr3 p))))"

section \<open>Write protection\<close>

definition kernel_ro_write_resolve :: "paging \<Rightarrow> u64 \<Rightarrow> u64 \<Rightarrow> bool \<times> paging" where
  "kernel_ro_write_resolve s pml4 cr2 =
     (let e0 = get_pte_at s pml4 (vpn cr2 0); pdpt = e0 AND PTE_ADDR_MASK; e1 = get_pte_at s pdpt (vpn cr2 1);
          pd = e1 AND PTE_ADDR_MASK; e2 = get_pte_at s pd (vpn cr2 2); pt = e2 AND PTE_ADDR_MASK; e3 = get_pte_at s pt (vpn cr2 3)
      in if pml4 = 0 \<or> \<not> present e0 \<or> \<not> present e1 then (False, s)
         else if huge e1
         then if e1 AND PTE_USER \<noteq> 0 then (False, s) else (True, set_pte s pdpt (vpn cr2 1) (e1 OR PTE_WRITABLE))
         else if \<not> present e2 then (False, s)
         else if huge e2
         then if e2 AND PTE_USER \<noteq> 0 then (False, s) else (True, set_pte s pd (vpn cr2 2) (e2 OR PTE_WRITABLE))
         else if \<not> present e3 \<or> e3 AND PTE_USER \<noteq> 0 then (False, s)
         else (True, set_pte s pt (vpn cr2 3) (e3 OR PTE_WRITABLE)))"

definition type_page_rw :: "paging \<Rightarrow> u64 \<Rightarrow> u64 \<Rightarrow> bool \<Rightarrow> bool \<times> paging" where
  "type_page_rw s cr3 va writable =
     (let e0 = get_pte_at s cr3 (vpn va 0); e1 = get_pte_at s (e0 AND PTE_ADDR_MASK) (vpn va 1);
          e2 = get_pte_at s (e1 AND PTE_ADDR_MASK) (vpn va 2); pt = e2 AND PTE_ADDR_MASK; e3 = get_pte_at s pt (vpn va 3)
      in if cr3 = 0 \<or> \<not> present e0 \<or> \<not> present e1 \<or> huge e1 \<or> \<not> present e2 \<or> huge e2 \<or> \<not> present e3 then (False, s)
         else (True, set_pte s pt (vpn va 3) (if writable then e3 OR PTE_WRITABLE else e3 AND NOT PTE_WRITABLE)))"

text \<open>The band of the page-type table, \<open>lo\<close> to \<open>hi\<close>, is made read-only: in each block of 2 MiB the entries that cover it.\<close>

definition protect_entries :: "paging \<Rightarrow> u64 \<Rightarrow> nat list \<Rightarrow> paging" where
  "protect_entries s pt is =
     fold (\<lambda>i s. let e = get_pte_at s pt i
                 in if present e \<and> e AND PTE_USER = 0 then set_pte s pt i (e AND NOT PTE_WRITABLE) else s) is s"

definition arm_block :: "paging \<Rightarrow> u64 \<Rightarrow> u64 \<Rightarrow> u64 \<Rightarrow> u64 \<Rightarrow> (string + unit) \<times> paging" where
  "arm_block s pml4 lo hi va =
     (let e0 = get_pte_at s pml4 (vpn va 0); e1 = get_pte_at s (e0 AND PTE_ADDR_MASK) (vpn va 1);
          pd = e1 AND PTE_ADDR_MASK; pde = get_pte_at s pd (vpn va 2);
          offs = (let a = unat (max lo va - va); z = unat (min hi (va + 0x200000) - va) in map (\<lambda>k. (a + k * 4096) div 4096) [0..<(z - a + 4095) div 4096])
      in if \<not> present e0 then (Inl ''no pml4e covering PAGE_TYPE'', s)
         else if \<not> present e1 \<or> huge e1 then (Inl ''no pdpte covering PAGE_TYPE'', s)
         else if \<not> present pde then (Inl ''no pde covering PAGE_TYPE'', s)
         else if huge pde
         then (case alloc_page s of
                 (Inl e, s1) \<Rightarrow> (Inl e, s1)
               | (Inr t, s1) \<Rightarrow>
                   let base = pde AND push_bit 21 0xFFFFFFFFFF; fl = (pde AND 0x7F) AND NOT PTE_USER;
                       s2 = fill_table (zero_frame s1 t) t (\<lambda>i. (base + i * 0x1000) OR fl);
                       s3 = set_pte s2 pd (vpn va 2) (t OR PTE_PRESENT OR PTE_WRITABLE)
                   in (Inr (), protect_entries s3 t offs))
         else (Inr (), protect_entries s (pde AND PTE_ADDR_MASK) offs))"

fun arm_blocks :: "paging \<Rightarrow> u64 \<Rightarrow> u64 \<Rightarrow> u64 \<Rightarrow> u64 list \<Rightarrow> (string + unit) \<times> paging" where
  "arm_blocks s pml4 lo hi [] = (Inr (), s)"
| "arm_blocks s pml4 lo hi (va # vas) =
     (case arm_block s pml4 lo hi va of (Inl e, s1) \<Rightarrow> (Inl e, s1) | (Inr _, s1) \<Rightarrow> arm_blocks s1 pml4 lo hi vas)"

definition arm_type_protect_for :: "paging \<Rightarrow> u64 \<Rightarrow> u64 \<Rightarrow> u64 \<Rightarrow> (string + unit) \<times> paging" where
  "arm_type_protect_for s lo hi pml4 =
     (let a = lo AND NOT 0x1FFFFF; z = (hi + 0x1FFFFF) AND NOT 0x1FFFFF
      in if pml4 = 0 then (Inl ''no pml4'', s)
         else arm_blocks s pml4 lo hi (map (\<lambda>k. a + of_nat k * 0x200000) [0..<(unat z - unat a) div 0x200000]))"

definition arm_type_protect :: "paging \<Rightarrow> u64 \<Rightarrow> u64 \<Rightarrow> (string + unit) \<times> paging" where
  "arm_type_protect s lo hi = arm_type_protect_for s lo hi (kernel_root s)"

section \<open>Merging address spaces\<close>

definition merge_pt :: "u64 \<Rightarrow> u64 \<Rightarrow> paging \<Rightarrow> paging" where
  "merge_pt src dst =
     fold (\<lambda>i s. let se = get_pte_at s src i
                 in if present se \<and> \<not> present (get_pte_at s dst i) then set_pte s dst i se else s) [0..<512]"

definition merge_pd :: "u64 \<Rightarrow> u64 \<Rightarrow> paging \<Rightarrow> paging" where
  "merge_pd src dst =
     fold (\<lambda>i s. let se = get_pte_at s src i; de = get_pte_at s dst i
                 in if \<not> present se then s
                    else if \<not> present de then set_pte s dst i se
                    else if huge se \<or> huge de then s
                    else merge_pt (se AND PTE_ADDR_MASK) (de AND PTE_ADDR_MASK) s) [0..<512]"

definition merge_pdpt :: "u64 \<Rightarrow> u64 \<Rightarrow> paging \<Rightarrow> paging" where
  "merge_pdpt src dst =
     fold (\<lambda>i s. let se = get_pte_at s src i; de = get_pte_at s dst i
                 in if \<not> present se then s
                    else if \<not> present de then set_pte s dst i se
                    else merge_pd (se AND PTE_ADDR_MASK) (de AND PTE_ADDR_MASK) s) [0..<512]"

definition merge_user_pml4 :: "paging \<Rightarrow> u64 \<Rightarrow> u64 \<Rightarrow> (string + unit) \<times> paging" where
  "merge_user_pml4 s src dst =
     (Inr (),
      fold (\<lambda>i s. let se = get_pte_at s src i; de = get_pte_at s dst i
                  in if \<not> present se then s
                     else if \<not> present de then set_pte s dst i se
                     else merge_pdpt (se AND PTE_ADDR_MASK) (de AND PTE_ADDR_MASK) s) [0..<256] s)"

section \<open>Releasing an address space\<close>

definition in_range :: "buddy \<Rightarrow> u64 \<Rightarrow> bool" where
  "in_range b p \<longleftrightarrow> alloc_base b \<le> p \<and> p < alloc_base b + alloc_pages b * PAGE_SIZE"

definition live_table :: "buddy \<Rightarrow> u64 \<Rightarrow> bool" where
  "live_table b p \<longleftrightarrow> in_range b p \<and> page_is_used b p \<and> page_type_get b p = PAGE_TYPE_PTE"

definition free_frame :: "env \<Rightarrow> paging \<Rightarrow> u64 \<Rightarrow> paging option" where
  "free_frame e s p = map_option (\<lambda>b. s\<lparr>pg_buddy := b\<rparr>) (free e (pg_buddy s) p 0)"

text \<open>A leaf of a table: the new state, and whether the entry counts as a page of the task.\<close>

definition release_leaf :: "env \<Rightarrow> bool \<Rightarrow> paging \<Rightarrow> u64 \<Rightarrow> (paging \<times> bool) option" where
  "release_leaf e free_ro s pte =
     (let phys = pte AND PTE_ADDR_MASK
      in if \<not> present pte \<or> pte AND PTE_USER = 0 then Some (s, False)
         else if \<not> in_range (pg_buddy s) phys then Some (s, False)
         else map_option (\<lambda>s1. (s1, True))
           (if pte AND PTE_WRITABLE \<noteq> 0 \<or> free_ro
            then if refc_get s phys > 0 then Some (refc_dec s phys) else free_frame e s phys
            else if refc_get s phys > 0 then Some (refc_dec s phys) else free_frame e s phys))"

fun release_pt :: "env \<Rightarrow> bool \<Rightarrow> u64 \<Rightarrow> nat list \<Rightarrow> paging \<Rightarrow> bool \<Rightarrow> (paging \<times> bool) option" where
  "release_pt e free_ro pt [] s user = Some (s, user)"
| "release_pt e free_ro pt (i # is) s user =
     do { (s1, u) \<leftarrow> release_leaf e free_ro s (get_pte_at s pt i); release_pt e free_ro pt is s1 (user \<or> u) }"

text \<open>Dropping a reference to a table page, once per walk: \<open>vis\<close> are the pages that the walk has dropped.\<close>

definition drop_table :: "env \<Rightarrow> paging \<Rightarrow> u64 list \<Rightarrow> u64 \<Rightarrow> (paging \<times> u64 list) option" where
  "drop_table e s vis p =
     (if p \<in> set vis then Some (s, vis)
      else let vis1 = (if length vis < 2048 then vis @ [p] else vis); (zero, b) = pte_refc_dec (pg_buddy s) p;
               s1 = s\<lparr>pg_buddy := b\<rparr>
           in if zero \<and> in_range b p then map_option (\<lambda>s2. (s2, vis1)) (free_frame e s1 p) else Some (s1, vis1))"

fun release_pd :: "env \<Rightarrow> bool \<Rightarrow> u64 \<Rightarrow> nat list \<Rightarrow> paging \<Rightarrow> u64 list \<Rightarrow> bool \<Rightarrow> (paging \<times> u64 list \<times> bool) option" where
  "release_pd e free_ro pd [] s vis user = Some (s, vis, user)"
| "release_pd e free_ro pd (i # is) s vis user =
     (let pde = get_pte_at s pd i; pt = pde AND PTE_ADDR_MASK
      in if \<not> present pde \<or> huge pde \<or> \<not> live_table (pg_buddy s) pt then release_pd e free_ro pd is s vis user
         else do { (s1, u) \<leftarrow> release_pt e free_ro pt [0..<512] (upd_buddy (\<lambda>b. mark_page_used b pt) s) False;
                   (s2, vis1) \<leftarrow> (if u then drop_table e s1 vis pt else Some (s1, vis));
                   release_pd e free_ro pd is s2 vis1 (user \<or> u) })"

fun release_pdpt :: "env \<Rightarrow> bool \<Rightarrow> u64 \<Rightarrow> nat list \<Rightarrow> paging \<Rightarrow> u64 list \<Rightarrow> bool \<Rightarrow> (paging \<times> u64 list \<times> bool) option" where
  "release_pdpt e free_ro pdpt [] s vis user = Some (s, vis, user)"
| "release_pdpt e free_ro pdpt (i # is) s vis user =
     (let pdpte = get_pte_at s pdpt i; pd = pdpte AND PTE_ADDR_MASK
      in if \<not> present pdpte \<or> huge pdpte \<or> \<not> live_table (pg_buddy s) pd then release_pdpt e free_ro pdpt is s vis user
         else do { (s1, vis1, u) \<leftarrow> release_pd e free_ro pd [0..<512] (upd_buddy (\<lambda>b. mark_page_used b pd) s) vis False;
                   (s2, vis2) \<leftarrow> (if u then drop_table e s1 vis1 pd else Some (s1, vis1));
                   release_pdpt e free_ro pdpt is s2 vis2 (user \<or> u) })"

fun release_pml4 :: "env \<Rightarrow> bool \<Rightarrow> u64 \<Rightarrow> nat list \<Rightarrow> paging \<Rightarrow> u64 list \<Rightarrow> (paging \<times> u64 list) option" where
  "release_pml4 e free_ro pml4 [] s vis = Some (s, vis)"
| "release_pml4 e free_ro pml4 (i # is) s vis =
     (let pml4e = get_pte_at s pml4 i; pdpt = pml4e AND PTE_ADDR_MASK
      in if \<not> present pml4e \<or> \<not> live_table (pg_buddy s) pdpt then release_pml4 e free_ro pml4 is s vis
         else do { (s1, vis1, u) \<leftarrow> release_pdpt e free_ro pdpt [0..<512] s vis False;
                   (s2, vis2) \<leftarrow> (if u then drop_table e s1 vis1 pdpt else Some (s1, vis1));
                   release_pml4 e free_ro pml4 is s2 vis2 })"

definition free_address_space :: "env \<Rightarrow> paging \<Rightarrow> u64 \<Rightarrow> bool \<Rightarrow> paging option" where
  "free_address_space e s pml4 free_ro =
     (if \<not> in_range (pg_buddy s) pml4 \<or> \<not> page_is_used (pg_buddy s) pml4 then Some s
      else do { (s1, _) \<leftarrow> release_pml4 e free_ro pml4 [0..<256] s [];
                if in_range (pg_buddy s) pml4 then free_frame e s1 pml4 else Some s1 })"

section \<open>Copy on write\<close>

definition fork_pt :: "u64 \<Rightarrow> paging \<Rightarrow> paging" where
  "fork_pt pt =
     fold (\<lambda>i s. let pte = get_pte_at s pt i
                 in if \<not> present pte \<or> pte AND PTE_USER = 0 then s
                    else let s1 = fork_share_refc s (pte AND PTE_ADDR_MASK)
                         in if pte AND PTE_WRITABLE = 0 then s1 else set_pte s1 pt i (pte AND NOT PTE_WRITABLE)) [0..<512]"

definition fork_pd :: "u64 \<Rightarrow> paging \<Rightarrow> paging" where
  "fork_pd pd =
     fold (\<lambda>i s. let pde = get_pte_at s pd i
                 in if \<not> present pde then s
                    else if huge pde
                    then if pde AND PTE_USER \<noteq> 0
                         then set_pte (fork_share_refc s (pde AND PTE_ADDR_MASK)) pd i (pde AND NOT PTE_WRITABLE) else s
                    else fork_pt (pde AND PTE_ADDR_MASK) (fork_share_pte_refc s (pde AND PTE_ADDR_MASK))) [0..<512]"

definition fork_pdpt :: "u64 \<Rightarrow> paging \<Rightarrow> paging" where
  "fork_pdpt pdpt =
     fold (\<lambda>i s. let pdpte = get_pte_at s pdpt i
                 in if \<not> present pdpte then s
                    else if huge pdpte
                    then if pdpte AND PTE_USER \<noteq> 0
                         then set_pte (fork_share_refc s (pdpte AND PTE_ADDR_MASK)) pdpt i (pdpte AND NOT PTE_WRITABLE) else s
                    else fork_pd (pdpte AND PTE_ADDR_MASK) (fork_share_pte_refc s (pdpte AND PTE_ADDR_MASK))) [0..<512]"

definition fork_slot :: "u64 \<Rightarrow> u64 \<Rightarrow> nat \<Rightarrow> paging \<Rightarrow> paging" where
  "fork_slot old new i s =
     (let pml4e = get_pte_at s old i; pdpt = pml4e AND PTE_ADDR_MASK
      in if \<not> present pml4e then s
         else if \<not> live_table (pg_buddy s) pdpt then set_pte s new i 0
         else fork_pdpt pdpt (fork_share_pte_refc (set_pte s new i pml4e) pdpt))"

definition cow_fork_pml4 :: "paging \<Rightarrow> u64 \<Rightarrow> u64 option \<times> paging" where
  "cow_fork_pml4 s old =
     (case alloc_page_table s of
        (None, s1) \<Rightarrow> (None, s1)
      | (Some new, s1) \<Rightarrow>
          let s2 = upd_buddy (\<lambda>b. mark_page_used b new) (zero_frame s1 new);
              s3 = fold (\<lambda>i s. set_pte s new i (get_pte_at s (kernel_root s) i)) ([0, 1] @ [256..<512]) s2
          in (Some new, fold (fork_slot old new) [0..<256] s3))"

text \<open>One level of \<^verbatim>\<open>cow_walk_pte\<close>: the table \<open>p\<close> behind entry \<open>i\<close> of \<open>t\<close>, copied if another address space shares it.\<close>

definition own_table :: "paging \<Rightarrow> u64 \<Rightarrow> nat \<Rightarrow> u64 option \<times> paging" where
  "own_table s t i =
     (let e = get_pte_at s t i; p = e AND PTE_ADDR_MASK
      in if pte_refc_get (pg_buddy s) p > 1
         then (case alloc_page_table s of
                 (None, s1) \<Rightarrow> (None, s1)
               | (Some n, s1) \<Rightarrow>
                   (Some n, set_pte (upd_buddy (\<lambda>b. snd (pte_refc_dec b p)) (copy_frame s1 p n)) t i (n OR (e AND NOT PTE_ADDR_MASK))))
         else (Some p, s))"

definition cow_walk_pte :: "paging \<Rightarrow> u64 \<Rightarrow> u64 \<Rightarrow> (u64 \<times> nat) option \<times> paging" where
  "cow_walk_pte s pml4 virt =
     (if \<not> present (get_pte_at s pml4 (vpn virt 0)) then (None, s)
      else case own_table s pml4 (vpn virt 0) of
        (None, s1) \<Rightarrow> (None, s1)
      | (Some pdpt, s1) \<Rightarrow>
          (let pdpte = get_pte_at s1 pdpt (vpn virt 1)
           in if \<not> present pdpte \<or> huge pdpte then (None, s1)
              else case own_table s1 pdpt (vpn virt 1) of
                (None, s2) \<Rightarrow> (None, s2)
              | (Some pd, s2) \<Rightarrow>
                  (let pde = get_pte_at s2 pd (vpn virt 2)
                   in if \<not> present pde \<or> huge pde then (None, s2)
                      else case own_table s2 pd (vpn virt 2) of
                        (None, s3) \<Rightarrow> (None, s3)
                      | (Some pt, s3) \<Rightarrow> (Some (pt, vpn virt 3), s3))))"

definition cow_remap_in :: "paging \<Rightarrow> u64 \<Rightarrow> u64 \<Rightarrow> (bool \<times> paging) option" where
  "cow_remap_in s pml4 virt =
     (case cow_walk_pte s pml4 virt of
        (None, s1) \<Rightarrow> Some (False, s1)
      | (Some (pt, i), s1) \<Rightarrow>
          let pte = get_pte_at s1 pt i; old = pte AND PTE_ADDR_MASK; flags = pte AND NOT PTE_ADDR_MASK
          in if \<not> present pte \<or> pte AND PTE_WRITABLE \<noteq> 0 then Some (False, s1)
             else if refc_get s1 old = 0 then Some (True, set_pte s1 pt i (old OR flags OR PTE_WRITABLE))
             else let s2 = refc_dec s1 old
                  in if virt = 0x500000
                     then do { b \<leftarrow> reserve (pg_buddy s2) old;
                               case alloc_page_table (s2\<lparr>pg_buddy := b\<rparr>) of
                                 (None, s3) \<Rightarrow> Some (False, s3)
                               | (Some new, s3) \<Rightarrow>
                                   do { b1 \<leftarrow> reserve (pg_buddy s3) new;
                                        Some (True, set_pte ((copy_frame s3 old new)\<lparr>pg_buddy := b1\<rparr>) pt i (new OR flags OR PTE_WRITABLE)) } }
                     else (case alloc_page_table s2 of
                             (None, s3) \<Rightarrow> Some (False, s3)
                           | (Some new, s3) \<Rightarrow> Some (True, set_pte (copy_frame s3 old new) pt i (new OR flags OR PTE_WRITABLE))))"

definition cow_remap :: "paging \<Rightarrow> u64 \<Rightarrow> (bool \<times> paging) option" where
  "cow_remap s virt = cow_remap_in s (kernel_root s) virt"

end
