(* ===== verification/Paging_Tables.thy ===== *)
theory Paging_Tables
  imports Paging Buddy_Props
begin

text \<open>
  Page tables as tables: reading and writing entries, and an address space as a tree of tables along index paths. The reference for
  the code's walks is the walk of the processor (\<open>hw_walk\<close>), which also knows pages of 1 GiB.
\<close>

unbundle bit_operations_syntax

section \<open>Entries\<close>

definition frame :: "u64 \<Rightarrow> bool" where
  "frame t \<longleftrightarrow> 4096 dvd unat t"

lemma frame_mask [simp]: "frame (e AND PTE_ADDR_MASK)"
proof -
  have "(e AND PTE_ADDR_MASK) AND 0xFFF = 0" by (simp add: PTE_ADDR_MASK_def and.assoc)
  then have "take_bit 12 (e AND PTE_ADDR_MASK) = 0" by (simp add: take_bit_eq_mask mask_eq_exp_minus_1)
  then have "take_bit 12 (unat (e AND PTE_ADDR_MASK)) = 0" by (metis unsigned_take_bit_eq unsigned_0)
  then show ?thesis by (simp add: frame_def take_bit_eq_mod dvd_eq_mod_eq_0)
qed

lemma frame_bound: "frame t \<Longrightarrow> unat t + 4096 \<le> 2 ^ 64"
proof -
  assume f: "frame t"
  then obtain k where k: "unat t = 4096 * k" by (auto simp: frame_def)
  moreover have "unat t < 2 ^ 64" by simp
  ultimately have "k < 2 ^ 52" by simp
  then show ?thesis using k by simp
qed

lemma unat_slot: "frame t \<Longrightarrow> k < 4096 \<Longrightarrow> unat (t + of_nat k) = unat t + k"
  using frame_bound [of t] by (subst unat_add_nowrap) (simp_all add: unat_of_nat_lt)

lemma slot_inj:
  assumes "frame t" and "frame t'" and "k < 4096" and "k' < 4096" and "unat t + k = unat t' + k'"
  shows "t = t' \<and> k = k'"
proof -
  have "(unat t + k) div 4096 = unat t div 4096" "(unat t' + k') div 4096 = unat t' div 4096"
    using assms(1-4) by (auto simp: frame_def div_add)
  moreover have "unat t = 4096 * (unat t div 4096)" "unat t' = 4096 * (unat t' div 4096)" using assms(1,2) by (auto simp: frame_def)
  ultimately have "unat t = unat t'" using assms(5) by metis
  then show ?thesis using assms(5) by (simp add: word_unat_eq_iff)
qed

lemma apart_slots:
  assumes "frame t" and "frame t'" and "8 * i < 4096" and "8 * j < 4096" and "\<not> (t = t' \<and> i = j)"
  shows "apart (t + of_nat (8 * i)) 8 (t' + of_nat (8 * j)) 8"
proof -
  have u: "unat (t + of_nat (8 * i)) = unat t + 8 * i" "unat (t' + of_nat (8 * j)) = unat t' + 8 * j"
    using unat_slot assms(1-4) by blast+
  have ne: "unat t + 8 * i \<noteq> unat t' + 8 * j" using slot_inj [of t t' "8 * i" "8 * j"] assms by auto
  obtain a b where "unat t = 4096 * a" "unat t' = 4096 * b" using assms(1,2) unfolding frame_def dvd_def by blast
  then have d: "unat t + 8 * i = 8 * (512 * a + i)" "unat t' + 8 * j = 8 * (512 * b + j)" by simp_all
  have "512 * a + i < 512 * b + j \<or> 512 * b + j < 512 * a + i" using ne unfolding d by (metis nat_neq_iff)
  then have "unat t + 8 * i + 8 \<le> unat t' + 8 * j \<or> unat t' + 8 * j + 8 \<le> unat t + 8 * i" unfolding d by auto
  then show ?thesis using frame_bound [OF assms(1)] frame_bound [OF assms(2)] assms(3,4) unfolding apart_def u by auto
qed

lemma entry_put:
  assumes "frame t" and "frame t'" and "i < 512" and "j < 512"
  shows "entry (put_entry m t i v) t' j = (if t = t' \<and> i = j then v else entry m t' j)"
proof (cases "t = t' \<and> i = j")
  case False
  then have "apart (t + of_nat (8 * i)) 8 (t' + of_nat (8 * j)) 8" using apart_slots [of t t' i j] assms by simp
  from load_store_apart [OF this, of m 0] False show ?thesis by (auto simp: entry_def put_entry_def)
qed (simp add: entry_def put_entry_def)

lemma read_written:
  assumes "length bs \<le> 2 ^ 64" and "k + n \<le> length bs"
  shows "mem_read (mem_write m p bs) (p + of_nat k) n = take n (drop k bs)"
proof (rule nth_equalityI)
  fix i assume "i < length (mem_read (mem_write m p bs) (p + of_nat k) n)"
  then have i: "i < n" by simp
  then have "unat (of_nat (k + i) :: u64) = k + i" using assms by (intro unat_of_nat_lt) simp
  then show "mem_read (mem_write m p bs) (p + of_nat k) n ! i = take n (drop k bs) ! i"
    using i assms(2) by (simp add: mem_read_def mem_write_def Let_def add.assoc flip: of_nat_add)
qed (use assms in simp)

lemma entry_written:
  assumes "frame p" and "frame t" and "length bs = 4096" and "j < 512"
  shows "entry (mem_write m p bs) t j = (if t = p then of_le (take 8 (drop (8 * j) bs)) else entry m t j)"
proof (cases "t = p")
  case True
  then show ?thesis using read_written [of bs "8 * j" 8 m p] assms by (simp add: entry_def load_def)
next
  case False
  obtain a b where ab: "unat p = 4096 * a" "unat t = 4096 * b" using assms(1,2) unfolding frame_def dvd_def by blast
  with False have "a \<noteq> b" by (auto simp: word_unat_eq_iff)
  moreover have "unat (t + of_nat (8 * j)) = unat t + 8 * j" using assms(2,4) by (intro unat_slot) simp_all
  ultimately have "apart p 4096 (t + of_nat (8 * j)) 8"
    using frame_bound [OF assms(1)] frame_bound [OF assms(2)] assms(4) ab unfolding apart_def by (simp, linarith)
  from mem_read_write_apart [of p bs "t + of_nat (8 * j)" 8 m 0] this False assms(3) show ?thesis by (simp add: entry_def load_def)
qed

lemma entry_zero: "frame p \<Longrightarrow> frame t \<Longrightarrow> j < 512 \<Longrightarrow> entry (mem_write m p (replicate 4096 0)) t j = (if t = p then 0 else entry m t j)"
  by (simp add: entry_written of_le_def foldr_replicate)
     (simp add: eval_nat_numeral)

lemma take_mem_read: "k + n \<le> l \<Longrightarrow> take n (drop k (mem_read m p l)) = mem_read m (p + of_nat k) n"
  by (rule nth_equalityI) (simp_all add: mem_read_def add.assoc flip: of_nat_add)

lemma entry_copy:
  "frame p \<Longrightarrow> frame t \<Longrightarrow> j < 512 \<Longrightarrow> entry (mem_write m p (mem_read m q 4096)) t j = (if t = p then entry m q j else entry m t j)"
  by (simp add: entry_written take_mem_read) (simp add: entry_def load_def)

lemma fill_entries:
  assumes "frame t" and "frame t'" and "j < 512"
  shows "entry (pg_mem (fill_table s t f)) t' j = (if t' = t then f (of_nat j) else entry (pg_mem s) t' j)"
proof -
  have "entry (pg_mem (fold (\<lambda>i s. set_pte s t i (f (of_nat i))) is s)) t' j =
      (if t' = t \<and> j \<in> set is then f (of_nat j) else entry (pg_mem s) t' j)" if "set is \<subseteq> {..<512}" for "is"
    using that
  proof (induction "is" arbitrary: s)
    case (Cons i "is")
    then show ?case using entry_put [OF assms(1,2) _ assms(3)] by (auto simp: set_pte_def)
  qed simp
  moreover have "set [0..<512] \<subseteq> {..<512::nat}" by auto
  ultimately have "entry (pg_mem (fold (\<lambda>i s. set_pte s t i (f (of_nat i))) [0..<512] s)) t' j =
      (if t' = t \<and> j \<in> set [0..<512] then f (of_nat j) else entry (pg_mem s) t' j)" by blast
  then show ?thesis using assms(3) by (auto simp: fill_table_def)
qed

lemma vpn_less [simp]: "vpn virt k < 512"
proof -
  have "unat (w AND 0x1FF :: u64) < 512" for w
  proof -
    have "w AND 0x1FF = take_bit 9 w" by (simp add: take_bit_eq_mask mask_eq_exp_minus_1)
    then have "unat (w AND 0x1FF) = take_bit 9 (unat w)" by (simp add: unsigned_take_bit_eq)
    then show ?thesis by (simp add: take_bit_eq_mod)
  qed
  then show ?thesis by (simp add: vpn_def)
qed

section \<open>The processor's walk\<close>

definition path :: "u64 \<Rightarrow> nat list" where
  "path va = map (vpn va) [0..<4]"

text \<open>The entry that maps an address, the number of levels below it, and whether every entry on the way allows writing.\<close>

fun hw_walk :: "(u64 \<Rightarrow> u8) \<Rightarrow> u64 \<Rightarrow> nat list \<Rightarrow> bool \<Rightarrow> (u64 \<times> nat \<times> bool) option" where
  "hw_walk m t [] w = None"
| "hw_walk m t (i # is) w =
     (let e = entry m t i; w1 = (w \<and> e AND PTE_WRITABLE \<noteq> 0)
      in if \<not> present e then None
         else if is = [] \<or> huge e then Some (e, length is, w1)
         else hw_walk m (e AND PTE_ADDR_MASK) is w1)"

text \<open>The physical address, whether it can be written, and whether the page belongs to user space.\<close>

fun target :: "u64 \<Rightarrow> u64 \<times> nat \<times> bool \<Rightarrow> u64 \<times> bool \<times> bool" where
  "target va (e, k, w) =
     ((e AND PTE_ADDR_MASK AND NOT (mask (12 + 9 * k))) OR (va AND mask (12 + 9 * k)), w, e AND PTE_USER \<noteq> 0)"

definition hw_translate :: "(u64 \<Rightarrow> u8) \<Rightarrow> u64 \<Rightarrow> u64 \<Rightarrow> (u64 \<times> bool \<times> bool) option" where
  "hw_translate m root va = map_option (target va) (hw_walk m root (path va) True)"

text \<open>A translation that keeps its address and its right to write; a page may be taken from user space, but not given to it.\<close>

fun kept :: "(u64 \<times> bool \<times> bool) option \<Rightarrow> (u64 \<times> bool \<times> bool) option \<Rightarrow> bool" where
  "kept None r \<longleftrightarrow> r = None"
| "kept (Some (p, w, u)) r \<longleftrightarrow> (\<exists>u'. r = Some (p, w, u') \<and> (u' \<longrightarrow> u))"

lemma kept_refl [simp]: "kept r r"
  by (cases r) auto

lemma kept_trans: "kept r r1 \<Longrightarrow> kept r1 r2 \<Longrightarrow> kept r r2"
  by (cases r; cases r1) auto

section \<open>Address spaces as trees\<close>

fun tab :: "(u64 \<Rightarrow> u8) \<Rightarrow> u64 \<Rightarrow> nat list \<Rightarrow> u64 option" where
  "tab m t [] = Some t"
| "tab m t (i # is) = (let e = entry m t i in if present e \<and> \<not> huge e then tab m (e AND PTE_ADDR_MASK) is else None)"

definition idx_path :: "nat list \<Rightarrow> bool" where
  "idx_path p \<longleftrightarrow> length p \<le> 3 \<and> (\<forall>i \<in> set p. i < 512)"

definition tree_ok :: "(u64 \<Rightarrow> u8) \<Rightarrow> u64 \<Rightarrow> bool" where
  "tree_ok m root \<longleftrightarrow> frame root \<and> (\<forall>i < 512. \<not> huge (entry m root i)) \<and>
     (\<forall>p q t. idx_path p \<longrightarrow> idx_path q \<longrightarrow> tab m root p = Some t \<longrightarrow> tab m root q = Some t \<longrightarrow> p = q)"

lemma tab_append: "tab m t (p @ q) = (case tab m t p of None \<Rightarrow> None | Some t' \<Rightarrow> tab m t' q)"
  by (induction p arbitrary: t) (auto simp: Let_def)

lemma tab_frame: "frame t \<Longrightarrow> tab m t p = Some t' \<Longrightarrow> frame t'"
proof (induction p arbitrary: t)
  case (Cons i p)
  then show ?case using Cons.IH [OF frame_mask] by (simp add: Let_def split: if_splits)
qed simp

lemma tree_okD:
  assumes "tree_ok m root"
  shows "frame root" and "\<And>p q t. idx_path p \<Longrightarrow> idx_path q \<Longrightarrow> tab m root p = Some t \<Longrightarrow> tab m root q = Some t \<Longrightarrow> p = q"
    and "\<And>i. i < 512 \<Longrightarrow> \<not> huge (entry m root i)"
  using assms by (auto simp: tree_ok_def)

lemma idx_path_snoc: "idx_path (p @ [i]) \<longleftrightarrow> length p \<le> 2 \<and> idx_path p \<and> i < 512"
  by (auto simp: idx_path_def)

lemma tab_snoc: "tab m root p = Some t \<Longrightarrow> tab m root (p @ [i]) =
    (let e = entry m t i in if present e \<and> \<not> huge e then Some (e AND PTE_ADDR_MASK) else None)"
  by (simp add: tab_append Let_def)

text \<open>Two memories that differ in the entry \<open>i\<close> of the table at path \<open>p\<close> and in one frame that is in no table of the tree.\<close>

definition changes :: "(u64 \<Rightarrow> u8) \<Rightarrow> (u64 \<Rightarrow> u8) \<Rightarrow> u64 \<Rightarrow> nat \<Rightarrow> u64 set \<Rightarrow> bool" where
  "changes m m' t i F \<longleftrightarrow> (\<forall>x j. frame x \<longrightarrow> j < 512 \<longrightarrow> x \<notin> F \<longrightarrow> \<not> (x = t \<and> j = i) \<longrightarrow> entry m' x j = entry m x j)"

definition in_tree :: "(u64 \<Rightarrow> u8) \<Rightarrow> u64 \<Rightarrow> u64 \<Rightarrow> bool" where
  "in_tree m root t \<longleftrightarrow> (\<exists>q. idx_path q \<and> tab m root q = Some t)"

definition tree_change :: "(u64 \<Rightarrow> u8) \<Rightarrow> (u64 \<Rightarrow> u8) \<Rightarrow> u64 \<Rightarrow> u64 \<Rightarrow> nat list \<Rightarrow> nat \<Rightarrow> u64 set \<Rightarrow> bool" where
  "tree_change m m' root t p i F \<longleftrightarrow> tree_ok m root \<and> tab m root p = Some t \<and> idx_path p \<and> i < 512 \<and>
     (\<forall>x \<in> F. \<not> in_tree m root x) \<and> changes m m' t i F"

lemma tree_changeD:
  assumes "tree_change m m' root t p i F"
  shows "tree_ok m root" and "tab m root p = Some t" and "idx_path p" and "i < 512" and "\<And>x. x \<in> F \<Longrightarrow> \<not> in_tree m root x"
    and "changes m m' t i F"
  using assms by (auto simp: tree_change_def)

lemma other_entry:
  assumes tc: "tree_change m m' root t p i F" and "tab m root q = Some x" and "idx_path q" and "j < 512" and "(q, j) \<noteq> (p, i)"
  shows "entry m' x j = entry m x j"
proof -
  note t = tree_changeD [OF tc]
  have "x \<notin> F" using assms(2,3) t(5) by (auto simp: in_tree_def)
  moreover have "\<not> (x = t \<and> j = i)" using tree_okD(2) [OF t(1) assms(3) t(3)] assms(2,5) t(2) by auto
  moreover have "frame x" using tab_frame tree_okD(1) [OF t(1)] assms(2) by blast
  ultimately show ?thesis using t(6) assms(4) by (simp add: changes_def)
qed

text \<open>Walks agree wherever they do not come to the changed entry.\<close>

lemma walk_same:
  assumes tc: "tree_change m m' root t p i F" and "tab m root q = Some x" and "length q + length is = 4" and "\<forall>j \<in> set (q @ is). j < 512"
    and "\<And>js w'. length q \<le> length p \<Longrightarrow> q @ is = p @ i # js \<Longrightarrow> R (hw_walk m t (i # js) w') (hw_walk m' t (i # js) w')"
    and "\<And>r. R r r"
  shows "R (hw_walk m x is w) (hw_walk m' x is w)"
  using assms(2-)
proof (induction "is" arbitrary: q x w)
  case Nil
  then show ?case by simp
next
  case (Cons j js)
  have iq: "idx_path q" and j: "j < 512" using Cons.prems(2,3) by (auto simp: idx_path_def)
  show ?case
  proof (cases "q = p \<and> j = i")
    case True
    then have "x = t" using Cons.prems(1) tree_changeD(2) [OF tc] by simp
    then show ?thesis using Cons.prems(4) [of js w] True by simp
  next
    case False
    then have e: "entry m' x j = entry m x j" using other_entry [OF tc Cons.prems(1) iq j] by auto
    show ?thesis
    proof (cases "present (entry m x j) \<and> \<not> huge (entry m x j) \<and> js \<noteq> []")
      case True
      have tq: "tab m root (q @ [j]) = Some (entry m x j AND PTE_ADDR_MASK)" using True by (simp add: tab_snoc [OF Cons.prems(1)])
      have "R (hw_walk m (entry m x j AND PTE_ADDR_MASK) js (w \<and> entry m x j AND PTE_WRITABLE \<noteq> 0))
          (hw_walk m' (entry m x j AND PTE_ADDR_MASK) js (w \<and> entry m x j AND PTE_WRITABLE \<noteq> 0))"
      proof (rule Cons.IH [OF tq])
        fix ks w' assume "length (q @ [j]) \<le> length p" "(q @ [j]) @ js = p @ i # ks"
        then show "R (hw_walk m t (i # ks) w') (hw_walk m' t (i # ks) w')" using Cons.prems(4) [of ks w'] by simp
      qed (use Cons.prems in auto)
      then show ?thesis using e True by (simp add: Let_def)
    next
      case False
      then show ?thesis using e Cons.prems(5) by (auto simp: Let_def)
    qed
  qed
qed

lemma tab_same:
  assumes tc: "tree_change m m' root t p i F" and "tab m root q = Some x" and "idx_path (q @ is)" and "\<not> (present (entry m t i) \<and> \<not> huge (entry m t i))"
    and "tab m x is = Some y"
  shows "tab m' x is = Some y"
  using assms(2-)
proof (induction "is" arbitrary: q x)
  case (Cons j js)
  have e: "present (entry m x j) \<and> \<not> huge (entry m x j)" "tab m (entry m x j AND PTE_ADDR_MASK) js = Some y"
    using Cons.prems(4) by (simp_all add: Let_def split: if_splits)
  have "(q, j) \<noteq> (p, i)" using e(1) Cons.prems(1,3) tree_changeD(2) [OF tc] by auto
  then have "entry m' x j = entry m x j" using other_entry [OF tc Cons.prems(1)] Cons.prems(2) by (simp add: idx_path_def)
  moreover have "tab m root (q @ [j]) = Some (entry m x j AND PTE_ADDR_MASK)" using e(1) by (simp add: tab_snoc [OF Cons.prems(1)])
  ultimately show ?case using Cons.IH [of "q @ [j]"] Cons.prems(2,3) e by (simp add: Let_def)
qed simp

text \<open>Tables that are reached afterwards were reached before, unless the way leads through the changed entry.\<close>

lemma tab_back:
  assumes tc: "tree_change m m' root t p i F" and "tab m root q = Some x" and "idx_path (q @ is)" and "tab m' x is = Some y"
  shows "tab m x is = Some y \<or> (\<exists>ks. q @ is = p @ i # ks \<and> tab m' t (i # ks) = Some y)"
  using assms(2-)
proof (induction "is" arbitrary: q x)
  case (Cons j js)
  have iq: "idx_path q" "j < 512" using Cons.prems(2) by (auto simp: idx_path_def)
  show ?case
  proof (cases "q = p \<and> j = i")
    case True
    then have "x = t" using Cons.prems(1) tree_changeD(2) [OF tc] by simp
    then show ?thesis using True Cons.prems(3) by auto
  next
    case False
    then have e: "entry m' x j = entry m x j" using other_entry [OF tc Cons.prems(1) iq] by auto
    have d: "present (entry m x j) \<and> \<not> huge (entry m x j)" "tab m' (entry m x j AND PTE_ADDR_MASK) js = Some y"
      using Cons.prems(3) e by (simp_all add: Let_def split: if_splits)
    have "tab m root (q @ [j]) = Some (entry m x j AND PTE_ADDR_MASK)" using d(1) by (simp add: tab_snoc [OF Cons.prems(1)])
    from Cons.IH [OF this _ d(2)] Cons.prems(2) d(1) show ?thesis by (simp add: Let_def)
  qed
qed simp

lemma path_lt: "\<forall>j \<in> set (path va). j < 512"
  by (auto simp: path_def)

lemma path_length [simp]: "length (path va) = 4"
  by (simp add: path_def)

text \<open>A leaf of the last level: only its own page changes.\<close>

lemma leaf_change:
  assumes tc: "tree_change m m' root t p i {}" and p: "length p = 3"
  shows "tree_ok m' root" and "path va \<noteq> p @ [i] \<Longrightarrow> hw_translate m' root va = hw_translate m root va"
    and "idx_path q \<Longrightarrow> tab m' root q = tab m root q"
    and "\<exists>w'. hw_walk m' root (p @ [i]) True = (if present (entry m' t i) then Some (entry m' t i, 0, w') else None)"
    and "path va \<noteq> p @ [i] \<Longrightarrow> hw_walk m' root (path va) True = hw_walk m root (path va) True"
proof -
  note t = tree_changeD [OF tc]
  have no: "q \<noteq> p @ i # ks" if "idx_path q" for q ks using that p by (auto simp: idx_path_def)
  have same: "entry m' x j = entry m x j" if "tab m root q = Some x" "idx_path (q @ [j])" for q x j
  proof -
    have "q \<noteq> p" using that(2) p by (auto simp: idx_path_def)
    then show ?thesis using other_entry [OF tc that(1), of j] that(2) by (simp add: idx_path_def)
  qed
  have fwd: "tab m root q = Some x \<Longrightarrow> idx_path (q @ is) \<Longrightarrow> tab m' x is = tab m x is" for q x "is"
  proof (induction "is" arbitrary: q x)
    case (Cons j js)
    have e: "entry m' x j = entry m x j" using same [OF Cons.prems(1), of j] Cons.prems(2) by (simp add: idx_path_def)
    show ?case
    proof (cases "present (entry m x j) \<and> \<not> huge (entry m x j)")
      case True
      then have "tab m root (q @ [j]) = Some (entry m x j AND PTE_ADDR_MASK)" by (simp add: tab_snoc [OF Cons.prems(1)])
      from Cons.IH [OF this] Cons.prems(2) e show ?thesis by (simp add: Let_def)
    qed (use e in \<open>auto simp: Let_def\<close>)
  qed simp
  show tb: "tab m' root q = tab m root q" if "idx_path q" for q using fwd [of "[]" root q] that by simp
  have "entry m' root j = entry m root j" if "j < 512" for j using same [of "[]" root j] that by (simp add: idx_path_def)
  then show "tree_ok m' root" using t(1) tb unfolding tree_ok_def by auto
  show w: "hw_walk m' root (path va) True = hw_walk m root (path va) True" if "path va \<noteq> p @ [i]"
  proof -
    have "hw_walk m root (path va) True = hw_walk m' root (path va) True"
    proof (rule walk_same [OF tc, of "[]" root "path va" "(=)"])
      fix js w' assume e: "[] @ path va = p @ i # js"
      then have "js = []" using p path_length [of va] by (auto simp del: path_length)
      then show "hw_walk m t (i # js) w' = hw_walk m' t (i # js) w'" using e that by simp
    qed (use path_lt in auto)
    then show ?thesis by simp
  qed
  then show "path va \<noteq> p @ [i] \<Longrightarrow> hw_translate m' root va = hw_translate m root va" by (simp add: hw_translate_def)
  have "\<exists>w'. hw_walk m' x (js @ [i]) w = (if present (entry m' t i) then Some (entry m' t i, 0, w') else None)" if "tab m' x js = Some t" for x js w
    using that by (induction js arbitrary: x w) (auto simp: Let_def split: if_splits)
  then show "\<exists>w'. hw_walk m' root (p @ [i]) True = (if present (entry m' t i) then Some (entry m' t i, 0, w') else None)"
    using tb [OF t(3)] t(2) by simp
qed

text \<open>An entry that leads to a table and keeps its address: the tree and all translations stay.\<close>

lemma retag:
  assumes tc: "tree_change m m' root t p i {}" and e: "present (entry m t i)" "\<not> huge (entry m t i)"
    and e': "present (entry m' t i)" "\<not> huge (entry m' t i)" "entry m' t i AND PTE_ADDR_MASK = entry m t i AND PTE_ADDR_MASK"
      "(entry m' t i AND PTE_WRITABLE \<noteq> 0) = (entry m t i AND PTE_WRITABLE \<noteq> 0)" and p: "length p \<le> 2"
  shows "tree_ok m' root" and "hw_translate m' root va = hw_translate m root va" and "idx_path q \<Longrightarrow> tab m' root q = tab m root q"
    and "hw_walk m' root (path va) True = hw_walk m root (path va) True"
proof -
  note t = tree_changeD [OF tc]
  have fr: "frame root" by (rule tree_okD(1) [OF t(1)])
  have same: "entry m' x j = entry m x j" if "frame x" "j < 512" "\<not> (x = t \<and> j = i)" for x j
    using t(6) that by (simp add: changes_def)
  have fwd: "frame x \<Longrightarrow> \<forall>j \<in> set is. j < 512 \<Longrightarrow> tab m' x is = tab m x is" for x "is"
  proof (induction "is" arbitrary: x)
    case (Cons j js)
    show ?case using Cons same [OF Cons.prems(1), of j] e e' by (cases "x = t \<and> j = i") (auto simp: Let_def)
  qed simp
  have child: "tab m root (p @ [i]) = Some (entry m t i AND PTE_ADDR_MASK)" using e by (simp add: tab_snoc [OF t(2)])
  show tb: "tab m' root q = tab m root q" if "idx_path q" for q using fwd [OF fr] that by (simp add: idx_path_def)
  have "\<not> huge (entry m' root j)" if "j < 512" for j
    using tree_okD(3) [OF t(1) that] same [OF fr that] e'(2) by (cases "root = t \<and> j = i") auto
  then show "tree_ok m' root" using t(1) tb unfolding tree_ok_def by auto
  have "hw_walk m root (path va) True = hw_walk m' root (path va) True"
  proof (rule walk_same [OF tc, of "[]" root "path va" "(=)"])
    fix js w' assume pa: "[] @ path va = p @ i # js"
    then have js: "length (p @ [i]) + length js = 4" "\<forall>j \<in> set ((p @ [i]) @ js). j < 512"
      using path_length [of va] path_lt [of va] pa by (auto simp del: path_length)
    have "hw_walk m (entry m t i AND PTE_ADDR_MASK) js w = hw_walk m' (entry m t i AND PTE_ADDR_MASK) js w" for w
      by (rule walk_same [OF tc child js]) simp_all
    then show "hw_walk m t (i # js) w' = hw_walk m' t (i # js) w'" using e e' js p by (auto simp: Let_def)
  qed (use path_lt in auto)
  then show "hw_walk m' root (path va) True = hw_walk m root (path va) True" "hw_translate m' root va = hw_translate m root va"
    by (simp_all add: hw_translate_def)
qed

lemma va_split:
  assumes "1 \<le> k" and "k \<le> 3"
  shows "va AND mask (12 + 9 * k) = push_bit (12 + 9 * (k - 1)) (of_nat (vpn va (4 - k))) OR (va AND mask (12 + 9 * (k - 1)))"
proof -
  have "39 - 9 * (4 - k) = 12 + 9 * (k - 1)" using assms by auto
  then have v: "of_nat (vpn va (4 - k)) = drop_bit (12 + 9 * (k - 1)) va AND (mask 9 :: u64)"
    by (simp add: vpn_def mask_eq_exp_minus_1)
  show ?thesis unfolding v using assms by (intro bit_eqI) (auto simp: bit_simps)
qed

text \<open>A new table behind an entry that led to no table: it maps nothing, or what the huge page behind the entry mapped. \<open>k\<close> is the number
  of levels below the entry.\<close>

definition splits :: "nat \<Rightarrow> u64 \<Rightarrow> (nat \<Rightarrow> u64) \<Rightarrow> bool" where
  "splits k e g \<longleftrightarrow>
     (\<forall>j < 512. (present (g j) \<longleftrightarrow> present e) \<and>
       (present e \<longrightarrow> (k = 1 \<or> huge (g j)) \<and> g j AND PTE_USER = 0 \<and> (g j AND PTE_WRITABLE \<noteq> 0) = (e AND PTE_WRITABLE \<noteq> 0) \<and>
          g j AND PTE_ADDR_MASK AND NOT (mask (12 + 9 * (k - 1))) =
            (e AND PTE_ADDR_MASK AND NOT (mask (12 + 9 * k))) OR push_bit (12 + 9 * (k - 1)) (of_nat j)))"

lemma graft_target:
  assumes pa: "path va = p @ i # js" and new: "present (entry m' t i)" "\<not> huge (entry m' t i)" "entry m' t i AND PTE_ADDR_MASK = f"
      "entry m' t i AND PTE_WRITABLE \<noteq> 0"
    and sp: "splits (3 - length p) (entry m t i) (entry m' f)" and old: "\<not> (present (entry m t i) \<and> \<not> huge (entry m t i))"
    and p: "length p \<le> 2"
  shows "kept (map_option (target va) (hw_walk m t (i # js) w)) (map_option (target va) (hw_walk m' t (i # js) w))"
proof -
  define k where "k = 3 - length p"
  have len: "length js = k" "1 \<le> k" "k \<le> 3" using path_length [of va] p unfolding pa k_def by simp_all
  then obtain j js' where js: "js = j # js'" by (cases js) auto
  have "path va ! (length p + 1) = j" unfolding pa js by (simp add: nth_append)
  moreover have "length p + 1 = 4 - k" "length p + 1 < 4" using len(2) p by (auto simp: k_def)
  ultimately have j: "j = vpn va (4 - k)" by (simp add: path_def)
  then have j512: "j < 512" by simp
  note s = sp [folded k_def, unfolded splits_def, rule_format, OF j512]
  show ?thesis
  proof (cases "present (entry m t i)")
    case True
    have "hw_walk m t (i # js) w = Some (entry m t i, k, w \<and> entry m t i AND PTE_WRITABLE \<noteq> 0)" using True old len by (simp add: Let_def)
    moreover have "hw_walk m' t (i # js) w = Some (entry m' f j, k - 1, w \<and> entry m' f j AND PTE_WRITABLE \<noteq> 0)"
      using new s True len js by (auto simp: Let_def)
    moreover have "(entry m' f j AND PTE_ADDR_MASK AND NOT (mask (12 + 9 * (k - 1)))) OR (va AND mask (12 + 9 * (k - 1))) =
        (entry m t i AND PTE_ADDR_MASK AND NOT (mask (12 + 9 * k))) OR (va AND mask (12 + 9 * k))"
      using s True va_split [OF len(2,3), of va] j by (simp add: or.assoc)
    ultimately show ?thesis using s True by (auto simp del: hw_walk.simps)
  next
    case False
    then show ?thesis using new s js by (simp add: Let_def)
  qed
qed

lemma graft:
  assumes tc: "tree_change m m' root t p i {f}" and p: "length p \<le> 2" and f: "frame f"
    and old: "\<not> (present (entry m t i) \<and> \<not> huge (entry m t i))" "huge (entry m t i) \<Longrightarrow> p \<noteq> []"
    and new: "present (entry m' t i)" "\<not> huge (entry m' t i)" "entry m' t i AND PTE_ADDR_MASK = f" "entry m' t i AND PTE_WRITABLE \<noteq> 0"
    and sp: "splits (3 - length p) (entry m t i) (entry m' f)"
  shows "tree_ok m' root" and "kept (hw_translate m root va) (hw_translate m' root va)" and "tab m' root (p @ [i]) = Some f"
    and "idx_path q \<Longrightarrow> tab m' root q = Some x \<Longrightarrow> q = p @ [i] \<and> x = f \<or> tab m root q = Some x"
    and "idx_path q \<Longrightarrow> tab m root q = Some x \<Longrightarrow> tab m' root q = Some x"
    and "\<not> present (entry m t i) \<Longrightarrow> hw_walk m' root (path va) True = hw_walk m root (path va) True"
proof -
  note t = tree_changeD [OF tc]
  show fwd: "tab m' root q = Some x" if "idx_path q" "tab m root q = Some x" for q x
    using tab_same [OF tc, of "[]" root q x] that old(1) by simp
  show child: "tab m' root (p @ [i]) = Some f" using fwd [OF t(3,2)] new(1-3) by (simp add: tab_snoc)
  have none: "tab m' f ks = Some y \<Longrightarrow> idx_path (p @ i # ks) \<Longrightarrow> ks = []" for ks y
    using sp by (cases ks) (auto simp: splits_def idx_path_def Let_def split: if_splits)
  show bk: "q = p @ [i] \<and> x = f \<or> tab m root q = Some x" if "idx_path q" "tab m' root q = Some x" for q x
  proof -
    have "tab m root q = Some x \<or> (\<exists>ks. [] @ q = p @ i # ks \<and> tab m' t (i # ks) = Some x)"
      using tab_back [OF tc, of "[]" root q x] that by simp
    then show ?thesis
    proof
      assume "\<exists>ks. [] @ q = p @ i # ks \<and> tab m' t (i # ks) = Some x"
      then obtain ks where ks: "q = p @ i # ks" "tab m' f ks = Some x" using new(1-3) by (auto simp: Let_def)
      moreover have "ks = []" using none [OF ks(2)] that(1) ks(1) by simp
      ultimately show ?thesis by simp
    qed simp
  qed
  have nf: "tab m root q \<noteq> Some f" if "idx_path q" for q using t(5) [of f] that by (auto simp: in_tree_def)
  have fr: "frame root" by (rule tree_okD(1) [OF t(1)])
  have "\<not> huge (entry m' root j)" if "j < 512" for j
  proof (cases "root = t \<and> j = i")
    case False
    have "root \<noteq> f" using nf [of "[]"] by (auto simp: idx_path_def)
    then show ?thesis using t(6) fr that False tree_okD(3) [OF t(1) that] by (auto simp: changes_def)
  qed (use new(2) in simp)
  moreover have "q = q'" if "idx_path q" "idx_path q'" "tab m' root q = Some x" "tab m' root q' = Some x" for q q' x
    using bk [OF that(1,3)] bk [OF that(2,4)] nf that(1,2) tree_okD(2) [OF t(1) that(1,2)] by auto
  ultimately show "tree_ok m' root" using fr unfolding tree_ok_def by blast
  show "kept (hw_translate m root va) (hw_translate m' root va)"
  proof -
    have "kept (map_option (target va) (hw_walk m root (path va) True)) (map_option (target va) (hw_walk m' root (path va) True))"
    proof (rule walk_same [OF tc, of "[]" root "path va" "\<lambda>r r'. kept (map_option (target va) r) (map_option (target va) r')"])
      fix js w' assume pa: "[] @ path va = p @ i # js"
      show "kept (map_option (target va) (hw_walk m t (i # js) w')) (map_option (target va) (hw_walk m' t (i # js) w'))"
        by (rule graft_target [OF _ new sp old(1)]) (use pa p in simp_all)
    qed (use path_lt in auto)
    then show ?thesis by (simp add: hw_translate_def)
  qed
  show "hw_walk m' root (path va) True = hw_walk m root (path va) True" if np: "\<not> present (entry m t i)"
  proof -
    have "hw_walk m root (path va) True = hw_walk m' root (path va) True"
    proof (rule walk_same [OF tc, of "[]" root "path va" "(=)"])
      fix js w' assume pa: "[] @ path va = p @ i # js"
      then obtain j js' where js: "js = j # js'" using p path_length [of va] by (cases js) (auto simp del: path_length)
      then have "\<not> present (entry m' f j)" using sp np path_lt [of va] pa by (auto simp: splits_def)
      then show "hw_walk m t (i # js) w' = hw_walk m' t (i # js) w'" using np new js by (simp add: Let_def)
    qed (use path_lt in auto)
    then show ?thesis by simp
  qed
qed

section \<open>Splitting huge pages\<close>

lemma addr_mask: "PTE_ADDR_MASK = push_bit 12 (mask 40)"
  by (simp add: PTE_ADDR_MASK_def mask_eq_exp_minus_1)

lemma small_bits: "j < 512 \<Longrightarrow> bit (of_nat j :: u64) n \<Longrightarrow> n < 9"
proof -
  assume j: "j < 512" "bit (of_nat j :: u64) n"
  then have "take_bit 9 (of_nat j :: u64) = of_nat j" by (simp add: take_bit_of_nat take_bit_nat_eq_self)
  then show "n < 9" using j(2) by (metis bit_take_bit_iff)
qed

lemma sub_add:
  assumes "j < 512" and "\<And>n. bit base n \<Longrightarrow> b + 9 \<le> n"
  shows "base + push_bit b (of_nat j) = base OR push_bit b (of_nat j :: u64)"
proof -
  have "base AND push_bit b (of_nat j) = 0"
    using small_bits [OF assms(1)] assms(2) by (intro bit_eqI) (fastforce simp: bit_simps)
  then show ?thesis by (rule disjunctive_add_eq_or)
qed

lemma sub_page:
  assumes "b \<le> 43" and "12 \<le> b" and "j < 512" and base: "\<And>n. bit base n \<longleftrightarrow> bit e n \<and> b + 9 \<le> n \<and> n < c" and "52 \<le> c"
    and fl: "\<And>n. 12 \<le> n \<Longrightarrow> n < 52 \<Longrightarrow> \<not> bit fl n"
  shows "((base + push_bit b (of_nat j)) OR fl) AND PTE_ADDR_MASK AND NOT (mask b) =
    (e AND PTE_ADDR_MASK AND NOT (mask (b + 9))) OR push_bit b (of_nat j :: u64)"
proof -
  note sb = small_bits [OF assms(3)]
  have or: "base + push_bit b (of_nat j) = base OR push_bit b (of_nat j)" using sub_add [OF assms(3)] base by blast
  show ?thesis
  proof (rule bit_eqI)
    fix n assume n: "possible_bit TYPE(u64) n"
    define J where "J \<longleftrightarrow> b \<le> n \<and> bit (of_nat j :: u64) (n - b)"
    have J: "J \<Longrightarrow> n < b + 9" "J \<Longrightarrow> b \<le> n" using sb [of "n - b"] by (auto simp: J_def)
    have m: "bit PTE_ADDR_MASK n \<longleftrightarrow> 12 \<le> n \<and> n < 52" by (auto simp: addr_mask bit_simps)
    have p: "bit (push_bit b (of_nat j :: u64)) n \<longleftrightarrow> J" using n by (simp add: bit_simps J_def)
    show "bit (((base + push_bit b (of_nat j)) OR fl) AND PTE_ADDR_MASK AND NOT (mask b)) n =
        bit ((e AND PTE_ADDR_MASK AND NOT (mask (b + 9))) OR push_bit b (of_nat j)) n"
      unfolding or using assms(1,2,5) J fl [of n] n by (auto simp: bit_or_iff bit_and_iff bit_not_iff bit_mask_iff base m p)
  qed
qed

lemma pte_bit:
  "e AND PTE_PRESENT = 0 \<longleftrightarrow> \<not> bit e 0" "e AND PTE_WRITABLE = 0 \<longleftrightarrow> \<not> bit e 1" "e AND PTE_USER = 0 \<longleftrightarrow> \<not> bit e 2"
  "e AND PTE_HUGE = 0 \<longleftrightarrow> \<not> bit e 7"
  using and_exp_eq_0_iff_not_bit [of e 0] and_exp_eq_0_iff_not_bit [of e 1] and_exp_eq_0_iff_not_bit [of e 2] and_exp_eq_0_iff_not_bit [of e 7]
  by (simp_all add: pte_bits)

lemma bit_pte_flag:
  "bit PTE_PRESENT n \<longleftrightarrow> n = 0" "bit PTE_WRITABLE n \<longleftrightarrow> n = 1" "bit PTE_USER n \<longleftrightarrow> n = 2" "bit PTE_HUGE n \<longleftrightarrow> n = 7"
proof -
  have "bit (2 ^ k :: u64) n \<longleftrightarrow> n = k" if "k < 64" for k using that by (auto simp: bit_exp_iff)
  from this [of 0] this [of 1] this [of 2] this [of 7]
  show "bit PTE_PRESENT n \<longleftrightarrow> n = 0" "bit PTE_WRITABLE n \<longleftrightarrow> n = 1" "bit PTE_USER n \<longleftrightarrow> n = 2" "bit PTE_HUGE n \<longleftrightarrow> n = 7"
    by (simp_all add: pte_bits)
qed

lemma low_bits:
  assumes "j < 512" and "\<And>n. bit base n \<Longrightarrow> b + 9 \<le> n" and "n < b"
  shows "bit ((base + push_bit b (of_nat j :: u64)) OR fl) n = bit fl n"
proof -
  have "\<not> bit base n" using assms(2) [of n] assms(3) by auto
  moreover have "base + push_bit b (of_nat j) = base OR push_bit b (of_nat j)" by (rule sub_add) (use assms(1,2) in auto)
  ultimately show ?thesis using assms(3) by (simp add: bit_or_iff bit_push_bit_iff)
qed

text \<open>The entries that the code writes when it splits a page of 2 MiB, and one of 1 GiB.\<close>

lemma split_2m:
  "splits 1 e (\<lambda>j. ((e AND push_bit 21 0xFFFFFFFFFF) + of_nat j * 4096) OR ((e AND 0x7F) AND NOT PTE_USER))"
proof -
  define base where "base = e AND push_bit 21 0xFFFFFFFFFF"
  define fl where "fl = (e AND 0x7F) AND NOT PTE_USER"
  have bits: "push_bit 21 0xFFFFFFFFFF = (push_bit 21 (mask 40) :: u64)" "0x7F = (mask 7 :: u64)" by (simp_all add: mask_eq_exp_minus_1)
  have base: "bit base n \<longleftrightarrow> bit e n \<and> 21 \<le> n \<and> n < 61" for n unfolding base_def bits by (auto simp: bit_simps)
  have fl: "bit fl n \<longleftrightarrow> bit e n \<and> n < 7 \<and> n \<noteq> 2" for n
    unfolding fl_def bits by (auto simp: bit_and_iff bit_not_iff bit_mask_iff bit_pte_flag)
  have sh: "of_nat j * 4096 = push_bit 12 (of_nat j :: u64)" for j by (simp add: push_bit_eq_mult)
  have low: "bit ((base + push_bit 12 (of_nat j)) OR fl) n \<longleftrightarrow> bit fl n" if "j < 512" "n < 12" for n j
    using low_bits [OF that(1), of base 12] that(2) base by auto
  show ?thesis unfolding splits_def sh base_def [symmetric] fl_def [symmetric]
    using sub_page [of 12 _ base e 61 fl] by (auto simp: pte_bit low fl base)
qed

lemma split_1g:
  assumes "huge e"
  shows "splits 2 e (\<lambda>j. ((e AND push_bit 30 0xFFFFFFFFFF) + of_nat j * 0x200000) OR (((e AND NOT PTE_ADDR_MASK) OR PTE_HUGE) AND NOT PTE_USER))"
proof -
  define base where "base = e AND push_bit 30 0xFFFFFFFFFF"
  define fl where "fl = ((e AND NOT PTE_ADDR_MASK) OR PTE_HUGE) AND NOT PTE_USER"
  have bits: "push_bit 30 0xFFFFFFFFFF = (push_bit 30 (mask 40) :: u64)" by (simp add: mask_eq_exp_minus_1)
  have base: "bit base n \<longleftrightarrow> bit e n \<and> 30 \<le> n \<and> n < 64" for n
    unfolding base_def bits using bit_imp_le_length [of e n] by (auto simp: bit_simps)
  have fl: "bit fl n \<longleftrightarrow> (bit e n \<and> (n < 12 \<or> 52 \<le> n) \<or> n = 7) \<and> n \<noteq> 2" for n
    unfolding fl_def addr_mask using bit_imp_le_length [of e n]
    by (auto simp: bit_and_iff bit_or_iff bit_not_iff bit_push_bit_iff bit_mask_iff bit_pte_flag)
  have sh: "of_nat j * 0x200000 = push_bit 21 (of_nat j :: u64)" for j by (simp add: push_bit_eq_mult)
  have low: "bit ((base + push_bit 21 (of_nat j)) OR fl) n \<longleftrightarrow> bit fl n" if "j < 512" "n < 12" for n j
    using low_bits [OF that(1), of base 21] that(2) base by auto
  show ?thesis unfolding splits_def sh base_def [symmetric] fl_def [symmetric]
    using sub_page [of 21 _ base e 64 fl] assms by (auto simp: pte_bit low fl base)
qed

section \<open>Bytes outside the written frames\<close>

definition page :: "u64 \<Rightarrow> u64" where
  "page pa = pa AND NOT (mask 12)"

lemma frame_bits: "frame n \<longleftrightarrow> n AND mask 12 = 0"
proof -
  have "frame n \<longleftrightarrow> take_bit 12 (unat n) = 0" by (simp add: frame_def take_bit_eq_mod dvd_eq_mod_eq_0)
  also have "\<dots> \<longleftrightarrow> take_bit 12 n = 0" by (metis unsigned_take_bit_eq unsigned_0 unsigned_word_eqI)
  finally show ?thesis by (simp add: take_bit_eq_mask)
qed

lemma page_offset:
  assumes "frame n" and "k < 4096"
  shows "page (n + of_nat k) = n"
proof -
  have nb: "bit n j \<Longrightarrow> 12 \<le> j" for j using arg_cong [OF assms(1) [unfolded frame_bits], of "\<lambda>x. bit x j"] by (fastforce simp: bit_simps)
  have "take_bit 12 k = k" using assms(2) by (simp add: take_bit_nat_eq_self)
  then have kb: "bit (of_nat k :: u64) j \<Longrightarrow> j < 12" for j by (metis bit_of_nat_iff bit_take_bit_iff)
  have "n AND of_nat k = 0" using nb kb by (intro bit_eqI) (fastforce simp: bit_simps)
  then have "n + of_nat k = n OR of_nat k" by (rule disjunctive_add_eq_or)
  then show ?thesis unfolding page_def using nb kb
    by (intro bit_eqI) (fastforce simp: bit_and_iff bit_or_iff bit_not_iff bit_mask_iff)
qed

lemma write_page:
  assumes "frame n" and "length bs \<le> 4096" and "page pa \<noteq> n"
  shows "mem_write m n bs pa = m pa"
proof -
  have "\<not> unat (pa - n) < length bs"
  proof
    assume "unat (pa - n) < length bs"
    then have "page (n + of_nat (unat (pa - n))) = n" using page_offset [OF assms(1), of "unat (pa - n)"] assms(2) by simp
    then show False using assms(3) by simp
  qed
  then show ?thesis by (simp add: mem_write_def Let_def)
qed

lemma put_page:
  assumes "frame t" and "i < 512" and "page pa \<noteq> t"
  shows "put_entry m t i v pa = m pa"
proof -
  have "\<not> unat (pa - (t + of_nat (8 * i))) < 8"
  proof
    assume h: "unat (pa - (t + of_nat (8 * i))) < 8"
    define k where "k = unat (pa - (t + of_nat (8 * i)))"
    have "pa = t + of_nat (8 * i + k)" by (simp add: k_def)
    then have "page pa = t" using page_offset [OF assms(1), of "8 * i + k"] h assms(2) unfolding k_def by simp
    then show False using assms(3) by simp
  qed
  then show ?thesis by (simp add: put_entry_def store_def mem_write_def Let_def)
qed

end
