(* ===== verification/Paging_Map.thy ===== *)
theory Paging_Map
  imports Paging_Tables
begin

text \<open>
  Mapping into an address space: the frames that the page allocator hands out are fresh, so a new table changes no other
  translation, and the code's walks agree with the processor's.
\<close>

unbundle bit_operations_syntax

section \<open>A source of fresh frames\<close>

text \<open>\<open>A\<close> covers the addresses that can still be handed out. The page table entries have room for the address of every frame.\<close>

definition in_pte :: "u64 \<Rightarrow> bool" where
  "in_pte p \<longleftrightarrow> p AND PTE_ADDR_MASK = p"

lemma in_pte_frame: "in_pte p \<Longrightarrow> frame p"
  by (metis frame_mask in_pte_def)

locale frame_source =
  fixes inv :: "'s \<Rightarrow> nat set \<Rightarrow> bool"
    and grab :: "'s \<Rightarrow> u64 option \<times> 's"
  assumes grab_some: "inv s A \<Longrightarrow> grab s = (Some p, s') \<Longrightarrow> in_pte p \<and> span p 0 \<subseteq> A \<and> inv s' (A - span p 0)"
    and grab_none: "inv s A \<Longrightarrow> grab s = (None, s') \<Longrightarrow> inv s' A"
begin

text \<open>A frame that is in use is not handed out, and stays in use.\<close>

lemma grab_fresh: "inv s A \<Longrightarrow> grab s = (Some p, s') \<Longrightarrow> unat t \<notin> A \<Longrightarrow> p \<noteq> t"
  using grab_some [of s A p s'] span_nonempty [of p 0] by (metis subsetD)

lemma grab_shrinks: "inv s A \<Longrightarrow> grab s = (r, s') \<Longrightarrow> \<exists>A'. A' \<subseteq> A \<and> inv s' A'"
  using grab_some [of s A _ s'] grab_none [of s A s'] by (cases r) blast+

end

definition frames_inv :: "buddy \<Rightarrow> nat set \<Rightarrow> bool" where
  "frames_inv b A \<longleftrightarrow> top_addr b \<le> 2 ^ 52 \<and> q_inv b \<and> distinct (q_elems b) \<and> (\<exists>L. buddy_inv b L \<and> free_space L \<subseteq> A \<and>
     (\<forall>a \<in> set (q_elems b). block_ok b a 0 \<and> span a 0 \<subseteq> A \<and> span a 0 \<inter> free_space L = {}))"

definition same_queue :: "buddy \<Rightarrow> buddy \<Rightarrow> bool" where
  "same_queue b b' \<longleftrightarrow> quarantine b' = quarantine b \<and> q_head b' = q_head b \<and> q_count b' = q_count b \<and> alloc_base b' = alloc_base b \<and>
     alloc_pages b' = alloc_pages b"

lemma same_queue_facts:
  assumes "same_queue b b'"
  shows "q_elems b' = q_elems b" and "q_inv b' = q_inv b" and "block_ok b' = block_ok b" and "top_addr b' = top_addr b"
proof -
  show q: "q_elems b' = q_elems b" using assms by (intro q_elems_cong) (simp_all add: same_queue_def)
  show "q_inv b' = q_inv b" using assms by (simp add: q_inv_def q q_ok_def same_queue_def)
  show "block_ok b' = block_ok b" using assms by (simp add: block_ok_def top_addr_def same_queue_def fun_eq_iff)
  show "top_addr b' = top_addr b" using assms by (simp add: top_addr_def same_queue_def)
qed

lemma same_queue_trans: "same_queue a b \<Longrightarrow> same_queue b c \<Longrightarrow> same_queue a c"
  by (simp add: same_queue_def)

lemma same_queue_split: "same_queue b (split_block b a ks)"
proof (induction b a ks rule: split_block.induct)
  case (2 b a so sos)
  have "same_queue b (push_block b (a + block_size so) so)" by (simp add: same_queue_def push_block_def)
  then show ?case using 2 same_queue_trans by (auto simp: Let_def)
qed (simp add: same_queue_def)

lemma same_queue_take: "same_queue b (snd (take_block b order k))"
  unfolding take_block_def Let_def
  by (simp, rule same_queue_trans, rule same_queue_trans [OF _ same_queue_split]) (simp_all add: same_queue_def)

lemma same_queue_scan: "same_queue b (snd (alloc_scan b order n ks))"
proof (induction b order n ks rule: alloc_scan.induct)
  case (2 b order n k ks)
  have "same_queue (b\<lparr>free_lists := l\<rparr>) c = same_queue b c" "same_queue b b" "same_queue b (b\<lparr>free_lists := l\<rparr>)" for l c
    by (simp_all add: same_queue_def)
  then show ?case using 2 same_queue_take [of b order k] by (auto simp: Let_def split: prod.splits)
qed (simp add: same_queue_def)

lemma same_queue_marks:
  "same_queue b (pte_refc_inc b' a) = same_queue b b'" "same_queue b (page_type_set b' a t) = same_queue b b'"
  "same_queue b (zero_page b' a) = same_queue b b'" "same_queue b (untrack_freed_page b' a) = same_queue b b'"
  "same_queue b (used_mark b' k) = same_queue b b'"
  by (simp_all add: same_queue_def zero_page_def)

lemma page_spans:
  assumes "block_ok b a 0" and "block_ok b c 0" and "a \<noteq> c"
  shows "span a 0 \<inter> span c 0 = {}"
proof -
  obtain x y where "unat a = 4096 * x" "unat c = 4096 * y" using assms(1,2) by (auto simp: block_ok_def elim!: dvdE)
  moreover have "unat a \<noteq> unat c" using assms(3) by (simp add: word_unat_eq_iff)
  ultimately show ?thesis by (auto simp: span_def)
qed

lemma block_in_pte:
  assumes "block_ok b p 0" and "top_addr b \<le> 2 ^ 52"
  shows "in_pte p"
proof -
  have "unat p < 2 ^ 52" "4096 dvd unat p" using assms by (auto simp: block_ok_def)
  then have "take_bit 52 (unat p) = unat p" "take_bit 12 (unat p) = 0" by (auto simp: take_bit_eq_mod mod_eq_0_iff_dvd)
  then have "take_bit 52 p = p" "take_bit 12 p = 0" by (metis unsigned_take_bit_eq word_unat_eq_iff unsigned_0)+
  then have "bit p n \<Longrightarrow> 12 \<le> n \<and> n < 52" for n by (metis bit_take_bit_iff bit_0_eq bot_apply not_le bot_bool_def)
  then show ?thesis unfolding in_pte_def addr_mask by (intro bit_eqI) (fastforce simp: bit_simps)
qed

lemma buddy_grab:
  assumes inv: "frames_inv b A" and al: "alloc b 0 = (r, b')"
  shows "case r of Some p \<Rightarrow> in_pte p \<and> span p 0 \<subseteq> A \<and> frames_inv b' (A - span p 0) | None \<Rightarrow> frames_inv b' A"
proof -
  obtain L where L: "buddy_inv b L" "free_space L \<subseteq> A" "top_addr b \<le> 2 ^ 52" "q_inv b" "distinct (q_elems b)"
    "\<forall>a \<in> set (q_elems b). block_ok b a 0 \<and> span a 0 \<subseteq> A \<and> span a 0 \<inter> free_space L = {}"
    using inv by (auto simp: frames_inv_def)
  obtain L' where L': "alloc_post b L 0 [0..<MAX_ORDER + 1] r b' L'" using alloc_posts [OF L(1) al] by blast
  have "same_queue b b'" using same_queue_scan [of b 0 0 "[0..<MAX_ORDER + 1]"] al by (simp add: alloc_def alloc_nolock_def)
  note q = same_queue_facts [OF this]
  show ?thesis
  proof (cases r)
    case None
    then have "buddy_inv b' L'" "free_space L' \<subseteq> free_space L" using L' by (auto simp: alloc_post_def)
    then have "frames_inv b' A" using L unfolding frames_inv_def q by blast
    then show ?thesis using None by simp
  next
    case (Some p)
    then have p: "buddy_inv b' L'" "block_ok b p 0" "span p 0 \<subseteq> free_space L" "free_space L' \<subseteq> free_space L - span p 0"
      using L' by (auto simp: alloc_post_def)
    then have "frames_inv b' (A - span p 0)" using L unfolding frames_inv_def q by blast
    moreover have "span p 0 \<subseteq> A" using p(3) L(2) by blast
    ultimately show ?thesis using Some block_in_pte [OF p(2) L(3)] by simp
  qed
qed

lemma frames_inv_cong:
  assumes "same_queue b b'" and "free_lists b' = free_lists b" and "hdr b' = hdr b"
  shows "frames_inv b' A = frames_inv b A"
proof -
  have "buddy_inv b' L = buddy_inv b L" for L using assms by (intro buddy_inv_cong) (simp_all add: same_queue_def)
  then show ?thesis using same_queue_facts [OF assms(1)] by (simp add: frames_inv_def)
qed

lemma frames_inv_marks [simp]:
  "frames_inv (pte_refc_inc b a) A = frames_inv b A" "frames_inv (page_type_set b a t) A = frames_inv b A"
  "frames_inv (untrack_freed_page b a) A = frames_inv b A" "frames_inv (used_mark b k) A = frames_inv b A"
  by (rule frames_inv_cong; simp add: same_queue_def)+

lemma frames_inv_zero:
  assumes "frames_inv b A" and "span a 0 \<inter> A = {}"
  shows "frames_inv (zero_page b a) A"
proof -
  obtain L where L: "buddy_inv b L" "free_space L \<subseteq> A" "top_addr b \<le> 2 ^ 52" "q_inv b" "distinct (q_elems b)"
    "\<forall>a \<in> set (q_elems b). block_ok b a 0 \<and> span a 0 \<subseteq> A \<and> span a 0 \<inter> free_space L = {}"
    using assms(1) by (auto simp: frames_inv_def)
  have "same_queue b (zero_page b a)" by (simp add: same_queue_def zero_page_def)
  note q = same_queue_facts [OF this]
  have "span a 0 \<inter> free_space L = {}" using L(2) assms(2) by blast
  then have "buddy_inv (zero_page b a) L" using buddy_inv_hdr_other [OF L(1)] not_listed by (simp add: zero_page_def)
  then show ?thesis using L unfolding frames_inv_def q by blast
qed

lemma q_pop_nil: "q_elems b = [] \<Longrightarrow> q_pop b = (None, b)"
  by (subst q_pop.simps) (simp add: q_elems_def)

lemma zeroed_grab:
  assumes inv: "frames_inv b A" and al: "alloc_zeroed_page b = (r, b')"
  shows "case r of Some p \<Rightarrow> in_pte p \<and> span p 0 \<subseteq> A \<and> frames_inv b' (A - span p 0) | None \<Rightarrow> frames_inv b' A"
proof (cases "q_elems b")
  case Nil
  obtain r1 b1 where r1: "alloc b 0 = (r1, b1)" by fastforce
  note g = buddy_grab [OF inv r1]
  show ?thesis
  proof (cases r1)
    case None
    then show ?thesis using g al r1 by (simp add: alloc_zeroed_page_def q_pop_nil [OF Nil] alloc_def)
  next
    case (Some p)
    then have b': "r = Some p" "b' = pte_refc_inc (page_type_set (zero_page b1 p) p PAGE_TYPE_PTE) p"
      using al r1 by (simp_all add: alloc_zeroed_page_def q_pop_nil [OF Nil] alloc_def)
    have "frames_inv (zero_page b1 p) (A - span p 0)" by (rule frames_inv_zero) (use g Some in auto)
    then show ?thesis using g Some b' by simp
  qed
next
  case (Cons x xs)
  obtain L where L: "buddy_inv b L" "free_space L \<subseteq> A" "top_addr b \<le> 2 ^ 52" "q_inv b" "distinct (q_elems b)"
    "\<forall>a \<in> set (q_elems b). block_ok b a 0 \<and> span a 0 \<subseteq> A \<and> span a 0 \<inter> free_space L = {}"
    using inv by (auto simp: frames_inv_def)
  have pop: "q_pop b = (Some x, pte_refc_inc (q_popped b) x)" "q_elems (q_popped b) = xs"
    using q_pop_elems [of b x xs] L(4) Cons by (auto simp: q_inv_def)
  have x: "block_ok b x 0" "span x 0 \<subseteq> A" "span x 0 \<inter> free_space L = {}" using L(6) Cons by auto
  have sp: "span x 0 \<inter> span a 0 = {}" if "a \<in> set xs" for a using page_spans [OF x(1), of a] L(5,6) Cons that by auto
  have "buddy_inv (q_popped b) L" using L(1) by (subst buddy_inv_cong [of _ b]) (simp_all add: q_popped_def)
  moreover have "block_ok (q_popped b) = block_ok b" "top_addr (q_popped b) = top_addr b" "q_ok (q_popped b) = q_ok b"
    by (simp_all add: q_popped_def block_ok_def top_addr_def q_ok_def fun_eq_iff)
  moreover have "q_inv (q_popped b)" using L(4) Cons pop(2) by (auto simp: q_inv_def q_ok_def q_popped_def)
  ultimately have f: "frames_inv (q_popped b) (A - span x 0)"
    unfolding frames_inv_def pop(2) using L x(3) Cons sp
    by (intro conjI exI [of _ L]) (simp_all, blast+)
  have "r = Some x" "\<exists>k. b' = used_mark (untrack_freed_page (pte_refc_inc (page_type_set (zero_page (pte_refc_inc (q_popped b) x) x) x PAGE_TYPE_PTE) x) x) k"
    using al pop by (auto simp: alloc_zeroed_page_def Let_def)
  moreover have "frames_inv (zero_page (pte_refc_inc (q_popped b) x) x) (A - span x 0)"
    by (rule frames_inv_zero) (use f in auto)
  ultimately show ?thesis using x(2) block_in_pte [OF x(1) L(3)] by auto
qed

interpretation data_frames: frame_source frames_inv "\<lambda>b. alloc b 0"
  by unfold_locales (use buddy_grab in fastforce)+

interpretation table_frames: frame_source frames_inv alloc_zeroed_page
  by unfold_locales (use zeroed_grab in fastforce)+

end
