(* ===== verification/Paging_Space.thy ===== *)
theory Paging_Space
  imports Paging_Map
begin

text \<open>
  Mapping and unmapping in an address space: every operation keeps the tree of tables, apart from the frames that can still be handed
  out, and changes the translation of one page only.
\<close>

unbundle bit_operations_syntax

section \<open>Address spaces\<close>

definition space_ok :: "paging \<Rightarrow> u64 \<Rightarrow> nat set \<Rightarrow> bool" where
  "space_ok s root A \<longleftrightarrow> tree_ok (pg_mem s) root \<and> frames_inv (pg_buddy s) A \<and> (\<forall>t. in_tree (pg_mem s) root t \<longrightarrow> unat t \<notin> A)"

lemma space_okD:
  assumes "space_ok s root A"
  shows "tree_ok (pg_mem s) root" and "frames_inv (pg_buddy s) A" and "idx_path q \<Longrightarrow> tab (pg_mem s) root q = Some t \<Longrightarrow> unat t \<notin> A"
    and "frame root"
  using assms tree_okD(1) by (auto simp: space_ok_def in_tree_def)

lemma frame_not_in_tree: "space_ok s root A \<Longrightarrow> span f 0 \<subseteq> A \<Longrightarrow> \<not> in_tree (pg_mem s) root f"
  using span_nonempty [of f 0] unfolding space_ok_def by (metis subsetD)

lemma alloc_page_cases:
  assumes "frames_inv (pg_buddy s) A" and "alloc_page s = (r, s1)"
  obtains (oom) "r = Inl ''OOM''" "pg_mem s1 = pg_mem s" "frames_inv (pg_buddy s1) A"
  | (got) f where "r = Inr f" "in_pte f" "span f 0 \<subseteq> A" "frames_inv (pg_buddy s1) (A - span f 0)"
      "pg_mem s1 = mem_write (pg_mem s) f (replicate 4096 0)"
proof -
  obtain x b where x: "alloc_zeroed_page (pg_buddy s) = (x, b)" by fastforce
  show thesis
  proof (cases x)
    case None
    then show thesis using oom assms(2) x table_frames.grab_none [OF assms(1)] by (auto simp: alloc_page_def alloc_page_table_def)
  next
    case (Some f)
    then show thesis using got assms(2) x table_frames.grab_some [OF assms(1), of f b]
      by (auto simp: alloc_page_def alloc_page_table_def zero_frame_def)
  qed
qed

text \<open>A step that writes only to tables of the address space and to frames that were free.\<close>

definition confined :: "paging \<Rightarrow> paging \<Rightarrow> u64 \<Rightarrow> nat set \<Rightarrow> bool" where
  "confined s s' root A \<longleftrightarrow> (\<forall>x. in_tree (pg_mem s') root x \<longrightarrow> in_tree (pg_mem s) root x \<or> unat x \<in> A) \<and>
     (\<forall>pa. unat (page pa) \<notin> A \<longrightarrow> \<not> in_tree (pg_mem s) root (page pa) \<longrightarrow> pg_mem s' pa = pg_mem s pa)"

lemma confined_trans: "confined s s1 root A \<Longrightarrow> confined s1 s2 root A' \<Longrightarrow> A' \<subseteq> A \<Longrightarrow> confined s s2 root A"
  unfolding confined_def by (metis subsetD)

lemma confined_same_mem: "pg_mem s' = pg_mem s \<Longrightarrow> confined s s' root A"
  by (simp add: confined_def)

text \<open>What a step on the way to a table leaves: the translations, and the table at path \<open>p\<close> if it has a result.\<close>

definition opened :: "paging \<Rightarrow> u64 \<Rightarrow> nat set \<Rightarrow> nat list \<Rightarrow> string + u64 \<Rightarrow> paging \<Rightarrow> bool" where
  "opened s root A p r s' \<longleftrightarrow> (\<forall>va. kept (hw_translate (pg_mem s) root va) (hw_translate (pg_mem s') root va)) \<and>
     (\<exists>A' \<subseteq> A. space_ok s' root A') \<and> confined s s' root A \<and> (case r of Inl e \<Rightarrow> e = ''OOM'' | Inr t \<Rightarrow> tab (pg_mem s') root p = Some t)"

lemma opened_oom:
  assumes "space_ok s root A" and "pg_mem s1 = pg_mem s" and "frames_inv (pg_buddy s1) A"
  shows "opened s root A p (Inl ''OOM'') s1"
  using assms confined_same_mem [OF assms(2)] by (auto simp: opened_def space_ok_def)

lemma opened_same:
  assumes "space_ok s root A" and "tab (pg_mem s) root p = Some t"
  shows "opened s root A p (Inr t) s"
  using assms confined_same_mem [of s s] by (auto simp: opened_def)

abbreviation table_entry :: "u64 \<Rightarrow> u64" where
  "table_entry f \<equiv> f OR PTE_PRESENT OR PTE_WRITABLE OR PTE_USER"

lemma in_pte_bit: "in_pte f \<Longrightarrow> bit f n \<Longrightarrow> 12 \<le> n \<and> n < 52"
proof -
  assume "in_pte f" "bit f n"
  then have "bit (f AND push_bit 12 (mask 40)) n" by (simp add: in_pte_def addr_mask)
  then show ?thesis by (auto simp: bit_simps)
qed

lemma table_entry_bits:
  assumes "in_pte f"
  shows "present (table_entry f)" and "\<not> huge (table_entry f)" and "table_entry f AND PTE_ADDR_MASK = f"
    and "table_entry f AND PTE_WRITABLE \<noteq> 0"
proof -
  note f = in_pte_bit [OF assms]
  show "present (table_entry f)" "\<not> huge (table_entry f)" "table_entry f AND PTE_WRITABLE \<noteq> 0"
    using f [of 7] by (auto simp: pte_bit bit_or_iff bit_pte_flag)
  show "table_entry f AND PTE_ADDR_MASK = f" unfolding addr_mask
    using f by (intro bit_eqI) (fastforce simp: bit_and_iff bit_or_iff bit_push_bit_iff bit_mask_iff bit_pte_flag)
qed

lemma opened_graft:
  assumes sp: "space_ok s root A" and t: "tab (pg_mem s) root p = Some t" "idx_path p" "length p \<le> 2" "i < 512"
    and f: "in_pte f" "span f 0 \<subseteq> A" "frames_inv (pg_buddy s') (A - span f 0)"
    and old: "\<not> (present (entry (pg_mem s) t i) \<and> \<not> huge (entry (pg_mem s) t i))"
    and ent: "\<And>x j. frame x \<Longrightarrow> j < 512 \<Longrightarrow> entry (pg_mem s') x j =
        (if x = t \<and> j = i then table_entry f else if x = f then g j else entry (pg_mem s) x j)"
    and sl: "splits (3 - length p) (entry (pg_mem s) t i) g"
    and ub: "\<And>pa. page pa \<noteq> t \<Longrightarrow> page pa \<noteq> f \<Longrightarrow> pg_mem s' pa = pg_mem s pa"
  shows "opened s root A (p @ [i]) (Inr f) s'"
    and "\<not> present (entry (pg_mem s) t i) \<Longrightarrow> hw_walk (pg_mem s') root (path va) True = hw_walk (pg_mem s) root (path va) True"
proof -
  note D = space_okD [OF sp]
  have nf: "\<not> in_tree (pg_mem s) root f" by (rule frame_not_in_tree [OF sp f(2)])
  have ft: "frame t" by (rule tab_frame [OF D(4) t(1)])
  have tf: "t \<noteq> f" using nf t(1,2) by (auto simp: in_tree_def)
  have tc: "tree_change (pg_mem s) (pg_mem s') root t p i {f}"
    using D(1) t nf ent by (auto simp: tree_change_def changes_def)
  have e: "entry (pg_mem s') t i = table_entry f" using ent [OF ft t(4)] by simp
  have "splits (3 - length p) (entry (pg_mem s) t i) (entry (pg_mem s') f)"
    using sl ent [OF in_pte_frame [OF f(1)]] tf by (simp add: splits_def)
  moreover have "huge (entry (pg_mem s) t i) \<Longrightarrow> p \<noteq> []" using tree_okD(3) [OF D(1) t(4)] t(1) by auto
  ultimately have G: "tree_ok (pg_mem s') root" "\<And>va. kept (hw_translate (pg_mem s) root va) (hw_translate (pg_mem s') root va)"
      "tab (pg_mem s') root (p @ [i]) = Some f"
      "\<And>q x. idx_path q \<Longrightarrow> tab (pg_mem s') root q = Some x \<Longrightarrow> q = p @ [i] \<and> x = f \<or> tab (pg_mem s) root q = Some x"
      "\<not> present (entry (pg_mem s) t i) \<Longrightarrow> hw_walk (pg_mem s') root (path va) True = hw_walk (pg_mem s) root (path va) True"
    using graft [OF tc t(3) in_pte_frame [OF f(1)] old] table_entry_bits [OF f(1)] unfolding e by blast+
  have "unat x \<notin> A - span f 0" if "in_tree (pg_mem s') root x" for x
    using that G(4) D(3) span_nonempty [of f 0] unfolding in_tree_def by blast
  moreover have "confined s s' root A"
  proof -
    have fA: "unat f \<in> A" using f(2) span_nonempty [of f 0] by blast
    have "in_tree (pg_mem s) root t" using t(1,2) by (auto simp: in_tree_def)
    then have "pg_mem s' pa = pg_mem s pa" if "unat (page pa) \<notin> A" "\<not> in_tree (pg_mem s) root (page pa)" for pa using ub [of pa] that fA by auto
    then show ?thesis using G(4) fA unfolding confined_def in_tree_def by blast
  qed
  ultimately show "opened s root A (p @ [i]) (Inr f) s'" using G(1-3) f(3) by (auto simp: opened_def space_ok_def)
  show "\<not> present (entry (pg_mem s) t i) \<Longrightarrow> hw_walk (pg_mem s') root (path va) True = hw_walk (pg_mem s) root (path va) True" by (rule G(5))
qed

lemma put_after_zero:
  assumes "in_pte f" and "frame t" and "i < 512" and "frame x" and "j < 512" and "t \<noteq> f"
  shows "entry (pg_mem (set_pte (zero_frame s1 f) t i v)) x j =
      (if x = t \<and> j = i then v else if x = f then 0 else entry (pg_mem s1) x j)"
  using assms in_pte_frame by (auto simp: set_pte_def zero_frame_def entry_put entry_zero)

lemma put_after_fill:
  assumes "in_pte f" and "frame t" and "i < 512" and "frame x" and "j < 512" and "t \<noteq> f"
  shows "entry (pg_mem (set_pte (fill_table (zero_frame s1 f) f g) t i v)) x j =
      (if x = t \<and> j = i then v else if x = f then g (of_nat j) else entry (pg_mem s1) x j)"
  using assms in_pte_frame fill_entries [of f x j "zero_frame s1 f" g] by (auto simp: set_pte_def zero_frame_def entry_put entry_zero)

lemma splits_none: "\<not> present e \<Longrightarrow> splits k e (\<lambda>j. 0)"
  by (simp add: splits_def)

lemma fill_buddy [simp]: "pg_buddy (fill_table s t g) = pg_buddy s"
proof -
  have "pg_buddy (fold (\<lambda>i s. set_pte s t i (g (of_nat i))) is s) = pg_buddy s" for "is"
    by (induction "is" arbitrary: s) (simp_all add: set_pte_def)
  then show ?thesis by (simp add: fill_table_def)
qed

lemma fill_page:
  assumes "frame t" and "page pa \<noteq> t"
  shows "pg_mem (fill_table s t g) pa = pg_mem s pa"
proof -
  have "set is \<subseteq> {..<512} \<Longrightarrow> pg_mem (fold (\<lambda>i s. set_pte s t i (g (of_nat i))) is s) pa = pg_mem s pa" for "is"
    using assms by (induction "is" arbitrary: s) (simp_all add: set_pte_def put_page)
  from this [of "[0..<512]"] show ?thesis by (simp add: fill_table_def subset_iff)
qed

section \<open>The steps of a mapping\<close>

definition same_walks :: "paging \<Rightarrow> paging \<Rightarrow> u64 \<Rightarrow> bool" where
  "same_walks s s' root \<longleftrightarrow> (\<forall>va. hw_walk (pg_mem s') root (path va) True = hw_walk (pg_mem s) root (path va) True)"

text \<open>A new table, filled from the huge page that the entry maps.\<close>

definition new_table :: "paging \<Rightarrow> u64 \<Rightarrow> nat \<Rightarrow> (u64 \<Rightarrow> u64) \<Rightarrow> (string + u64) \<times> paging" where
  "new_table s t i g =
     (case alloc_page s of
        (Inl e, s1) \<Rightarrow> (Inl e, s1)
      | (Inr f, s1) \<Rightarrow>
          (Inr f, set_pte (if huge (get_pte_at s t i) then fill_table (zero_frame s1 f) f g else zero_frame s1 f) t i (table_entry f)))"

lemma new_table_opened:
  assumes sp: "space_ok s root A" and t: "tab (pg_mem s) root p = Some t" "idx_path p" "length p \<le> 2" and i: "i < 512"
    and old: "\<not> (present (get_pte_at s t i) \<and> \<not> huge (get_pte_at s t i))" and m: "new_table s t i g = (r, s')"
    and sl: "huge (get_pte_at s t i) \<Longrightarrow> splits (3 - length p) (get_pte_at s t i) (\<lambda>j. g (of_nat j))"
  shows "opened s root A (p @ [i]) r s' \<and> (\<not> present (get_pte_at s t i) \<longrightarrow> same_walks s s' root)"
proof -
  let ?e = "get_pte_at s t i"
  obtain a s1 where a: "alloc_page s = (a, s1)" by fastforce
  from space_okD(2) [OF sp] a show ?thesis
  proof (cases rule: alloc_page_cases)
    case oom
    then show ?thesis using opened_oom [OF sp] m a by (auto simp: new_table_def same_walks_def)
  next
    case (got f)
    let ?g = "if huge ?e then (\<lambda>j. g (of_nat j)) else (\<lambda>_. 0)"
    note fr = in_pte_frame [OF got(2)] tab_frame [OF space_okD(4) [OF sp] t(1)]
    have ne: "t \<noteq> f" using frame_not_in_tree [OF sp got(3)] t(1,2) by (auto simp: in_tree_def)
    have s': "r = Inr f" "s' = set_pte (if huge ?e then fill_table (zero_frame s1 f) f g else zero_frame s1 f) t i (table_entry f)"
      using m a got(1) by (auto simp: new_table_def)
    have b: "frames_inv (pg_buddy s') (A - span f 0)" using got(4) s' by (simp add: set_pte_def zero_frame_def)
    have o: "\<not> (present (entry (pg_mem s) t i) \<and> \<not> huge (entry (pg_mem s) t i))" using old by (simp add: get_pte_at_def)
    have ent: "entry (pg_mem s') x j = (if x = t \<and> j = i then table_entry f else if x = f then ?g j else entry (pg_mem s) x j)"
      if "frame x" "j < 512" for x j
      by (cases "huge ?e") (simp_all add: s'(2) put_after_zero [OF got(2) fr(2) i that ne] put_after_fill [OF got(2) fr(2) i that ne] got(5)
        entry_zero [OF fr(1) that])
    have spl: "splits (3 - length p) (entry (pg_mem s) t i) ?g" using sl old splits_none by (auto simp: get_pte_at_def)
    have ub: "pg_mem s' pa = pg_mem s pa" if "page pa \<noteq> t" "page pa \<noteq> f" for pa
      using that by (simp add: s'(2) set_pte_def put_page [OF fr(2) i] zero_frame_def fill_page [OF fr(1)] write_page [OF fr(1)] got(5))
    show ?thesis
      using opened_graft [OF sp t i got(2,3) b o ent spl ub] unfolding s'(1) same_walks_def get_pte_at_def by blast
  qed
qed

lemma entered:
  assumes "tab (pg_mem s) root p = Some t" and "present (get_pte_at s t i) \<and> \<not> huge (get_pte_at s t i)"
  shows "tab (pg_mem s) root (p @ [i]) = Some (get_pte_at s t i AND PTE_ADDR_MASK)"
  using assms(2) by (simp add: tab_snoc [OF assms(1)] get_pte_at_def)

lemma map_pdpt_opened:
  assumes sp: "space_ok s root A" and i: "i < 512" and m: "map_pdpt s root i = (r, s')"
  shows "opened s root A [i] r s' \<and> same_walks s s' root"
proof (cases "present (get_pte_at s root i)")
  case True
  have nh: "\<not> huge (get_pte_at s root i)" using tree_okD(3) [OF space_okD(1) [OF sp] i] by (simp add: get_pte_at_def)
  then have "opened s root A ([] @ [i]) (Inr (get_pte_at s root i AND PTE_ADDR_MASK)) s"
    by (intro opened_same [OF sp] entered) (simp_all add: True)
  then show ?thesis using m True by (auto simp: map_pdpt_def Let_def same_walks_def)
next
  case False
  have nh: "\<not> huge (get_pte_at s root i)" using tree_okD(3) [OF space_okD(1) [OF sp] i] by (simp add: get_pte_at_def)
  have "opened s root A ([] @ [i]) r s' \<and> (\<not> present (get_pte_at s root i) \<longrightarrow> same_walks s s' root)"
  proof (rule new_table_opened [OF sp _ _ _ i])
    show "new_table s root i (\<lambda>_. 0) = (r, s')"
      unfolding m [symmetric] map_pdpt_def new_table_def Let_def using False nh by (auto split: prod.splits sum.splits)
  qed (use False nh in \<open>simp_all add: idx_path_def\<close>)
  then show ?thesis using False by simp
qed

lemma map_pd_opened:
  assumes sp: "space_ok s root A" and t: "tab (pg_mem s) root p = Some t" "idx_path p" "length p = 1" and i: "i < 512"
    and m: "map_pd s t i = (r, s')"
  shows "opened s root A (p @ [i]) r s' \<and> (\<not> (present (get_pte_at s t i) \<and> huge (get_pte_at s t i)) \<longrightarrow> same_walks s s' root)"
proof (cases "present (get_pte_at s t i) \<and> \<not> huge (get_pte_at s t i)")
  case True
  then show ?thesis using opened_same [OF sp entered [OF t(1) True]] m by (auto simp: map_pd_def Let_def same_walks_def)
next
  case False
  let ?e = "get_pte_at s t i"
  have "opened s root A (p @ [i]) r s' \<and> (\<not> present ?e \<longrightarrow> same_walks s s' root)"
  proof (rule new_table_opened [OF sp t(1,2) _ i False])
    show "new_table s t i (\<lambda>i. ((?e AND push_bit 30 0xFFFFFFFFFF) + i * 0x200000) OR (((?e AND NOT PTE_ADDR_MASK) OR PTE_HUGE) AND NOT PTE_USER)) = (r, s')"
      unfolding m [symmetric] map_pd_def new_table_def Let_def using False by (auto split: prod.splits sum.splits)
  qed (use split_1g [of ?e] t(3) in \<open>simp_all add: numeral_2_eq_2\<close>)
  then show ?thesis using False by blast
qed

lemma map_pt_opened:
  assumes sp: "space_ok s root A" and t: "tab (pg_mem s) root p = Some t" "idx_path p" "length p = 2" and i: "i < 512"
    and m: "map_pt s t i = (r, s')"
  shows "opened s root A (p @ [i]) r s' \<and> (\<not> (present (get_pte_at s t i) \<and> huge (get_pte_at s t i)) \<longrightarrow> same_walks s s' root)"
proof (cases "present (get_pte_at s t i) \<and> \<not> huge (get_pte_at s t i)")
  case True
  let ?e = "get_pte_at s t i"
  have s': "r = Inr (?e AND PTE_ADDR_MASK)" "s' = set_pte s t i (?e OR PTE_USER)" using m True by (auto simp: map_pt_def Let_def)
  have fr: "frame t" using tab_frame [OF space_okD(4) [OF sp] t(1)] .
  have ent: "entry (pg_mem s') x j = (if x = t \<and> j = i then ?e OR PTE_USER else entry (pg_mem s) x j)" if "frame x" "j < 512" for x j
    using entry_put [OF fr that(1) i that(2)] by (auto simp: s'(2) set_pte_def)
  have tc: "tree_change (pg_mem s) (pg_mem s') root t p i {}"
    using space_okD(1) [OF sp] t i ent by (auto simp: tree_change_def changes_def)
  have e: "entry (pg_mem s') t i = entry (pg_mem s) t i OR PTE_USER" using ent [OF fr i] by (simp add: get_pte_at_def)
  have "tree_ok (pg_mem s') root" "hw_translate (pg_mem s') root va = hw_translate (pg_mem s) root va"
    "idx_path q \<Longrightarrow> tab (pg_mem s') root q = tab (pg_mem s) root q" "hw_walk (pg_mem s') root (path va) True = hw_walk (pg_mem s) root (path va) True" for va q
  proof -
    have "(entry (pg_mem s) t i OR PTE_USER) AND PTE_ADDR_MASK = entry (pg_mem s) t i AND PTE_ADDR_MASK"
      by (intro bit_eqI) (auto simp: bit_or_iff bit_and_iff bit_pte_flag addr_mask bit_push_bit_iff)
    then have e': "present (entry (pg_mem s') t i)" "\<not> huge (entry (pg_mem s') t i)"
      "entry (pg_mem s') t i AND PTE_ADDR_MASK = entry (pg_mem s) t i AND PTE_ADDR_MASK"
      "(entry (pg_mem s') t i AND PTE_WRITABLE \<noteq> 0) = (entry (pg_mem s) t i AND PTE_WRITABLE \<noteq> 0)"
      unfolding e using True by (simp_all add: get_pte_at_def pte_bit bit_or_iff bit_pte_flag)
    note R = retag [OF tc _ _ e']
    show "tree_ok (pg_mem s') root" "hw_translate (pg_mem s') root va = hw_translate (pg_mem s) root va"
      "idx_path q \<Longrightarrow> tab (pg_mem s') root q = tab (pg_mem s) root q" "hw_walk (pg_mem s') root (path va) True = hw_walk (pg_mem s) root (path va) True"
      by (rule R; use True t(3) in \<open>simp add: get_pte_at_def\<close>)+
  qed
  moreover from this have "in_tree (pg_mem s') root x \<longleftrightarrow> in_tree (pg_mem s) root x" for x by (auto simp: in_tree_def)
  moreover have "pg_buddy s' = pg_buddy s" by (simp add: s' set_pte_def)
  moreover have "pg_mem s' pa = pg_mem s pa" if "\<not> in_tree (pg_mem s) root (page pa)" for pa
  proof -
    have "page pa \<noteq> t" using that t(1,2) by (auto simp: in_tree_def)
    then show ?thesis using put_page [OF fr i] by (simp add: s' set_pte_def)
  qed
  moreover have "idx_path (p @ [i])" using t i by (simp add: idx_path_snoc)
  ultimately show ?thesis using entered [OF t(1) True] sp s'(1)
    by (auto simp: opened_def space_ok_def same_walks_def confined_def)
next
  case False
  let ?e = "get_pte_at s t i"
  have "opened s root A (p @ [i]) r s' \<and> (\<not> present ?e \<longrightarrow> same_walks s s' root)"
  proof (rule new_table_opened [OF sp t(1,2) _ i False])
    show "new_table s t i (\<lambda>i. ((?e AND push_bit 21 0xFFFFFFFFFF) + i * 4096) OR ((?e AND 0x7F) AND NOT PTE_USER)) = (r, s')"
      unfolding m [symmetric] map_pt_def new_table_def Let_def using False by (auto split: prod.splits sum.splits)
  qed (use split_2m [of ?e] t(3) in simp_all)
  then show ?thesis using False by blast
qed

end
