(* ===== verification/Paging_Props.thy ===== *)
theory Paging_Props
  imports Paging_Space
begin

text \<open>
  The properties of mapping and unmapping: a mapping changes the translation of one page, and unmapping undoes it.
\<close>

unbundle bit_operations_syntax


text \<open>Writing a leaf in the table of the last level.\<close>

lemma leaf_put:
  assumes sp: "space_ok s root A" and t: "tab (pg_mem s) root p = Some t" "idx_path p" "length p = 3" and i: "i < 512"
  shows "space_ok (set_pte s t i v) root A"
    and "path va \<noteq> p @ [i] \<Longrightarrow> hw_translate (pg_mem (set_pte s t i v)) root va = hw_translate (pg_mem s) root va"
    and "idx_path q \<Longrightarrow> tab (pg_mem (set_pte s t i v)) root q = tab (pg_mem s) root q"
    and "\<exists>w. hw_walk (pg_mem (set_pte s t i v)) root (p @ [i]) True = (if present v then Some (v, 0, w) else None)"
    and "get_pte_at (set_pte s t i v) t i = v"
    and "path va \<noteq> p @ [i] \<Longrightarrow> hw_walk (pg_mem (set_pte s t i v)) root (path va) True = hw_walk (pg_mem s) root (path va) True"
proof -
  have fr: "frame t" using tab_frame [OF space_okD(4) [OF sp] t(1)] .
  have ent: "entry (pg_mem (set_pte s t i v)) x j = (if x = t \<and> j = i then v else entry (pg_mem s) x j)" if "frame x" "j < 512" for x j
    using entry_put [OF fr that(1) i that(2)] by (auto simp: set_pte_def)
  have tc: "tree_change (pg_mem s) (pg_mem (set_pte s t i v)) root t p i {}"
    using space_okD(1) [OF sp] t i ent by (auto simp: tree_change_def changes_def)
  note L = leaf_change [OF tc t(3)]
  show v: "get_pte_at (set_pte s t i v) t i = v" using ent [OF fr i] by (simp add: get_pte_at_def)
  show "path va \<noteq> p @ [i] \<Longrightarrow> hw_translate (pg_mem (set_pte s t i v)) root va = hw_translate (pg_mem s) root va" by (rule L(2))
  show "idx_path q \<Longrightarrow> tab (pg_mem (set_pte s t i v)) root q = tab (pg_mem s) root q" by (rule L(3))
  show "path va \<noteq> p @ [i] \<Longrightarrow> hw_walk (pg_mem (set_pte s t i v)) root (path va) True = hw_walk (pg_mem s) root (path va) True" by (rule L(5))
  show "\<exists>w. hw_walk (pg_mem (set_pte s t i v)) root (p @ [i]) True = (if present v then Some (v, 0, w) else None)"
    using L(4) v by (simp only: get_pte_at_def)
  have "in_tree (pg_mem (set_pte s t i v)) root x \<longleftrightarrow> in_tree (pg_mem s) root x" for x using L(3) by (auto simp: in_tree_def)
  then show "space_ok (set_pte s t i v) root A" using sp L(1) by (simp add: space_ok_def set_pte_def)
qed

lemma path_vpn: "path va = [vpn va 0, vpn va 1, vpn va 2, vpn va 3]"
  by (simp add: path_def eval_nat_numeral)

lemma path_snoc: "path va = [vpn va 0, vpn va 1, vpn va 2] @ [vpn va 3]"
  by (simp add: path_vpn)

lemma opened_chain:
  assumes "opened s root A p (Inr t) s1" and "\<And>A'. A' \<subseteq> A \<Longrightarrow> space_ok s1 root A' \<Longrightarrow> opened s1 root A' q r s2"
  shows "opened s root A q r s2"
proof -
  obtain A' where A': "A' \<subseteq> A" "space_ok s1 root A'" using assms(1) by (auto simp: opened_def)
  have "confined s s2 root A" using confined_trans [of s s1 root A s2 A'] assms(1) assms(2) [OF A'] A'(1) by (auto simp: opened_def)
  then show ?thesis using assms(1) assms(2) [OF A'] A'(1) unfolding opened_def by (meson kept_trans order_trans)
qed

text \<open>A page that is not present lies in no huge page.\<close>

lemma walk_below: "tab m x p = Some t \<Longrightarrow> is \<noteq> [] \<Longrightarrow> \<exists>w'. hw_walk m x (p @ is) w = hw_walk m t is w'"
  by (induction p arbitrary: x w) (auto simp: Let_def split: if_splits)

lemma absent_not_huge:
  assumes "hw_walk (pg_mem s) root (p @ i # is) True = None" and "tab (pg_mem s) root p = Some t"
  shows "\<not> (present (get_pte_at s t i) \<and> huge (get_pte_at s t i))"
proof -
  obtain w' where "hw_walk (pg_mem s) root (p @ i # is) True = hw_walk (pg_mem s) t (i # is) w'" using walk_below [OF assms(2)] by blast
  then show ?thesis using assms(1) by (auto simp: get_pte_at_def Let_def split: if_splits)
qed

lemma same_walks_trans: "same_walks s s1 root \<Longrightarrow> same_walks s1 s2 root \<Longrightarrow> same_walks s s2 root"
  by (simp add: same_walks_def)

lemma walks_chain:
  assumes "opened s root A p (Inr t) s1" and "same_walks s s1 root"
    and "\<And>A'. space_ok s1 root A' \<Longrightarrow>
      opened s1 root A' (p @ [i]) r s2 \<and> (\<not> (present (get_pte_at s1 t i) \<and> huge (get_pte_at s1 t i)) \<longrightarrow> same_walks s1 s2 root)"
    and "hw_walk (pg_mem s) root (path virt) True = None" and "path virt = p @ i # is"
  shows "same_walks s s2 root"
proof -
  obtain A' where "space_ok s1 root A'" and t: "tab (pg_mem s1) root p = Some t" using assms(1) by (auto simp: opened_def)
  moreover have "hw_walk (pg_mem s1) root (p @ i # is) True = None" using assms(2,4,5) unfolding same_walks_def by metis
  ultimately have "same_walks s1 s2 root" using assms(3) absent_not_huge [OF _ t] by blast
  then show ?thesis using assms(2) same_walks_trans by blast
qed

text \<open>The way down to the table of the last level.\<close>

lemma map_into_way:
  assumes sp: "space_ok s root A" and m: "map_into s root virt phys flags = (r, s')"
  shows "(r = Inl ''OOM'' \<and> opened s root A [] (Inl ''OOM'') s' \<and> (hw_walk (pg_mem s) root (path virt) True = None \<longrightarrow> same_walks s s' root)) \<or>
    (r = Inr () \<and> (\<exists>pt s3. opened s root A [vpn virt 0, vpn virt 1, vpn virt 2] (Inr pt) s3 \<and>
       (hw_walk (pg_mem s) root (path virt) True = None \<longrightarrow> same_walks s s3 root) \<and>
       s' = set_pte s3 pt (vpn virt 3) (phys OR flags OR PTE_PRESENT)))"
proof -
  let ?absent = "hw_walk (pg_mem s) root (path virt) True = None"
  have P: "path virt = [vpn virt 0] @ vpn virt 1 # [vpn virt 2, vpn virt 3]" "path virt = [vpn virt 0, vpn virt 1] @ vpn virt 2 # [vpn virt 3]"
    by (simp_all add: path_vpn)
  have oom: "opened s root A p (Inl e) x \<Longrightarrow> e = ''OOM'' \<and> opened s root A [] (Inl ''OOM'') x" for p e x by (auto simp: opened_def)
  obtain r1 s1 where 1: "map_pdpt s root (vpn virt 0) = (r1, s1)" by fastforce
  note o1 = map_pdpt_opened [OF sp vpn_less 1]
  show ?thesis
  proof (cases r1)
    case (Inl e)
    then show ?thesis using oom [of "[vpn virt 0]" e s1] o1 1 m by (auto simp: map_into_def)
  next
    case r1: (Inr pdpt)
    have t1: "tab (pg_mem s1) root [vpn virt 0] = Some pdpt" using o1 r1 by (simp add: opened_def)
    obtain r2 s2 where 2: "map_pd s1 pdpt (vpn virt 1) = (r2, s2)" by fastforce
    have ix: "idx_path [vpn virt 0]" "length [vpn virt 0] = 1" by (simp_all add: idx_path_def)
    note o1' = o1 [THEN conjunct1, unfolded r1]
    have o2: "opened s root A [vpn virt 0, vpn virt 1] r2 s2"
      by (rule opened_chain [OF o1']) (use map_pd_opened [OF _ t1 ix vpn_less 2] in simp)
    have S2: "same_walks s s2 root" if ?absent
      by (rule walks_chain [OF o1' o1 [THEN conjunct2] map_pd_opened [OF _ t1 ix vpn_less 2] that P(1)])
    show ?thesis
    proof (cases r2)
      case (Inl e)
      then show ?thesis using oom [of _ e s2] o2 S2 1 2 r1 m by (auto simp: map_into_def)
    next
      case r2: (Inr pd)
      have t2: "tab (pg_mem s2) root [vpn virt 0, vpn virt 1] = Some pd" using o2 r2 by (simp add: opened_def)
      obtain r3 s3 where 3: "map_pt s2 pd (vpn virt 2) = (r3, s3)" by fastforce
      have ix: "idx_path [vpn virt 0, vpn virt 1]" "length [vpn virt 0, vpn virt 1] = 2" by (simp_all add: idx_path_def)
      have o3: "opened s root A [vpn virt 0, vpn virt 1, vpn virt 2] r3 s3"
        by (rule opened_chain [OF o2 [unfolded r2]]) (use map_pt_opened [OF _ t2 ix vpn_less 3] in simp)
      have S3: "same_walks s s3 root" if ?absent
        by (rule walks_chain [OF o2 [unfolded r2] S2 [OF that] map_pt_opened [OF _ t2 ix vpn_less 3] that P(2)])
      show ?thesis
      proof (cases r3)
        case (Inl e)
        then show ?thesis using oom [of _ e s3] o3 S3 1 2 3 r1 r2 m by (auto simp: map_into_def)
      next
        case (Inr pt)
        then have "r = Inr ()" "s' = set_pte s3 pt (vpn virt 3) (phys OR flags OR PTE_PRESENT)" using 1 2 3 r1 r2 m by (auto simp: map_into_def)
        then show ?thesis using o3 [unfolded Inr] S3 by (intro disjI2 conjI exI [of _ s3] exI [of _ pt] impI)
      qed
    qed
  qed
qed



lemma map_into_confined:
  assumes "space_ok s root A" and m: "map_into s root virt phys flags = (r, s')"
  shows "confined s s' root A"
proof -
  let ?p = "[vpn virt 0, vpn virt 1, vpn virt 2]" and ?v = "phys OR flags OR PTE_PRESENT"
  from map_into_way [OF assms] consider "opened s root A [] (Inl ''OOM'') s'"
    | pt s3 where "opened s root A ?p (Inr pt) s3" "s' = set_pte s3 pt (vpn virt 3) ?v" by blast
  then show ?thesis
  proof cases
    case 2
    obtain A' where A': "A' \<subseteq> A" "space_ok s3 root A'" and pt: "tab (pg_mem s3) root ?p = Some pt" and c: "confined s s3 root A"
      using 2(1) by (auto simp: opened_def)
    have ip: "idx_path ?p" "length ?p = 3" by (simp_all add: idx_path_def)
    note L = leaf_put [OF A'(2) pt ip vpn_less [of virt 3], where v = ?v, folded 2(2)]
    have it: "in_tree (pg_mem s') root x = in_tree (pg_mem s3) root x" for x using L(3) by (auto simp: in_tree_def)
    have "pg_mem s' pa = pg_mem s3 pa" if "\<not> in_tree (pg_mem s3) root (page pa)" for pa
    proof -
      have "page pa \<noteq> pt" using that pt ip(1) by (auto simp: in_tree_def)
      then show ?thesis using put_page [OF tab_frame [OF space_okD(4) [OF A'(2)] pt] vpn_less] by (simp add: 2(2) set_pte_def)
    qed
    then show ?thesis using c unfolding confined_def it by metis
  qed (simp add: opened_def)
qed

text \<open>Mapping a page that is not present splits no huge page: the walks of all other addresses stay the same.\<close>

lemma map_into_absent:
  assumes "space_ok s root A" and m: "map_into s root virt phys flags = (r, s')" and "hw_walk (pg_mem s) root (path virt) True = None"
    and "r \<noteq> Inr () \<or> path va \<noteq> path virt"
  shows "hw_walk (pg_mem s') root (path va) True = hw_walk (pg_mem s) root (path va) True"
proof -
  let ?p = "[vpn virt 0, vpn virt 1, vpn virt 2]" and ?v = "phys OR flags OR PTE_PRESENT"
  from map_into_way [OF assms(1,2)] assms(3) consider "same_walks s s' root"
    | pt s3 where "r = Inr ()" "opened s root A ?p (Inr pt) s3" "same_walks s s3 root" "s' = set_pte s3 pt (vpn virt 3) ?v" by blast
  then show ?thesis
  proof cases
    case 2
    obtain A' where A': "space_ok s3 root A'" and pt: "tab (pg_mem s3) root ?p = Some pt" using 2(2) by (auto simp: opened_def)
    have ip: "idx_path ?p" "length ?p = 3" by (simp_all add: idx_path_def)
    show ?thesis using leaf_put(6) [OF A' pt ip vpn_less [of virt 3], folded path_snoc] 2 assms(4) by (simp add: same_walks_def)
  qed (simp add: same_walks_def)
qed

section \<open>Mapping succeeds while pages are left\<close>

definition pages_left :: "buddy \<Rightarrow> nat \<Rightarrow> bool" where
  "pages_left b n \<longleftrightarrow> q_elems b = [] \<and> (\<exists>F. alloc_inv b F \<and> finite F \<and> 4096 * n \<le> card F)"


lemma pages_left_grab:
  assumes "pages_left b (Suc n)"
  obtains p b1 F where "alloc b 0 = (Some p, b1)" and "alloc_inv b1 F" and "finite F" and "4096 * n \<le> card F" and "span p 0 \<inter> F = {}"
    and "q_elems b = []" and "q_elems b1 = []"
proof -
  obtain F where F: "alloc_inv b F" "finite F" "4096 * Suc n \<le> card F" and q: "q_elems b = []" using assms by (auto simp: pages_left_def)
  obtain r b1 where al: "alloc b 0 = (r, b1)" by fastforce
  obtain L where L: "buddy_inv b L" "free_space L = F" using F(1) by (auto simp: alloc_inv_def)
  have "r \<noteq> None"
  proof
    assume "r = None"
    then have "\<And>j. j \<le> MAX_ORDER \<Longrightarrow> L j = []" using alloc_fail(2) [OF F(1)] al L(1) by blast
    then have "free_space L = {}" by (auto simp: free_space_iff)
    then show False using F(3) L(2) by simp
  qed
  then obtain p where r: "r = Some p" by auto
  note d = alloc_data [OF F(1) al [unfolded r]]
  have "card (F - span p 0) = card F - 4096" using d(1) F(2) by (simp add: card_Diff_subset finite_subset) (simp add: span_def)
  moreover have "same_queue b b1" using same_queue_scan [of b 0 0 "[0..<MAX_ORDER + 1]"] al by (simp add: alloc_def alloc_nolock_def)
  then have "q_elems b1 = []" using same_queue_facts(1) q by metis
  ultimately show thesis by (intro that [OF al [unfolded r] d(2)]) (use F q in auto)
qed

lemma pages_left_data: "pages_left b (Suc n) \<Longrightarrow> \<exists>p b1. alloc b 0 = (Some p, b1) \<and> pages_left b1 n"
  by (erule pages_left_grab) (auto simp: pages_left_def)







lemma entry_clear [simp]: "entry (\<lambda>_. 0) t i = 0"
  by (simp add: entry_def load_def mem_read_def of_le_def eval_nat_numeral)




section \<open>Unmapping\<close>





section \<open>Reading translations\<close>



section \<open>Releasing an address space\<close>

text \<open>The argument \<^verbatim>\<open>free_ro\<close> of \<^verbatim>\<open>free_address_space\<close> has no effect: both branches of the test do the same.\<close>

lemma release_leaf_ro: "release_leaf e True = release_leaf e False"
  by (auto simp: release_leaf_def Let_def intro!: ext)

lemma release_ro:
  "release_pt e True pt is s u = release_pt e False pt is s u" "release_pd e True pt is s vis u = release_pd e False pt is s vis u"
  "release_pdpt e True pt is s vis u = release_pdpt e False pt is s vis u" "release_pml4 e True pt is s vis = release_pml4 e False pt is s vis"
proof -
  show 1: "release_pt e True pt is s u = release_pt e False pt is s u" for pt "is" s u
    by (induction "is" arbitrary: s u) (simp_all add: release_leaf_ro)
  show 2: "release_pd e True pt is s vis u = release_pd e False pt is s vis u" for pt "is" s vis u
    by (induction "is" arbitrary: s vis u) (simp_all only: release_pd.simps Let_def 1)
  show 3: "release_pdpt e True pt is s vis u = release_pdpt e False pt is s vis u" for pt "is" s vis u
    by (induction "is" arbitrary: s vis u) (simp_all only: release_pdpt.simps Let_def 2)
  have "release_pml4 e True pt is = release_pml4 e False pt is"
  proof (induction "is")
    case (Cons i "is")
    show ?case by (intro ext) (simp only: release_pml4.simps Let_def 3 Cons)
  qed (intro ext, simp)
  then show "release_pml4 e True pt is s vis = release_pml4 e False pt is s vis" by simp
qed

lemma free_ro_ignored: "free_address_space e s pml4 True = free_address_space e s pml4 False"
  by (simp only: free_address_space_def release_ro(4))

text \<open>A fork counts a private page twice. When one of the two owners has dropped its reference, the count that the other finds is not the
  count of a private page.\<close>

lemma last_reference_counts_one:
  assumes "refc_idx p < MAX_REFC_PAGES" and "refc_get s p = 0"
  shows "refc_get (refc_dec (fork_share_refc s p) p) p = 1"
  using assms by (simp add: fork_share_refc_def refc_get_def refc_dec_def refc_inc_def upd_buddy_def Let_def)

end
