(* ===== verification/Paging_Fork.thy ===== *)
theory Paging_Fork
  imports Paging_Props
begin

text \<open>
  Forking an address space: the pages of the parent become read-only in both address spaces, and both lead to the same frames.
\<close>

unbundle bit_operations_syntax

section \<open>Entries that lose the right to write\<close>

definition fades :: "u64 \<Rightarrow> u64 \<Rightarrow> bool" where
  "fades e e' \<longleftrightarrow> e' = e \<or> (present e \<and> e AND PTE_USER \<noteq> 0 \<and> e' = e AND NOT PTE_WRITABLE)"

definition guarded :: "u64 \<Rightarrow> bool" where
  "guarded e \<longleftrightarrow> (present e \<and> e AND PTE_USER \<noteq> 0 \<longrightarrow> e AND PTE_WRITABLE = 0)"


lemma fades_refl [simp]: "fades e e"
  by (simp add: fades_def)



lemma guarded_clear [simp]: "guarded (e AND NOT PTE_WRITABLE)"
  by (simp add: guarded_def pte_bit bit_and_iff bit_not_iff bit_pte_flag)

text \<open>Two memories whose entries outside \<open>X\<close> differ in lost rights only.\<close>

definition faded :: "(u64 \<times> nat) set \<Rightarrow> (u64 \<Rightarrow> u8) \<Rightarrow> (u64 \<Rightarrow> u8) \<Rightarrow> bool" where
  "faded X m m' \<longleftrightarrow> (\<forall>x j. frame x \<longrightarrow> j < 512 \<longrightarrow> (x, j) \<notin> X \<longrightarrow> fades (entry m x j) (entry m' x j))"


lemma faded_refl [simp]: "faded X m m"
  by (simp add: faded_def)




lemma share_mem [simp]: "pg_mem (fork_share_refc s p) = pg_mem s" "pg_mem (fork_share_pte_refc s p) = pg_mem s"
  by (simp_all add: fork_share_refc_def fork_share_pte_refc_def refc_inc_def upd_buddy_def Let_def)


section \<open>Forking tables\<close>









section \<open>Walks through tables that lost rights\<close>












section \<open>Live tables stay live\<close>

definition live_grows :: "paging \<Rightarrow> paging \<Rightarrow> bool" where
  "live_grows s s' \<longleftrightarrow> (\<forall>p. live_table (pg_buddy s) p \<longrightarrow> live_table (pg_buddy s') p)"

lemma live_grows_refl [simp]: "live_grows s s"
  by (simp add: live_grows_def)


lemma live_grows_set [simp]: "live_grows s (set_pte s1 t i v) = live_grows s s1" "live_grows s (zero_frame s1 t) = live_grows s s1"
  by (simp_all add: live_grows_def set_pte_def zero_frame_def)






section \<open>The slots of the root\<close>




section \<open>The fork of an address space\<close>











end
