(* ===== verification/Paging_Cow.thy ===== *)
theory Paging_Cow
  imports Paging_Fork
begin

text \<open>
  Copy on write: a task that writes to a shared page gets tables and a page of its own, and no other address space sees a difference.
\<close>

unbundle bit_operations_syntax

section \<open>Replacing a table by a copy\<close>




section \<open>Two address spaces that share tables\<close>



text \<open>A step that neither address space notices, and that writes only to tables of the first and to frames that were free.\<close>

definition calm :: "paging \<Rightarrow> paging \<Rightarrow> u64 \<Rightarrow> u64 \<Rightarrow> nat set \<Rightarrow> bool" where
  "calm s s' root root' A \<longleftrightarrow> (\<forall>va. hw_walk (pg_mem s') root (path va) True = hw_walk (pg_mem s) root (path va) True) \<and>
     (\<forall>va. hw_walk (pg_mem s') root' (path va) True = hw_walk (pg_mem s) root' (path va) True) \<and>
     (\<forall>x. in_tree (pg_mem s') root x \<longrightarrow> in_tree (pg_mem s) root x \<or> unat x \<in> A) \<and>
     (\<forall>pa. unat (page pa) \<notin> A \<longrightarrow> \<not> in_tree (pg_mem s) root (page pa) \<longrightarrow> pg_mem s' pa = pg_mem s pa)"


lemma calm_refl [simp]: "calm s s root root' A"
  by (simp add: calm_def)



section \<open>Reference counts of tables\<close>







section \<open>Owning the tables on the way\<close>




lemma frames_inv_dec [simp]: "frames_inv (snd (pte_refc_dec b p)) A = frames_inv b A"
  by (rule frames_inv_cong) (simp_all add: pte_refc_dec_def same_queue_def Let_def)






section \<open>The page of the writer\<close>







section \<open>Success\<close>











lemma demo_frames [simp]: "frame 0x200000" "frame 0x201000" "frame 0x202000" "frame 0x203000" "frame 0x204000" "frame 0x205000"
  by (simp_all add: frame_def)








end
