(* ===== verification/Spinlock.thy ===== *)
theory Spinlock
  imports Prelude
begin

text \<open>
  The interrupt-disabling spin locks of \<^verbatim>\<open>src/src/spinlock.rs\<close> (\<^verbatim>\<open>RawSpin\<close> and \<^verbatim>\<open>Mutex<T>\<close>, which share one
  protocol) as a transition system over any number of CPUs and locks. A CPU's step is one atomic action
  of the code: saving the flags and disabling interrupts, one compare-and-exchange, the release store of
  a guard's drop, and the restoring of the flags. Guards are scoped values, so a CPU drops its guards in
  the reverse order of taking them.
\<close>

unbundle bit_operations_syntax

section \<open>State and atomic actions\<close>

definition IF_FLAG :: u64 where "IF_FLAG = 0x200"

record cpu =
  rflags :: u64
  waiting :: "(nat \<times> u64) option"
  guards :: "(nat \<times> u64) list"
  restoring :: "u64 option"

record machine =
  locked :: "nat \<Rightarrow> bool"
  cpus :: "nat \<Rightarrow> cpu"

definition irq_save :: "cpu \<Rightarrow> u64 \<times> cpu" where
  "irq_save c = (rflags c, c\<lparr>rflags := rflags c AND NOT IF_FLAG\<rparr>)"

definition irq_restore :: "cpu \<Rightarrow> u64 \<Rightarrow> cpu" where
  "irq_restore c flags = c\<lparr>rflags := flags\<rparr>"

definition compare_exchange :: "machine \<Rightarrow> nat \<Rightarrow> bool \<times> machine" where
  "compare_exchange m l = (if locked m l then (False, m) else (True, m\<lparr>locked := (locked m)(l := True)\<rparr>))"

definition upd_cpu :: "machine \<Rightarrow> nat \<Rightarrow> cpu \<Rightarrow> machine" where
  "upd_cpu m i c = m\<lparr>cpus := (cpus m)(i := c)\<rparr>"

definition lock_enter :: "machine \<Rightarrow> nat \<Rightarrow> nat \<Rightarrow> machine" where
  "lock_enter m i l = (let (was, c) = irq_save (cpus m i) in upd_cpu m i (c\<lparr>waiting := Some (l, was)\<rparr>))"

definition lock_try :: "machine \<Rightarrow> nat \<Rightarrow> nat \<Rightarrow> u64 \<Rightarrow> machine" where
  "lock_try m i l was =
     (let (ok, m1) = compare_exchange m l; c = cpus m1 i
      in if ok then upd_cpu m1 i (c\<lparr>waiting := None, guards := (l, was) # guards c\<rparr>) else m1)"

definition unlock_store :: "machine \<Rightarrow> nat \<Rightarrow> nat \<Rightarrow> u64 \<Rightarrow> (nat \<times> u64) list \<Rightarrow> machine" where
  "unlock_store m i l was gs =
     (let m1 = m\<lparr>locked := (locked m)(l := False)\<rparr>
      in upd_cpu m1 i ((cpus m1 i)\<lparr>guards := gs, restoring := Some was\<rparr>))"

definition unlock_restore :: "machine \<Rightarrow> nat \<Rightarrow> u64 \<Rightarrow> machine" where
  "unlock_restore m i was = upd_cpu m i ((irq_restore (cpus m i) was)\<lparr>restoring := None\<rparr>)"

definition runs :: "cpu \<Rightarrow> bool" where
  "runs c \<longleftrightarrow> waiting c = None \<and> restoring c = None"

text \<open>The steps of CPU \<open>i\<close>: any code of the kernel that runs on it may call \<^verbatim>\<open>lock\<close>, and drops its
  innermost guard at the end of the guard's scope.\<close>

inductive step :: "machine \<Rightarrow> nat \<Rightarrow> machine \<Rightarrow> bool" where
  enter: "runs (cpus m i) \<Longrightarrow> step m i (lock_enter m i l)"
| spin: "waiting (cpus m i) = Some (l, was) \<Longrightarrow> step m i (lock_try m i l was)"
| release: "runs (cpus m i) \<Longrightarrow> guards (cpus m i) = (l, was) # gs \<Longrightarrow>
    step m i (unlock_store m i l was gs)"
| restore: "restoring (cpus m i) = Some was \<Longrightarrow> step m i (unlock_restore m i was)"

inductive_cases stepE: "step m i m'"

inductive reach :: "machine \<Rightarrow> machine \<Rightarrow> bool" for m0 where
  start: "reach m0 m0"
| more: "reach m0 m \<Longrightarrow> step m i m' \<Longrightarrow> reach m0 m'"

definition boot :: "(nat \<Rightarrow> u64) \<Rightarrow> machine" where
  "boot fl = \<lparr>locked = (\<lambda>_. False),
     cpus = (\<lambda>i. \<lparr>rflags = fl i, waiting = None, guards = [], restoring = None\<rparr>)\<rparr>"

lemmas action_defs = lock_enter_def lock_try_def unlock_store_def unlock_restore_def upd_cpu_def
  irq_save_def irq_restore_def compare_exchange_def Let_def

section \<open>The invariant\<close>

definition own :: "(nat \<times> u64) list \<Rightarrow> nat set" where
  "own gs = fst ` set gs"

definition no_dups :: "(nat \<times> u64) list \<Rightarrow> bool" where
  "no_dups gs \<longleftrightarrow> distinct (map fst gs)"

lemma own_simps [simp]: "own [] = {}" "own ((l, was) # gs) = insert l (own gs)"
    "no_dups []" "no_dups ((l, was) # gs) \<longleftrightarrow> l \<notin> own gs \<and> no_dups gs"
  by (simp_all add: own_def no_dups_def)

definition holds :: "machine \<Rightarrow> nat \<Rightarrow> nat \<Rightarrow> bool" where
  "holds m i l \<longleftrightarrow> l \<in> own (guards (cpus m i))"

definition others :: "machine \<Rightarrow> nat \<Rightarrow> nat set" where
  "others m i = {l. \<exists>j. j \<noteq> i \<and> holds m j l}"

text \<open>The flags that each nesting level of a CPU will put back, innermost first.\<close>

definition saved :: "cpu \<Rightarrow> u64 list" where
  "saved c = (case waiting c of Some (_, was) \<Rightarrow> [was] | None \<Rightarrow> []) @
     (case restoring c of Some was \<Rightarrow> [was] | None \<Rightarrow> []) @ map snd (guards c)"

definition levels :: "cpu \<Rightarrow> u64 list" where
  "levels c = rflags c # saved c"

definition lock_inv :: "(nat \<Rightarrow> u64) \<Rightarrow> machine \<Rightarrow> bool" where
  "lock_inv fl m \<longleftrightarrow>
     (\<forall>l. locked m l \<longleftrightarrow> (\<exists>i. holds m i l)) \<and>
     (\<forall>i j l. holds m i l \<longrightarrow> holds m j l \<longrightarrow> i = j) \<and>
     (\<forall>i. no_dups (guards (cpus m i))) \<and>
     (\<forall>i. waiting (cpus m i) = None \<or> restoring (cpus m i) = None) \<and>
     (\<forall>i. last (levels (cpus m i)) = fl i) \<and>
     (\<forall>i. \<forall>w \<in> set (butlast (levels (cpus m i))). w AND IF_FLAG = 0)"

lemma lock_invD:
  assumes "lock_inv fl m"
  shows "locked m l \<longleftrightarrow> (\<exists>i. holds m i l)" and "holds m i l \<Longrightarrow> holds m j l \<Longrightarrow> i = j"
    and "no_dups (guards (cpus m i))" and "waiting (cpus m i) = None \<or> restoring (cpus m i) = None"
    and "last (levels (cpus m i)) = fl i" and "w \<in> set (butlast (levels (cpus m i))) \<Longrightarrow> w AND IF_FLAG = 0"
  using assms unfolding lock_inv_def by (elim conjE, simp; fail | elim conjE, metis; fail)+

lemma flags_cleared [simp]: "(w AND NOT IF_FLAG) AND IF_FLAG = 0"
  by (simp add: and.assoc)

text \<open>What a step changes: the CPU that takes it, and at most the locks whose holder changes.\<close>

lemma lock_inv_step:
  assumes inv: "lock_inv fl m" and lv: "last (levels c) = fl i" "\<forall>w \<in> set (butlast (levels c)). w AND IF_FLAG = 0"
    and g: "no_dups (guards c)" "waiting c = None \<or> restoring c = None"
    and lk: "\<And>l. lk l \<longleftrightarrow> l \<in> own (guards c) \<or> l \<in> others m i"
    and ex: "own (guards c) \<inter> others m i = {}"
  shows "lock_inv fl (m\<lparr>locked := lk, cpus := (cpus m)(i := c)\<rparr>)"
proof -
  let ?m = "m\<lparr>locked := lk, cpus := (cpus m)(i := c)\<rparr>"
  have h: "holds ?m j l \<longleftrightarrow> (if j = i then l \<in> own (guards c) else holds m j l)" for j l
    by (simp add: holds_def)
  have "locked ?m l \<longleftrightarrow> (\<exists>j. holds ?m j l)" for l using lk [of l] unfolding h others_def by auto
  moreover have "holds ?m j l \<Longrightarrow> holds ?m k l \<Longrightarrow> j = k" for j k l
    using ex lock_invD(2) [OF inv] unfolding h others_def by (auto split: if_splits)
  ultimately show ?thesis
    using lv g lock_invD(3-6) [OF inv] unfolding lock_inv_def by simp
qed

lemma lock_inv_preserved:
  assumes inv: "lock_inv fl m" and st: "step m i m'"
  shows "lock_inv fl m'"
proof -
  note d = lock_invD [OF inv]
  note di = d(3-5) [of i] d(6) [of _ i]
  let ?c = "cpus m i"
  have own: "holds m i l \<longleftrightarrow> l \<in> own (guards ?c)" for l by (simp add: holds_def)
  have lk: "locked m l \<longleftrightarrow> l \<in> own (guards ?c) \<or> l \<in> others m i" for l
    unfolding d(1) own [symmetric] others_def mem_Collect_eq by (metis (full_types))
  have ex: "own (guards ?c) \<inter> others m i = {}"
  proof (rule equals0I)
    fix l assume "l \<in> own (guards ?c) \<inter> others m i"
    then obtain j where "j \<noteq> i" "holds m j l" "holds m i l" by (auto simp: own others_def)
    with d(2) [of i l j] show False by simp
  qed
  from st show ?thesis
  proof cases
    case (enter l)
    let ?d = "?c\<lparr>rflags := rflags ?c AND NOT IF_FLAG, waiting := Some (l, rflags ?c)\<rparr>"
    have "levels ?d = (rflags ?c AND NOT IF_FLAG) # levels ?c"
      using enter by (simp add: levels_def saved_def runs_def)
    moreover have "levels ?c \<noteq> []" by (simp add: levels_def)
    ultimately have "lock_inv fl (m\<lparr>locked := locked m, cpus := (cpus m)(i := ?d)\<rparr>)"
      using enter di lk ex by (intro lock_inv_step [OF inv]) (auto simp: runs_def)
    then show ?thesis using enter by (simp add: action_defs)
  next
    case (spin l was)
    show ?thesis
    proof (cases "locked m l")
      case True
      with spin inv show ?thesis by (simp add: action_defs)
    next
      case False
      let ?d = "?c\<lparr>waiting := None, guards := (l, was) # guards ?c\<rparr>"
      have "levels ?d = levels ?c" using spin d(4) [of i] by (auto simp: levels_def saved_def)
      then have "lock_inv fl (m\<lparr>locked := (locked m)(l := True), cpus := (cpus m)(i := ?d)\<rparr>)"
        using di lk ex False by (intro lock_inv_step [OF inv]) auto
      then show ?thesis using spin False by (simp add: action_defs)
    qed
  next
    case (release l was gs)
    let ?d = "?c\<lparr>guards := gs, restoring := Some was\<rparr>"
    have "levels ?d = levels ?c" using release by (simp add: levels_def saved_def runs_def)
    then have "lock_inv fl (m\<lparr>locked := (locked m)(l := False), cpus := (cpus m)(i := ?d)\<rparr>)"
      using di lk ex release by (intro lock_inv_step [OF inv]) (auto simp: runs_def)
    then show ?thesis using release by (simp add: action_defs)
  next
    case (restore was)
    let ?d = "?c\<lparr>rflags := was, restoring := None\<rparr>"
    have "levels ?c = rflags ?c # levels ?d"
      using restore d(4) [of i] by (auto simp: levels_def saved_def)
    moreover have "levels ?d \<noteq> []" by (simp add: levels_def)
    ultimately have "lock_inv fl (m\<lparr>locked := locked m, cpus := (cpus m)(i := ?d)\<rparr>)"
      using di lk ex by (intro lock_inv_step [OF inv]) auto
    then show ?thesis using restore by (simp add: action_defs)
  qed
qed

lemma reach_inv: "reach (boot fl) m \<Longrightarrow> lock_inv fl m"
proof (induction rule: reach.induct)
  case start
  show ?case by (simp add: lock_inv_def boot_def holds_def levels_def saved_def)
next
  case (more m i m')
  then show ?case using lock_inv_preserved by blast
qed

section \<open>Properties\<close>

definition demo_flags :: "nat \<Rightarrow> u64" where
  "demo_flags i = 0x202"

definition demo_held :: machine where
  "demo_held = lock_try (lock_enter (boot demo_flags) 0 7) 0 7 0x202"

lemma demo_held_reach: "reach (boot demo_flags) demo_held"
proof -
  have "step (boot demo_flags) 0 (lock_enter (boot demo_flags) 0 7)"
    by (rule step.enter) (simp add: runs_def boot_def)
  moreover have "step (lock_enter (boot demo_flags) 0 7) 0 demo_held"
    unfolding demo_held_def by (rule step.spin) (simp add: action_defs boot_def demo_flags_def)
  ultimately show ?thesis by (blast intro: reach.intros)
qed

text \<open>C14: Mutual exclusion: in every reachable state of any number of CPUs and locks at most one CPU holds a
  given lock, the lock word is set exactly while some CPU holds it, and every CPU that holds or waits for a
  lock has its interrupts disabled, so no interrupt handler can run inside the critical section.\<close>

theorem mutual_exclusion:
  assumes "reach (boot fl) m"
  shows "(holds m i l \<and> holds m j l \<longrightarrow> i = j) \<and> (locked m l \<longleftrightarrow> (\<exists>k. holds m k l)) \<and>
    (holds m i l \<or> waiting (cpus m i) \<noteq> None \<longrightarrow> rflags (cpus m i) AND IF_FLAG = 0)"
proof (intro conjI)
  note inv = reach_inv [OF assms]
  show "holds m i l \<and> holds m j l \<longrightarrow> i = j" using lock_invD(2) [OF inv] by blast
  show "locked m l \<longleftrightarrow> (\<exists>k. holds m k l)" by (rule lock_invD(1) [OF inv])
  have "rflags (cpus m i) \<in> set (butlast (levels (cpus m i)))" if "saved (cpus m i) \<noteq> []"
    using that by (simp add: levels_def)
  moreover have "saved (cpus m i) \<noteq> []" if "holds m i l \<or> waiting (cpus m i) \<noteq> None"
    using that by (auto simp: saved_def holds_def own_def)
  ultimately show "holds m i l \<or> waiting (cpus m i) \<noteq> None \<longrightarrow> rflags (cpus m i) AND IF_FLAG = 0"
    using lock_invD(6) [OF inv] by blast
qed

theorem mutual_exclusion_witness:
  "locked demo_held 7 \<and> rflags (cpus demo_held 0) AND IF_FLAG = 0"
proof -
  have "holds demo_held 0 7" by (simp add: demo_held_def holds_def action_defs boot_def)
  then show ?thesis using mutual_exclusion [OF demo_held_reach, of 0 7] by blast
qed



lemma self_wait_step:
  assumes "step m j m'" and "lock_inv fl m" and "waiting (cpus m i) = Some (l, was)" and "holds m i l"
  shows "waiting (cpus m' i) = Some (l, was) \<and> holds m' i l"
proof -
  have "locked m l" using lock_invD(1) [OF assms(2)] assms(4) by blast
  with assms show ?thesis
    using lock_invD(4) [OF assms(2), of i]
    by (auto elim!: stepE simp: action_defs runs_def holds_def split: if_splits)
qed

text \<open>The locks are not reentrant: a CPU that starts to take a lock it already holds never gets it,
  whatever the other CPUs do.\<close>

lemma relock_spins_forever:
  assumes "reach (boot fl) m" and "waiting (cpus m i) = Some (l, was)" and "holds m i l" and "reach m m'"
  shows "waiting (cpus m' i) = Some (l, was) \<and> holds m' i l"
proof -
  have "lock_inv fl m' \<and> waiting (cpus m' i) = Some (l, was) \<and> holds m' i l"
    using assms(4)
  proof (induction rule: reach.induct)
    case start
    then show ?case using reach_inv [OF assms(1)] assms(2,3) by blast
  next
    case (more m1 j m2)
    then show ?case using self_wait_step lock_inv_preserved by blast
  qed
  then show ?thesis by blast
qed

lemma relock_spins_forever_witness:
  "waiting (cpus (lock_enter demo_held 0 7) 0) = Some (7, 2) \<and> holds (lock_enter demo_held 0 7) 0 7"
proof (rule relock_spins_forever [OF _ _ _ reach.start])
  have "step demo_held 0 (lock_enter demo_held 0 7)"
    by (rule step.enter) (simp add: runs_def demo_held_def action_defs boot_def)
  then show "reach (boot demo_flags) (lock_enter demo_held 0 7)" using demo_held_reach by (blast intro: reach.intros)
qed (simp_all add: demo_held_def action_defs boot_def demo_flags_def holds_def IF_FLAG_def)

end
