(* ===== verification/Vfs_Core.thy ===== *)
theory Vfs_Core
  imports Ramfs
begin

text \<open>
  The vnode layer of \<^verbatim>\<open>src/src/vfs_core/mod.rs\<close>: path resolution across mounts, the path and vnode operations, and
  the message interface \<^verbatim>\<open>dispatch\<close>. A file system is a record of operations (\<^verbatim>\<open>trait VnodeOps\<close>); a vnode or mount
  names one by its number in a table of such records. Table entry 0 is \<^verbatim>\<open>NopVnode\<close>, 1 is the ramfs; the other entries
  (procfs, devfs, the user-space bridge) are a parameter of the model. Every operation returns \<open>None\<close> when the code
  panics, else \<open>Inl\<close> with the error string or \<open>Inr\<close> with the value, and the new state.
\<close>

unbundle bit_operations_syntax

section \<open>State and file systems\<close>

record 'x vfs_state =
  ram :: ramfs
  mtab :: mount_table
  next_fsid :: u64
  other :: 'x

type_synonym ('s, 'a) vres = "((string + 'a) \<times> 's) option"

record 's vnode_ops =
  op_read :: "'s \<Rightarrow> u64 \<Rightarrow> u64 \<Rightarrow> nat \<Rightarrow> ('s, bytes) vres"
  op_write :: "'s \<Rightarrow> u64 \<Rightarrow> u64 \<Rightarrow> bytes \<Rightarrow> ('s, nat) vres"
  op_lookup :: "'s \<Rightarrow> u64 \<Rightarrow> bytes \<Rightarrow> ('s, u64) vres"
  op_readdir :: "'s \<Rightarrow> u64 \<Rightarrow> u64 \<Rightarrow> nat \<Rightarrow> ('s, dirent list) vres"
  op_create :: "'s \<Rightarrow> u64 \<Rightarrow> bytes \<Rightarrow> u32 \<Rightarrow> ('s, u64) vres"
  op_mkdir :: "'s \<Rightarrow> u64 \<Rightarrow> bytes \<Rightarrow> u32 \<Rightarrow> ('s, u64) vres"
  op_remove :: "'s \<Rightarrow> u64 \<Rightarrow> bytes \<Rightarrow> ('s, unit) vres"
  op_rmdir :: "'s \<Rightarrow> u64 \<Rightarrow> bytes \<Rightarrow> ('s, unit) vres"
  op_stat :: "'s \<Rightarrow> u64 \<Rightarrow> ('s, stat) vres"
  op_readlink :: "'s \<Rightarrow> u64 \<Rightarrow> ('s, bytes) vres"
  op_symlink :: "'s \<Rightarrow> u64 \<Rightarrow> bytes \<Rightarrow> bytes \<Rightarrow> ('s, u64) vres"
  op_rename :: "'s \<Rightarrow> u64 \<Rightarrow> bytes \<Rightarrow> u64 \<Rightarrow> bytes \<Rightarrow> ('s, unit) vres"
  op_setattr :: "'s \<Rightarrow> u64 \<Rightarrow> attr \<Rightarrow> ('s, unit) vres"
  op_getxattr :: "'s \<Rightarrow> u64 \<Rightarrow> bytes \<Rightarrow> nat \<Rightarrow> ('s, bytes) vres"
  op_setxattr :: "'s \<Rightarrow> u64 \<Rightarrow> bytes \<Rightarrow> bytes \<Rightarrow> ('s, unit) vres"
  op_listxattr :: "'s \<Rightarrow> u64 \<Rightarrow> nat \<Rightarrow> ('s, bytes) vres"
  op_truncate :: "'s \<Rightarrow> u64 \<Rightarrow> u64 \<Rightarrow> ('s, unit) vres"
  op_ioctl :: "'s \<Rightarrow> u64 \<Rightarrow> u64 \<Rightarrow> u64 \<Rightarrow> ('s, nat) vres"

type_synonym 'x ops_table = "ops_id \<Rightarrow> 'x vfs_state vnode_ops"

definition nop_vnode :: "'s vnode_ops" where
  "nop_vnode =
     \<lparr>op_read = (\<lambda>s ino off n. Some (Inl ''no fs'', s)), op_write = (\<lambda>s ino off buf. Some (Inl ''no fs'', s)),
      op_lookup = (\<lambda>s ino nm. Some (Inl ''no fs'', s)), op_readdir = (\<lambda>s ino off n. Some (Inl ''no fs'', s)),
      op_create = (\<lambda>s ino nm m. Some (Inl ''no fs'', s)), op_mkdir = (\<lambda>s ino nm m. Some (Inl ''no fs'', s)),
      op_remove = (\<lambda>s ino nm. Some (Inl ''no fs'', s)), op_rmdir = (\<lambda>s ino nm. Some (Inl ''no fs'', s)),
      op_stat = (\<lambda>s ino. Some (Inl ''no fs'', s)), op_readlink = (\<lambda>s ino. Some (Inl ''no fs'', s)),
      op_symlink = (\<lambda>s ino nm t. Some (Inl ''no fs'', s)), op_rename = (\<lambda>s p a q b. Some (Inl ''no fs'', s)),
      op_setattr = (\<lambda>s ino a. Some (Inl ''no fs'', s)), op_getxattr = (\<lambda>s ino nm n. Some (Inl ''no fs'', s)),
      op_setxattr = (\<lambda>s ino nm v. Some (Inl ''no fs'', s)), op_listxattr = (\<lambda>s ino n. Some (Inl ''no fs'', s)),
      op_truncate = (\<lambda>s ino z. Some (Inl ''no fs'', s)), op_ioctl = (\<lambda>s ino r a. Some (Inl ''ENOTTY'', s))\<rparr>"

text \<open>The ramfs as a table of operations: queries leave the state, updates replace the ramfs in it.\<close>

definition query :: "'x vfs_state \<Rightarrow> (string + 'a) option \<Rightarrow> ('x vfs_state, 'a) vres" where
  "query s r = map_option (\<lambda>x. (x, s)) r"

definition update_ram :: "'x vfs_state \<Rightarrow> ((string + 'a) \<times> ramfs) option \<Rightarrow> ('x vfs_state, 'a) vres" where
  "update_ram s r = map_option (\<lambda>(x, f). (x, s\<lparr>ram := f\<rparr>)) r"

definition ramfs_ops :: "env \<Rightarrow> 'x vfs_state vnode_ops" where
  "ramfs_ops e =
     \<lparr>op_read = (\<lambda>s ino off n. query s (ram_read (ram s) ino off n)),
      op_write = (\<lambda>s ino off buf. update_ram s (Some (ram_write (ram s) ino off buf))),
      op_lookup = (\<lambda>s ino nm. query s (ram_lookup (ram s) ino nm)),
      op_readdir = (\<lambda>s ino off n. query s (ram_readdir (ram s) ino off n)),
      op_create = (\<lambda>s ino nm m. update_ram s (ram_create e (ram s) ino nm m)),
      op_mkdir = (\<lambda>s ino nm m. update_ram s (Some (ram_mkdir (ram s) ino nm m))),
      op_remove = (\<lambda>s ino nm. update_ram s (ram_remove e (ram s) ino nm)),
      op_rmdir = (\<lambda>s ino nm. update_ram s (ram_rmdir e (ram s) ino nm)),
      op_stat = (\<lambda>s ino. query s (Some (ram_stat (ram s) ino))),
      op_readlink = (\<lambda>s ino. query s (Some (ram_readlink (ram s) ino))),
      op_symlink = (\<lambda>s ino nm t. update_ram s (Some (ram_symlink (ram s) ino nm t))),
      op_rename = (\<lambda>s p a q b. update_ram s (ram_rename e (ram s) p a q b)),
      op_setattr = (\<lambda>s ino a. update_ram s (Some (ram_setattr (ram s) ino a))),
      op_getxattr = (\<lambda>s ino nm n. query s (ram_getxattr (ram s) ino nm n)),
      op_setxattr = (\<lambda>s ino nm v. update_ram s (ram_setxattr (ram s) ino nm v)),
      op_listxattr = (\<lambda>s ino n. query s (ram_listxattr (ram s) ino n)),
      op_truncate = (\<lambda>s ino z. update_ram s (ram_truncate e (ram s) ino z)),
      op_ioctl = (\<lambda>s ino r a. query s (Some (ram_ioctl (ram s) ino r a)))\<rparr>"

definition RAMFS :: ops_id where "RAMFS = 1"
definition USERFS :: ops_id where "USERFS = 2"
definition PROCFS :: ops_id where "PROCFS = 3"

definition ops_of :: "env \<Rightarrow> 'x ops_table \<Rightarrow> 'x ops_table" where
  "ops_of e ext k = (if k = NOP_VNODE then nop_vnode else if k = RAMFS then ramfs_ops e else ext k)"

text \<open>The \<^verbatim>\<open>?\<close> operator: an error returns at once, with the state as it is.\<close>

definition attempt :: "('s, 'a) vres \<Rightarrow> ('a \<Rightarrow> 's \<Rightarrow> ('s, 'b) vres) \<Rightarrow> ('s, 'b) vres" where
  "attempt r f = (case r of None \<Rightarrow> None | Some (Inl e, s) \<Rightarrow> Some (Inl e, s) | Some (Inr x, s) \<Rightarrow> f x s)"

lemma attempt_simps [simp]:
  "attempt None f = None" "attempt (Some (Inl e, s)) f = Some (Inl e, s)" "attempt (Some (Inr x, s)) f = f x s"
  by (simp_all add: attempt_def)

lemma attempt_cong [fundef_cong]:
  "r = r' \<Longrightarrow> (\<And>x s. r' = Some (Inr x, s) \<Longrightarrow> f x s = g x s) \<Longrightarrow> attempt r f = attempt r' g"
  by (simp add: attempt_def split: option.split sum.split prod.split)

section \<open>Vnodes and mounts\<close>

definition set_vt :: "'x vfs_state \<Rightarrow> vnode_table \<Rightarrow> 'x vfs_state" where
  "set_vt s t = s\<lparr>ram := (ram s)\<lparr>fs_vnodes := t\<rparr>\<rparr>"

definition vt :: "'x vfs_state \<Rightarrow> vnode_table" where
  "vt s = fs_vnodes (ram s)"

definition vnode_alloc :: "'x vfs_state \<Rightarrow> u64 \<Rightarrow> u64 \<Rightarrow> u64 \<Rightarrow> ops_id \<Rightarrow> u16 option \<times> 'x vfs_state" where
  "vnode_alloc s ino fs_id mount_id ops = (let (r, t) = vt_alloc (vt s) ino fs_id mount_id ops in (r, set_vt s t))"

definition vnode_get :: "'x vfs_state \<Rightarrow> u16 \<Rightarrow> vnode option" where
  "vnode_get s vid = vt_get (vt s) vid"

definition vnode_release :: "'x vfs_state \<Rightarrow> u16 \<Rightarrow> 'x vfs_state" where
  "vnode_release s vid = set_vt s (snd (vt_free (vt s) vid))"

definition vnode_free_by_ino :: "'x vfs_state \<Rightarrow> u64 \<Rightarrow> 'x vfs_state" where
  "vnode_free_by_ino s ino = set_vt s (vt_free_by_ino (vt s) ino)"

definition alloc_fsid :: "'x vfs_state \<Rightarrow> u64 \<times> 'x vfs_state" where
  "alloc_fsid s = (next_fsid s, s\<lparr>next_fsid := next_fsid s + 1\<rparr>)"

definition new_vnode :: "'x vfs_state \<Rightarrow> u64 \<Rightarrow> u64 \<Rightarrow> u64 \<Rightarrow> ops_id \<Rightarrow> ('x vfs_state, u16) vres" where
  "new_vnode s ino fs_id mount_id ops =
     (case vnode_alloc s ino fs_id mount_id ops of
        (Some v, s') \<Rightarrow> Some (Inr v, s') | (None, s') \<Rightarrow> Some (Inl ''vnode table full'', s'))"

definition mount :: "'x vfs_state \<Rightarrow> bytes \<Rightarrow> u64 \<Rightarrow> u64 \<Rightarrow> ops_id \<Rightarrow> ('x vfs_state, u16) vres" where
  "mount s mp fs_id root_ino ops =
     (case mt_alloc (mtab s) mp fs_id root_ino ops of
        (None, t) \<Rightarrow> Some (Inl ''mount table full'', s\<lparr>mtab := t\<rparr>)
      | (Some mount_id, t) \<Rightarrow> new_vnode (s\<lparr>mtab := t\<rparr>) root_ino fs_id (of_nat mount_id) ops)"

definition mount_root :: "'x ops_table \<Rightarrow> 'x vfs_state \<Rightarrow> ('x vfs_state, u16) vres" where
  "mount_root T s =
     (let (fs_id, s1) = alloc_fsid s
      in attempt (op_lookup (T RAMFS) s1 0 [slash]) (\<lambda>root_ino s2. mount s2 [slash] fs_id root_ino RAMFS))"

definition mount_ext3 :: "'x vfs_state \<Rightarrow> bytes \<Rightarrow> ('x vfs_state, u16) vres" where
  "mount_ext3 s mp = Some (Inl ''ext3 not yet implemented as VnodeOps'', s)"

definition mount_userfs :: "'x vfs_state \<Rightarrow> bytes \<Rightarrow> ('x vfs_state, u16) vres" where
  "mount_userfs s mp = (let (fs_id, s1) = alloc_fsid s in mount s1 mp fs_id 1 USERFS)"

definition is_userfs_path :: "'x vfs_state \<Rightarrow> bytes \<Rightarrow> bool" where
  "is_userfs_path s path =
     (case find_mount (mtab s) path of Some i \<Rightarrow> m_ops (mounts (mtab s) ! i) = USERFS | None \<Rightarrow> False)"

section \<open>Path resolution\<close>

definition rel_path :: "mount_entry \<Rightarrow> bytes \<Rightarrow> bytes" where
  "rel_path m path =
     (if length path = mp_len m then [dot]
      else if mp_len m = 1 \<and> mp_len m < length path then drop 1 path
      else drop (mp_len m) path)"

definition path_resolve :: "'x ops_table \<Rightarrow> 'x vfs_state \<Rightarrow> bytes \<Rightarrow> ('x vfs_state, u64 \<times> ops_id) vres" where
  "path_resolve T s path =
     (case find_mount (mtab s) path of
        None \<Rightarrow> Some (Inl ''no mount for path'', s)
      | Some i \<Rightarrow>
          let mnt = mounts (mtab s) ! i; rel = rel_path mnt path
          in if rel = [dot] \<or> rel = [] then Some (Inr (m_root mnt, m_ops mnt), s)
             else attempt (walk (op_lookup (T (m_ops mnt))) s (m_root mnt) (trim_ascii rel))
                    (\<lambda>ino s'. Some (Inr (ino, m_ops mnt), s')))"

definition resolve_ino :: "'x ops_table \<Rightarrow> 'x vfs_state \<Rightarrow> bytes \<Rightarrow> ('x vfs_state, u64) vres" where
  "resolve_ino T s path = attempt (path_resolve T s path) (\<lambda>(ino, _) s'. Some (Inr ino, s'))"

definition path_to_vnode :: "'x ops_table \<Rightarrow> 'x vfs_state \<Rightarrow> bytes \<Rightarrow> ('x vfs_state, u16) vres" where
  "path_to_vnode T s path =
     (case find_mount (mtab s) path of
        None \<Rightarrow> Some (Inl ''no mount for path'', s)
      | Some i \<Rightarrow>
          let mnt = mounts (mtab s) ! i; rel = rel_path mnt path
          in if rel = [dot] \<or> rel = [] then new_vnode s (m_root mnt) (m_fs_id mnt) 0 (m_ops mnt)
             else attempt (walk (op_lookup (T (m_ops mnt))) s (m_root mnt) (trim_ascii rel))
                    (\<lambda>ino s'. new_vnode s' ino (m_fs_id mnt) 0 (m_ops mnt)))"

section \<open>Operations on vnodes\<close>

definition with_vnode :: "'x vfs_state \<Rightarrow> u16 \<Rightarrow> (vnode \<Rightarrow> ('x vfs_state, 'a) vres) \<Rightarrow> ('x vfs_state, 'a) vres" where
  "with_vnode s vid f = (case vnode_get s vid of None \<Rightarrow> Some (Inl ''bad vnode'', s) | Some v \<Rightarrow> f v)"

definition vfs_open :: "'x ops_table \<Rightarrow> 'x vfs_state \<Rightarrow> bytes \<Rightarrow> u32 \<Rightarrow> ('x vfs_state, u16) vres" where
  "vfs_open T s path flags = path_to_vnode T s path"

definition vfs_close :: "'x vfs_state \<Rightarrow> u16 \<Rightarrow> 'x vfs_state" where
  "vfs_close s vid = vnode_release s vid"

definition vfs_read :: "'x ops_table \<Rightarrow> 'x vfs_state \<Rightarrow> u16 \<Rightarrow> u64 \<Rightarrow> nat \<Rightarrow> ('x vfs_state, bytes) vres" where
  "vfs_read T s vid offset n = with_vnode s vid (\<lambda>v. op_read (T (v_ops v)) s (v_ino v) offset n)"

definition vfs_write :: "'x ops_table \<Rightarrow> 'x vfs_state \<Rightarrow> u16 \<Rightarrow> u64 \<Rightarrow> bytes \<Rightarrow> ('x vfs_state, nat) vres" where
  "vfs_write T s vid offset buf = with_vnode s vid (\<lambda>v. op_write (T (v_ops v)) s (v_ino v) offset buf)"

definition vfs_readdir :: "'x ops_table \<Rightarrow> 'x vfs_state \<Rightarrow> u16 \<Rightarrow> u64 \<Rightarrow> nat \<Rightarrow> ('x vfs_state, dirent list) vres" where
  "vfs_readdir T s vid offset n = with_vnode s vid (\<lambda>v. op_readdir (T (v_ops v)) s (v_ino v) offset n)"

definition vfs_stat :: "'x ops_table \<Rightarrow> 'x vfs_state \<Rightarrow> u16 \<Rightarrow> ('x vfs_state, stat) vres" where
  "vfs_stat T s vid = with_vnode s vid (\<lambda>v. op_stat (T (v_ops v)) s (v_ino v))"

definition vfs_readlink :: "'x ops_table \<Rightarrow> 'x vfs_state \<Rightarrow> u16 \<Rightarrow> ('x vfs_state, bytes) vres" where
  "vfs_readlink T s vid = with_vnode s vid (\<lambda>v. op_readlink (T (v_ops v)) s (v_ino v))"

definition vfs_getxattr :: "'x ops_table \<Rightarrow> 'x vfs_state \<Rightarrow> u16 \<Rightarrow> bytes \<Rightarrow> nat \<Rightarrow> ('x vfs_state, bytes) vres" where
  "vfs_getxattr T s vid nm n = with_vnode s vid (\<lambda>v. op_getxattr (T (v_ops v)) s (v_ino v) nm n)"

definition vfs_setxattr :: "'x ops_table \<Rightarrow> 'x vfs_state \<Rightarrow> u16 \<Rightarrow> bytes \<Rightarrow> bytes \<Rightarrow> ('x vfs_state, unit) vres" where
  "vfs_setxattr T s vid nm val = with_vnode s vid (\<lambda>v. op_setxattr (T (v_ops v)) s (v_ino v) nm val)"

section \<open>Operations on paths\<close>

definition on_parent :: "'x ops_table \<Rightarrow> 'x vfs_state \<Rightarrow> bytes \<Rightarrow>
    ('x vfs_state vnode_ops \<Rightarrow> 'x vfs_state \<Rightarrow> u64 \<Rightarrow> bytes \<Rightarrow> ('x vfs_state, 'a) vres) \<Rightarrow> ('x vfs_state, 'a) vres" where
  "on_parent T s path f =
     attempt (path_resolve T s (parent_path path)) (\<lambda>(pino, ops) s'. f (T ops) s' pino (file_name path))"

definition vfs_mkdir :: "'x ops_table \<Rightarrow> 'x vfs_state \<Rightarrow> bytes \<Rightarrow> u32 \<Rightarrow> ('x vfs_state, u64) vres" where
  "vfs_mkdir T s path mode = on_parent T s path (\<lambda>ops s' pino nm. op_mkdir ops s' pino nm mode)"

lemma parent_path_shorter:
  "path \<noteq> [] \<Longrightarrow> path \<noteq> [slash] \<Longrightarrow> parent_path path = [slash] \<or> length (parent_path path) < length path"
  by (auto simp: parent_path_def Let_def rposition_def split: option.splits nat.splits)

definition MKDIR_P_MODE :: u32 where "MKDIR_P_MODE = 0x1EC"

function mkdir_p :: "'x ops_table \<Rightarrow> 'x vfs_state \<Rightarrow> bytes \<Rightarrow> ('x vfs_state, unit) vres" where
  "mkdir_p T s path =
     (if path = [] \<or> path = [slash] then Some (Inr (), s)
      else case path_resolve T s path of
             None \<Rightarrow> None
           | Some (Inr _, s1) \<Rightarrow> Some (Inr (), s1)
           | Some (Inl _, s1) \<Rightarrow>
               attempt (mkdir_p T s1 (parent_path path)) (\<lambda>_ s2.
               attempt (vfs_mkdir T s2 path MKDIR_P_MODE) (\<lambda>_ s3. Some (Inr (), s3))))"
  by pat_completeness auto
termination
  by (relation "measure (\<lambda>(T, s, path). if path = [slash] then 0 else Suc (length path))")
     (use parent_path_shorter in auto)

declare mkdir_p.simps [simp del]

definition vfs_create :: "'x ops_table \<Rightarrow> 'x vfs_state \<Rightarrow> bytes \<Rightarrow> u32 \<Rightarrow> ('x vfs_state, u64) vres" where
  "vfs_create T s path mode =
     attempt (mkdir_p T s (parent_path path)) (\<lambda>_ s1.
       on_parent T s1 path (\<lambda>ops s' pino nm. op_create ops s' pino nm mode))"

definition vfs_remove :: "'x ops_table \<Rightarrow> 'x vfs_state \<Rightarrow> bytes \<Rightarrow> ('x vfs_state, unit) vres" where
  "vfs_remove T s path = on_parent T s path (\<lambda>ops s' pino nm. op_remove ops s' pino nm)"

definition vfs_symlink :: "'x ops_table \<Rightarrow> 'x vfs_state \<Rightarrow> bytes \<Rightarrow> bytes \<Rightarrow> ('x vfs_state, u64) vres" where
  "vfs_symlink T s path target = on_parent T s path (\<lambda>ops s' pino nm. op_symlink ops s' pino nm target)"

definition vfs_rmdir :: "'x ops_table \<Rightarrow> 'x vfs_state \<Rightarrow> bytes \<Rightarrow> ('x vfs_state, unit) vres" where
  "vfs_rmdir T s path = on_parent T s path (\<lambda>ops s' pino nm. op_rmdir ops s' pino nm)"

definition vfs_rename :: "'x ops_table \<Rightarrow> 'x vfs_state \<Rightarrow> bytes \<Rightarrow> bytes \<Rightarrow> ('x vfs_state, unit) vres" where
  "vfs_rename T s old_path new_path =
     attempt (path_resolve T s (parent_path old_path)) (\<lambda>(old_pino, ops) s1.
       if parent_path old_path = parent_path new_path
       then op_rename (T ops) s1 old_pino (file_name old_path) old_pino (file_name new_path)
       else attempt (path_resolve T s1 (parent_path new_path)) (\<lambda>(new_pino, _) s2.
              op_rename (T ops) s2 old_pino (file_name old_path) new_pino (file_name new_path)))"

section \<open>The message interface\<close>

datatype vfs_op = Read | Write | Lookup | ReadDir | Create | MkDir | Remove | RmDir | Stat | ReadLink | SymLink | Rename
  | SetAttr | GetXattr | SetXattr | ListXattr | Open | Close | Seek | Truncate | Ioctl | FSync

text \<open>\<^verbatim>\<open>data\<close> points to a buffer of \<^verbatim>\<open>data_len\<close> bytes: \<open>mg_data\<close> is that buffer, \<open>mg_ptr\<close> its address, and the structures
  that \<^verbatim>\<open>Stat\<close> and \<^verbatim>\<open>ReadDir\<close> store there are kept in \<open>mg_stat\<close> and \<open>mg_dirents\<close>.\<close>

record message =
  mg_op :: vfs_op
  mg_path :: bytes
  mg_path_len :: nat
  mg_data :: bytes
  mg_ptr :: u64
  mg_stat :: "stat option"
  mg_dirents :: "dirent list"
  mg_offset :: u64
  mg_mode :: u32
  mg_flags :: u32
  mg_result :: int
  mg_extra1 :: u64
  mg_extra2 :: u64

definition message_new :: message where
  "message_new = \<lparr>mg_op = Read, mg_path = replicate MAX_PATH 0, mg_path_len = 0, mg_data = [], mg_ptr = 0, mg_stat = None,
     mg_dirents = [], mg_offset = 0, mg_mode = 0, mg_flags = 0, mg_result = 0, mg_extra1 = 0, mg_extra2 = 0\<rparr>"

definition DIRENT_SIZE :: nat where "DIRENT_SIZE = 280"

type_synonym 'x reply = "(message \<times> 'x vfs_state) option"

definition as_i64 :: "nat \<Rightarrow> int" where
  "as_i64 n = sint (of_nat n :: u64)"

text \<open>How an arm ends: the value, or -1 for an error, becomes the result of the message.\<close>

definition answer :: "message \<Rightarrow> ('x vfs_state, 'a) vres \<Rightarrow> ('a \<Rightarrow> message \<Rightarrow> message) \<Rightarrow> 'x reply" where
  "answer msg r f = map_option (\<lambda>(x, s). ((case x of Inl _ \<Rightarrow> msg\<lparr>mg_result := -1\<rparr> | Inr v \<Rightarrow> f v msg), s)) r"

definition fill_data :: "bytes \<Rightarrow> message \<Rightarrow> message" where
  "fill_data bs msg = msg\<lparr>mg_data := bs @ drop (length bs) (mg_data msg), mg_result := as_i64 (length bs)\<rparr>"

definition vnode_arm :: "'x vfs_state \<Rightarrow> message \<Rightarrow> (vnode \<Rightarrow> 'x reply) \<Rightarrow> 'x reply" where
  "vnode_arm s msg f = (case vnode_get s (ucast (mg_extra1 msg)) of None \<Rightarrow> Some (msg\<lparr>mg_result := -1\<rparr>, s) | Some v \<Rightarrow> f v)"

definition path_arm :: "'x ops_table \<Rightarrow> 'x vfs_state \<Rightarrow> message \<Rightarrow>
    ('x vfs_state vnode_ops \<Rightarrow> 'x vfs_state \<Rightarrow> u64 \<Rightarrow> bytes \<Rightarrow> ('x vfs_state, 'a) vres) \<Rightarrow> ('a \<Rightarrow> int) \<Rightarrow> 'x reply" where
  "path_arm T s msg f res =
     do { path \<leftarrow> slice_to (mg_path msg) (mg_path_len msg);
          answer msg (on_parent T s path f) (\<lambda>v m. m\<lparr>mg_result := res v\<rparr>) }"

definition dispatch_open :: "'x ops_table \<Rightarrow> 'x vfs_state \<Rightarrow> message \<Rightarrow> 'x reply" where
  "dispatch_open T s msg =
     do { path \<leftarrow> slice_to (mg_path msg) (mg_path_len msg);
          answer msg (path_to_vnode T s path) (\<lambda>v m. m\<lparr>mg_result := int (unat v)\<rparr>) }"

definition dispatch_read :: "'x ops_table \<Rightarrow> 'x vfs_state \<Rightarrow> message \<Rightarrow> 'x reply" where
  "dispatch_read T s msg = vnode_arm s msg (\<lambda>v.
     answer msg (op_read (T (v_ops v)) s (v_ino v) (mg_offset msg) (length (mg_data msg))) fill_data)"

definition dispatch_write :: "'x ops_table \<Rightarrow> 'x vfs_state \<Rightarrow> message \<Rightarrow> 'x reply" where
  "dispatch_write T s msg = vnode_arm s msg (\<lambda>v.
     answer msg (op_write (T (v_ops v)) s (v_ino v) (mg_offset msg) (mg_data msg)) (\<lambda>n m. m\<lparr>mg_result := as_i64 n\<rparr>))"

definition dispatch_stat :: "'x ops_table \<Rightarrow> 'x vfs_state \<Rightarrow> message \<Rightarrow> 'x reply" where
  "dispatch_stat T s msg = vnode_arm s msg (\<lambda>v.
     answer msg (op_stat (T (v_ops v)) s (v_ino v)) (\<lambda>st m. m\<lparr>mg_stat := Some st, mg_result := 0\<rparr>))"

definition dispatch_readdir :: "'x ops_table \<Rightarrow> 'x vfs_state \<Rightarrow> message \<Rightarrow> 'x reply" where
  "dispatch_readdir T s msg = vnode_arm s msg (\<lambda>v.
     answer msg (op_readdir (T (v_ops v)) s (v_ino v) (mg_offset msg) (length (mg_data msg) div DIRENT_SIZE))
       (\<lambda>ds m. m\<lparr>mg_dirents := ds, mg_result := as_i64 (length ds)\<rparr>))"

definition dispatch_lookup :: "'x ops_table \<Rightarrow> 'x vfs_state \<Rightarrow> message \<Rightarrow> 'x reply" where
  "dispatch_lookup T s msg = vnode_arm s msg (\<lambda>v.
     do { nm \<leftarrow> slice_to (mg_path msg) (mg_path_len msg);
          answer msg (op_lookup (T (v_ops v)) s (v_ino v) nm) (\<lambda>ino m. m\<lparr>mg_result := sint ino\<rparr>) })"

definition dispatch_create :: "'x ops_table \<Rightarrow> 'x vfs_state \<Rightarrow> message \<Rightarrow> 'x reply" where
  "dispatch_create T s msg = path_arm T s msg (\<lambda>ops s' pino nm. op_create ops s' pino nm (mg_mode msg)) sint"

definition dispatch_mkdir :: "'x ops_table \<Rightarrow> 'x vfs_state \<Rightarrow> message \<Rightarrow> 'x reply" where
  "dispatch_mkdir T s msg = path_arm T s msg (\<lambda>ops s' pino nm. op_mkdir ops s' pino nm (mg_mode msg)) sint"

definition dispatch_remove :: "'x ops_table \<Rightarrow> 'x vfs_state \<Rightarrow> message \<Rightarrow> 'x reply" where
  "dispatch_remove T s msg = path_arm T s msg (\<lambda>ops s' pino nm. op_remove ops s' pino nm) (\<lambda>_. 0)"

definition dispatch_rmdir :: "'x ops_table \<Rightarrow> 'x vfs_state \<Rightarrow> message \<Rightarrow> 'x reply" where
  "dispatch_rmdir T s msg = path_arm T s msg (\<lambda>ops s' pino nm. op_rmdir ops s' pino nm) (\<lambda>_. 0)"

definition dispatch_readlink :: "'x ops_table \<Rightarrow> 'x vfs_state \<Rightarrow> message \<Rightarrow> 'x reply" where
  "dispatch_readlink T s msg = vnode_arm s msg (\<lambda>v.
     answer msg (op_readlink (T (v_ops v)) s (v_ino v)) (\<lambda>target m. fill_data (take (length (mg_data m)) target) m))"

definition dispatch_symlink :: "'x ops_table \<Rightarrow> 'x vfs_state \<Rightarrow> message \<Rightarrow> 'x reply" where
  "dispatch_symlink T s msg = path_arm T s msg (\<lambda>ops s' pino nm. op_symlink ops s' pino nm (mg_data msg)) (\<lambda>_. 0)"

definition dispatch_getxattr :: "'x ops_table \<Rightarrow> 'x vfs_state \<Rightarrow> message \<Rightarrow> 'x reply" where
  "dispatch_getxattr T s msg = vnode_arm s msg (\<lambda>v.
     do { nm \<leftarrow> slice_to (mg_path msg) (mg_path_len msg);
          answer msg (op_getxattr (T (v_ops v)) s (v_ino v) nm (length (mg_data msg))) fill_data })"

definition dispatch_setxattr :: "'x ops_table \<Rightarrow> 'x vfs_state \<Rightarrow> message \<Rightarrow> 'x reply" where
  "dispatch_setxattr T s msg = vnode_arm s msg (\<lambda>v.
     do { nm \<leftarrow> slice_to (mg_path msg) (mg_path_len msg);
          answer msg (op_setxattr (T (v_ops v)) s (v_ino v) nm (mg_data msg)) (\<lambda>_ m. m\<lparr>mg_result := 0\<rparr>) })"

definition dispatch_listxattr :: "'x ops_table \<Rightarrow> 'x vfs_state \<Rightarrow> message \<Rightarrow> 'x reply" where
  "dispatch_listxattr T s msg = vnode_arm s msg (\<lambda>v.
     answer msg (op_listxattr (T (v_ops v)) s (v_ino v) (length (mg_data msg))) fill_data)"

definition dispatch_close :: "'x vfs_state \<Rightarrow> message \<Rightarrow> 'x reply" where
  "dispatch_close s msg = Some (msg\<lparr>mg_result := 0\<rparr>, vnode_release s (ucast (mg_extra1 msg)))"

definition dispatch_seek :: "'x ops_table \<Rightarrow> 'x vfs_state \<Rightarrow> message \<Rightarrow> 'x reply" where
  "dispatch_seek T s msg = vnode_arm s msg (\<lambda>v.
     answer msg (op_stat (T (v_ops v)) s (v_ino v)) (\<lambda>_ m. m\<lparr>mg_result := sint (mg_offset m)\<rparr>))"

definition dispatch_truncate :: "'x ops_table \<Rightarrow> 'x vfs_state \<Rightarrow> message \<Rightarrow> 'x reply" where
  "dispatch_truncate T s msg = vnode_arm s msg (\<lambda>v.
     answer msg (op_truncate (T (v_ops v)) s (v_ino v) (mg_offset msg)) (\<lambda>_ m. m\<lparr>mg_result := 0\<rparr>))"

definition dispatch_ioctl :: "'x ops_table \<Rightarrow> 'x vfs_state \<Rightarrow> message \<Rightarrow> 'x reply" where
  "dispatch_ioctl T s msg = vnode_arm s msg (\<lambda>v.
     answer msg (op_ioctl (T (v_ops v)) s (v_ino v) (mg_offset msg) (mg_ptr msg)) (\<lambda>n m. m\<lparr>mg_result := as_i64 n\<rparr>))"

definition dispatch :: "'x ops_table \<Rightarrow> 'x vfs_state \<Rightarrow> message \<Rightarrow> 'x reply" where
  "dispatch T s msg =
     (case mg_op msg of
        Open \<Rightarrow> dispatch_open T s msg | Read \<Rightarrow> dispatch_read T s msg | Write \<Rightarrow> dispatch_write T s msg
      | Stat \<Rightarrow> dispatch_stat T s msg | ReadDir \<Rightarrow> dispatch_readdir T s msg | Lookup \<Rightarrow> dispatch_lookup T s msg
      | Create \<Rightarrow> dispatch_create T s msg | MkDir \<Rightarrow> dispatch_mkdir T s msg | Remove \<Rightarrow> dispatch_remove T s msg
      | RmDir \<Rightarrow> dispatch_rmdir T s msg | ReadLink \<Rightarrow> dispatch_readlink T s msg | SymLink \<Rightarrow> dispatch_symlink T s msg
      | GetXattr \<Rightarrow> dispatch_getxattr T s msg | SetXattr \<Rightarrow> dispatch_setxattr T s msg
      | ListXattr \<Rightarrow> dispatch_listxattr T s msg | Close \<Rightarrow> dispatch_close s msg | Seek \<Rightarrow> dispatch_seek T s msg
      | Truncate \<Rightarrow> dispatch_truncate T s msg | Ioctl \<Rightarrow> dispatch_ioctl T s msg
      | _ \<Rightarrow> Some (msg\<lparr>mg_result := -1\<rparr>, s))"

end
