(* ===== verification/Files.thy ===== *)
theory Files
  imports Vfs_Core
begin

text \<open>
  The flat inode table and the per-task file descriptors of \<^verbatim>\<open>src/src/vfs.rs\<close>, with the pipes and the descriptor
  system calls of \<^verbatim>\<open>src/src/task.rs\<close> that work on them. The state extends that of the vnode layer by the inode table,
  one descriptor table of 64 entries for each of the 64 task slots, the 8 pipe slots, the current task and its working
  directory. System calls return the kernel's \<^verbatim>\<open>i64\<close> (a negative error number); \<open>None\<close> is a panic.
\<close>

unbundle bit_operations_syntax

section \<open>Data\<close>

definition FLAT_INODES :: nat where "FLAT_INODES = 256"
definition MAX_FDS_PER_TASK :: nat where "MAX_FDS_PER_TASK = 64"
definition MAX_TASKS :: nat where "MAX_TASKS = 64"
definition PIPE_MAX :: nat where "PIPE_MAX = 8"
definition PIPE_INODE_BASE :: nat where "PIPE_INODE_BASE = FLAT_INODES - PIPE_MAX * 2"
definition PIPE_CAP :: nat where "PIPE_CAP = 4096"

definition ENOENT :: int where "ENOENT = 2"
definition EIO :: int where "EIO = 5"
definition EBADF :: int where "EBADF = 9"
definition EAGAIN :: int where "EAGAIN = 11"
definition EACCES :: int where "EACCES = 13"
definition EFAULT :: int where "EFAULT = 14"
definition EINVAL :: int where "EINVAL = 22"
definition EMFILE :: int where "EMFILE = 24"
definition ENOTEMPTY :: int where "ENOTEMPTY = 39"

record inode =
  n_name :: bytes
  n_data_ptr :: u64
  n_size :: u64
  n_used :: bool
  n_vnode :: u16

definition inode_empty :: inode where
  "inode_empty = \<lparr>n_name = replicate 64 0, n_data_ptr = 0, n_size = 0, n_used = False, n_vnode = 0\<rparr>"

record fdesc =
  f_inode :: nat
  f_pos :: u64
  f_used :: bool
  f_flags :: "32 word"

definition fdesc_empty :: fdesc where
  "fdesc_empty = \<lparr>f_inode = 0, f_pos = 0, f_used = False, f_flags = 0\<rparr>"

record pipe_slot =
  p_buf :: bytes
  rpos :: nat
  wpos :: nat
  nread :: u32
  nwrite :: u32
  p_used :: bool

definition pipe_empty :: pipe_slot where
  "pipe_empty = \<lparr>p_buf = replicate PIPE_CAP 0, rpos = 0, wpos = 0, nread = 0, nwrite = 0, p_used = False\<rparr>"

record 'x files =
  core :: "'x vfs_state"
  finodes :: "inode list"
  fdt :: "fdesc list list"
  pipes :: "pipe_slot list"
  cur :: u64
  cwd :: bytes

definition files_new :: "'x vfs_state \<Rightarrow> 'x files" where
  "files_new v = \<lparr>core = v, finodes = replicate FLAT_INODES inode_empty,
     fdt = replicate MAX_TASKS (replicate MAX_FDS_PER_TASK fdesc_empty), pipes = replicate PIPE_MAX pipe_empty, cur = 0, cwd = []\<rparr>"

definition get_cwd_bytes :: "'x files \<Rightarrow> bytes" where
  "get_cwd_bytes f = (if cur f = 0 then [slash] else if cwd f = [] then [slash] else cwd f)"

section \<open>The flat inode table\<close>

definition upd_flat :: "'x files \<Rightarrow> nat \<Rightarrow> (inode \<Rightarrow> inode) \<Rightarrow> 'x files" where
  "upd_flat f i g = f\<lparr>finodes := (finodes f)[i := g (finodes f ! i)]\<rparr>"

definition flat_name :: "bytes \<Rightarrow> bytes" where
  "flat_name nm = (let n = min (length nm) 63 in take n nm @ replicate (64 - n) 0)"

definition alloc_flat_inode :: "'x files \<Rightarrow> bytes \<Rightarrow> u64 \<Rightarrow> nat option \<times> 'x files" where
  "alloc_flat_inode f nm sz =
     (case find_index (\<lambda>nd. \<not> n_used nd) (take PIPE_INODE_BASE (finodes f)) of
        Some i \<Rightarrow> (Some i, upd_flat f i (\<lambda>_. inode_empty\<lparr>n_used := True, n_name := flat_name nm, n_size := sz, n_data_ptr := 0\<rparr>))
      | None \<Rightarrow> (None, f))"

definition norm_name :: "'x files \<Rightarrow> bytes \<Rightarrow> bytes" where
  "norm_name f nm =
     (case normalize_path (get_cwd_bytes f) nm (replicate 512 0) of
        (Some n, buf) \<Rightarrow> if n > 0 then take n buf else nm
      | (None, _) \<Rightarrow> nm)"

definition flat_match :: "bytes \<Rightarrow> inode \<Rightarrow> bool" where
  "flat_match norm nd \<longleftrightarrow> n_used nd \<and>
     (let j = min (length norm) 63 in take j (n_name nd) = take j norm \<and> j = length norm \<and> n_name nd ! j = 0)"

definition find_inode :: "'x files \<Rightarrow> bytes \<Rightarrow> nat option" where
  "find_inode f nm = find_index (flat_match (norm_name f nm)) (finodes f)"

definition inode_vnode_id :: "'x files \<Rightarrow> nat \<Rightarrow> u16 option" where
  "inode_vnode_id f idx = (if idx \<ge> FLAT_INODES \<or> \<not> n_used (finodes f ! idx) then None else Some (n_vnode (finodes f ! idx)))"

definition inode_size :: "'x files \<Rightarrow> nat \<Rightarrow> u64 option" where
  "inode_size f idx = (if idx \<ge> FLAT_INODES \<or> \<not> n_used (finodes f ! idx) then None else Some (n_size (finodes f ! idx)))"

definition inode_read :: "'x ops_table \<Rightarrow> 'x files \<Rightarrow> nat \<Rightarrow> u64 \<Rightarrow> nat \<Rightarrow> (bytes option \<times> 'x files) option" where
  "inode_read T f idx pos n =
     (if idx \<ge> FLAT_INODES \<or> \<not> n_used (finodes f ! idx) then Some (None, f)
      else let nd = finodes f ! idx
           in if n_data_ptr nd = 0 \<and> n_vnode nd = 0 then Some (None, f)
              else if n_data_ptr nd = 0
              then map_option (\<lambda>(r, v). (case r of Inr bs \<Rightarrow> Some bs | Inl _ \<Rightarrow> None, f\<lparr>core := v\<rparr>)) (vfs_read T (core f) (n_vnode nd) pos n)
              else if pos \<ge> n_size nd then Some (Some [], f)
              else Some (Some (mem_read (mem (ram (core f))) (n_data_ptr nd + pos) (min n (unat (n_size nd - pos)))), f))"

definition inode_write :: "'x ops_table \<Rightarrow> 'x files \<Rightarrow> nat \<Rightarrow> u64 \<Rightarrow> bytes \<Rightarrow> (nat option \<times> 'x files) option" where
  "inode_write T f idx pos buf =
     (if idx \<ge> FLAT_INODES \<or> \<not> n_used (finodes f ! idx) then Some (None, f)
      else let nd = finodes f ! idx
           in if n_vnode nd \<noteq> 0
              then map_option (\<lambda>(r, v). case r of
                       Inr n \<Rightarrow> (Some n, if pos + of_nat n > n_size nd then upd_flat (f\<lparr>core := v\<rparr>) idx (\<lambda>nd. nd\<lparr>n_size := pos + of_nat n\<rparr>)
                                        else f\<lparr>core := v\<rparr>)
                     | Inl _ \<Rightarrow> (None, f\<lparr>core := v\<rparr>)) (vfs_write T (core f) (n_vnode nd) pos buf)
              else if n_data_ptr nd = 0 then Some (None, f)
              else if pos > n_size nd then Some (None, f)
              else let to_write = min (length buf) (unat (n_size nd - pos)); v = core f; r = ram v
                   in Some (Some to_write,
                        f\<lparr>core := v\<lparr>ram := r\<lparr>mem := mem_write (mem r) (n_data_ptr nd + pos) (take to_write buf)\<rparr>\<rparr>\<rparr>))"

definition bind_vnode_inode :: "'x files \<Rightarrow> bytes \<Rightarrow> u16 \<Rightarrow> nat option \<times> 'x files" where
  "bind_vnode_inode f nm vid =
     (case alloc_flat_inode f nm 0 of
        (None, f1) \<Rightarrow> (None, f1)
      | (Some i, f1) \<Rightarrow> (Some i, upd_flat f1 i (\<lambda>nd. nd\<lparr>n_vnode := vid\<rparr>)))"

definition rebind_inode_vnode :: "'x files \<Rightarrow> bytes \<Rightarrow> u16 \<Rightarrow> nat option \<times> 'x files" where
  "rebind_inode_vnode f nm vid =
     (case find_inode f nm of None \<Rightarrow> (None, f) | Some i \<Rightarrow> (Some i, upd_flat f i (\<lambda>nd. nd\<lparr>n_vnode := vid\<rparr>)))"

definition pid_dir_ino :: "u64 \<Rightarrow> u64" where "pid_dir_ino pid = 0x100000 + pid"
definition pid_stat_ino :: "u64 \<Rightarrow> u64" where "pid_stat_ino pid = 0x200000 + pid"
definition pid_cmdline_ino :: "u64 \<Rightarrow> u64" where "pid_cmdline_ino pid = 0x300000 + pid"

definition parse_pid :: "bytes \<Rightarrow> u64" where
  "parse_pid ds = fold (\<lambda>c pid. pid * 10 + ucast (c - 48)) ds 0"

definition maybe_bind_proc_pid :: "'x files \<Rightarrow> bytes \<Rightarrow> nat option \<times> 'x files" where
  "maybe_bind_proc_pid f nm =
     (if take 6 nm \<noteq> [47, 112, 114, 111, 99, 47] then (None, f)
      else let rest = drop 6 nm; pid_str = takeWhile (\<lambda>c. c \<noteq> slash) rest; file = drop 1 (dropWhile (\<lambda>c. c \<noteq> slash) rest)
           in if pid_str = [] \<or> \<not> list_all (\<lambda>c. 48 \<le> c \<and> c \<le> 57) pid_str then (None, f)
              else let pid = parse_pid pid_str;
                       ino = (if file = [] then Some (pid_dir_ino pid)
                              else if file = [115, 116, 97, 116] then Some (pid_stat_ino pid)
                              else if file = [99, 109, 100, 108, 105, 110, 101] then Some (pid_cmdline_ino pid)
                              else None)
                   in case ino of
                        None \<Rightarrow> (None, f)
                      | Some ino \<Rightarrow>
                          let (fs_id, v1) = alloc_fsid (core f)
                          in case vnode_alloc v1 ino fs_id 0 PROCFS of
                               (None, v2) \<Rightarrow> (None, f\<lparr>core := v2\<rparr>)
                             | (Some vn, v2) \<Rightarrow> bind_vnode_inode (f\<lparr>core := v2\<rparr>) nm vn)"

text \<open>\<^verbatim>\<open>resolve_or_register\<close>: the vnode for a new flat entry; a failure rolls the entry back.\<close>

definition vnode_for :: "'x ops_table \<Rightarrow> 'x vfs_state \<Rightarrow> bytes \<Rightarrow> (u16 option \<times> 'x vfs_state) option" where
  "vnode_for T v norm =
     (if is_userfs_path v norm
      then map_option (\<lambda>(r, v1). (case r of Inr vn \<Rightarrow> Some vn | Inl _ \<Rightarrow> None, v1)) (path_to_vnode T v norm)
      else do { (r, v1) \<leftarrow> resolve_ino T v norm;
                Some (case r of Inl _ \<Rightarrow> (None, v1) | Inr ino \<Rightarrow> vnode_alloc v1 ino 0 0 RAMFS) })"

definition resolve_or_register :: "'x ops_table \<Rightarrow> 'x files \<Rightarrow> bytes \<Rightarrow> (nat option \<times> 'x files) option" where
  "resolve_or_register T f name =
     (let norm = norm_name f name
      in case find_inode f norm of
           Some i \<Rightarrow> Some (Some i, f)
         | None \<Rightarrow>
             (case maybe_bind_proc_pid f norm of
                (Some i, f1) \<Rightarrow> Some (Some i, f1)
              | (None, f1) \<Rightarrow>
                  (case alloc_flat_inode f1 norm 0 of
                     (None, f2) \<Rightarrow> Some (None, f2)
                   | (Some i, f2) \<Rightarrow>
                       if n_vnode (finodes f2 ! i) \<noteq> 0 then Some (Some i, f2)
                       else do { (r, v) \<leftarrow> vnode_for T (core f2) norm;
                                 Some (case r of
                                   None \<Rightarrow> (None, upd_flat (f2\<lparr>core := v\<rparr>) i (\<lambda>nd. nd\<lparr>n_used := False\<rparr>))
                                 | Some vn \<Rightarrow> (Some i, upd_flat (f2\<lparr>core := v\<rparr>) i (\<lambda>nd. nd\<lparr>n_vnode := vn\<rparr>))) })))"

definition create_symlink :: "'x ops_table \<Rightarrow> 'x files \<Rightarrow> bytes \<Rightarrow> bytes \<Rightarrow> (nat option \<times> 'x files) option" where
  "create_symlink T f path target =
     do { (r, v) \<leftarrow> vfs_symlink T (core f) path target;
          case r of Inl _ \<Rightarrow> Some (None, f\<lparr>core := v\<rparr>) | Inr _ \<Rightarrow> resolve_or_register T (f\<lparr>core := v\<rparr>) path }"

text \<open>The part that \<^verbatim>\<open>create_file_mode\<close> and \<^verbatim>\<open>create_external_file\<close> share: create the file in the tree and bind the
  flat entry \<open>i\<close> to a vnode for it, or roll the entry back.\<close>

definition bind_created :: "'x ops_table \<Rightarrow> 'x files \<Rightarrow> nat \<Rightarrow> bytes \<Rightarrow> u32 \<Rightarrow> (u16 option \<times> 'x files) option" where
  "bind_created T f i name mode =
     do { (r, v) \<leftarrow> vfs_create T (core f) name mode;
          Some (case r of
            Inl _ \<Rightarrow> (None, upd_flat (f\<lparr>core := v\<rparr>) i (\<lambda>nd. nd\<lparr>n_used := False\<rparr>))
          | Inr ino \<Rightarrow>
              (case vnode_alloc v ino 0 0 RAMFS of
                 (None, v1) \<Rightarrow> (None, upd_flat (f\<lparr>core := v1\<rparr>) i (\<lambda>nd. nd\<lparr>n_used := False\<rparr>))
               | (Some vn, v1) \<Rightarrow> (Some vn, upd_flat (f\<lparr>core := v1\<rparr>) i (\<lambda>nd. nd\<lparr>n_vnode := vn\<rparr>)))) }"

definition create_file_mode :: "'x ops_table \<Rightarrow> 'x files \<Rightarrow> bytes \<Rightarrow> bytes \<Rightarrow> u32 \<Rightarrow> (nat option \<times> 'x files) option" where
  "create_file_mode T f name data mode =
     (case alloc_flat_inode f name (of_nat (length data)) of
        (None, f1) \<Rightarrow> Some (None, f1)
      | (Some i, f1) \<Rightarrow>
          do { (b, f2) \<leftarrow> bind_created T f1 i name mode;
               case b of
                 None \<Rightarrow> Some (None, f2)
               | Some vn \<Rightarrow>
                   if data = [] then Some (Some i, f2)
                   else do { (w, v) \<leftarrow> vfs_write T (core f2) vn 0 data;
                             Some (if w = Inr (length data) then (Some i, f2\<lparr>core := v\<rparr>)
                                   else (None, upd_flat (f2\<lparr>core := v\<rparr>) i (\<lambda>nd. nd\<lparr>n_used := False\<rparr>))) } })"

definition CREATE_MODE :: u32 where "CREATE_MODE = 0x81ED"
definition EXTERNAL_MODE :: u32 where "EXTERNAL_MODE = 0x81A4"

definition create_file :: "'x ops_table \<Rightarrow> 'x files \<Rightarrow> bytes \<Rightarrow> bytes \<Rightarrow> (nat option \<times> 'x files) option" where
  "create_file T f name data = create_file_mode T f name data CREATE_MODE"

definition create_external_file :: "'x ops_table \<Rightarrow> 'x files \<Rightarrow> bytes \<Rightarrow> u64 \<Rightarrow> nat \<Rightarrow> (nat option \<times> 'x files) option" where
  "create_external_file T f name data sz =
     (case alloc_flat_inode f name (of_nat sz) of
        (None, f1) \<Rightarrow> Some (None, f1)
      | (Some i, f1) \<Rightarrow>
          let f2 = upd_flat f1 i (\<lambda>nd. nd\<lparr>n_data_ptr := data\<rparr>)
          in do { (b, f3) \<leftarrow> bind_created T f2 i name EXTERNAL_MODE;
                  case b of
                    None \<Rightarrow> Some (None, f3)
                  | Some vn \<Rightarrow>
                      if sz = 0 then Some (Some i, f3)
                      else do { (_, v) \<leftarrow> vfs_write T (core f3) vn 0 (mem_read (mem (ram (core f3))) data sz);
                                Some (Some i, f3\<lparr>core := v\<rparr>) } })"


section \<open>Pipes\<close>

definition pipe_idx_of :: "nat \<Rightarrow> nat option" where
  "pipe_idx_of i = (if i \<ge> PIPE_INODE_BASE \<and> i < FLAT_INODES then Some ((i - PIPE_INODE_BASE) div 2) else None)"

definition pipe_is_write_end :: "nat \<Rightarrow> bool" where
  "pipe_is_write_end i \<longleftrightarrow> odd i"

definition upd_pipe :: "'x files \<Rightarrow> nat \<Rightarrow> (pipe_slot \<Rightarrow> pipe_slot) \<Rightarrow> 'x files" where
  "upd_pipe f p g = f\<lparr>pipes := (pipes f)[p := g (pipes f ! p)]\<rparr>"

definition sat_inc :: "u32 \<Rightarrow> u32" where
  "sat_inc n = (if n = - 1 then n else n + 1)"

definition pipe_inc_refs :: "'x files \<Rightarrow> nat \<Rightarrow> 'x files" where
  "pipe_inc_refs f i =
     (case pipe_idx_of i of
        None \<Rightarrow> f
      | Some p \<Rightarrow> if pipe_is_write_end i then upd_pipe f p (\<lambda>s. s\<lparr>nwrite := sat_inc (nwrite s)\<rparr>)
                  else upd_pipe f p (\<lambda>s. s\<lparr>nread := sat_inc (nread s)\<rparr>))"

definition drop_end :: "bool \<Rightarrow> pipe_slot \<Rightarrow> pipe_slot" where
  "drop_end w s =
     (let s1 = (if w then (if nwrite s > 0 then s\<lparr>nwrite := nwrite s - 1\<rparr> else s)
                else if nread s > 0 then s\<lparr>nread := nread s - 1\<rparr> else s)
      in if nread s1 = 0 \<and> nwrite s1 = 0 then s1\<lparr>p_used := False, rpos := 0, wpos := 0\<rparr> else s1)"

definition pipe_close :: "'x files \<Rightarrow> nat \<Rightarrow> 'x files" where
  "pipe_close f i = (case pipe_idx_of i of None \<Rightarrow> f | Some p \<Rightarrow> upd_pipe f p (drop_end (pipe_is_write_end i)))"

section \<open>File descriptors\<close>

definition get_fd_table :: "'x files \<Rightarrow> nat option" where
  "get_fd_table f = (if cur f = 0 then None else Some (unat (cur f mod of_nat MAX_TASKS)))"

definition fd_table_for :: "u64 \<Rightarrow> nat" where
  "fd_table_for task_id = unat (task_id mod of_nat MAX_TASKS)"

definition set_fd :: "'x files \<Rightarrow> nat \<Rightarrow> nat \<Rightarrow> fdesc \<Rightarrow> 'x files" where
  "set_fd f t fd d = f\<lparr>fdt := (fdt f)[t := (fdt f ! t)[fd := d]]\<rparr>"

definition alloc_in_table :: "'x files \<Rightarrow> nat \<Rightarrow> nat \<Rightarrow> 32 word \<Rightarrow> nat option \<times> 'x files" where
  "alloc_in_table f t inode_idx flags =
     (case find_index (\<lambda>d. \<not> f_used d) (fdt f ! t) of
        Some i \<Rightarrow> (Some i, set_fd f t i \<lparr>f_inode = inode_idx, f_pos = 0, f_used = True, f_flags = flags\<rparr>)
      | None \<Rightarrow> (None, f))"

definition flat_alloc_fd :: "'x files \<Rightarrow> nat \<Rightarrow> 32 word \<Rightarrow> nat option \<times> 'x files" where
  "flat_alloc_fd f inode_idx flags =
     (case get_fd_table f of None \<Rightarrow> (None, f) | Some t \<Rightarrow> alloc_in_table f t inode_idx flags)"

definition alloc_fd_for_task :: "'x files \<Rightarrow> u64 \<Rightarrow> nat \<Rightarrow> 32 word \<Rightarrow> nat option \<times> 'x files" where
  "alloc_fd_for_task f task_id inode_idx flags = alloc_in_table f (fd_table_for task_id) inode_idx flags"

definition fd_to_inode :: "'x files \<Rightarrow> nat \<Rightarrow> (nat \<times> fdesc) option" where
  "fd_to_inode f fd =
     (case get_fd_table f of
        None \<Rightarrow> None
      | Some t \<Rightarrow> if fd \<ge> MAX_FDS_PER_TASK \<or> \<not> f_used (fdt f ! t ! fd) then None else Some (t, fdt f ! t ! fd))"

definition flat_close_fd :: "'x files \<Rightarrow> nat \<Rightarrow> bool \<times> 'x files" where
  "flat_close_fd f fd =
     (case get_fd_table f of
        None \<Rightarrow> (False, f)
      | Some t \<Rightarrow>
          if fd \<ge> MAX_FDS_PER_TASK \<or> \<not> f_used (fdt f ! t ! fd) then (False, f)
          else let f1 = pipe_close f (f_inode (fdt f ! t ! fd))
               in (True, set_fd f1 t fd ((fdt f1 ! t ! fd)\<lparr>f_used := False\<rparr>)))"

section \<open>System calls on descriptors\<close>

definition sys_close :: "'x files \<Rightarrow> nat \<Rightarrow> int \<times> 'x files" where
  "sys_close f fd = (case flat_close_fd f fd of (True, f') \<Rightarrow> (0, f') | (False, f') \<Rightarrow> (- EBADF, f'))"

text \<open>\<^verbatim>\<open>sys_pipe\<close>; the two descriptor numbers stored through the pointer are part of the result.\<close>

definition sys_pipe :: "'x files \<Rightarrow> u64 \<Rightarrow> (int \<times> (nat \<times> nat) option) \<times> 'x files" where
  "sys_pipe f pipefd =
     (if pipefd = 0 then ((- EFAULT, None), f)
      else case find_index (\<lambda>s. \<not> p_used s) (pipes f) of
             None \<Rightarrow> ((- EMFILE, None), f)
           | Some p \<Rightarrow>
               let f1 = upd_pipe f p (\<lambda>s. s\<lparr>rpos := 0, wpos := 0, nread := 1, nwrite := 1, p_used := True\<rparr>);
                   r_inode = PIPE_INODE_BASE + p * 2
               in case flat_alloc_fd f1 r_inode 0 of
                    (None, f2) \<Rightarrow> ((- EMFILE, None), upd_pipe f2 p (\<lambda>s. s\<lparr>p_used := False\<rparr>))
                  | (Some r, f2) \<Rightarrow>
                      (case flat_alloc_fd f2 (r_inode + 1) 0 of
                         (Some w, f3) \<Rightarrow> ((0, Some (r, w)), f3)
                       | (None, f3) \<Rightarrow> ((- EMFILE, None), upd_pipe (snd (flat_close_fd f3 r)) p (\<lambda>s. s\<lparr>p_used := False\<rparr>))))"

definition sys_dup2 :: "'x files \<Rightarrow> nat \<Rightarrow> nat \<Rightarrow> int \<times> 'x files" where
  "sys_dup2 f oldfd newfd =
     (case get_fd_table f of
        None \<Rightarrow> (- EBADF, f)
      | Some t \<Rightarrow>
          if oldfd \<ge> MAX_FDS_PER_TASK \<or> \<not> f_used (fdt f ! t ! oldfd) then (- EBADF, f)
          else if oldfd = newfd then (int newfd, f)
          else if newfd < MAX_FDS_PER_TASK
          then (int newfd, pipe_inc_refs (set_fd f t newfd ((fdt f ! t ! oldfd)\<lparr>f_pos := 0\<rparr>)) (f_inode (fdt f ! t ! oldfd)))
          else (int newfd, f))"

text \<open>\<^verbatim>\<open>F_DUPFD_CLOEXEC\<close>: the lowest free descriptor from \<open>arg\<close> on.\<close>

definition dupfd :: "'x files \<Rightarrow> nat \<Rightarrow> u64 \<Rightarrow> int \<times> 'x files" where
  "dupfd f fd arg =
     (case get_fd_table f of
        None \<Rightarrow> (- EBADF, f)
      | Some t \<Rightarrow>
          (case find (\<lambda>i. \<not> f_used (fdt f ! t ! i)) [unat arg..<MAX_FDS_PER_TASK] of
             None \<Rightarrow> (- EMFILE, f)
           | Some newfd \<Rightarrow>
               if fd \<ge> MAX_FDS_PER_TASK \<or> \<not> f_used (fdt f ! t ! fd) then (- EBADF, f)
               else (int newfd, pipe_inc_refs (set_fd f t newfd ((fdt f ! t ! fd)\<lparr>f_pos := 0\<rparr>)) (f_inode (fdt f ! t ! fd)))))"

definition sys_fcntl :: "'x files \<Rightarrow> nat \<Rightarrow> int \<Rightarrow> u64 \<Rightarrow> int \<times> 'x files" where
  "sys_fcntl f fd cmd arg =
     (if cmd = 0 then sys_dup2 f fd fd
      else if cmd = 1 \<or> cmd = 2 then (0, f)
      else if cmd = 3
      then (case get_fd_table f of
              None \<Rightarrow> (- EBADF, f)
            | Some t \<Rightarrow> if fd < MAX_FDS_PER_TASK \<and> f_used (fdt f ! t ! fd) then (sint (f_flags (fdt f ! t ! fd)), f) else (- EBADF, f))
      else if cmd = 4
      then (case get_fd_table f of
              None \<Rightarrow> (- EBADF, f)
            | Some t \<Rightarrow>
                if fd < MAX_FDS_PER_TASK \<and> f_used (fdt f ! t ! fd)
                then (0, set_fd f t fd ((fdt f ! t ! fd)\<lparr>f_flags :=
                           (f_flags (fdt f ! t ! fd) AND NOT 0x3FFF) OR (ucast arg AND 0x3FFF)\<rparr>))
                else (- EBADF, f))
      else if cmd = 5 \<or> cmd = 6 \<or> cmd = 7 then (0, f)
      else if cmd = 1030 then dupfd f fd arg
      else (- EINVAL, f))"

text \<open>Descriptors across \<^verbatim>\<open>fork\<close> and exit: the child copies the table and counts its pipe ends, an exiting task closes
  every open descriptor.\<close>

fun inherit_refs :: "'x files \<Rightarrow> fdesc list \<Rightarrow> 'x files" where
  "inherit_refs f [] = f"
| "inherit_refs f (d # ds) = inherit_refs (if f_used d then pipe_inc_refs f (f_inode d) else f) ds"

definition fork_fds :: "'x files \<Rightarrow> u64 \<Rightarrow> 'x files" where
  "fork_fds f child =
     (case get_fd_table f of
        None \<Rightarrow> f
      | Some t \<Rightarrow> let f1 = f\<lparr>fdt := (fdt f)[fd_table_for child := fdt f ! t]\<rparr> in inherit_refs f1 (fdt f1 ! fd_table_for child))"

fun close_loop :: "'x files \<Rightarrow> nat \<Rightarrow> nat list \<Rightarrow> 'x files" where
  "close_loop f t [] = f"
| "close_loop f t (i # is) = close_loop (if f_used (fdt f ! t ! i) then snd (flat_close_fd f i) else f) t is"

definition exit_fds :: "'x files \<Rightarrow> 'x files" where
  "exit_fds f =
     (if cur f = 0 then f
      else case get_fd_table f of None \<Rightarrow> f | Some t \<Rightarrow> close_loop f t [0..<MAX_FDS_PER_TASK])"

section \<open>Reading and writing\<close>

fun pipe_put :: "pipe_slot \<Rightarrow> bytes \<Rightarrow> pipe_slot" where
  "pipe_put s [] = s"
| "pipe_put s (c # cs) =
     pipe_put (if wpos s < PIPE_CAP then s\<lparr>p_buf := (p_buf s)[wpos s := c], wpos := wpos s + 1\<rparr> else s) cs"

definition pipe_get :: "pipe_slot \<Rightarrow> nat \<Rightarrow> (bytes \<times> pipe_slot) option" where
  "pipe_get s n =
     (if rpos s < wpos s
      then let to_read = min n (wpos s - rpos s); s1 = s\<lparr>rpos := rpos s + to_read\<rparr>
           in Some (take to_read (drop (rpos s) (p_buf s)), if rpos s1 = wpos s1 then s1\<lparr>rpos := 0, wpos := 0\<rparr> else s1)
      else None)"

text \<open>\<open>valid\<close> is the answer of \<^verbatim>\<open>user_range_valid\<close> for the user buffer. A read that finds its pipe empty either returns
  or blocks, and then starts over at the same point when the task is woken.\<close>

datatype 'a outcome = Returns 'a | Blocks

definition sys_write :: "'x ops_table \<Rightarrow> 'x files \<Rightarrow> nat \<Rightarrow> u64 \<Rightarrow> bytes \<Rightarrow> bool \<Rightarrow> (int \<times> 'x files) option" where
  "sys_write T f fd buf bs valid =
     (if buf = 0 \<or> bs = [] then Some (0, f)
      else if \<not> valid then Some (- EFAULT, f)
      else case fd_to_inode f fd of
             None \<Rightarrow> Some (- EBADF, f)
           | Some (t, d) \<Rightarrow>
               (case pipe_idx_of (f_inode d) of
                  Some p \<Rightarrow>
                    if pipe_is_write_end (f_inode d)
                    then Some (as_i64 (length bs), upd_pipe f p (\<lambda>s. pipe_put s bs))
                    else Some (- EBADF, f)
                | None \<Rightarrow>
                    do { (r, f1) \<leftarrow> inode_write T f (f_inode d) (f_pos d) bs;
                         Some (case r of
                           Some n \<Rightarrow> (as_i64 n, set_fd f1 t fd ((fdt f1 ! t ! fd)\<lparr>f_pos := f_pos d + of_nat n\<rparr>))
                         | None \<Rightarrow> (- EIO, f1)) }))"

definition sys_read :: "'x ops_table \<Rightarrow> 'x files \<Rightarrow> nat \<Rightarrow> u64 \<Rightarrow> nat \<Rightarrow> bool \<Rightarrow> ((int \<times> bytes) outcome \<times> 'x files) option" where
  "sys_read T f fd buf n valid =
     (if buf = 0 \<or> n = 0 then Some (Returns (0, []), f)
      else if \<not> valid then Some (Returns (- EFAULT, []), f)
      else case fd_to_inode f fd of
             None \<Rightarrow> Some (Returns (- EBADF, []), f)
           | Some (t, d) \<Rightarrow>
               (case pipe_idx_of (f_inode d) of
                  Some p \<Rightarrow>
                    if pipe_is_write_end (f_inode d) then Some (Returns (- EBADF, []), f)
                    else (case pipe_get (pipes f ! p) n of
                            Some (bs, s) \<Rightarrow> Some (Returns (as_i64 (length bs), bs), upd_pipe f p (\<lambda>_. s))
                          | None \<Rightarrow> if f_flags d AND 0x800 \<noteq> 0 then Some (Returns (- EAGAIN, []), f) else Some (Blocks, f))
                | None \<Rightarrow>
                    do { (r, f1) \<leftarrow> inode_read T f (f_inode d) (f_pos d) n;
                         Some (case r of
                           Some bs \<Rightarrow> (Returns (as_i64 (length bs), bs),
                                       set_fd f1 t fd ((fdt f1 ! t ! fd)\<lparr>f_pos := f_pos d + of_nat (length bs)\<rparr>))
                         | None \<Rightarrow> (Returns (- EIO, []), f1)) }))"

definition POLLIN :: "16 word" where "POLLIN = 1"
definition POLLOUT :: "16 word" where "POLLOUT = 4"
definition POLLNVAL :: "16 word" where "POLLNVAL = 0x20"

definition poll_fd_readiness :: "'x files \<Rightarrow> nat \<Rightarrow> 16 word \<Rightarrow> bool \<Rightarrow> 16 word" where
  "poll_fd_readiness f fd events has_pending_input =
     (case fd_to_inode f fd of
        None \<Rightarrow> POLLNVAL
      | Some (t, d) \<Rightarrow>
          (let (inp, out) = (case pipe_idx_of (f_inode d) of
                 Some p \<Rightarrow> (rpos (pipes f ! p) < wpos (pipes f ! p), wpos (pipes f ! p) < PIPE_CAP)
               | None \<Rightarrow> (has_pending_input, True))
           in (if events AND POLLIN \<noteq> 0 \<and> inp then POLLIN else 0) OR (if events AND POLLOUT \<noteq> 0 \<and> out then POLLOUT else 0)))"

section \<open>System calls on paths\<close>

text \<open>\<open>name\<close> is the string behind the pointer; the pointer itself is only compared with null.\<close>

definition norm_arg :: "'x files \<Rightarrow> bytes \<Rightarrow> bytes" where
  "norm_arg f name =
     (case normalize_path (get_cwd_bytes f) name (replicate 512 0) of (Some n, buf) \<Rightarrow> take n buf | (None, _) \<Rightarrow> [])"

definition open_norm :: "'x ops_table \<Rightarrow> 'x files \<Rightarrow> bytes \<Rightarrow> 32 word \<Rightarrow> (int \<times> 'x files) option" where
  "open_norm T f norm flags =
     do { (r, f1) \<leftarrow> resolve_or_register T f norm;
          Some (case r of
            None \<Rightarrow> (- ENOENT, f1)
          | Some i \<Rightarrow> (case flat_alloc_fd f1 i flags of (Some fd, f2) \<Rightarrow> (int fd, f2) | (None, f2) \<Rightarrow> (- EMFILE, f2))) }"

definition sys_open :: "'x ops_table \<Rightarrow> 'x files \<Rightarrow> u64 \<Rightarrow> bytes \<Rightarrow> 32 word \<Rightarrow> (int \<times> 'x files) option" where
  "sys_open T f pathname name flags =
     (if pathname = 0 then Some (- EFAULT, f)
      else if name = [] then Some (- ENOENT, f)
      else let norm = norm_arg f name
           in if norm = [] then Some (- ENOENT, f)
              else if flags AND 0x40 \<noteq> 0 \<and> find_inode f norm = None
              then do { (r, f1) \<leftarrow> create_file T f norm [];
                        if r = None then Some (- ENOENT, f1) else open_norm T f1 norm flags }
              else open_norm T f norm flags)"

definition sys_mkdir :: "'x ops_table \<Rightarrow> 'x files \<Rightarrow> u64 \<Rightarrow> bytes \<Rightarrow> u32 \<Rightarrow> (int \<times> 'x files) option" where
  "sys_mkdir T f pathname name mode =
     (if pathname = 0 then Some (- EFAULT, f)
      else if name = [] then Some (- ENOENT, f)
      else let norm = norm_arg f name
           in if norm = [] then Some (- ENOENT, f)
              else map_option (\<lambda>(r, v). (case r of Inr _ \<Rightarrow> 0 | Inl _ \<Rightarrow> - EACCES, f\<lparr>core := v\<rparr>)) (vfs_mkdir T (core f) norm mode))"

definition sys_rmdir :: "'x ops_table \<Rightarrow> 'x files \<Rightarrow> u64 \<Rightarrow> bytes \<Rightarrow> (int \<times> 'x files) option" where
  "sys_rmdir T f pathname name =
     (if pathname = 0 then Some (- EFAULT, f)
      else if name = [] then Some (- ENOENT, f)
      else map_option (\<lambda>(r, v). (case r of Inr _ \<Rightarrow> 0 | Inl _ \<Rightarrow> - ENOTEMPTY, f\<lparr>core := v\<rparr>)) (vfs_rmdir T (core f) name))"

definition sys_unlink :: "'x ops_table \<Rightarrow> 'x files \<Rightarrow> u64 \<Rightarrow> bytes \<Rightarrow> (int \<times> 'x files) option" where
  "sys_unlink T f pathname name =
     (if pathname = 0 then Some (- EFAULT, f)
      else if name = [] then Some (- ENOENT, f)
      else map_option (\<lambda>(r, v). (case r of Inr _ \<Rightarrow> 0 | Inl _ \<Rightarrow> - EACCES, f\<lparr>core := v\<rparr>)) (vfs_remove T (core f) name))"

definition drop_flat :: "'x files \<Rightarrow> bytes \<Rightarrow> 'x files" where
  "drop_flat f nm = (case find_inode f nm of None \<Rightarrow> f | Some i \<Rightarrow> upd_flat f i (\<lambda>nd. nd\<lparr>n_used := False\<rparr>))"

definition sys_rename :: "'x ops_table \<Rightarrow> 'x files \<Rightarrow> u64 \<Rightarrow> bytes \<Rightarrow> u64 \<Rightarrow> bytes \<Rightarrow> (int \<times> 'x files) option" where
  "sys_rename T f oldpath old newpath new =
     (if oldpath = 0 \<or> newpath = 0 then Some (- EFAULT, f)
      else if old = [] \<or> new = [] then Some (- ENOENT, f)
      else let oldn = norm_arg f old; newn = norm_arg f new
           in if oldn = [] \<or> newn = [] then Some (- ENOENT, f)
              else if oldn = newn then Some (0, f)
              else do { (r, v) \<leftarrow> vfs_rename T (core f) oldn newn;
                        case r of
                          Inl _ \<Rightarrow> Some (- EACCES, f\<lparr>core := v\<rparr>)
                        | Inr _ \<Rightarrow>
                            do { (m, v1) \<leftarrow> resolve_ino T v newn;
                                 let v2 = (case m of Inr ino \<Rightarrow> vnode_free_by_ino v1 ino | Inl _ \<Rightarrow> v1);
                                     f1 = drop_flat (drop_flat (f\<lparr>core := v2\<rparr>) oldn) newn
                                 in map_option (\<lambda>(_, f2). (0, f2)) (resolve_or_register T f1 newn) } })"

end
