(* ===== verification/Files_Pipes.thy ===== *)
theory Files_Pipes
  imports Files
begin

text \<open>
  Pipes and descriptors of \<^verbatim>\<open>src/src/task.rs\<close> and \<^verbatim>\<open>src/src/vfs.rs\<close>: the invariant \<open>pipe_inv\<close> that ties the reference
  counts of the pipe slots to the descriptors of all tasks, that opening, duplicating, inheriting and closing keep it,
  and the contents of a pipe as a queue.
\<close>

unbundle bit_operations_syntax

section \<open>Counting the descriptors of a pipe end\<close>

definition refers :: "nat \<Rightarrow> fdesc \<Rightarrow> bool" where
  "refers i d \<longleftrightarrow> f_used d \<and> f_inode d = i"

definition cnt :: "nat \<Rightarrow> fdesc list \<Rightarrow> nat" where
  "cnt i ds = length (filter (refers i) ds)"

definition refs :: "'x files \<Rightarrow> nat \<Rightarrow> nat" where
  "refs f i = sum_list (map (cnt i) (fdt f))"

definition tables_ok :: "'x files \<Rightarrow> bool" where
  "tables_ok f \<longleftrightarrow> length (fdt f) = MAX_TASKS \<and> (\<forall>t < MAX_TASKS. length (fdt f ! t) = MAX_FDS_PER_TASK) \<and> length (pipes f) = PIPE_MAX"

abbreviation rd_end :: "nat \<Rightarrow> nat" where "rd_end p \<equiv> PIPE_INODE_BASE + p * 2"
abbreviation wr_end :: "nat \<Rightarrow> nat" where "wr_end p \<equiv> Suc (PIPE_INODE_BASE + p * 2)"

text \<open>In a slot that is in use, the count of an end is the number of open descriptors that refer to it, less what is
  \<open>owed\<close>; a slot that is not in use has no descriptors, and one that is in use has at least one.\<close>

definition ends_ok :: "pipe_slot \<Rightarrow> nat \<Rightarrow> nat \<Rightarrow> nat \<Rightarrow> nat \<Rightarrow> bool" where
  "ends_ok s r w owed_r owed_w \<longleftrightarrow>
     (if p_used s then unat (nread s) + owed_r = r \<and> unat (nwrite s) + owed_w = w \<and> 0 < r + w else r = 0 \<and> w = 0)"

definition pipe_inv_owed :: "'x files \<Rightarrow> (nat \<Rightarrow> nat) \<Rightarrow> bool" where
  "pipe_inv_owed f owed \<longleftrightarrow> tables_ok f \<and>
     (\<forall>p < PIPE_MAX. ends_ok (pipes f ! p) (refs f (rd_end p)) (refs f (wr_end p)) (owed (rd_end p)) (owed (wr_end p)))"

abbreviation pipe_inv :: "'x files \<Rightarrow> bool" where
  "pipe_inv f \<equiv> pipe_inv_owed f (\<lambda>_. 0)"

lemmas pipe_consts = PIPE_INODE_BASE_def FLAT_INODES_def PIPE_MAX_def

lemma pipe_idx_range: "pipe_idx_of i = Some p \<Longrightarrow> p < PIPE_MAX \<and> (i = rd_end p \<or> i = wr_end p)"
  by (auto simp: pipe_idx_of_def pipe_consts split: if_splits)

lemma pipe_idx_ends [simp]:
  assumes "p < PIPE_MAX"
  shows "pipe_idx_of (PIPE_INODE_BASE + p * 2) = Some p" and "pipe_idx_of (Suc (PIPE_INODE_BASE + p * 2)) = Some p"
    and "\<not> pipe_is_write_end (PIPE_INODE_BASE + p * 2)" and "pipe_is_write_end (Suc (PIPE_INODE_BASE + p * 2))"
  using assms by (auto simp: pipe_idx_of_def pipe_is_write_end_def pipe_consts)

lemma ends_distinct [simp]:
  "rd_end p = rd_end q \<longleftrightarrow> p = q" "wr_end p = wr_end q \<longleftrightarrow> p = q" "rd_end p \<noteq> wr_end q" "wr_end p \<noteq> rd_end q"
  by simp_all presburger+

lemma cnt_update:
  assumes "k < length ds"
  shows "cnt i (ds[k := d]) + (if refers i (ds ! k) then 1 else 0) = cnt i ds + (if refers i d then 1 else 0)"
  using length_filter_update [OF assms, of "refers i" d] by (simp add: cnt_def)

lemma refs_set_fd:
  assumes "tables_ok f" and "t < MAX_TASKS" and "fd < MAX_FDS_PER_TASK"
  shows "refs (set_fd f t fd d) i + (if refers i (fdt f ! t ! fd) then 1 else 0) = refs f i + (if refers i d then 1 else 0)"
proof -
  have l: "t < length (fdt f)" "fd < length (fdt f ! t)" using assms by (simp_all add: tables_ok_def)
  have "refs (set_fd f t fd d) i + cnt i (fdt f ! t) = refs f i + cnt i ((fdt f ! t)[fd := d])"
    using sum_list_upd [of t "map (cnt i) (fdt f)" "cnt i ((fdt f ! t)[fd := d])"] l
    by (simp add: refs_def set_fd_def map_update)
  then show ?thesis using cnt_update [OF l(2), of i d] by simp
qed

lemma refs_bound:
  assumes "tables_ok f"
  shows "refs f i \<le> 4096"
proof -
  have "cnt i ds \<le> length ds" for ds by (simp add: cnt_def)
  moreover have "length ds = 64" if "ds \<in> set (fdt f)" for ds
    using that assms by (auto simp: tables_ok_def in_set_conv_nth MAX_FDS_PER_TASK_def)
  ultimately have "sum_list (map (cnt i) (fdt f)) \<le> sum_list (map (\<lambda>_. 64) (fdt f))"
    by (intro sum_list_mono) metis
  also have "\<dots> = 4096" using assms by (simp add: tables_ok_def sum_list_triv MAX_TASKS_def)
  finally show ?thesis by (simp add: refs_def)
qed

lemma fdt_simps [simp]:
  "fdt (upd_pipe f p g) = fdt f" "refs (upd_pipe f p g) i = refs f i" "fdt (pipe_inc_refs f j) = fdt f" "fdt (pipe_close f j) = fdt f"
  "refs (pipe_inc_refs f j) i = refs f i" "refs (pipe_close f j) i = refs f i"
  "pipes (set_fd f t fd d) = pipes f" "cur (set_fd f t fd d) = cur f" "cur (upd_pipe f p g) = cur f"
  "cur (pipe_inc_refs f j) = cur f" "cur (pipe_close f j) = cur f"
  by (simp_all add: upd_pipe_def refs_def pipe_inc_refs_def pipe_close_def set_fd_def split: option.split)

lemma tables_simps [simp]:
  "tables_ok (upd_pipe f p g) = tables_ok f" "tables_ok (pipe_inc_refs f j) = tables_ok f" "tables_ok (pipe_close f j) = tables_ok f"
  by (simp_all add: tables_ok_def) (simp_all add: upd_pipe_def pipe_inc_refs_def pipe_close_def split: option.split)

lemma tables_set_fd: "tables_ok f \<Longrightarrow> t < MAX_TASKS \<Longrightarrow> tables_ok (set_fd f t fd d)"
  by (auto simp: tables_ok_def set_fd_def nth_list_update)

lemma get_fd_table_range: "get_fd_table f = Some t \<Longrightarrow> t < MAX_TASKS"
  by (auto simp: get_fd_table_def MAX_TASKS_def unat_mod split: if_splits)

lemma pipe_invD:
  assumes "pipe_inv_owed f g"
  shows "tables_ok f"
    and "p < PIPE_MAX \<Longrightarrow> ends_ok (pipes f ! p) (refs f (rd_end p)) (refs f (wr_end p)) (g (rd_end p)) (g (wr_end p))"
  using assms by (simp_all add: pipe_inv_owed_def)

lemma slot_used: "ends_ok s r w a b \<Longrightarrow> 0 < r \<or> 0 < w \<Longrightarrow> p_used s"
  by (auto simp: ends_ok_def split: if_splits)

text \<open>Opening a descriptor for a pipe end owes one count; \<^verbatim>\<open>pipe_inc_refs\<close> pays it.\<close>

lemma set_owes:
  assumes inv: "pipe_inv_owed f g" and t: "t < MAX_TASKS" "fd < MAX_FDS_PER_TASK" and free: "\<not> f_used (fdt f ! t ! fd)"
    and d: "f_used d" "f_inode d = i" and live: "pipe_idx_of i \<noteq> None \<longrightarrow> 0 < refs f i"
  shows "pipe_inv_owed (set_fd f t fd d) (g(i := Suc (g i)))"
proof -
  note T = pipe_invD(1) [OF inv]
  have r: "refs (set_fd f t fd d) j = refs f j + (if j = i then 1 else 0)" for j
    using refs_set_fd [OF T t, of d j] free d by (auto simp: refers_def)
  have "ends_ok (pipes f ! p) (refs (set_fd f t fd d) (rd_end p)) (refs (set_fd f t fd d) (wr_end p))
      ((g(i := Suc (g i))) (rd_end p)) ((g(i := Suc (g i))) (wr_end p))" if p: "p < PIPE_MAX" for p
  proof -
    note ok = pipe_invD(2) [OF inv p]
    have "p_used (pipes f ! p)" if "i = rd_end p \<or> i = wr_end p"
      using that live p slot_used [OF ok] by auto
    then show ?thesis using ok unfolding r by (auto simp: ends_ok_def)
  qed
  then show ?thesis using T tables_set_fd [OF T t(1)] by (simp add: pipe_inv_owed_def)
qed

lemma inc_pays:
  assumes inv: "pipe_inv_owed f g" and owed: "g i = Suc n"
  shows "pipe_inv_owed (pipe_inc_refs f i) (g(i := n))"
proof (cases "pipe_idx_of i")
  case None
  then have "rd_end p \<noteq> i" "wr_end p \<noteq> i" if "p < PIPE_MAX" for p using that by auto
  then show ?thesis using inv None by (simp add: pipe_inc_refs_def pipe_inv_owed_def)
next
  case (Some p)
  note pi = pipe_idx_range [OF Some]
  have len: "p < length (pipes f)" using pipe_invD(1) [OF inv] pi by (simp add: tables_ok_def)
  have bd: "refs f j \<le> 4096" for j by (rule refs_bound [OF pipe_invD(1) [OF inv]])
  have inc: "unat (sat_inc c) = Suc (unat c)" if "unat c \<le> 4096" for c
  proof -
    have "unat (- 1 :: u32) = 4294967295" by (simp add: unsigned_minus_1_eq_mask mask_eq_exp_minus_1)
    then have "c \<noteq> - 1" using that by auto
    then show ?thesis using that by (simp add: sat_inc_def unat_inc)
  qed
  have "ends_ok (pipes (pipe_inc_refs f i) ! q) (refs f (rd_end q)) (refs f (wr_end q)) ((g(i := n)) (rd_end q)) ((g(i := n)) (wr_end q))"
    if q: "q < PIPE_MAX" for q
  proof (cases "q = p")
    case True
    have ok: "ends_ok (pipes f ! p) (refs f (rd_end p)) (refs f (wr_end p)) (g (rd_end p)) (g (wr_end p))"
      using pipe_invD(2) [OF inv] pi by simp
    show ?thesis
    proof (cases "p_used (pipes f ! p)")
      case used: True
      then have "unat (nread (pipes f ! p)) \<le> 4096" "unat (nwrite (pipes f ! p)) \<le> 4096"
        using ok bd [of "rd_end p"] bd [of "wr_end p"] by (auto simp: ends_ok_def)
      then show ?thesis using ok used pi owed len True Some
        by (auto simp: ends_ok_def pipe_inc_refs_def upd_pipe_def inc)
    next
      case False
      then show ?thesis using ok pi len True Some by (auto simp: ends_ok_def pipe_inc_refs_def upd_pipe_def)
    qed
  next
    case False
    then have "pipes (pipe_inc_refs f i) ! q = pipes f ! q" "rd_end q \<noteq> i" "wr_end q \<noteq> i"
      using Some pi by (auto simp: pipe_inc_refs_def upd_pipe_def)
    then show ?thesis using pipe_invD(2) [OF inv q] by simp
  qed
  then show ?thesis using pipe_invD(1) [OF inv] by (simp add: pipe_inv_owed_def)
qed


lemma dup_inv:
  assumes inv: "pipe_inv f" and t: "t < MAX_TASKS" "fd < MAX_FDS_PER_TASK" "new < MAX_FDS_PER_TASK"
    and old: "f_used (fdt f ! t ! fd)" and free: "\<not> f_used (fdt f ! t ! new)"
  shows "pipe_inv (pipe_inc_refs (set_fd f t new ((fdt f ! t ! fd)\<lparr>f_pos := 0\<rparr>)) (f_inode (fdt f ! t ! fd)))"
proof -
  let ?d = "fdt f ! t ! fd"
  note T = pipe_invD(1) [OF inv]
  have l: "t < length (fdt f)" "fd < length (fdt f ! t)" using T t by (simp_all add: tables_ok_def)
  have "0 < refs f (f_inode ?d)"
  proof -
    have "?d \<in> set (filter (refers (f_inode ?d)) (fdt f ! t))" using old l by (simp add: refers_def)
    then have "0 < cnt (f_inode ?d) (fdt f ! t)" unfolding cnt_def by (metis empty_iff length_greater_0_conv list.set(1))
    then show ?thesis using member_le_sum_list [of "cnt (f_inode ?d) (fdt f ! t)" "map (cnt (f_inode ?d)) (fdt f)"] l
      by (simp add: refs_def)
  qed
  then have "pipe_inv_owed (set_fd f t new (?d\<lparr>f_pos := 0\<rparr>)) ((\<lambda>_. 0)(f_inode ?d := Suc 0))"
    using set_owes [OF inv t(1,3) free, of "?d\<lparr>f_pos := 0\<rparr>" "f_inode ?d"] old by simp
  from inc_pays [OF this, of "f_inode ?d" 0] show ?thesis by (simp add: fun_upd_idem)
qed

text \<open>Closing a descriptor drops its count; the last one frees the slot.\<close>

lemma drop_end_ok:
  assumes "ends_ok s r w 0 0" and "p_used s"
  shows "r = Suc r' \<Longrightarrow> ends_ok (drop_end False s) r' w 0 0" and "w = Suc w' \<Longrightarrow> ends_ok (drop_end True s) r w' 0 0"
proof -
  have pred: "unat (n - 1 :: u32) = k" "0 < n" if "unat n = Suc k" for n k
  proof -
    have "1 \<le> n" using that by (simp add: word_le_nat_alt)
    then show "unat (n - 1) = k" using that by (simp add: unat_sub)
    show "0 < n" using that by (simp add: word_less_nat_alt)
  qed
  have z: "n = 0 \<longleftrightarrow> unat n = 0" for n :: u32 by (simp add: unat_eq_zero)
  show "r = Suc r' \<Longrightarrow> ends_ok (drop_end False s) r' w 0 0"
    using assms pred [of "nread s" r'] z by (auto simp: ends_ok_def drop_end_def Let_def)
  show "w = Suc w' \<Longrightarrow> ends_ok (drop_end True s) r w' 0 0"
    using assms pred [of "nwrite s" w'] z by (auto simp: ends_ok_def drop_end_def Let_def)
qed

lemma close_inv:
  assumes inv: "pipe_inv f" and t: "t < MAX_TASKS" "fd < MAX_FDS_PER_TASK" and used: "f_used (fdt f ! t ! fd)"
  shows "pipe_inv (set_fd (pipe_close f (f_inode (fdt f ! t ! fd))) t fd ((fdt f ! t ! fd)\<lparr>f_used := False\<rparr>))"
proof -
  let ?d = "fdt f ! t ! fd" and ?i = "f_inode (fdt f ! t ! fd)"
  let ?f1 = "pipe_close f ?i"
  let ?f2 = "set_fd ?f1 t fd (?d\<lparr>f_used := False\<rparr>)"
  note T = pipe_invD(1) [OF inv]
  have r: "refs f j = refs ?f2 j + (if j = ?i then 1 else 0)" for j
    using refs_set_fd [of ?f1 t fd "?d\<lparr>f_used := False\<rparr>" j] T t used by (auto simp: refers_def)
  have "ends_ok (pipes ?f1 ! p) (refs ?f2 (rd_end p)) (refs ?f2 (wr_end p)) 0 0" if p: "p < PIPE_MAX" for p
  proof (cases "pipe_idx_of ?i = Some p")
    case True
    note pi = pipe_idx_range [OF True]
    have ok: "ends_ok (pipes f ! p) (refs f (rd_end p)) (refs f (wr_end p)) 0 0" using pipe_invD(2) [OF inv p] by simp
    have "0 < refs f ?i" using r [of ?i] by simp
    then have us: "p_used (pipes f ! p)" using slot_used [OF ok] pi by auto
    have f1: "pipes ?f1 ! p = drop_end (pipe_is_write_end ?i) (pipes f ! p)"
      using True T p by (simp add: pipe_close_def upd_pipe_def tables_ok_def)
    consider "?i = rd_end p" | "?i = wr_end p" using pi by blast
    then show ?thesis
    proof cases
      case 1
      have "refs f (rd_end p) = Suc (refs ?f2 (rd_end p))" "refs f (wr_end p) = refs ?f2 (wr_end p)"
        using r [of "rd_end p"] r [of "wr_end p"] 1 by simp_all
      moreover have "\<not> pipe_is_write_end ?i" unfolding 1 using p by simp
      ultimately show ?thesis using drop_end_ok(1) [OF ok us] by (simp add: f1)
    next
      case 2
      have "refs f (wr_end p) = Suc (refs ?f2 (wr_end p))" "refs f (rd_end p) = refs ?f2 (rd_end p)"
        using r [of "rd_end p"] r [of "wr_end p"] 2 by simp_all
      moreover have "pipe_is_write_end ?i" unfolding 2 using p by simp
      ultimately show ?thesis using drop_end_ok(2) [OF ok us] by (simp add: f1)
    qed
  next
    case False
    then have "pipes ?f1 ! p = pipes f ! p" by (auto simp: pipe_close_def upd_pipe_def split: option.split)
    moreover have "rd_end p \<noteq> ?i" "wr_end p \<noteq> ?i" using False pipe_idx_ends(1,2) [OF p] by metis+
    ultimately show ?thesis using pipe_invD(2) [OF inv p] r [of "rd_end p"] r [of "wr_end p"] by simp
  qed
  then show ?thesis using tables_set_fd [of ?f1 t fd] T t by (simp add: pipe_inv_owed_def)
qed

lemma flat_close_inv:
  assumes "pipe_inv f"
  shows "pipe_inv (snd (flat_close_fd f fd))" and "cur (snd (flat_close_fd f fd)) = cur f"
proof -
  show "pipe_inv (snd (flat_close_fd f fd))"
  proof (cases "get_fd_table f")
    case (Some t)
    then show ?thesis
      using assms close_inv [OF assms get_fd_table_range [OF Some], of fd] by (auto simp: flat_close_fd_def Let_def not_le)
  qed (use assms in \<open>simp add: flat_close_fd_def\<close>)
  show "cur (snd (flat_close_fd f fd)) = cur f" by (auto simp: flat_close_fd_def Let_def split: option.split)
qed

lemma close_loop_inv: "pipe_inv f \<Longrightarrow> pipe_inv (close_loop f t is)"
  by (induction f t "is" rule: close_loop.induct) (simp add: flat_close_inv)+

lemma inherit_pays:
  assumes "pipe_inv_owed f (\<lambda>i. cnt i ds)"
  shows "pipe_inv (inherit_refs f ds)"
  using assms
proof (induction ds arbitrary: f)
  case Nil
  then show ?case by (simp add: cnt_def)
next
  case (Cons d ds)
  have c: "cnt i (d # ds) = (if refers i d then 1 else 0) + cnt i ds" for i by (simp add: cnt_def)
  show ?case
  proof (cases "f_used d")
    case True
    have "(\<lambda>i. cnt i (d # ds))(f_inode d := cnt (f_inode d) ds) = (\<lambda>i. cnt i ds)" using True by (auto simp: c refers_def)
    moreover have "cnt (f_inode d) (d # ds) = Suc (cnt (f_inode d) ds)" using True by (simp add: c refers_def)
    ultimately have "pipe_inv_owed (pipe_inc_refs f (f_inode d)) (\<lambda>i. cnt i ds)" using inc_pays [OF Cons.prems] by metis
    then show ?thesis using Cons.IH True by simp
  next
    case False
    then have "(\<lambda>i. cnt i (d # ds)) = (\<lambda>i. cnt i ds)" by (simp add: c refers_def)
    then show ?thesis using Cons.IH Cons.prems False by simp
  qed
qed

lemma fork_inv:
  assumes inv: "pipe_inv f" and empty: "\<forall>d \<in> set (fdt f ! fd_table_for child). \<not> f_used d"
  shows "pipe_inv (fork_fds f child)"
proof (cases "get_fd_table f")
  case (Some t)
  note T = pipe_invD(1) [OF inv]
  have tr: "t < MAX_TASKS" "fd_table_for child < MAX_TASKS"
    using get_fd_table_range [OF Some] by (simp_all add: fd_table_for_def MAX_TASKS_def unat_mod)
  let ?c = "fd_table_for child"
  let ?f1 = "f\<lparr>fdt := (fdt f)[?c := fdt f ! t]\<rparr>"
  have l: "?c < length (fdt f)" using T tr by (simp add: tables_ok_def)
  have z: "cnt i (fdt f ! ?c) = 0" for i using empty by (auto simp: cnt_def refers_def filter_empty_conv)
  have r: "refs ?f1 i = refs f i + cnt i (fdt f ! t)" for i
    using sum_list_upd [of ?c "map (cnt i) (fdt f)" "cnt i (fdt f ! t)"] l z [of i] by (simp add: refs_def map_update)
  have T1: "tables_ok ?f1" using T tr by (auto simp: tables_ok_def nth_list_update)
  have le: "cnt i (fdt f ! t) \<le> refs f i" for i
    using member_le_sum_list [of "cnt i (fdt f ! t)" "map (cnt i) (fdt f)"] T tr by (simp add: refs_def tables_ok_def)
  have "ends_ok (pipes ?f1 ! p) (refs ?f1 (rd_end p)) (refs ?f1 (wr_end p)) (cnt (rd_end p) (fdt f ! t)) (cnt (wr_end p) (fdt f ! t))"
    if "p < PIPE_MAX" for p
    using pipe_invD(2) [OF inv that] r le [of "rd_end p"] le [of "wr_end p"] by (auto simp: ends_ok_def split: if_splits)
  then have "pipe_inv_owed ?f1 (\<lambda>i. cnt i (fdt f ! t))" using T1 by (simp add: pipe_inv_owed_def)
  from inherit_pays [OF this] show ?thesis using Some l by (simp add: fork_fds_def Let_def)
qed (use inv in \<open>simp add: fork_fds_def\<close>)


section \<open>Opening a pipe\<close>

lemma alloc_in_table_some:
  assumes "alloc_in_table f t i fl = (Some fd, f')" and "tables_ok f" and "t < MAX_TASKS"
  shows "fd < MAX_FDS_PER_TASK" and "\<not> f_used (fdt f ! t ! fd)" and "f' = set_fd f t fd \<lparr>f_inode = i, f_pos = 0, f_used = True, f_flags = fl\<rparr>"
    and "\<forall>j < fd. f_used (fdt f ! t ! j)"
  using assms find_index_Some [of "\<lambda>d. \<not> f_used d" "fdt f ! t"]
  by (auto simp: alloc_in_table_def tables_ok_def split: option.splits)

lemma alloc_in_table_none: "alloc_in_table f t i fl = (None, f') \<Longrightarrow> f' = f"
  by (auto simp: alloc_in_table_def split: option.splits)

lemma refs_new_fd:
  assumes "alloc_in_table f t i fl = (Some fd, f')" and "tables_ok f" and "t < MAX_TASKS"
  shows "refs f' j = refs f j + (if j = i then 1 else 0)" and "tables_ok f'" and "pipes f' = pipes f" and "cur f' = cur f"
proof -
  note a = alloc_in_table_some [OF assms]
  show "refs f' j = refs f j + (if j = i then 1 else 0)"
    using refs_set_fd [OF assms(2,3) a(1), of "\<lparr>f_inode = i, f_pos = 0, f_used = True, f_flags = fl\<rparr>" j] a(2)
    by (auto simp: a(3) refers_def)
  show "tables_ok f'" "pipes f' = pipes f" "cur f' = cur f" using tables_set_fd [OF assms(2,3)] by (simp_all add: a(3))
qed

lemma pipe_inv_others:
  assumes "pipe_inv f" and "tables_ok f'" and "p < PIPE_MAX"
    and "\<And>q. q < PIPE_MAX \<Longrightarrow> q \<noteq> p \<Longrightarrow> pipes f' ! q = pipes f ! q \<and> refs f' (rd_end q) = refs f (rd_end q) \<and> refs f' (wr_end q) = refs f (wr_end q)"
    and "ends_ok (pipes f' ! p) (refs f' (rd_end p)) (refs f' (wr_end p)) 0 0"
  shows "pipe_inv f'"
  unfolding pipe_inv_owed_def
proof (intro conjI allI impI)
  show "ends_ok (pipes f' ! q) (refs f' (rd_end q)) (refs f' (wr_end q)) 0 0" if "q < PIPE_MAX" for q
    using assms(4) [OF that] assms(5) pipe_invD(2) [OF assms(1) that] by (cases "q = p") auto
qed (rule assms(2))

lemma sys_pipe_cases:
  assumes "sys_pipe f fds = (r, f')" and inv: "pipe_inv f"
  shows "(r = (0, None) \<longrightarrow> False) \<and> pipe_inv f' \<and> (\<forall>a b. r = (0, Some (a, b)) \<longrightarrow>
    (\<exists>p t. p < PIPE_MAX \<and> get_fd_table f = Some t \<and> a \<noteq> b \<and> \<not> p_used (pipes f ! p) \<and>
      fdt f' ! t ! a = \<lparr>f_inode = rd_end p, f_pos = 0, f_used = True, f_flags = 0\<rparr> \<and>
      fdt f' ! t ! b = \<lparr>f_inode = wr_end p, f_pos = 0, f_used = True, f_flags = 0\<rparr> \<and>
      pipes f' ! p = (pipes f ! p)\<lparr>rpos := 0, wpos := 0, nread := 1, nwrite := 1, p_used := True\<rparr>))"
proof -
  note T = pipe_invD(1) [OF inv]
  have err: "EMFILE \<noteq> 0" "EFAULT \<noteq> 0" by (simp_all add: EMFILE_def EFAULT_def)
  show ?thesis
  proof (cases "fds = 0 \<or> find_index (\<lambda>s. \<not> p_used s) (pipes f) = None")
    case True
    then show ?thesis using assms err by (auto simp: sys_pipe_def split: if_splits)
  next
    case False
    then obtain p where fp: "find_index (\<lambda>s. \<not> p_used s) (pipes f) = Some p" and nz: "fds \<noteq> 0" by blast
    have p: "p < PIPE_MAX" "\<not> p_used (pipes f ! p)" using find_index_Some [OF fp] T by (simp_all add: tables_ok_def)
    define s where "s = (pipes f ! p)\<lparr>rpos := 0, wpos := 0, nread := 1, nwrite := 1, p_used := True\<rparr>"
    define f1 where "f1 = upd_pipe f p (\<lambda>s. s\<lparr>rpos := 0, wpos := 0, nread := 1, nwrite := 1, p_used := True\<rparr>)"
    have f1: "pipes f1 = (pipes f)[p := s]" "fdt f1 = fdt f" "tables_ok f1" "\<And>j. refs f1 j = refs f j" "get_fd_table f1 = get_fd_table f"
      "p < length (pipes f)" using T p by (simp_all add: f1_def upd_pipe_def s_def refs_def tables_ok_def get_fd_table_def)
    have z: "refs f (rd_end p) = 0" "refs f (wr_end p) = 0" using pipe_invD(2) [OF inv p(1)] p(2) by (simp_all add: ends_ok_def)
    have undo: "pipe_inv (upd_pipe g p (\<lambda>s. s\<lparr>p_used := False\<rparr>))"
      if "tables_ok g" "\<And>j. refs g j = refs f j" "\<And>q. q \<noteq> p \<Longrightarrow> pipes g ! q = pipes f ! q" for g
      using that p T z by (intro pipe_inv_others [OF inv, of _ p]) (auto simp: upd_pipe_def tables_ok_def ends_ok_def refs_def)
    show ?thesis
    proof (cases "get_fd_table f")
      case None
      then have "r = (- EMFILE, None)" "f' = upd_pipe f1 p (\<lambda>s. s\<lparr>p_used := False\<rparr>)"
        using assms(1) fp nz f1 by (auto simp: sys_pipe_def flat_alloc_fd_def Let_def f1_def [symmetric])
      then show ?thesis using undo [OF f1(3,4)] f1 err by simp
    next
      case (Some t)
      note tr = get_fd_table_range [OF Some]
      obtain r1 f2 where a1: "alloc_in_table f1 t (rd_end p) 0 = (r1, f2)" by fastforce
      show ?thesis
      proof (cases r1)
        case None
        then have "r = (- EMFILE, None)" "f' = upd_pipe f1 p (\<lambda>s. s\<lparr>p_used := False\<rparr>)"
          using assms(1) fp nz f1(5) Some a1 alloc_in_table_none [of f1 t "rd_end p" 0 f2]
          by (auto simp: sys_pipe_def flat_alloc_fd_def Let_def f1_def [symmetric])
        then show ?thesis using undo [OF f1(3,4)] f1 err by simp
      next
        case r1: (Some a)
        note A = alloc_in_table_some [OF a1 [unfolded r1] f1(3) tr] and A' = refs_new_fd [OF a1 [unfolded r1] f1(3) tr]
        have g2: "get_fd_table f2 = Some t" using A'(4) Some f1(5) by (metis get_fd_table_def)
        obtain r2 f3 where a2: "alloc_in_table f2 t (wr_end p) 0 = (r2, f3)" by fastforce
        have fdt2: "fdt f2 ! t ! a = \<lparr>f_inode = rd_end p, f_pos = 0, f_used = True, f_flags = 0\<rparr>"
          using A f1(3) tr by (simp add: set_fd_def tables_ok_def)
        show ?thesis
        proof (cases r2)
          case None
          then have f3: "f3 = f2" using alloc_in_table_none a2 by blast
          let ?f4 = "snd (flat_close_fd f2 a)"
          have res: "r = (- EMFILE, None)" "f' = upd_pipe ?f4 p (\<lambda>s. s\<lparr>p_used := False\<rparr>)"
            using assms(1) fp nz f1(5) Some a1 a2 r1 None f3 g2
            by (auto simp: sys_pipe_def flat_alloc_fd_def Let_def f1_def [symmetric])
          have f4: "?f4 = set_fd (pipe_close f2 (rd_end p)) t a ((fdt f2 ! t ! a)\<lparr>f_used := False\<rparr>)"
            using g2 A(1) fdt2 by (simp add: flat_close_fd_def Let_def)
          have "refs ?f4 j = refs f j" for j
            using refs_set_fd [of "pipe_close f2 (rd_end p)" t a "(fdt f2 ! t ! a)\<lparr>f_used := False\<rparr>" j] A'(1) [of j] A'(2) A(1) tr fdt2 f1(4)
            by (auto simp: f4 refers_def split: if_splits)
          moreover have "pipes ?f4 ! q = pipes f ! q" if "q \<noteq> p" for q
            using that p A'(3) f1(1) by (simp add: f4 pipe_close_def upd_pipe_def)
          moreover have "tables_ok ?f4" using A'(2) tr by (simp add: f4 tables_set_fd)
          ultimately show ?thesis using undo [of ?f4] res err by simp
        next
          case r2: (Some b)
          note B = alloc_in_table_some [OF a2 [unfolded r2] A'(2) tr] and B' = refs_new_fd [OF a2 [unfolded r2] A'(2) tr]
          have res: "r = (0, Some (a, b))" "f' = f3"
            using assms(1) fp nz f1(5) Some a1 a2 r1 r2 g2
            by (auto simp: sys_pipe_def flat_alloc_fd_def Let_def f1_def [symmetric])
          have ab: "a \<noteq> b" using B(2) fdt2 by auto
          have "pipe_inv f3"
          proof (rule pipe_inv_others [OF inv B'(2) p(1)])
            show "pipes f3 ! q = pipes f ! q \<and> refs f3 (rd_end q) = refs f (rd_end q) \<and> refs f3 (wr_end q) = refs f (wr_end q)"
              if "q \<noteq> p" for q using that A' B' f1 by simp
            show "ends_ok (pipes f3 ! p) (refs f3 (rd_end p)) (refs f3 (wr_end p)) 0 0"
              using A' B' f1 z by (simp add: ends_ok_def s_def)
          qed
          moreover have "fdt f3 ! t ! a = \<lparr>f_inode = rd_end p, f_pos = 0, f_used = True, f_flags = 0\<rparr>"
            "fdt f3 ! t ! b = \<lparr>f_inode = wr_end p, f_pos = 0, f_used = True, f_flags = 0\<rparr>"
            using fdt2 ab B A'(2) tr by (simp_all add: set_fd_def tables_ok_def)
          moreover have "pipes f3 ! p = s" using A'(3) B'(3) f1 by simp
          ultimately show ?thesis using res p ab Some by (auto simp: s_def)
        qed
      qed
    qed
  qed
qed


section \<open>Data in a pipe\<close>

definition buf_ok :: "pipe_slot \<Rightarrow> bool" where
  "buf_ok s \<longleftrightarrow> length (p_buf s) = PIPE_CAP \<and> rpos s \<le> wpos s \<and> wpos s \<le> PIPE_CAP"

definition pipe_data :: "pipe_slot \<Rightarrow> bytes" where
  "pipe_data s = drop (rpos s) (take (wpos s) (p_buf s))"

lemma pipe_put_spec:
  assumes "buf_ok s"
  shows "buf_ok (pipe_put s bs) \<and> pipe_data (pipe_put s bs) = pipe_data s @ take (PIPE_CAP - wpos s) bs \<and>
    rpos (pipe_put s bs) = rpos s"
  using assms
proof (induction s bs rule: pipe_put.induct)
  case (2 s c cs)
  show ?case
  proof (cases "wpos s < PIPE_CAP")
    case True
    let ?s = "s\<lparr>p_buf := (p_buf s)[wpos s := c], wpos := wpos s + 1\<rparr>"
    have ok: "buf_ok ?s" using "2.prems" True by (simp add: buf_ok_def)
    have "pipe_data ?s = pipe_data s @ [c]"
      using "2.prems" True by (simp add: pipe_data_def buf_ok_def take_Suc_conv_app_nth)
    moreover have "take (PIPE_CAP - wpos s) (c # cs) = c # take (PIPE_CAP - (wpos s + 1)) cs"
      using True by (simp add: take_Cons' Suc_diff_Suc)
    ultimately show ?thesis using "2.IH" True ok by simp
  next
    case False
    then have "PIPE_CAP - wpos s = 0" by simp
    then show ?thesis using "2.IH" "2.prems" False by simp
  qed
qed simp

lemma pipe_get_spec:
  assumes "buf_ok s" and "0 < n"
  shows "case pipe_get s n of
      None \<Rightarrow> pipe_data s = []
    | Some (bs, s') \<Rightarrow> buf_ok s' \<and> bs \<noteq> [] \<and> bs = take n (pipe_data s) \<and> pipe_data s' = drop n (pipe_data s)"
proof (cases "rpos s < wpos s")
  case True
  define k where "k = min n (wpos s - rpos s)"
  have "drop (rpos s + k) (take (wpos s) (p_buf s)) = drop n (pipe_data s)"
    using assms(1) by (auto simp: k_def pipe_data_def buf_ok_def min_def add.commute)
  moreover have "take k (drop (rpos s) (p_buf s)) = take n (pipe_data s)"
    using assms(1) True by (simp add: k_def pipe_data_def drop_take min.commute)
  moreover have "pipe_data s \<noteq> []" using True assms(1) by (simp add: pipe_data_def buf_ok_def)
  moreover have "rpos s + k \<le> wpos s" using True by (simp add: k_def)
  moreover have "rpos s + k = wpos s \<Longrightarrow> drop n (pipe_data s) = []"
    using assms(1) True by (simp add: pipe_data_def buf_ok_def k_def)
  ultimately show ?thesis
    using True assms by (auto simp: pipe_get_def k_def [symmetric] Let_def pipe_data_def buf_ok_def)
next
  case False
  then show ?thesis using assms(1) by (simp add: pipe_get_def pipe_data_def buf_ok_def)
qed

end
