(* ===== verification/Ramfs_Files.thy ===== *)
theory Ramfs_Files
  imports Buddy_Correct Ramfs
begin

text \<open>
  File contents of \<^verbatim>\<open>src/src/vfs_core/ramfs.rs\<close>: the invariant \<open>ram_inv\<close> (every block and attribute page of a
  file is an allocated page of its own, outside the free space \<open>F\<close> of the page allocator), the contents of a file
  as a function from positions to bytes, and that \<^verbatim>\<open>ensure_block\<close>, \<^verbatim>\<open>write\<close> and \<^verbatim>\<open>read\<close> implement that view.
\<close>

unbundle bit_operations_syntax

section \<open>Pages of files\<close>

definition page_of :: "ramfs \<Rightarrow> nat \<Rightarrow> nat \<Rightarrow> u64" where
  "page_of s i b = (if b < MAX_BLOCKS_PER_INODE then i_blocks (inodes s ! i) ! b else data_block (i_xattr (inodes s ! i)))"

definition owns :: "ramfs \<Rightarrow> nat \<Rightarrow> nat \<Rightarrow> bool" where
  "owns s i b \<longleftrightarrow> i < MAX_INODES \<and> b \<le> MAX_BLOCKS_PER_INODE \<and> i_used (inodes s ! i) \<and> page_of s i b \<noteq> 0"

definition node_ok :: "ram_inode \<Rightarrow> bool" where
  "node_ok nd \<longleftrightarrow> length (i_blocks nd) = MAX_BLOCKS_PER_INODE \<and> length (i_dirents nd) = MAX_DIRENTS \<and>
     i_dirent_count nd \<le> MAX_DIRENTS \<and> (\<forall>d \<in> set (i_dirents nd). length (de_name d) = MAX_NAME) \<and>
     length (i_symlink nd) = MAX_SYMLINK_LEN \<and> i_symlink_len nd \<le> MAX_SYMLINK_LEN \<and> xa_inv (i_xattr nd) \<and>
     (\<forall>b < MAX_BLOCKS_PER_INODE. i_block_count nd \<le> b \<longrightarrow> i_blocks nd ! b = 0)"

definition ram_inv :: "ramfs \<Rightarrow> nat set \<Rightarrow> bool" where
  "ram_inv s F \<longleftrightarrow> alloc_inv (pages s) F \<and> length (inodes s) = MAX_INODES \<and> (\<forall>i < MAX_INODES. node_ok (inodes s ! i)) \<and>
     (\<forall>i b. owns s i b \<longrightarrow> allocated (pages s) (page_of s i b) 0 \<and> span (page_of s i b) 0 \<inter> F = {}) \<and>
     (\<forall>i b j c. owns s i b \<longrightarrow> owns s j c \<longrightarrow> page_of s i b = page_of s j c \<longrightarrow> i = j \<and> b = c)"

lemma ram_invD:
  assumes "ram_inv s F"
  shows "alloc_inv (pages s) F" and "length (inodes s) = MAX_INODES" and "i < MAX_INODES \<Longrightarrow> node_ok (inodes s ! i)"
    and "owns s i b \<Longrightarrow> allocated (pages s) (page_of s i b) 0" and "owns s i b \<Longrightarrow> span (page_of s i b) 0 \<inter> F = {}"
    and "owns s i b \<Longrightarrow> owns s j c \<Longrightarrow> page_of s i b = page_of s j c \<Longrightarrow> i = j \<and> b = c"
  using assms unfolding ram_inv_def by meson+

text \<open>The byte at position \<open>k\<close> of file \<open>i\<close>; a block that was never written reads as zeros.\<close>

definition content :: "ramfs \<Rightarrow> nat \<Rightarrow> nat \<Rightarrow> u8" where
  "content s i k = (let p = page_of s i (k div 4096) in if p = 0 then 0 else mem s (p + of_nat (k mod 4096)))"

abbreviation FILE_MAX :: nat where "FILE_MAX \<equiv> 4194304"

lemma in_page:
  assumes "unat p + 4096 \<le> 2 ^ 64"
  shows "unat (a - p :: u64) < 4096 \<longleftrightarrow> unat a \<in> span p 0"
proof (cases "p \<le> a")
  case True
  then show ?thesis by (auto simp: unat_sub_nowrap span_def word_le_nat_alt)
next
  case False
  then have lt: "unat a < unat p" by (simp add: word_le_nat_alt)
  have "unat (a - p) = 2 ^ 64 + unat a - unat p" using lt by (simp add: unat_sub_if_size word_size word_le_nat_alt)
  with lt assms show ?thesis by (auto simp: span_def)
qed

lemma alloc_inv_region: "alloc_inv s F \<Longrightarrow> region_ok s"
  using buddy_invD(1) by (auto simp: alloc_inv_def)

lemma page_bounds:
  assumes "region_ok s" and "block_ok s p 0"
  shows "p \<noteq> 0" and "4096 dvd unat p" and "unat p + 4096 \<le> 2 ^ 63"
  using assms block_ok_nonzero [OF assms] by (auto simp: block_ok_def region_ok_def)

lemma pages_disjoint:
  assumes "4096 dvd unat p" and "4096 dvd unat q" and "p \<noteq> q"
  shows "span p 0 \<inter> span q 0 = {}"
proof -
  obtain m n where mn: "unat p = 4096 * m" "unat q = 4096 * n" using assms by (auto elim!: dvdE)
  then have "m \<noteq> n" using assms(3) by (auto simp: word_unat_eq_iff)
  then show ?thesis using mn by (auto simp: span_def)
qed

lemma page_byte:
  assumes "unat p + 4096 \<le> 2 ^ 63" and "n < 4096"
  shows "unat (p + of_nat n :: u64) = unat p + n" and "unat (p + of_nat n) \<in> span p 0"
proof -
  have "unat (of_nat n :: u64) = n" using assms(2) by (simp add: unat_of_nat_lt)
  then show u: "unat (p + of_nat n :: u64) = unat p + n" using assms by (simp add: unat_add_nowrap)
  show "unat (p + of_nat n) \<in> span p 0" unfolding u using assms(2) by (simp add: span_def)
qed

text \<open>Writing inside one page changes no byte of another page.\<close>

lemma other_page_byte:
  assumes "unat p + 4096 \<le> 2 ^ 63" and "unat q + 4096 \<le> 2 ^ 63" and "span p 0 \<inter> span q 0 = {}" and "n < 4096"
  shows "\<not> unat (q + of_nat n - p :: u64) < 4096"
proof -
  have "unat (q + of_nat n) \<in> span q 0" by (rule page_byte [OF assms(2,4)])
  then show ?thesis using in_page [of p "q + of_nat n"] assms(1,3) by auto
qed

lemma mem_write_other:
  assumes "unat p + 4096 \<le> 2 ^ 63" and "unat q + 4096 \<le> 2 ^ 63" and "span p 0 \<inter> span q 0 = {}" and "n < 4096"
    and "bo + length bs \<le> 4096"
  shows "mem_write m (p + of_nat bo) bs (q + of_nat n) = m (q + of_nat n)"
proof -
  have nq: "\<not> unat (q + of_nat n - p :: u64) < 4096" by (rule other_page_byte [OF assms(1-4)])
  have "\<not> unat (q + of_nat n - (p + of_nat bo)) < length bs"
  proof
    let ?d = "q + of_nat n - (p + of_nat bo)"
    assume lt: "unat ?d < length bs"
    have bo: "unat (of_nat bo :: u64) = bo" using assms(5) by (simp add: unat_of_nat_lt)
    have eq: "q + of_nat n - p = ?d + of_nat bo" by simp
    have "unat (?d + of_nat bo) = unat ?d + bo"
      using lt assms(5) bo by (subst unat_add_nowrap) auto
    then have "unat (q + of_nat n - p) = unat ?d + bo" unfolding eq .
    then show False using nq lt assms(5) by linarith
  qed
  then show ?thesis by (simp add: mem_write_def Let_def)
qed

lemma mem_write_same:
  assumes "unat p + 4096 \<le> 2 ^ 63" and "n < 4096" and "bo + length bs \<le> 4096"
  shows "mem_write m (p + of_nat bo) bs (p + of_nat n) =
    (if bo \<le> n \<and> n < bo + length bs then bs ! (n - bo) else m (p + of_nat n))"
proof (cases "bo \<le> n")
  case True
  have "p + of_nat n - (p + of_nat bo) = (of_nat (n - bo) :: u64)" using True by (simp add: of_nat_diff)
  moreover have "unat (of_nat (n - bo) :: u64) = n - bo" using assms(2) by (simp add: unat_of_nat_lt)
  ultimately show ?thesis using True by (auto simp: mem_write_def Let_def)
next
  case False
  have "p + of_nat n - (p + of_nat bo) = (of_nat n - of_nat bo :: u64)" by simp
  moreover have "unat (of_nat n - of_nat bo :: u64) = 2 ^ 64 + n - bo"
    using False assms(3) by (simp add: unat_sub_if_size word_size word_le_nat_alt unat_of_nat_lt)
  ultimately have "\<not> unat (p + of_nat n - (p + of_nat bo) :: u64) < length bs" using assms(3) False by simp
  then show ?thesis using False by (simp add: mem_write_def Let_def)
qed

section \<open>Allocating a block\<close>

lemma buddy_inv_hdr:
  assumes inv: "buddy_inv s L" and h: "\<And>b k. k \<le> MAX_ORDER \<Longrightarrow> b \<in> set (L k) \<Longrightarrow> h b = hdr s b"
  shows "buddy_inv (s\<lparr>hdr := h\<rparr>) L"
  unfolding buddy_inv_def
proof (intro conjI)
  have ch: "chain h p xs = chain (hdr s) p xs" if "\<forall>b \<in> set xs. h b = hdr s b" for p xs
    using that by (induction xs arbitrary: p) auto
  show "\<forall>(b, k) \<in> blocks L. block_ok (s\<lparr>hdr := h\<rparr>) b k \<and> b_magic (hdr (s\<lparr>hdr := h\<rparr>) b) = MAGIC \<and>
      b_order (hdr (s\<lparr>hdr := h\<rparr>) b) = of_nat k"
    using buddy_invD(4-6) [OF inv] h by (auto simp: block_ok_def top_addr_def)
  show "\<forall>k \<le> MAX_ORDER. chain (hdr (s\<lparr>hdr := h\<rparr>)) (free_lists (s\<lparr>hdr := h\<rparr>) ! k) (L k)"
    using buddy_invD(3) [OF inv] h by (simp add: ch)
qed (use buddy_invD(1,2,7) [OF inv] in \<open>simp_all add: region_ok_def top_addr_def\<close>)

lemma listed_free: "k \<le> MAX_ORDER \<Longrightarrow> b \<in> set (L k) \<Longrightarrow> unat b \<in> free_space L"
  using span_nonempty [of b k] unfolding free_space_iff by blast

lemma alloc_inv_hdr:
  assumes "alloc_inv s F" and "\<And>b. unat b \<in> F \<Longrightarrow> h b = hdr s b"
  shows "alloc_inv (s\<lparr>hdr := h\<rparr>) F"
proof -
  obtain L where L: "buddy_inv s L" "free_space L = F" using assms(1) by (auto simp: alloc_inv_def)
  have "buddy_inv (s\<lparr>hdr := h\<rparr>) L" using buddy_inv_hdr [OF L(1)] assms(2) L(2) listed_free by blast
  then show ?thesis using assms(1) L(2) by (auto simp: alloc_inv_def tracked_def)
qed

lemma allocated_hdr [simp]: "allocated (s\<lparr>hdr := h\<rparr>) a k = allocated s a k"
proof -
  have "alloc_base (s\<lparr>hdr := h\<rparr>) = alloc_base s" by simp
  from query_cong [OF this] show ?thesis by (simp add: allocated_def block_ok_def top_addr_def)
qed

text \<open>What a write through a block of file \<open>i\<close> keeps: everything but the blocks of that file.\<close>

definition strip :: "ram_inode \<Rightarrow> ram_inode" where
  "strip nd = nd\<lparr>i_blocks := [], i_block_count := 0\<rparr>"

lemma strip_eqD:
  assumes "strip a = strip b"
  shows "i_used a = i_used b" "i_size a = i_size b" "i_xattr a = i_xattr b" "i_dirents a = i_dirents b"
    "i_dirent_count a = i_dirent_count b" "i_symlink a = i_symlink b" "i_symlink_len a = i_symlink_len b"
  using assms by (cases a; cases b; simp add: strip_def)+

definition same_files :: "ramfs \<Rightarrow> ramfs \<Rightarrow> nat \<Rightarrow> bool" where
  "same_files s s' i \<longleftrightarrow> length (inodes s') = length (inodes s) \<and> fs_vnodes s' = fs_vnodes s \<and>
     (\<forall>j. j \<noteq> i \<longrightarrow> inodes s' ! j = inodes s ! j) \<and> strip (inodes s' ! i) = strip (inodes s ! i) \<and>
     (\<forall>b < MAX_BLOCKS_PER_INODE. page_of s i b \<noteq> 0 \<longrightarrow> page_of s' i b = page_of s i b) \<and>
     i_block_count (inodes s ! i) \<le> i_block_count (inodes s' ! i)"

lemma same_files_refl: "same_files s s i"
  by (simp add: same_files_def)

lemma same_files_trans: "same_files s s' i \<Longrightarrow> same_files s' s'' i \<Longrightarrow> same_files s s'' i"
  unfolding same_files_def by auto

lemma same_files_node:
  assumes "same_files s s' i"
  shows "i_used (inodes s' ! j) = i_used (inodes s ! j)" and "i_size (inodes s' ! j) = i_size (inodes s ! j)"
    and "page_of s' j MAX_BLOCKS_PER_INODE = page_of s j MAX_BLOCKS_PER_INODE" and "j \<noteq> i \<Longrightarrow> page_of s' j = page_of s j"
  using assms strip_eqD [of "inodes s' ! i" "inodes s ! i"] unfolding same_files_def
  by (cases "j = i"; simp add: page_of_def fun_eq_iff)+

lemma ensure_block_present:
  assumes "ensure_block s i bi = (Inr p, s')" and "ram_inv s F" and "i < MAX_INODES" and "i_used (inodes s ! i)"
  shows "bi < MAX_BLOCKS_PER_INODE" and "page_of s' i bi = p" and "p \<noteq> 0"
proof -
  have len: "length (inodes s) = MAX_INODES" "length (i_blocks (inodes s ! i)) = MAX_BLOCKS_PER_INODE"
    using ram_invD(2,3) [OF assms(2)] assms(3) by (simp_all add: node_ok_def)
  show "bi < MAX_BLOCKS_PER_INODE" "page_of s' i bi = p" "p \<noteq> 0"
    using assms(1,3) len
    by (auto simp: ensure_block_def page_of_def upd_inode_def zero_bytes_def Let_def split: if_splits prod.splits)
qed

definition with_block :: "ramfs \<Rightarrow> nat \<Rightarrow> nat \<Rightarrow> u64 \<Rightarrow> buddy \<Rightarrow> ramfs" where
  "with_block s i bi p pg = upd_inode (zero_bytes (s\<lparr>pages := pg\<rparr>) p RAMFS_BLOCK) i (\<lambda>nd. nd\<lparr>i_blocks := (i_blocks nd)[bi := p],
     i_block_count := (if bi \<ge> i_block_count nd then bi + 1 else i_block_count nd)\<rparr>)"

lemma ensure_block_cases:
  assumes en: "ensure_block s i bi = (r, s')"
  obtains (same) "s' = s" "isl r \<or> page_of s i bi \<noteq> 0"
  | (oom) pg where "alloc (pages s) 0 = (None, pg)" "s' = s\<lparr>pages := pg\<rparr>" "isl r"
  | (zero) pg where "alloc (pages s) 0 = (Some 0, pg)"
  | (new) p pg where "alloc (pages s) 0 = (Some p, pg)" "p \<noteq> 0" "bi < MAX_BLOCKS_PER_INODE" "page_of s i bi = 0" "r = Inr p"
      "s' = with_block s i bi p pg"
proof (cases "bi < MAX_BLOCKS_PER_INODE \<and> page_of s i bi = 0")
  case False
  then have "s' = s \<and> (isl r \<or> page_of s i bi \<noteq> 0)"
    using en by (cases "bi < MAX_BLOCKS_PER_INODE") (auto simp: ensure_block_def page_of_def)
  then show ?thesis using same by blast
next
  case True
  obtain q pg where al: "alloc (pages s) 0 = (q, pg)" by fastforce
  have b: "\<not> bi \<ge> MAX_BLOCKS_PER_INODE" "i_blocks (inodes s ! i) ! bi = 0" using True by (auto simp: page_of_def)
  show ?thesis
  proof (cases q)
    case None
    then have "isl r" "s' = s\<lparr>pages := pg\<rparr>" using en b al by (auto simp: ensure_block_def)
    then show ?thesis using oom al None by blast
  next
    case (Some p)
    show ?thesis
    proof (cases "p = 0")
      case True
      then show ?thesis using zero al Some by blast
    next
      case False
      then have "r = Inr p" "s' = with_block s i bi p pg"
        using en b al Some by (simp_all add: ensure_block_def with_block_def Let_def)
      then show ?thesis using new al Some False True by blast
    qed
  qed
qed

lemma with_block_inv:
  assumes inv: "ram_inv s F" and i: "i < MAX_INODES" and us: "i_used (inodes s ! i)"
    and al: "alloc (pages s) 0 = (Some p, pg)" and bi: "bi < MAX_BLOCKS_PER_INODE" "page_of s i bi = 0"
  defines "s' \<equiv> with_block s i bi p pg"
  shows "ram_inv s' (F - span p 0)" and "same_files s s' i" and "bi < i_block_count (inodes s' ! i)"
    and "\<And>j k. j < MAX_INODES \<Longrightarrow> i_used (inodes s ! j) \<Longrightarrow> k < FILE_MAX \<Longrightarrow> content s' j k = content s j k"
proof -
  have len: "length (inodes s) = MAX_INODES" and bl: "length (i_blocks (inodes s ! i)) = MAX_BLOCKS_PER_INODE"
    using ram_invD(2,3) [OF inv] i by (simp_all add: node_ok_def)
  note ad = alloc_data [OF ram_invD(1) [OF inv] al]
  have reg: "region_ok pg" using alloc_inv_region [OF ad(2)] .
  have pb: "p \<noteq> 0" "4096 dvd unat p" "unat p + 4096 \<le> 2 ^ 63" using page_bounds [OF reg] ad(3) by (auto simp: allocated_def)
  let ?F = "F - span p 0"
  have s': "pages s' = pg\<lparr>hdr := (\<lambda>a. if unat (a - p) < 4096 then null_block else hdr pg a)\<rparr>"
    "mem s' = (\<lambda>a. if unat (a - p) < 4096 then 0 else mem s a)"
    "inodes s' = (inodes s)[i := (inodes s ! i)\<lparr>i_blocks := (i_blocks (inodes s ! i))[bi := p],
        i_block_count := (if bi \<ge> i_block_count (inodes s ! i) then bi + 1 else i_block_count (inodes s ! i))\<rparr>]"
    "fs_vnodes s' = fs_vnodes s"
    by (simp_all add: s'_def with_block_def upd_inode_def zero_bytes_def RAMFS_BLOCK_def cong: if_cong)
  have ai: "alloc_inv (pages s') ?F"
    unfolding s'(1) by (rule alloc_inv_hdr [OF ad(2)]) (use in_page [of p] pb in auto)
  have po: "page_of s' j b = (if j = i \<and> b = bi then p else page_of s j b)" for j b
    using i len bl bi by (auto simp: page_of_def s' nth_list_update)
  have us': "i_used (inodes s' ! j) = i_used (inodes s ! j)" for j using i len by (simp add: s' nth_list_update)
  have ow: "owns s' j b \<longleftrightarrow> owns s j b \<or> (j = i \<and> b = bi)" for j b
    using i us pb(1) bi by (auto simp: owns_def po us')
  have nown: "\<not> owns s i bi" using bi by (simp add: owns_def)
  have keep: "allocated pg (page_of s j b) 0" "span (page_of s j b) 0 \<inter> F = {}" "page_of s j b \<noteq> p" if "owns s j b" for j b
  proof -
    note o = ram_invD(4,5) [OF inv that]
    show "allocated pg (page_of s j b) 0" by (rule alloc_keeps [OF ram_invD(1) [OF inv] al o])
    show "span (page_of s j b) 0 \<inter> F = {}" by (rule o(2))
    then show "page_of s j b \<noteq> p" using ad(1) span_nonempty [of p 0] by (metis IntI empty_iff subsetD)
  qed
  show "same_files s s' i"
    using i len bi po by (auto simp: same_files_def s' strip_def)
  show "bi < i_block_count (inodes s' ! i)" using i len by (simp add: s')
  have "node_ok (inodes s' ! j)" if "j < MAX_INODES" for j
    using ram_invD(3) [OF inv that] i len by (auto simp: s' nth_list_update node_ok_def)
  moreover have "allocated (pages s') (page_of s' j b) 0 \<and> span (page_of s' j b) 0 \<inter> ?F = {}" if "owns s' j b" for j b
  proof (cases "j = i \<and> b = bi")
    case True
    then show ?thesis using ad(3) by (auto simp: s'(1) po)
  next
    case False
    then have "owns s j b" using that ow by blast
    from keep(1,2) [OF this] False show ?thesis by (auto simp: s'(1) po)
  qed
  moreover have "j = j' \<and> b = b'" if "owns s' j b" "owns s' j' b'" "page_of s' j b = page_of s' j' b'" for j b j' b'
    using that ow keep(3) nown ram_invD(6) [OF inv] by (auto simp: po split: if_splits)
  ultimately show "ram_inv s' ?F" unfolding ram_inv_def using ai len by (simp add: s'(3))
  show "content s' j k = content s j k" if jk: "j < MAX_INODES" "i_used (inodes s ! j)" "k < FILE_MAX" for j k
  proof -
    have kb: "k div 4096 < MAX_BLOCKS_PER_INODE" using jk(3) by (simp add: MAX_BLOCKS_PER_INODE_def)
    show ?thesis
    proof (cases "j = i \<and> k div 4096 = bi")
      case True
      have "unat (of_nat (k mod 4096) :: u64) < 4096" by (simp add: unat_of_nat_lt)
      then show ?thesis using True bi pb(1) by (simp add: content_def po s'(2))
    next
      case False
      show ?thesis
      proof (cases "page_of s j (k div 4096) = 0")
        case True
        have "page_of s' j (k div 4096) = 0" using False True by (auto simp: po)
        then show ?thesis using True by (simp add: content_def)
      next
        case nz: False
        then have o: "owns s j (k div 4096)" using jk kb by (simp add: owns_def)
        have qb: "4096 dvd unat (page_of s j (k div 4096))" "unat (page_of s j (k div 4096)) + 4096 \<le> 2 ^ 63"
          using page_bounds [OF reg] keep(1) [OF o] by (auto simp: allocated_def)
        have "\<not> unat (page_of s j (k div 4096) + of_nat (k mod 4096) - p) < 4096"
          by (rule other_page_byte [OF pb(3) qb(2) pages_disjoint [OF pb(2) qb(1) keep(3) [OF o, symmetric]]]) simp
        moreover have "page_of s' j (k div 4096) = page_of s j (k div 4096)" using False by (auto simp: po)
        ultimately show ?thesis using nz by (simp add: content_def s'(2))
      qed
    qed
  qed
qed

definition same_content :: "ramfs \<Rightarrow> ramfs \<Rightarrow> (nat \<Rightarrow> nat \<Rightarrow> bool) \<Rightarrow> bool" where
  "same_content s s' except \<longleftrightarrow> (\<forall>j k. j < MAX_INODES \<longrightarrow> i_used (inodes s ! j) \<longrightarrow> k < FILE_MAX \<longrightarrow> \<not> except j k \<longrightarrow>
     content s' j k = content s j k)"

lemma ensure_block_inv:
  assumes en: "ensure_block s i bi = (r, s')" and inv: "ram_inv s F" and i: "i < MAX_INODES" and us: "i_used (inodes s ! i)"
  shows "\<exists>F'. ram_inv s' F' \<and> same_files s s' i \<and> same_content s s' (\<lambda>_ _. False)"
  using en
proof (cases rule: ensure_block_cases)
  case same
  then show ?thesis using inv same_files_refl by (intro exI [of _ F]) (auto simp: same_content_def)
next
  case (oom pg)
  have "pg = pages s" using alloc_fail(1) [OF ram_invD(1) [OF inv] oom(1)] .
  then have "s' = s" using oom by simp
  then show ?thesis using inv same_files_refl by (intro exI [of _ F]) (auto simp: same_content_def)
next
  case (zero pg)
  have "allocated pg 0 0" "alloc_inv pg (F - span 0 0)" using alloc_data [OF ram_invD(1) [OF inv] zero] by simp_all
  then show ?thesis using page_bounds(1) [OF alloc_inv_region] by (auto simp: allocated_def)
next
  case (new p pg)
  note w = with_block_inv [OF inv i us new(1,3,4), folded new(6)]
  show ?thesis using w(1,2,4) by (intro exI [of _ "F - span p 0"]) (simp add: same_content_def)
qed

lemma owned_page:
  assumes "ram_inv s F" and "owns s i b"
  shows "4096 dvd unat (page_of s i b)" and "unat (page_of s i b) + 4096 \<le> 2 ^ 63"
  using page_bounds [OF alloc_inv_region [OF ram_invD(1) [OF assms(1)]]] ram_invD(4) [OF assms] by (auto simp: allocated_def)

lemma owned_disjoint:
  assumes "ram_inv s F" and "owns s i b" and "owns s j c" and "(i, b) \<noteq> (j, c)"
  shows "span (page_of s i b) 0 \<inter> span (page_of s j c) 0 = {}"
  using pages_disjoint [OF owned_page(1) [OF assms(1,2)] owned_page(1) [OF assms(1,3)]] ram_invD(6) [OF assms(1-3)] assms(4)
  by auto

text \<open>Writing \<open>bs\<close> at offset \<open>bo\<close> of block \<open>bi\<close> of file \<open>i\<close>.\<close>

lemma write_block:
  assumes inv: "ram_inv s F" and ow: "owns s i bi" and bi: "bi < MAX_BLOCKS_PER_INODE" and fit: "bo + length bs \<le> 4096"
  defines "s' \<equiv> s\<lparr>mem := mem_write (mem s) (page_of s i bi + of_nat bo) bs\<rparr>"
  shows "ram_inv s' F" and "same_files s s' i"
    and "j < MAX_INODES \<Longrightarrow> i_used (inodes s ! j) \<Longrightarrow> k < FILE_MAX \<Longrightarrow> content s' j k =
      (if j = i \<and> 4096 * bi + bo \<le> k \<and> k < 4096 * bi + bo + length bs then bs ! (k - (4096 * bi + bo)) else content s j k)"
proof -
  have po: "page_of s' = page_of s" by (simp add: page_of_def s'_def fun_eq_iff)
  have "owns s' = owns s" by (simp add: owns_def po fun_eq_iff) (simp add: s'_def)
  then show "ram_inv s' F" using inv by (simp add: ram_inv_def po) (simp add: s'_def)
  show "same_files s s' i" by (simp add: same_files_def po) (simp add: s'_def)
  assume jk: "j < MAX_INODES" "i_used (inodes s ! j)" "k < FILE_MAX"
  have kb: "k div 4096 < MAX_BLOCKS_PER_INODE" using jk(3) by (simp add: MAX_BLOCKS_PER_INODE_def)
  note pb = owned_page [OF inv ow]
  have km: "k mod 4096 < 4096" by simp
  let ?p = "page_of s i bi"
  show "content s' j k = (if j = i \<and> 4096 * bi + bo \<le> k \<and> k < 4096 * bi + bo + length bs then bs ! (k - (4096 * bi + bo)) else content s j k)"
  proof (cases "page_of s j (k div 4096) = 0")
    case True
    then have "\<not> (j = i \<and> k div 4096 = bi)" using ow by (auto simp: owns_def)
    moreover have "k div 4096 = bi" if "4096 * bi + bo \<le> k" "k < 4096 * bi + bo + length bs"
      using that fit by (intro div_nat_eqI) auto
    ultimately show ?thesis using True by (auto simp: content_def po)
  next
    case nz: False
    then have o: "owns s j (k div 4096)" using jk kb by (simp add: owns_def)
    show ?thesis
    proof (cases "j = i \<and> k div 4096 = bi")
      case True
      have kd: "k = 4096 * bi + k mod 4096" using True by (metis mult_div_mod_eq)
      have "content s' j k = mem_write (mem s) (?p + of_nat bo) bs (?p + of_nat (k mod 4096))"
        using True nz by (simp add: content_def po) (simp add: s'_def)
      also have "\<dots> = (if bo \<le> k mod 4096 \<and> k mod 4096 < bo + length bs then bs ! (k mod 4096 - bo) else mem s (?p + of_nat (k mod 4096)))"
        by (rule mem_write_same [OF pb(2) km fit])
      also have "mem s (?p + of_nat (k mod 4096)) = content s j k" using True nz by (simp add: content_def)
      also have "bo \<le> k mod 4096 \<and> k mod 4096 < bo + length bs \<longleftrightarrow> j = i \<and> 4096 * bi + bo \<le> k \<and> k < 4096 * bi + bo + length bs"
        using True kd by linarith
      also have "k mod 4096 - bo = k - (4096 * bi + bo)" using kd by linarith
      finally show ?thesis .
    next
      case False
      let ?q = "page_of s j (k div 4096)"
      have "mem_write (mem s) (?p + of_nat bo) bs (?q + of_nat (k mod 4096)) = mem s (?q + of_nat (k mod 4096))"
        by (rule mem_write_other [OF pb(2) owned_page(2) [OF inv o] owned_disjoint [OF inv ow o] km fit]) (use False in auto)
      moreover have "k div 4096 = bi" if "4096 * bi + bo \<le> k" "k < 4096 * bi + bo + length bs"
        using that fit by (intro div_nat_eqI) auto
      ultimately show ?thesis using False nz by (auto simp: content_def po) (simp_all add: s'_def)
    qed
  qed
qed

lemma pos_split:
  fixes pos :: u64
  shows "unat (pos div 4096) = unat pos div 4096" and "unat (pos mod 4096) = unat pos mod 4096"
  by (simp_all add: unat_div unat_mod)

lemma write_loop_spec:
  assumes "write_loop s i pos bs = (r, s')" and "ram_inv s F" and "i < MAX_INODES" and "i_used (inodes s ! i)"
    and "unat pos + length bs < 2 ^ 64"
  shows "\<exists>F'. ram_inv s' F' \<and> same_files s s' i \<and>
    same_content s s' (\<lambda>j k. j = i \<and> unat pos \<le> k \<and> k < unat pos + length bs) \<and>
    (\<not> isl r \<longrightarrow> (\<forall>k. unat pos \<le> k \<and> k < unat pos + length bs \<longrightarrow>
       k < FILE_MAX \<and> page_of s' i (k div 4096) \<noteq> 0 \<and> content s' i k = bs ! (k - unat pos)))"
  using assms
proof (induction s i pos bs arbitrary: r s' F rule: write_loop.induct)
  case (1 s i pos bs)
  show ?case
  proof (cases "bs = []")
    case True
    then show ?thesis using "1.prems" same_files_refl by (auto simp: write_loop.simps same_content_def)
  next
    case ne: False
    define bi where "bi = unat (pos div 4096)"
    define bo where "bo = unat (pos mod 4096)"
    define ch where "ch = min (length bs) (RAMFS_BLOCK - bo)"
    have pos: "unat pos = 4096 * bi + bo" "bo < 4096" by (simp_all add: bi_def bo_def pos_split)
    have ch: "0 < ch" "ch \<le> length bs" "bo + ch \<le> 4096" using ne pos(2) by (auto simp: ch_def RAMFS_BLOCK_def)
    obtain r1 s1 where en: "ensure_block s i bi = (r1, s1)" by fastforce
    obtain F1 where e1: "ram_inv s1 F1" "same_files s s1 i" "same_content s s1 (\<lambda>_ _. False)"
      using ensure_block_inv [OF en "1.prems"(2-4)] by blast
    show ?thesis
    proof (cases r1)
      case (Inl err)
      then have "r = Inl err" "s' = s1" using "1.prems"(1) ne en by (simp_all add: write_loop.simps Let_def bi_def)
      then show ?thesis using e1 by (intro exI [of _ F1]) (auto simp: same_content_def)
    next
      case (Inr p)
      note pr = ensure_block_present [OF en [unfolded Inr] "1.prems"(2-4)]
      have us1: "i_used (inodes s1 ! i)" using same_files_node(1) [OF e1(2)] "1.prems"(4) by simp
      have ow: "owns s1 i bi" using pr us1 "1.prems"(3) by (simp add: owns_def)
      define s2 where "s2 = s1\<lparr>mem := mem_write (mem s1) (p + of_nat bo) (take ch bs)\<rparr>"
      have fit: "bo + length (take ch bs) \<le> 4096" using ch by simp
      note wb = write_block [OF e1(1) ow pr(1) fit, unfolded pr(2), folded s2_def]
      have pos2: "unat (pos + of_nat ch) = unat pos + ch"
      proof -
        have "unat (of_nat ch :: u64) = ch" using ch "1.prems"(5) by (intro unat_of_nat_lt) simp
        then show ?thesis using ch "1.prems"(5) by (subst unat_add_nowrap) auto
      qed
      have lp: "write_loop s2 i (pos + of_nat ch) (drop ch bs) = (r, s')"
        using "1.prems"(1) ne en Inr by (simp add: write_loop.simps [of s] Let_def bi_def bo_def s2_def ch_def)
      have us2: "i_used (inodes s2 ! i)" using us1 by (simp add: s2_def)
      obtain F' where IH: "ram_inv s' F'" "same_files s2 s' i"
        "same_content s2 s' (\<lambda>j k. j = i \<and> unat pos + ch \<le> k \<and> k < unat pos + length bs)"
        "\<not> isl r \<longrightarrow> (\<forall>k. unat pos + ch \<le> k \<and> k < unat pos + length bs \<longrightarrow>
           k < FILE_MAX \<and> page_of s' i (k div 4096) \<noteq> 0 \<and> content s' i k = drop ch bs ! (k - (unat pos + ch)))"
      proof -
        note IH = "1.IH" [OF ne refl refl en [unfolded bi_def, symmetric] Inr refl, folded bi_def bo_def, folded ch_def,
            folded s2_def, OF lp wb(1) "1.prems"(3) us2]
        have len: "unat (pos + of_nat ch) + length (drop ch bs) < 2 ^ 64" "unat pos + ch + (length bs - ch) = unat pos + length bs"
          using "1.prems"(5) ch pos2 by simp_all
        show thesis using IH [OF len(1)] that unfolding pos2 length_drop len(2) by blast
      qed
      have sf: "same_files s s' i" using same_files_trans [OF same_files_trans [OF e1(2) wb(2)] IH(2)] .
      have us: "i_used (inodes s1 ! j) = i_used (inodes s ! j)" "i_used (inodes s2 ! j) = i_used (inodes s1 ! j)" for j
        using same_files_node(1) [OF e1(2)] same_files_node(1) [OF wb(2)] by simp_all
      have c2: "content s2 j k = (if j = i \<and> unat pos \<le> k \<and> k < unat pos + ch then bs ! (k - unat pos) else content s j k)"
        if "j < MAX_INODES" "i_used (inodes s ! j)" "k < FILE_MAX" for j k
        using wb(3) [of j k] e1(3) that us(1) pos ch by (auto simp: same_content_def)
      have p2: "page_of s' i bi \<noteq> 0" and bb: "bi < 1024"
        using IH(2) pr ow by (auto simp: same_files_def s2_def page_of_def MAX_BLOCKS_PER_INODE_def)
      have "same_content s s' (\<lambda>j k. j = i \<and> unat pos \<le> k \<and> k < unat pos + length bs)"
        using IH(3) c2 us ch by (auto simp: same_content_def)
      moreover have "k < FILE_MAX \<and> page_of s' i (k div 4096) \<noteq> 0 \<and> content s' i k = bs ! (k - unat pos)"
        if ok: "\<not> isl r" and k: "unat pos \<le> k" "k < unat pos + length bs" for k
      proof (cases "unat pos + ch \<le> k")
        case True
        then show ?thesis using IH(4) ok k ch by auto
      next
        case False
        then have kb: "k div 4096 = bi" using k pos ch by (intro div_nat_eqI) auto
        have kf: "k < FILE_MAX" using False pos ch bb by auto
        have "content s' i k = content s2 i k"
          using IH(3) False us "1.prems"(3,4) kf by (simp add: same_content_def)
        then show ?thesis using c2 [of i k] "1.prems"(3,4) False k kf p2 kb by simp
      qed
      ultimately show ?thesis using IH(1) sf by blast
    qed
  qed
qed

lemma mem_read_content:
  assumes "page_of s i bi = p" and "p \<noteq> 0" and "bo + ch \<le> 4096"
  shows "mem_read (mem s) (p + of_nat bo) ch = map (content s i) [4096 * bi + bo ..< 4096 * bi + bo + ch]"
proof (rule nth_equalityI)
  fix k assume "k < length (mem_read (mem s) (p + of_nat bo) ch)"
  then have k: "k < ch" by (simp add: mem_read_def)
  have d: "(4096 * bi + bo + k) div 4096 = bi" "(4096 * bi + bo + k) mod 4096 = bo + k"
    using k assms(3) by (auto intro: div_nat_eqI simp: mod_mult_self2 add.assoc)
  have "content s i (4096 * bi + bo + k) = mem s (p + of_nat bo + of_nat k)"
    unfolding content_def d using assms(1,2) by (simp add: add.assoc)
  then show "mem_read (mem s) (p + of_nat bo) ch ! k = map (content s i) [4096 * bi + bo ..< 4096 * bi + bo + ch] ! k"
    using k by (simp add: mem_read_def)
qed (simp add: mem_read_def)

lemma read_loop_spec:
  assumes "node_ok (inodes s ! i)" and "unat pos + left \<le> FILE_MAX"
    and "\<forall>k. unat pos \<le> k \<and> k < unat pos + left \<longrightarrow> page_of s i (k div 4096) \<noteq> 0"
  shows "read_loop (mem s) (inodes s ! i) pos left acc = Some (acc @ map (content s i) [unat pos ..< unat pos + left])"
  using assms
proof (induction "mem s" "inodes s ! i" pos left acc rule: read_loop.induct)
  case (1 pos left acc)
  show ?case
  proof (cases "left = 0")
    case True
    then show ?thesis by (simp add: read_loop.simps)
  next
    case ne: False
    define bi where "bi = unat (pos div 4096)"
    define bo where "bo = unat (pos mod 4096)"
    define ch where "ch = min left (RAMFS_BLOCK - bo)"
    have pos: "unat pos = 4096 * bi + bo" "bo < 4096" by (simp_all add: bi_def bo_def pos_split)
    have ch: "0 < ch" "ch \<le> left" "bo + ch \<le> 4096" using ne pos(2) by (auto simp: ch_def RAMFS_BLOCK_def)
    have "unat pos div 4096 = bi" using pos by simp
    then have nz: "page_of s i bi \<noteq> 0" using "1.prems"(3) ne by (metis le_refl less_add_same_cancel1 neq0_conv)
    have bb: "bi < MAX_BLOCKS_PER_INODE" using "1.prems"(2) ne pos by (simp add: MAX_BLOCKS_PER_INODE_def)
    have bc: "bi < i_block_count (inodes s ! i)" and ag: "arr_get (i_blocks (inodes s ! i)) bi = Some (page_of s i bi)"
      using "1.prems"(1) bb nz by (auto simp: node_ok_def page_of_def not_le [symmetric])
    have pos2: "unat (pos + of_nat ch) = unat pos + ch"
    proof -
      have "unat (of_nat ch :: u64) = ch" using ch "1.prems"(2) by (intro unat_of_nat_lt) simp
      then show ?thesis using ch "1.prems"(2) by (subst unat_add_nowrap) auto
    qed
    let ?acc = "acc @ mem_read (mem s) (page_of s i bi + of_nat bo) ch"
    have "read_loop (mem s) (inodes s ! i) pos left acc = read_loop (mem s) (inodes s ! i) (pos + of_nat ch) (left - ch) ?acc"
      using ne bc ag nz by (subst read_loop.simps) (simp add: Let_def bi_def [symmetric] bo_def [symmetric] ch_def [symmetric])
    also have "\<dots> = Some (?acc @ map (content s i) [unat pos + ch ..< unat pos + left])"
    proof -
      have "left - ch + (unat pos + ch) = unat pos + left" using ch by simp
      then show ?thesis
        using "1.hyps" [OF ne bi_def bo_def _ ag nz ch_def] bc "1.prems" ch pos2 by (simp add: add.commute)
    qed
    also have "mem_read (mem s) (page_of s i bi + of_nat bo) ch = map (content s i) [unat pos ..< unat pos + ch]"
      using mem_read_content [OF refl nz ch(3)] pos by simp
    also have "(acc @ map (content s i) [unat pos ..< unat pos + ch]) @ map (content s i) [unat pos + ch ..< unat pos + left] =
        acc @ map (content s i) [unat pos ..< unat pos + left]"
      using ch(2) upt_add_eq_append [of "unat pos" "unat pos + ch" "left - ch"] by simp
    finally show ?thesis .
  qed
qed

section \<open>Write and read\<close>

lemma get_ino_Some: "get_ino s ino = Some i \<longleftrightarrow> i = unat ino \<and> i < MAX_INODES \<and> i_used (inodes s ! i)"
  by (auto simp: get_ino_def Let_def)

lemma resize_inv:
  fixes z :: u64
  assumes "ram_inv s F" and "i < MAX_INODES"
  defines "s' \<equiv> upd_inode s i (\<lambda>nd. nd\<lparr>i_size := z\<rparr>)"
  shows "ram_inv s' F" and "page_of s' = page_of s" and "content s' = content s"
    and "i_used (inodes s' ! j) = i_used (inodes s ! j)" and "i_size (inodes s' ! i) = z"
    and "j \<noteq> i \<Longrightarrow> inodes s' ! j = inodes s ! j"
proof -
  have len: "length (inodes s) = MAX_INODES" by (rule ram_invD(2) [OF assms(1)])
  show po: "page_of s' = page_of s"
    using assms(2) len by (auto simp: s'_def upd_inode_def page_of_def fun_eq_iff nth_list_update)
  show us: "i_used (inodes s' ! j) = i_used (inodes s ! j)" for j
    using assms(2) len by (simp add: s'_def upd_inode_def nth_list_update)
  have ow: "owns s' = owns s" by (simp add: owns_def po us fun_eq_iff)
  have m: "mem s' = mem s" "pages s' = pages s" by (simp_all add: s'_def upd_inode_def)
  show "content s' = content s" by (simp add: content_def po m fun_eq_iff Let_def)
  have "node_ok (inodes s' ! j)" if "j < MAX_INODES" for j
    using ram_invD(3) [OF assms(1) that] assms(2) len by (auto simp: s'_def upd_inode_def nth_list_update node_ok_def)
  then show "ram_inv s' F" using assms(1) len by (simp add: ram_inv_def ow po m) (simp add: s'_def upd_inode_def)
  show "i_size (inodes s' ! i) = z" "j \<noteq> i \<Longrightarrow> inodes s' ! j = inodes s ! j" for j
    using assms(2) len by (simp_all add: s'_def upd_inode_def)
qed

lemma ram_write_spec:
  assumes w: "ram_write s ino off buf = (r, s')" and inv: "ram_inv s F" and g: "get_ino s ino = Some i"
    and len: "unat off + length buf < 2 ^ 64"
  shows "\<exists>F'. ram_inv s' F' \<and> get_ino s' ino = Some i \<and>
    same_content s s' (\<lambda>j k. j = i \<and> unat off \<le> k \<and> k < unat off + length buf) \<and>
    (\<forall>j. j \<noteq> i \<longrightarrow> inodes s' ! j = inodes s ! j) \<and>
    (\<forall>n. r = Inr n \<longrightarrow> n = length buf \<and> unat (i_size (inodes s' ! i)) = max (unat (i_size (inodes s ! i))) (unat off + length buf) \<and>
       (\<forall>k. unat off \<le> k \<and> k < unat off + length buf \<longrightarrow>
         k < FILE_MAX \<and> page_of s' i (k div 4096) \<noteq> 0 \<and> content s' i k = buf ! (k - unat off)))"
proof -
  have i: "i = unat ino" "i < MAX_INODES" "i_used (inodes s ! i)" using g by (auto simp: get_ino_Some)
  define hi where "hi = off + of_nat (length buf)"
  have hi: "unat hi = unat off + length buf"
    using len by (simp add: hi_def unat_add_nowrap unat_of_nat_lt)
  define z where "z = (if hi > i_size (inodes s ! i) then hi else i_size (inodes s ! i))"
  define s1 where "s1 = upd_inode s i (\<lambda>nd. nd\<lparr>i_size := z\<rparr>)"
  note rz = resize_inv [OF inv i(2), where z = z, folded s1_def]
  have z: "unat z = max (unat (i_size (inodes s ! i))) (unat off + length buf)"
    using hi by (auto simp: z_def word_less_nat_alt)
  have s1: "(if hi > i_size (inodes s ! i) then upd_inode s i (\<lambda>nd. nd\<lparr>i_size := hi\<rparr>) else s) = s1"
    by (simp add: s1_def z_def upd_inode_def)
  obtain r2 s2 where l: "write_loop s1 i off buf = (r2, s2)" by fastforce
  have us1: "i_used (inodes s1 ! i)" using rz(4) i by simp
  obtain F' where sp: "ram_inv s2 F'" "same_files s1 s2 i"
    "same_content s1 s2 (\<lambda>j k. j = i \<and> unat off \<le> k \<and> k < unat off + length buf)"
    "\<not> isl r2 \<longrightarrow> (\<forall>k. unat off \<le> k \<and> k < unat off + length buf \<longrightarrow>
       k < FILE_MAX \<and> page_of s2 i (k div 4096) \<noteq> 0 \<and> content s2 i k = buf ! (k - unat off))"
    using write_loop_spec [OF l rz(1) i(2) us1 len] by blast
  have "(case (r2, s2) of (Inl err, s2) \<Rightarrow> (Inl err, s2) | (Inr _, s2) \<Rightarrow> (Inr (length buf), s2)) = (r, s')"
    using w g unfolding ram_write_def Let_def hi_def [symmetric] by (simp add: s1 l)
  then have s': "s' = s2" "\<forall>n. r = Inr n \<longrightarrow> n = length buf \<and> \<not> isl r2" by (auto split: sum.splits)
  have "get_ino s' ino = Some i" using same_files_node(1) [OF sp(2)] us1 i s' by (simp add: get_ino_Some)
  moreover have "same_content s s' (\<lambda>j k. j = i \<and> unat off \<le> k \<and> k < unat off + length buf)"
    using sp(3) rz(3,4) s' by (simp add: same_content_def)
  moreover have "inodes s' ! j = inodes s ! j" if "j \<noteq> i" for j
    using sp(2) rz(6) [OF that] that s' by (simp add: same_files_def)
  moreover have "unat (i_size (inodes s' ! i)) = max (unat (i_size (inodes s ! i))) (unat off + length buf)"
    using same_files_node(2) [OF sp(2)] rz(5) z s' by simp
  ultimately show ?thesis using sp(1,4) s' by blast
qed

end
