(* ===== verification/Ramfs_Dirs.thy ===== *)
theory Ramfs_Dirs
  imports Ramfs_Files
begin

text \<open>
  Directories and inodes of \<^verbatim>\<open>src/src/vfs_core/ramfs.rs\<close>: reading back what a file contains, looking names up,
  and what \<^verbatim>\<open>create\<close> and \<^verbatim>\<open>remove\<close> do to a directory, to the inode table and to the pages of the other files.
\<close>

unbundle bit_operations_syntax

section \<open>Reading\<close>

lemma ram_read_written:
  assumes inv: "ram_inv s F" and g: "get_ino s ino = Some i" and fit: "unat off + n \<le> unat (i_size (inodes s ! i))"
    and wr: "\<forall>k. unat off \<le> k \<and> k < unat off + n \<longrightarrow> k < FILE_MAX \<and> page_of s i (k div 4096) \<noteq> 0"
  shows "ram_read s ino off n = Some (Inr (map (content s i) [unat off ..< unat off + n]))"
proof (cases "n = 0")
  case True
  then show ?thesis using g by (simp add: ram_read_def Let_def read_loop.simps)
next
  case False
  let ?z = "i_size (inodes s ! i)"
  have lt: "off < ?z" using fit False by (simp add: word_less_nat_alt)
  have "n < 18446744073709551616" using fit unat_lt64 [of ?z] by linarith
  then have un: "unat (of_nat n :: u64) = n" by (intro unat_of_nat_lt) simp
  have "of_nat n \<le> ?z - off" using fit lt un by (simp add: word_le_nat_alt unat_sub_nowrap)
  then have m: "unat (min (?z - off) (of_nat n)) = n" using un by (simp add: min_def)
  have node: "node_ok (inodes s ! i)" using ram_invD(3) [OF inv] g by (auto simp: get_ino_Some)
  have "unat off + n - 1 < FILE_MAX" using wr False by auto
  then have fm: "unat off + n \<le> FILE_MAX" by simp
  show ?thesis using g lt read_loop_spec [where acc = "[]", OF node fm] wr m by (simp add: ram_read_def Let_def)
qed

lemma ram_write_then_read:
  assumes "ram_inv s F" and "get_ino s ino \<noteq> None" and "unat off + length buf < 2 ^ 64"
    and "ram_write s ino off buf = (Inr n, s')"
  shows "n = length buf \<and> ram_read s' ino off n = Some (Inr buf)"
proof -
  obtain i where g: "get_ino s ino = Some i" using assms(2) by blast
  obtain F' where sp: "ram_inv s' F'" "get_ino s' ino = Some i" "n = length buf"
    "unat off + length buf \<le> unat (i_size (inodes s' ! i))"
    "\<forall>k. unat off \<le> k \<and> k < unat off + length buf \<longrightarrow>
      k < FILE_MAX \<and> page_of s' i (k div 4096) \<noteq> 0 \<and> content s' i k = buf ! (k - unat off)"
    using ram_write_spec [OF assms(4,1) g assms(3)] by auto
  have "map (content s' i) [unat off ..< unat off + length buf] = buf"
    by (rule nth_equalityI) (use sp(5) in auto)
  then show ?thesis using ram_read_written [OF sp(1,2,4)] sp(3,5) by auto
qed

section \<open>Directories\<close>

definition has_name :: "bytes \<Rightarrow> ram_dirent \<Rightarrow> bool" where
  "has_name nm d \<longleftrightarrow> de_used d \<and> unat (de_len d) = length nm \<and> take (length nm) (de_name d) = nm"

lemma dirent_match_has_name:
  assumes "length (de_name d) = MAX_NAME" and "length nm \<le> MAX_NAME"
  shows "dirent_match d nm = Some (has_name nm d)"
  using assms by (auto simp: dirent_match_def has_name_def slice_to_def)

lemma dirent_scan_find:
  assumes "\<forall>d \<in> set ds. length (de_name d) = MAX_NAME" and "length nm \<le> MAX_NAME"
  shows "dirent_scan (pre @ ds) nm [length pre ..< length pre + length ds] = Some (find_from (has_name nm) (length pre) ds)"
  using assms(1)
proof (induction ds arbitrary: pre)
  case (Cons d ds)
  have "dirent_match d nm = Some (has_name nm d)" using Cons.prems assms(2) by (simp add: dirent_match_has_name)
  moreover have "[length pre ..< length pre + length (d # ds)] = length pre # [length (pre @ [d]) ..< length (pre @ [d]) + length ds]"
    by (simp add: upt_conv_Cons del: upt_Suc)
  ultimately show ?case using Cons.IH [of "pre @ [d]"] Cons.prems by (simp del: upt_Suc)
qed simp

lemma dirent_scan_append:
  "\<forall>i \<in> set is. i < length ds \<Longrightarrow> dirent_scan (ds @ es) nm is = dirent_scan ds nm is"
  by (induction "is") (auto simp: nth_append arr_get_def split: Option.bind_splits)

lemma find_dirent_find:
  assumes "node_ok nd" and "length nm \<le> MAX_NAME"
  shows "find_dirent nd nm = Some (find_index (has_name nm) (take (i_dirent_count nd) (i_dirents nd)))"
proof -
  let ?n = "i_dirent_count nd"
  have d: "length (i_dirents nd) = MAX_DIRENTS" "?n \<le> MAX_DIRENTS" "\<forall>d \<in> set (i_dirents nd). length (de_name d) = MAX_NAME"
    using assms(1) by (auto simp: node_ok_def)
  have "dirent_scan (i_dirents nd) nm [0..<?n] = dirent_scan (take ?n (i_dirents nd)) nm [0..<?n]"
    using dirent_scan_append [of "[0..<?n]" "take ?n (i_dirents nd)" "drop ?n (i_dirents nd)" nm] d by simp
  moreover have "\<forall>d \<in> set (take ?n (i_dirents nd)). length (de_name d) = MAX_NAME" using d(3) by (meson in_set_takeD)
  ultimately show ?thesis
    using dirent_scan_find [OF _ assms(2), of "take ?n (i_dirents nd)" "[]"] d by (simp add: find_dirent_def min_absorb2)
qed

section \<open>New inodes and entries\<close>

lemma upd_inode_simps [simp]:
  "pages (upd_inode s i f) = pages s" "mem (upd_inode s i f) = mem s" "fs_vnodes (upd_inode s i f) = fs_vnodes s"
  "length (inodes (upd_inode s i f)) = length (inodes s)"
  "i < length (inodes s) \<Longrightarrow> inodes (upd_inode s i f) ! i = f (inodes s ! i)"
  "j \<noteq> i \<Longrightarrow> inodes (upd_inode s i f) ! j = inodes s ! j"
  by (simp_all add: upd_inode_def)

lemma inode_pages:
  "page_of s i b = (if b < MAX_BLOCKS_PER_INODE then i_blocks (inodes s ! i) ! b else data_block (i_xattr (inodes s ! i)))"
  by (simp add: page_of_def)

text \<open>An update of inodes that leaves the pages of the used ones alone keeps the invariant.\<close>

lemma ram_inv_nodes:
  assumes inv: "ram_inv s F" and eq: "pages s' = pages s" "length (inodes s') = MAX_INODES"
    and ok: "\<And>j. j < MAX_INODES \<Longrightarrow> node_ok (inodes s' ! j)"
    and pg: "\<And>j b. owns s' j b \<Longrightarrow> owns s j b \<and> page_of s' j b = page_of s j b"
  shows "ram_inv s' F"
proof -
  have "allocated (pages s') (page_of s' i b) 0 \<and> span (page_of s' i b) 0 \<inter> F = {}" if "owns s' i b" for i b
    using pg [OF that] ram_invD(4,5) [OF inv, of i b] by (simp add: eq(1))
  moreover have "i = j \<and> b = c" if "owns s' i b" "owns s' j c" "page_of s' i b = page_of s' j c" for i b j c
    using pg [OF that(1)] pg [OF that(2)] that(3) ram_invD(6) [OF inv, of i b j c] by simp
  moreover have "alloc_inv (pages s') F" using ram_invD(1) [OF inv] by (simp add: eq)
  ultimately show ?thesis unfolding ram_inv_def using eq(2) ok by meson
qed

lemma node_ok_fresh:
  assumes "node_ok nd"
  shows "node_ok (nd\<lparr>i_used := u, i_mode := m, i_uid := a, i_gid := g, i_size := z, i_nlink := l, i_block_count := 0,
    i_symlink_len := 0, i_dirent_count := 0, i_xattr := xattr_block_empty, i_blocks := replicate MAX_BLOCKS_PER_INODE 0\<rparr>)"
  using assms by (simp add: node_ok_def)

lemma alloc_inode_fresh:
  assumes al: "alloc_inode s = (Some c, s')" and inv: "ram_inv s F"
  shows "c < MAX_INODES" and "\<not> i_used (inodes s ! c)" and "i_used (inodes s' ! c)" and "ram_inv s' F"
    and "j \<noteq> c \<Longrightarrow> inodes s' ! j = inodes s ! j" and "pages s' = pages s" and "mem s' = mem s"
    and "fs_vnodes s' = fs_vnodes s" and "i_size (inodes s' ! c) = 0" and "i_block_count (inodes s' ! c) = 0"
    and "page_of s' c b = 0"
proof -
  have len: "length (inodes s) = MAX_INODES" by (rule ram_invD(2) [OF inv])
  have f: "find_index (\<lambda>nd. \<not> i_used nd) (inodes s) = Some c" using al by (auto simp: alloc_inode_def split: option.splits)
  show c: "c < MAX_INODES" "\<not> i_used (inodes s ! c)" using find_index_Some [OF f] len by simp_all
  define g :: "ram_inode \<Rightarrow> ram_inode" where "g nd = nd\<lparr>i_used := True, i_mode := 0, i_uid := 0, i_gid := 0, i_size := 0,
     i_nlink := 1, i_block_count := 0, i_symlink_len := 0, i_dirent_count := 0,
     i_xattr := xattr_block_empty, i_blocks := replicate MAX_BLOCKS_PER_INODE 0\<rparr>" for nd
  have s': "s' = upd_inode s c g" using al f by (simp add: alloc_inode_def g_def [abs_def])
  then show oth: "j \<noteq> c \<Longrightarrow> inodes s' ! j = inodes s ! j" and "pages s' = pages s" and "mem s' = mem s"
    and "fs_vnodes s' = fs_vnodes s" for j by simp_all
  have new: "inodes s' ! c = g (inodes s ! c)" using s' c len by simp
  then show "i_used (inodes s' ! c)" "i_size (inodes s' ! c) = 0" "i_block_count (inodes s' ! c) = 0" by (simp_all add: g_def)
  show pz: "page_of s' c b = 0" for b using new by (simp add: page_of_def g_def xattr_block_empty_def)
  show "ram_inv s' F"
  proof (rule ram_inv_nodes [OF inv])
    show "node_ok (inodes s' ! j)" if "j < MAX_INODES" for j
      using ram_invD(3) [OF inv that] new node_ok_fresh oth [of j] by (cases "j = c") (auto simp: g_def)
    show "owns s j b \<and> page_of s' j b = page_of s j b" if "owns s' j b" for j b
      using that oth [of j] pz by (cases "j = c") (auto simp: owns_def page_of_def)
  qed (simp_all add: s' len)
qed

lemma alloc_inode_full:
  "alloc_inode s = (None, s') \<Longrightarrow> s' = s \<and> (\<forall>i < length (inodes s). i_used (inodes s ! i))"
  by (auto simp: alloc_inode_def find_index_None split: option.splits)


definition entries :: "ram_inode \<Rightarrow> ram_dirent list" where
  "entries nd = take (i_dirent_count nd) (i_dirents nd)"

definition add_entry :: "ram_inode \<Rightarrow> ram_dirent \<Rightarrow> ram_inode" where
  "add_entry nd d = (case free_slot nd of
     Some j \<Rightarrow> nd\<lparr>i_dirents := (i_dirents nd)[j := d]\<rparr>
   | None \<Rightarrow> nd\<lparr>i_dirent_count := i_dirent_count nd + 1, i_dirents := (i_dirents nd)[i_dirent_count nd := d]\<rparr>)"

lemma add_entry_find:
  assumes ok: "node_ok nd" and room: "free_slot nd = None \<Longrightarrow> i_dirent_count nd < MAX_DIRENTS"
    and q: "\<And>x. \<not> de_used x \<Longrightarrow> \<not> q x"
  shows "\<not> q d \<Longrightarrow> find_index q (entries (add_entry nd d)) = find_index q (entries nd)"
    and "q d \<Longrightarrow> find_index q (entries nd) = None \<Longrightarrow>
      \<exists>j. find_index q (entries (add_entry nd d)) = Some j \<and> i_dirents (add_entry nd d) ! j = d"
proof -
  let ?n = "i_dirent_count nd" and ?ds = "i_dirents nd"
  have len: "length ?ds = MAX_DIRENTS" "?n \<le> MAX_DIRENTS" using ok by (simp_all add: node_ok_def)
  have "(\<not> q d \<longrightarrow> find_index q (entries (add_entry nd d)) = find_index q (entries nd)) \<and>
    (q d \<longrightarrow> find_index q (entries nd) = None \<longrightarrow>
      (\<exists>j. find_index q (entries (add_entry nd d)) = Some j \<and> i_dirents (add_entry nd d) ! j = d))"
  proof (cases "free_slot nd")
    case None
    then have n: "?n < MAX_DIRENTS" by (rule room)
    have e: "entries (add_entry nd d) = entries nd @ [d]" "i_dirents (add_entry nd d) ! ?n = d" "length (entries nd) = ?n"
      using n len None by (simp_all add: add_entry_def entries_def take_Suc_conv_app_nth)
    then show ?thesis by (auto simp: find_from_append split: option.splits)
  next
    case (Some j)
    have "j < length (entries nd)" "\<not> de_used (entries nd ! j)"
      using find_index_Some [of "\<lambda>d. \<not> de_used d" "entries nd"] Some by (auto simp: free_slot_def entries_def)
    moreover from this have j: "j < length (entries nd)" "\<not> q (entries nd ! j)" "j < ?n" using q by (auto simp: entries_def)
    have e: "entries (add_entry nd d) = (entries nd)[j := d]" "i_dirents (add_entry nd d) ! j = d"
      using Some j len by (simp_all add: add_entry_def entries_def take_update_swap)
    show ?thesis
    proof (intro conjI impI)
      show "\<not> q d \<Longrightarrow> find_index q (entries (add_entry nd d)) = find_index q (entries nd)"
        using find_index_update [where p = q, OF j(1,2)] by (simp add: e)
      assume "q d" "find_index q (entries nd) = None"
      then have "find_index q ((entries nd)[j := d]) = Some j" using j by (intro find_index_here) (auto simp: find_index_None)
      then show "\<exists>j. find_index q (entries (add_entry nd d)) = Some j \<and> i_dirents (add_entry nd d) ! j = d" using e by auto
    qed
  qed
  then show "\<not> q d \<Longrightarrow> find_index q (entries (add_entry nd d)) = find_index q (entries nd)"
    and "q d \<Longrightarrow> find_index q (entries nd) = None \<Longrightarrow>
      \<exists>j. find_index q (entries (add_entry nd d)) = Some j \<and> i_dirents (add_entry nd d) ! j = d" by blast+
qed

lemma add_entry_ok:
  assumes "node_ok nd" and "free_slot nd = None \<Longrightarrow> i_dirent_count nd < MAX_DIRENTS" and "length (de_name d) = MAX_NAME"
  shows "node_ok (add_entry nd d)"
  using assms by (auto simp: node_ok_def add_entry_def split: option.splits dest!: set_update_subset_insert [THEN subsetD])

definition entry_slot :: "ram_inode \<Rightarrow> nat" where
  "entry_slot nd = (case free_slot nd of Some j \<Rightarrow> j | None \<Rightarrow> i_dirent_count nd)"

lemma dirent_set_name:
  assumes "length (de_name d) = MAX_NAME" and "length nm \<le> MAX_NAME"
  shows "has_name nm' (dirent_set d ino nm t) \<longleftrightarrow> nm' = nm" and "de_ino (dirent_set d ino nm t) = ino"
    and "length (de_name (dirent_set d ino nm t)) = MAX_NAME"
proof -
  have "unat (of_nat (length nm) :: u16) = length nm" using assms(2) by (intro unat_of_nat_lt) (simp add: MAX_NAME_def)
  then show "has_name nm' (dirent_set d ino nm t) \<longleftrightarrow> nm' = nm"
    using assms by (auto simp: has_name_def dirent_set_def Let_def min_def)
qed (use assms in \<open>simp_all add: dirent_set_def Let_def min_def\<close>)


lemma ram_create_form:
  assumes cr: "ram_create e s par nm mode = Some (Inr ino, s')" and g: "get_ino s par = Some p" and inv: "ram_inv s F"
  obtains c s1 d m where "alloc_inode s = (Some c, s1)" and "ino = of_nat c" and "c \<noteq> p"
    and "d = dirent_set (i_dirents (inodes s ! p) ! entry_slot (inodes s ! p)) (of_nat c) nm FT_REG_FILE"
    and "free_slot (inodes s ! p) = None \<longrightarrow> i_dirent_count (inodes s ! p) < MAX_DIRENTS"
    and "s' = upd_inode (upd_inode s1 c (\<lambda>nd. nd\<lparr>i_mode := m, i_nlink := 1\<rparr>)) p (\<lambda>nd. add_entry nd d)"
proof -
  obtain c s1 where al: "alloc_inode s = (Some c, s1)" using cr g by (auto simp: ram_create_def split: prod.splits option.splits)
  note fr = alloc_inode_fresh [OF al inv]
  have p: "p < MAX_INODES" "i_used (inodes s ! p)" using g by (auto simp: get_ino_Some)
  have ne: "c \<noteq> p" using fr(2) p by auto
  have len: "length (inodes s1) = MAX_INODES" by (rule ram_invD(2) [OF fr(4)])
  define m where "m = (if mode AND S_IFMT \<noteq> 0 then mode else mode OR S_IFREG)"
  define s2 where "s2 = upd_inode s1 c (\<lambda>nd. nd\<lparr>i_mode := m\<rparr>)"
  have n2: "inodes s2 ! p = inodes s ! p" using ne fr(5) by (simp add: s2_def)
  define d where "d = dirent_set (i_dirents (inodes s ! p) ! entry_slot (inodes s ! p)) (of_nat c) nm FT_REG_FILE"
  define t where "t = upd_inode (upd_inode s1 c (\<lambda>nd. nd\<lparr>i_mode := m, i_nlink := 1\<rparr>)) p (\<lambda>nd. add_entry nd d)"
  have swap: "upd_inode (upd_inode s2 p f) c (\<lambda>nd. nd\<lparr>i_nlink := 1\<rparr>) =
      upd_inode (upd_inode s1 c (\<lambda>nd. nd\<lparr>i_mode := m, i_nlink := 1\<rparr>)) p f" for f
    using ne fr(1) p(1) len by (simp add: s2_def upd_inode_def list_update_swap [of p c])
  have res: "ino = of_nat c \<and> s' = t \<and> (free_slot (inodes s ! p) = None \<longrightarrow> i_dirent_count (inodes s ! p) < MAX_DIRENTS)"
  proof (cases "free_slot (inodes s ! p)")
    case (Some j)
    then have "ino = of_nat c" "s' = upd_inode (put_dirent s2 p j (of_nat c) nm FT_REG_FILE) c (\<lambda>nd. nd\<lparr>i_nlink := 1\<rparr>)"
      using cr g al n2 by (auto simp: ram_create_def Let_def m_def [symmetric] s2_def [symmetric])
    then show ?thesis using Some n2 ne p(1) len fr(5)
      by (simp add: t_def put_dirent_def swap) (simp add: upd_inode_def add_entry_def d_def entry_slot_def)
  next
    case None
    let ?n = "i_dirent_count (inodes s ! p)"
    have n: "?n < MAX_DIRENTS" "ino = of_nat c"
      "s' = upd_inode (put_dirent (upd_inode s2 p (\<lambda>nd. nd\<lparr>i_dirent_count := i_dirent_count nd + 1\<rparr>)) p ?n (of_nat c) nm FT_REG_FILE)
         c (\<lambda>nd. nd\<lparr>i_nlink := 1\<rparr>)"
      using cr g al n2 None
      by (auto simp: ram_create_def Let_def m_def [symmetric] s2_def [symmetric] not_le split: if_splits Option.bind_splits)
    have "put_dirent (upd_inode s2 p (\<lambda>nd. nd\<lparr>i_dirent_count := i_dirent_count nd + 1\<rparr>)) p ?n (of_nat c) nm FT_REG_FILE =
        upd_inode s2 p (\<lambda>nd. add_entry nd d)"
      using None n2 p(1) len by (simp add: put_dirent_def upd_inode_def add_entry_def d_def entry_slot_def s2_def)
    then show ?thesis using n None by (simp add: t_def swap)
  qed
  show thesis by (rule that [OF al _ ne d_def]) (use res in \<open>auto simp: t_def\<close>)
qed


lemma ram_lookup_entries:
  assumes "get_ino s par = Some p" and "node_ok (inodes s ! p)" and "length nm \<le> MAX_NAME"
  shows "ram_lookup s par nm = Some (if par = 0 \<and> nm = [47] then Inr 0
    else case find_index (has_name nm) (entries (inodes s ! p)) of
      Some i \<Rightarrow> Inr (de_ino (i_dirents (inodes s ! p) ! i)) | None \<Rightarrow> Inl ''ramfs: not found'')"
  using assms by (simp add: ram_lookup_def find_dirent_find entries_def)

lemma has_name_used: "\<not> de_used x \<Longrightarrow> \<not> has_name nm x"
  by (simp add: has_name_def)

text \<open>The directory entry a create stores, and what it leaves alone.\<close>

lemma add_entry_lookup:
  assumes g: "get_ino s par = Some p" "get_ino s' par = Some p" and nd: "inodes s' ! p = add_entry (inodes s ! p) d"
    and ok: "node_ok (inodes s ! p)" "length (de_name d) = MAX_NAME" and room: "free_slot (inodes s ! p) = None \<Longrightarrow> i_dirent_count (inodes s ! p) < MAX_DIRENTS"
    and d: "\<And>x. has_name x d \<longleftrightarrow> x = nm" and nm: "length nm \<le> MAX_NAME"
  shows "ram_lookup s par nm = Some (Inl ''ramfs: not found'') \<Longrightarrow> ram_lookup s' par nm = Some (Inr (de_ino d))"
    and "length nm' \<le> MAX_NAME \<Longrightarrow> nm' \<noteq> nm \<Longrightarrow> ram_lookup s' par nm' = ram_lookup s par nm'"
proof -
  have ok': "node_ok (inodes s' ! p)" unfolding nd by (rule add_entry_ok [OF ok(1) room ok(2)])
  note L = ram_lookup_entries [OF g(1) ok(1)] ram_lookup_entries [OF g(2) ok']
  show "ram_lookup s' par nm = Some (Inr (de_ino d))" if "ram_lookup s par nm = Some (Inl ''ramfs: not found'')"
  proof -
    have nf: "find_index (has_name nm) (entries (inodes s ! p)) = None" "\<not> (par = 0 \<and> nm = [47])"
      using that L(1) [OF nm] by (auto split: if_splits option.splits)
    have "has_name nm d" using d by blast
    from add_entry_find(2) [where q = "has_name nm", OF ok(1) room has_name_used this nf(1)]
    show ?thesis using L(2) [OF nm] nf(2) by (auto simp: nd)
  qed
  show "ram_lookup s' par nm' = ram_lookup s par nm'" if n': "length nm' \<le> MAX_NAME" "nm' \<noteq> nm"
  proof -
    have nh: "\<not> has_name nm' d" using d n'(2) by blast
    note eq = add_entry_find(1) [where q = "has_name nm'", OF ok(1) room has_name_used nh]
    have "i_dirents (inodes s' ! p) ! i = i_dirents (inodes s ! p) ! i"
      if f: "find_index (has_name nm') (entries (inodes s ! p)) = Some i" for i
    proof -
      have i: "i < length (entries (inodes s ! p))" "has_name nm' (entries (inodes s ! p) ! i)"
        using find_index_Some [OF f] by simp_all
      have "free_slot (inodes s ! p) \<noteq> Some i"
        using i find_index_Some(2) [of "\<lambda>d. \<not> de_used d" "entries (inodes s ! p)" i]
        by (auto simp: free_slot_def entries_def has_name_def)
      moreover have "i < i_dirent_count (inodes s ! p)" using i by (simp add: entries_def)
      ultimately show ?thesis by (auto simp: nd add_entry_def split: option.splits)
    qed
    then show ?thesis unfolding L(1) [OF n'(1)] L(2) [OF n'(1)] using eq by (auto simp: nd split: option.splits)
  qed
qed

lemma ram_create_inv:
  assumes cr: "ram_create e s par nm mode = Some (Inr ino, s')" and g: "get_ino s par = Some p" and inv: "ram_inv s F"
    and nm: "length nm \<le> MAX_NAME"
  shows "ram_inv s' F" and "get_ino s ino = None" and "get_ino s' par = Some p"
    and "\<exists>c. get_ino s' ino = Some c \<and> i_size (inodes s' ! c) = 0"
    and "ram_lookup s par nm = Some (Inl ''ramfs: not found'') \<Longrightarrow> ram_lookup s' par nm = Some (Inr ino)"
    and "length nm' \<le> MAX_NAME \<Longrightarrow> nm' \<noteq> nm \<Longrightarrow> ram_lookup s' par nm' = ram_lookup s par nm'"
proof -
  obtain c s1 d m where al: "alloc_inode s = (Some c, s1)" and ino: "ino = of_nat c" and ne: "c \<noteq> p"
    and d: "d = dirent_set (i_dirents (inodes s ! p) ! entry_slot (inodes s ! p)) (of_nat c) nm FT_REG_FILE"
    and room0: "free_slot (inodes s ! p) = None \<longrightarrow> i_dirent_count (inodes s ! p) < MAX_DIRENTS"
    and s': "s' = upd_inode (upd_inode s1 c (\<lambda>nd. nd\<lparr>i_mode := m, i_nlink := 1\<rparr>)) p (\<lambda>nd. add_entry nd d)"
    by (rule ram_create_form [OF cr g inv])
  have room: "free_slot (inodes s ! p) = None \<Longrightarrow> i_dirent_count (inodes s ! p) < MAX_DIRENTS" using room0 by blast
  note fr = alloc_inode_fresh [OF al inv]
  have p: "p < MAX_INODES" "i_used (inodes s ! p)" "p = unat par" using g by (auto simp: get_ino_Some)
  have len: "length (inodes s1) = MAX_INODES" by (rule ram_invD(2) [OF fr(4)])
  have n: "inodes s' ! p = add_entry (inodes s ! p) d" "inodes s' ! c = (inodes s1 ! c)\<lparr>i_mode := m, i_nlink := 1\<rparr>"
    "j \<noteq> p \<Longrightarrow> j \<noteq> c \<Longrightarrow> inodes s' ! j = inodes s ! j" for j
    using ne len p fr(1,5) by (simp_all add: s')
  have okp: "node_ok (inodes s ! p)" by (rule ram_invD(3) [OF inv p(1)])
  have es: "entry_slot (inodes s ! p) < length (i_dirents (inodes s ! p))"
    using room okp find_index_Some(1) [of "\<lambda>d. \<not> de_used d" "entries (inodes s ! p)"]
    by (auto simp: entry_slot_def node_ok_def free_slot_def entries_def split: option.splits)
  then have "length (de_name (i_dirents (inodes s ! p) ! entry_slot (inodes s ! p))) = MAX_NAME"
    using okp by (simp add: node_ok_def)
  note ds = dirent_set_name [OF this nm, where ino = "of_nat c" and t = FT_REG_FILE, folded d]
  have un: "unat ino = c" using fr(1) by (simp add: ino MAX_INODES_def unat_of_nat_lt)
  have ae: "i_used (add_entry nd d) = i_used nd" "i_blocks (add_entry nd d) = i_blocks nd" "i_xattr (add_entry nd d) = i_xattr nd" for nd
    by (simp_all add: add_entry_def split: option.splits)
  show "get_ino s ino = None" using fr(2) un by (simp add: get_ino_def)
  show g': "get_ino s' par = Some p" using p n(1) ae by (simp add: get_ino_Some)
  show "\<exists>c. get_ino s' ino = Some c \<and> i_size (inodes s' ! c) = 0" using un fr(1,3,9) n(2) by (simp add: get_ino_Some)
  show "ram_inv s' F"
  proof (rule ram_inv_nodes [OF fr(4)])
    show "node_ok (inodes s' ! j)" if j: "j < MAX_INODES" for j
    proof -
      consider "j = p" | "j = c" | "j \<noteq> p" "j \<noteq> c" by blast
      then show ?thesis
      proof cases
        case 1
        show ?thesis unfolding 1 n(1) by (rule add_entry_ok [OF okp room ds(3)])
      next
        case 2
        show ?thesis using ram_invD(3) [OF fr(4) fr(1)] unfolding 2 n(2) by (simp add: node_ok_def)
      next
        case 3
        then show ?thesis using ram_invD(3) [OF inv j] n(3) by simp
      qed
    qed
    have eq: "i_used (inodes s' ! j) = i_used (inodes s1 ! j) \<and> page_of s' j b = page_of s1 j b" for j b
      using n fr(5) [of j] ne ae by (cases "j = p"; cases "j = c") (simp_all add: page_of_def)
    show "owns s1 j b \<and> page_of s' j b = page_of s1 j b" if "owns s' j b" for j b
      using that eq [of j b] by (simp add: owns_def)
  qed (simp_all add: s' len)
  note al2 = add_entry_lookup [OF g g' n(1) okp ds(3) room ds(1) nm]
  show "ram_lookup s par nm = Some (Inl ''ramfs: not found'') \<Longrightarrow> ram_lookup s' par nm = Some (Inr ino)"
    using al2(1) ds(2) ino by simp
  show "length nm' \<le> MAX_NAME \<Longrightarrow> nm' \<noteq> nm \<Longrightarrow> ram_lookup s' par nm' = ram_lookup s par nm'" by (rule al2(2))
qed


section \<open>Freeing the blocks of a file\<close>

definition zap :: "ram_inode \<Rightarrow> nat set \<Rightarrow> ram_inode" where
  "zap nd B = nd\<lparr>i_blocks := map (\<lambda>b. if b \<in> B then 0 else i_blocks nd ! b) [0..<length (i_blocks nd)]\<rparr>"

lemma zap_nth: "b < length (i_blocks nd) \<Longrightarrow> i_blocks (zap nd B) ! b = (if b \<in> B then 0 else i_blocks nd ! b)"
  by (simp add: zap_def)

lemma zap_same [simp]:
  "length (i_blocks (zap nd B)) = length (i_blocks nd)" "i_used (zap nd B) = i_used nd" "i_xattr (zap nd B) = i_xattr nd"
  "i_block_count (zap nd B) = i_block_count nd"
  by (simp_all add: zap_def)

lemma zap_ok: "node_ok nd \<Longrightarrow> node_ok (zap nd B)"
  by (auto simp: node_ok_def zap_def)

lemma zap_empty [simp]: "zap nd {} = nd"
  by (simp add: zap_def map_nth)

lemma zap_step: "b < length (i_blocks nd) \<Longrightarrow> zap (nd\<lparr>i_blocks := (i_blocks nd)[b := 0]\<rparr>) B = zap nd (insert b B)"
  by (auto simp: zap_def nth_list_update)

lemma zap_none: "b < length (i_blocks nd) \<Longrightarrow> i_blocks nd ! b = 0 \<Longrightarrow> zap nd B = zap nd (insert b B)"
  by (auto simp: zap_def)

lemma free_page_inv:
  assumes inv: "ram_inv s F" and ow: "owns s i b" and b: "b < MAX_BLOCKS_PER_INODE" and fr: "free e (pages s) (page_of s i b) 0 = Some pg"
  defines "s' \<equiv> upd_inode (s\<lparr>pages := pg\<rparr>) i (\<lambda>nd. nd\<lparr>i_blocks := (i_blocks nd)[b := 0]\<rparr>)"
  shows "ram_inv s' (F \<union> span (page_of s i b) 0)"
proof -
  let ?p = "page_of s i b"
  note o = ram_invD(4,5) [OF inv ow]
  have i: "i < MAX_INODES" "length (inodes s) = MAX_INODES" using ow ram_invD(2) [OF inv] by (auto simp: owns_def)
  have bl: "length (i_blocks (inodes s ! i)) = MAX_BLOCKS_PER_INODE" using ram_invD(3) [OF inv i(1)] by (simp add: node_ok_def)
  obtain pg' where "free e (pages s) ?p 0 = Some pg'" "alloc_inv pg' (F \<union> span ?p 0)"
    using free_data [OF ram_invD(1) [OF inv] o] by blast
  then have ai: "alloc_inv (pages s') (F \<union> span ?p 0)" using fr by (simp add: s'_def)
  have n: "inodes s' ! i = (inodes s ! i)\<lparr>i_blocks := (i_blocks (inodes s ! i))[b := 0]\<rparr>" "j \<noteq> i \<Longrightarrow> inodes s' ! j = inodes s ! j" for j
    using i by (simp_all add: s'_def)
  have po: "page_of s' j c = (if j = i \<and> c = b then 0 else page_of s j c)" for j c
    using n bl b by (cases "j = i") (auto simp: page_of_def)
  have us: "i_used (inodes s' ! j) = i_used (inodes s ! j)" for j using n by (cases "j = i") auto
  have ow': "owns s' j c \<longleftrightarrow> owns s j c \<and> (j, c) \<noteq> (i, b)" for j c by (auto simp: owns_def po us)
  have "inodes s' ! i = zap (inodes s ! i) {b}" using zap_step [of b "inodes s ! i" "{}"] n(1) bl b by simp
  then have "node_ok (inodes s' ! j)" if "j < MAX_INODES" for j
    using ram_invD(3) [OF inv that] n(2) zap_ok by (cases "j = i") auto
  moreover have "allocated (pages s') (page_of s' j c) 0 \<and> span (page_of s' j c) 0 \<inter> (F \<union> span ?p 0) = {}" if "owns s' j c" for j c
  proof -
    have ojc: "owns s j c" "(j, c) \<noteq> (i, b)" "page_of s' j c = page_of s j c" using that ow' po by auto
    then have ne: "page_of s j c \<noteq> ?p" using ram_invD(6) [OF inv ojc(1) ow] by auto
    have "allocated pg (page_of s j c) 0"
      by (rule free_keeps [OF ram_invD(1) [OF inv] o fr ram_invD(4) [OF inv ojc(1)] ne])
    then show ?thesis
      using ojc(3) ram_invD(5) [OF inv ojc(1)] owned_disjoint [OF inv ojc(1) ow ojc(2)] by (auto simp: s'_def)
  qed
  moreover have "j = j' \<and> c = c'" if "owns s' j c" "owns s' j' c'" "page_of s' j c = page_of s' j' c'" for j c j' c'
    using that ow' po ram_invD(6) [OF inv, of j c j' c'] by (auto split: if_splits)
  ultimately show ?thesis unfolding ram_inv_def using ai i by (simp add: s'_def)
qed

definition freed_by :: "ramfs \<Rightarrow> nat \<Rightarrow> nat set \<Rightarrow> nat set" where
  "freed_by s i B = (\<Union>b \<in> {b \<in> B. page_of s i b \<noteq> 0}. span (page_of s i b) 0)"

lemma free_blocks_spec:
  assumes "ram_inv s F" and "i < MAX_INODES" and "i_used (inodes s ! i)" and "\<forall>b \<in> set bs. b < MAX_BLOCKS_PER_INODE"
  shows "\<exists>s'. free_blocks_loop e s i bs = Some s' \<and> ram_inv s' (F \<union> freed_by s i (set bs)) \<and>
    inodes s' = (inodes s)[i := zap (inodes s ! i) (set bs)] \<and> mem s' = mem s \<and> fs_vnodes s' = fs_vnodes s"
  using assms
proof (induction bs arbitrary: s F)
  case Nil
  then show ?case by (simp add: freed_by_def)
next
  case (Cons b bs)
  have b: "b < MAX_BLOCKS_PER_INODE" "\<forall>b \<in> set bs. b < MAX_BLOCKS_PER_INODE" using Cons.prems by simp_all
  have len: "length (inodes s) = MAX_INODES" "length (i_blocks (inodes s ! i)) = MAX_BLOCKS_PER_INODE"
    using ram_invD(2,3) [OF Cons.prems(1)] Cons.prems(2) by (auto simp: node_ok_def)
  have ag: "arr_get (i_blocks (inodes s ! i)) b = Some (page_of s i b)" using b len by (simp add: page_of_def)
  show ?case
  proof (cases "page_of s i b = 0")
    case True
    have eq: "freed_by s i (set (b # bs)) = freed_by s i (set bs)" using True by (auto simp: freed_by_def)
    have zp: "zap (inodes s ! i) (set (b # bs)) = zap (inodes s ! i) (set bs)"
      using zap_none [of b "inodes s ! i" "set bs"] True b len by (simp add: page_of_def)
    show ?thesis using Cons.IH [OF Cons.prems(1-3) b(2)] True ag by (simp only: eq zp) simp
  next
    case False
    then have ow: "owns s i b" using Cons.prems b by (simp add: owns_def)
    obtain pg where fr: "free e (pages s) (page_of s i b) 0 = Some pg"
      using free_data [OF ram_invD(1) [OF Cons.prems(1)] ram_invD(4,5) [OF Cons.prems(1) ow]] by blast
    define s1 where "s1 = upd_inode (s\<lparr>pages := pg\<rparr>) i (\<lambda>nd. nd\<lparr>i_blocks := (i_blocks nd)[b := 0]\<rparr>)"
    have i1: "ram_inv s1 (F \<union> span (page_of s i b) 0)" unfolding s1_def by (rule free_page_inv [OF Cons.prems(1) ow b(1) fr])
    have n1: "inodes s1 = (inodes s)[i := (inodes s ! i)\<lparr>i_blocks := (i_blocks (inodes s ! i))[b := 0]\<rparr>]"
      "mem s1 = mem s" "fs_vnodes s1 = fs_vnodes s" by (simp_all add: s1_def) (simp add: upd_inode_def)
    have us1: "i_used (inodes s1 ! i)" using n1 Cons.prems len by simp
    have po: "c \<noteq> b \<Longrightarrow> page_of s1 i c = page_of s i c" "page_of s1 i b = 0" for c
      using n1 Cons.prems(2) len b by (simp_all add: page_of_def)
    have fb: "F \<union> span (page_of s i b) 0 \<union> freed_by s1 i (set bs) = F \<union> freed_by s i (set (b # bs))"
    proof -
      have "{c \<in> set bs. page_of s1 i c \<noteq> 0} = {c \<in> set bs. page_of s i c \<noteq> 0} - {b}" using po by force
      then have "freed_by s1 i (set bs) = (\<Union>c \<in> {c \<in> set bs. page_of s i c \<noteq> 0} - {b}. span (page_of s i c) 0)"
        using po(1) by (simp add: freed_by_def)
      then show ?thesis using False by (auto simp: freed_by_def)
    qed
    have zp: "(inodes s1)[i := zap (inodes s1 ! i) (set bs)] = (inodes s)[i := zap (inodes s ! i) (set (b # bs))]"
      using n1 Cons.prems(2) len b zap_step [of b "inodes s ! i" "set bs"] by simp
    have st: "free_blocks_loop e s i (b # bs) = free_blocks_loop e s1 i bs" using False fr ag by (simp add: s1_def)
    show ?thesis using Cons.IH [OF i1 Cons.prems(2) us1 b(2)] unfolding st fb zp n1(2,3) .
  qed
qed


lemma drop_inode_spec:
  assumes inv: "ram_inv s F" and i: "i < MAX_INODES" "i_used (inodes s ! i)" and bc: "i_block_count (inodes s ! i) \<le> MAX_BLOCKS_PER_INODE"
  shows "\<exists>s'. drop_inode e s i = Some s' \<and> ram_inv s' (F \<union> freed_by s i {..<MAX_BLOCKS_PER_INODE}) \<and>
    \<not> i_used (inodes s' ! i) \<and> (\<forall>j. j \<noteq> i \<longrightarrow> inodes s' ! j = inodes s ! j) \<and> mem s' = mem s"
proof -
  let ?n = "i_block_count (inodes s ! i)"
  have len: "length (inodes s) = MAX_INODES" "node_ok (inodes s ! i)" using ram_invD(2,3) [OF inv] i by auto
  obtain s1 where s1: "free_blocks_loop e s i [0..<?n] = Some s1" "ram_inv s1 (F \<union> freed_by s i (set [0..<?n]))"
    "inodes s1 = (inodes s)[i := zap (inodes s ! i) (set [0..<?n])]" "mem s1 = mem s"
  proof -
    have "\<forall>b \<in> set [0..<?n]. b < MAX_BLOCKS_PER_INODE" using bc by auto
    from free_blocks_spec [OF inv i this] that show thesis by blast
  qed
  have fb: "freed_by s i (set [0..<?n]) = freed_by s i {..<MAX_BLOCKS_PER_INODE}"
  proof -
    have "page_of s i b = 0" if "b < MAX_BLOCKS_PER_INODE" "?n \<le> b" for b using len(2) that by (simp add: node_ok_def page_of_def)
    then have "{b \<in> set [0..<?n]. page_of s i b \<noteq> 0} = {b \<in> {..<MAX_BLOCKS_PER_INODE}. page_of s i b \<noteq> 0}"
      using bc by (auto simp: not_less [symmetric])
    then show ?thesis by (simp add: freed_by_def)
  qed
  define s' where "s' = upd_inode (upd_inode s1 i (\<lambda>nd. nd\<lparr>i_block_count := 0\<rparr>)) i (\<lambda>nd. nd\<lparr>i_used := False\<rparr>)"
  have n1: "inodes s1 ! i = zap (inodes s ! i) (set [0..<?n])" "j \<noteq> i \<Longrightarrow> inodes s1 ! j = inodes s ! j" for j
    using i len by (simp_all add: s1(3))
  have zb: "i_blocks (inodes s1 ! i) ! b = 0" if "b < MAX_BLOCKS_PER_INODE" for b
  proof -
    have "length (i_blocks (inodes s ! i)) = MAX_BLOCKS_PER_INODE" "?n \<le> b \<Longrightarrow> i_blocks (inodes s ! i) ! b = 0"
      using len(2) that by (simp_all add: node_ok_def)
    then show ?thesis using that by (auto simp: n1(1) zap_nth)
  qed
  have n': "inodes s' ! i = (inodes s1 ! i)\<lparr>i_block_count := 0, i_used := False\<rparr>" "j \<noteq> i \<Longrightarrow> inodes s' ! j = inodes s ! j" for j
    using i len n1 by (simp_all add: s'_def s1(3))
  have "ram_inv s' (F \<union> freed_by s i {..<MAX_BLOCKS_PER_INODE})"
  proof (rule ram_inv_nodes [OF s1(2) [unfolded fb]])
    show "node_ok (inodes s' ! j)" if "j < MAX_INODES" for j
      using ram_invD(3) [OF s1(2) that] n' n1(2) zb by (cases "j = i") (auto simp: node_ok_def)
    show "owns s1 j b \<and> page_of s' j b = page_of s1 j b" if "owns s' j b" for j b
      using that n' n1(2) [of j] by (cases "j = i") (auto simp: owns_def page_of_def)
  qed (use len in \<open>simp_all add: s'_def s1(3)\<close>)
  moreover have "drop_inode e s i = Some s'" using s1(1) by (simp add: drop_inode_def free_inode_blocks_def s'_def)
  moreover have "\<not> i_used (inodes s' ! i)" "mem s' = mem s" using n' s1(4) by (simp_all add: s'_def)
  ultimately show ?thesis using n'(2) by blast
qed

lemma ram_remove_spec:
  assumes inv: "ram_inv s F" and g: "get_ino s par = Some p" and nm: "length nm \<le> MAX_NAME" "nm \<noteq> [47]"
    and lk: "ram_lookup s par nm = Some (Inr ino)" and t: "get_ino s ino = Some t" "t \<noteq> p"
    and bc: "i_block_count (inodes s ! t) \<le> MAX_BLOCKS_PER_INODE"
  shows "\<exists>s'. ram_remove e s par nm = Some (Inr (), s') \<and> ram_inv s' (F \<union> freed_by s t {..<MAX_BLOCKS_PER_INODE}) \<and>
    get_ino s' ino = None \<and> (\<forall>j k. j \<noteq> t \<longrightarrow> content s' j k = content s j k) \<and>
    (\<forall>j. j \<noteq> t \<longrightarrow> i_used (inodes s' ! j) = i_used (inodes s ! j) \<and> i_size (inodes s' ! j) = i_size (inodes s ! j))"
proof -
  have p: "p < MAX_INODES" "i_used (inodes s ! p)" and tt: "t < MAX_INODES" "i_used (inodes s ! t)" "t = unat ino"
    using g t by (auto simp: get_ino_Some)
  have len: "length (inodes s) = MAX_INODES" by (rule ram_invD(2) [OF inv])
  have okp: "node_ok (inodes s ! p)" by (rule ram_invD(3) [OF inv p(1)])
  obtain i where f: "find_index (has_name nm) (entries (inodes s ! p)) = Some i" and ino: "de_ino (i_dirents (inodes s ! p) ! i) = ino"
    using lk nm ram_lookup_entries [OF g okp nm(1)] by (auto split: option.splits)
  define s1 where "s1 = clear_dirent s p i"
  have il: "i < length (i_dirents (inodes s ! p))" using find_index_Some(1) [OF f] by (simp add: entries_def)
  have n1: "inodes s1 ! p = (inodes s ! p)\<lparr>i_dirents := (i_dirents (inodes s ! p))[i := (i_dirents (inodes s ! p) ! i)\<lparr>de_used := False\<rparr>]\<rparr>"
    "j \<noteq> p \<Longrightarrow> inodes s1 ! j = inodes s ! j" for j
    using p len by (simp_all add: s1_def clear_dirent_def)
  have po1: "page_of s1 j b = page_of s j b" "i_used (inodes s1 ! j) = i_used (inodes s ! j)" "i_size (inodes s1 ! j) = i_size (inodes s ! j)" for j b
    using n1 by (cases "j = p"; simp add: page_of_def)+
  have inv1: "ram_inv s1 F"
  proof (rule ram_inv_nodes [OF inv])
    show "node_ok (inodes s1 ! j)" if "j < MAX_INODES" for j
      using ram_invD(3) [OF inv that] n1 il
      by (cases "j = p") (auto simp: node_ok_def dest!: set_update_subset_insert [THEN subsetD])
    show "owns s j b \<and> page_of s1 j b = page_of s j b" if "owns s1 j b" for j b using that po1 by (simp add: owns_def)
  qed (use len in \<open>simp_all add: s1_def clear_dirent_def\<close>)
  have us1: "i_used (inodes s1 ! t)" "i_block_count (inodes s1 ! t) \<le> MAX_BLOCKS_PER_INODE" using tt bc t(2) n1(2) by simp_all
  obtain s' where s': "drop_inode e s1 t = Some s'" "ram_inv s' (F \<union> freed_by s1 t {..<MAX_BLOCKS_PER_INODE})"
    "\<not> i_used (inodes s' ! t)" "\<forall>j. j \<noteq> t \<longrightarrow> inodes s' ! j = inodes s1 ! j" "mem s' = mem s1"
    using drop_inode_spec [OF inv1 tt(1) us1] by blast
  have "find_dirent (inodes s ! p) nm = Some (Some i)" using f by (simp add: find_dirent_find [OF okp nm(1)] entries_def)
  moreover have "get_ino s1 ino = Some t" using tt us1 by (simp add: get_ino_Some)
  ultimately have "ram_remove e s par nm = Some (Inr (), s')" using g s'(1) ino by (simp add: ram_remove_def s1_def Let_def)
  moreover have "freed_by s1 t B = freed_by s t B" for B by (simp add: freed_by_def po1)
  moreover have "get_ino s' ino = None" using s'(3) tt by (simp add: get_ino_def)
  moreover have "content s' j k = content s j k" if "j \<noteq> t" for j k
  proof -
    have "page_of s' j (k div 4096) = page_of s1 j (k div 4096)" using s'(4) that by (simp add: page_of_def)
    then have "page_of s' j (k div 4096) = page_of s j (k div 4096)" by (simp add: po1)
    moreover have "mem s1 = mem s" by (simp add: s1_def clear_dirent_def)
    ultimately show ?thesis using s'(5) by (simp add: content_def Let_def)
  qed
  ultimately show ?thesis using s'(2,4) po1 by auto
qed

end
