(* ===== verification/Ramfs_Props.thy ===== *)
theory Ramfs_Props
  imports Ramfs_Dirs Buddy_Props
begin

text \<open>
  The properties of the in-memory file system of \<^verbatim>\<open>src/src/vfs_core/ramfs.rs\<close>, with a concrete file system on the
  allocator state \<open>demo\<close> for their witnesses.
\<close>

unbundle bit_operations_syntax

section \<open>A small file system\<close>

definition demo_fs :: ramfs where "demo_fs = snd (alloc_inode (ramfs_new demo))"

lemma ramfs_new_inv:
  assumes "alloc_inv p F"
  shows "ram_inv (ramfs_new p) F"
proof -
  have e: "inodes (ramfs_new p) ! i = ram_inode_empty" if "i < MAX_INODES" for i using that by (simp add: ramfs_new_def)
  have "node_ok ram_inode_empty"
    by (auto simp: node_ok_def ram_inode_empty_def ram_dirent_empty_def MAX_DIRENTS_def)
  moreover have "\<not> owns (ramfs_new p) i b" for i b using e [of i] by (auto simp: owns_def ram_inode_empty_def)
  ultimately show ?thesis using assms e by (simp add: ram_inv_def) (simp add: ramfs_new_def)
qed

lemma demo_fs_alloc: "alloc_inode (ramfs_new demo) = (Some 0, demo_fs)"
proof -
  have "find_index (\<lambda>nd. \<not> i_used nd) (inodes (ramfs_new demo)) = Some 0"
    by (rule find_index_here) (simp_all add: ramfs_new_def ram_inode_empty_def MAX_INODES_def)
  then show ?thesis by (simp add: demo_fs_def alloc_inode_def)
qed

lemma demo_fs_inv: "ram_inv demo_fs {0x100000 ..< 0x104000}"
  by (rule alloc_inode_fresh(4) [OF demo_fs_alloc ramfs_new_inv [OF demo_alloc_inv]])

lemma demo_fs_root: "get_ino demo_fs 0 = Some 0"
  using alloc_inode_fresh(3) [OF demo_fs_alloc ramfs_new_inv [OF demo_alloc_inv]] by (simp add: get_ino_Some MAX_INODES_def)

lemma demo_fs_simps: "inodes demo_fs ! 0 = ram_inode_empty\<lparr>i_used := True, i_nlink := 1\<rparr>" "pages demo_fs = demo" "length (inodes demo_fs) = 256"
  "j \<noteq> 0 \<Longrightarrow> j < 256 \<Longrightarrow> inodes demo_fs ! j = ram_inode_empty"
proof -
  have "find_index (\<lambda>nd. \<not> i_used nd) (inodes (ramfs_new demo)) = Some 0"
    by (rule find_index_here) (simp_all add: ramfs_new_def ram_inode_empty_def MAX_INODES_def)
  then show "inodes demo_fs ! 0 = ram_inode_empty\<lparr>i_used := True, i_nlink := 1\<rparr>" "pages demo_fs = demo" "length (inodes demo_fs) = 256"
  "j \<noteq> 0 \<Longrightarrow> j < 256 \<Longrightarrow> inodes demo_fs ! j = ram_inode_empty"
    by (simp_all add: demo_fs_def alloc_inode_def upd_inode_def ramfs_new_def MAX_INODES_def) (simp add: ram_inode_empty_def)
qed

lemma demo_alloc0: "fst (alloc demo 0) = Some 0x100000"
  by (simp add: alloc_def alloc_nolock_def demo_lists MAX_ORDER_def upt_rec is_reserved_def take_block_def Let_def)
     (simp add: demo_defs)

lemma demo_fs_write: "fst (ram_write demo_fs 0 10 [104, 105]) = Inr 2"
proof -
  obtain pg where al: "alloc demo 0 = (Some 0x100000, pg)" using demo_alloc0 by (metis prod.collapse)
  have z: "i_size (inodes demo_fs ! 0) = 0" by (simp add: demo_fs_simps ram_inode_empty_def)
  show ?thesis
    using demo_fs_root z al
    apply (simp add: ram_write_def Let_def)
    apply (subst write_loop.simps)
    apply (simp add: ensure_block_def upd_inode_def demo_fs_simps ram_inode_empty_def MAX_BLOCKS_PER_INODE_def RAMFS_BLOCK_def Let_def)
    apply (simp add: write_loop.simps)
    done
qed

section \<open>Properties\<close>

text \<open>C23: What is written is what is read: after a successful \<^verbatim>\<open>write\<close> of \<open>buf\<close> at offset \<open>off\<close>, reading
  \<open>length buf\<close> bytes at \<open>off\<close> returns \<open>buf\<close>, whatever blocks the write crosses or has to allocate.\<close>

theorem write_then_read:
  assumes "ram_inv s F" and "get_ino s ino \<noteq> None" and "unat off + length buf < 2 ^ 64"
    and "ram_write s ino off buf = (Inr n, s')"
  shows "n = length buf \<and> ram_read s' ino off n = Some (Inr buf)"
  by (rule ram_write_then_read [OF assms])

theorem write_then_read_witness:
  "(2::nat) = length [104, 105 :: u8] \<and> ram_read (snd (ram_write demo_fs 0 10 [104, 105])) 0 10 2 = Some (Inr [104, 105])"
proof (rule write_then_read [OF demo_fs_inv])
  show "ram_write demo_fs 0 10 [104, 105] = (Inr 2, snd (ram_write demo_fs 0 10 [104, 105]))"
    using demo_fs_write by (metis prod.collapse)
qed (simp_all add: demo_fs_root)

text \<open>C24: A \<^verbatim>\<open>write\<close>, also one that fails for lack of memory, keeps the file system well formed and changes
  no byte of any other file and no byte of its own file outside the range written.\<close>

theorem write_is_isolated:
  assumes "ram_inv s F" and "get_ino s ino = Some i" and "unat off + length buf < 2 ^ 64"
    and "ram_write s ino off buf = (r, s')"
  shows "\<exists>F'. ram_inv s' F' \<and> get_ino s' ino = Some i \<and>
    same_content s s' (\<lambda>j k. j = i \<and> unat off \<le> k \<and> k < unat off + length buf) \<and>
    (\<forall>j. j \<noteq> i \<longrightarrow> inodes s' ! j = inodes s ! j)"
  using ram_write_spec [OF assms(4,1-3)] by blast

theorem write_is_isolated_witness:
  "\<exists>F'. ram_inv (snd (ram_write demo_fs 0 10 [104, 105])) F' \<and> get_ino (snd (ram_write demo_fs 0 10 [104, 105])) 0 = Some 0 \<and>
    same_content demo_fs (snd (ram_write demo_fs 0 10 [104, 105])) (\<lambda>j k. j = 0 \<and> unat (10 :: u64) \<le> k \<and> k < unat (10 :: u64) + length [104, 105 :: u8]) \<and>
    (\<forall>j. j \<noteq> 0 \<longrightarrow> inodes (snd (ram_write demo_fs 0 10 [104, 105])) ! j = inodes demo_fs ! j)"
  by (rule write_is_isolated [OF demo_fs_inv demo_fs_root, where r = "fst (ram_write demo_fs 0 10 [104, 105])"]) simp_all

lemma demo_fs_create: "ram_create demo_env demo_fs 0 [97] 0x1A4 =
  Some (Inr 1, snd (the (ram_create demo_env demo_fs 0 [97] 0x1A4)))"
proof -
  have "find_index (\<lambda>nd. \<not> i_used nd) (inodes demo_fs) = Some 1"
  proof (rule find_index_here)
    show "\<not> i_used (inodes demo_fs ! 1)" by (subst demo_fs_simps) (simp_all add: ram_inode_empty_def)
  qed (auto simp: demo_fs_simps)
  then show ?thesis
    using demo_fs_root
    by (simp add: ram_create_def alloc_inode_def Let_def)
       (simp add: upd_inode_def demo_fs_simps free_slot_def ram_inode_empty_def MAX_DIRENTS_def Let_def)
qed

text \<open>C25: Creating a file under a name the directory does not have yields a fresh inode number of size 0 that the
  name now resolves to, leaves every other name of that directory as it was, and keeps the file system well formed.\<close>

theorem create_then_lookup:
  assumes "ram_inv s F" and "length nm \<le> 255" and "ram_lookup s par nm = Some (Inl ''ramfs: not found'')"
    and "ram_create e s par nm mode = Some (Inr ino, s')"
  shows "ram_inv s' F \<and> get_ino s ino = None \<and> ram_lookup s' par nm = Some (Inr ino) \<and>
    (\<exists>c. get_ino s' ino = Some c \<and> i_size (inodes s' ! c) = 0) \<and>
    (\<forall>nm'. length nm' \<le> 255 \<and> nm' \<noteq> nm \<longrightarrow> ram_lookup s' par nm' = ram_lookup s par nm')"
proof -
  obtain p where g: "get_ino s par = Some p" using assms(4) by (auto simp: ram_create_def split: option.splits)
  note c = ram_create_inv [OF assms(4) g assms(1), unfolded MAX_NAME_def, OF assms(2)]
  show ?thesis using c(1,2,4) c(5) [OF assms(3)] c(6) by blast
qed

theorem create_then_lookup_witness:
  "ram_inv (snd (the (ram_create demo_env demo_fs 0 [97] 0x1A4))) {0x100000 ..< 0x104000} \<and> get_ino demo_fs 1 = None \<and>
   ram_lookup (snd (the (ram_create demo_env demo_fs 0 [97] 0x1A4))) 0 [97] = Some (Inr 1)"
proof -
  have "ram_lookup demo_fs 0 [97] = Some (Inl ''ramfs: not found'')"
    by (simp add: ram_lookup_def demo_fs_root find_dirent_def demo_fs_simps ram_inode_empty_def)
  from create_then_lookup [OF demo_fs_inv _ this demo_fs_create] show ?thesis by simp
qed



definition demo_file :: ramfs where
  "demo_file = snd (the (ram_create demo_env demo_fs 0 [97] 0x1A4))"

lemma demo_file_facts:
  "ram_inv demo_file {0x100000 ..< 0x104000}" "get_ino demo_file 0 = Some 0" "get_ino demo_file 1 = Some 1"
  "ram_lookup demo_file 0 [97] = Some (Inr 1)" "i_block_count (inodes demo_file ! 1) = 0"
proof -
  have nf: "ram_lookup demo_fs 0 [97] = Some (Inl ''ramfs: not found'')"
    by (simp add: ram_lookup_def demo_fs_root find_dirent_def demo_fs_simps ram_inode_empty_def)
  have cr: "ram_create demo_env demo_fs 0 [97] 0x1A4 = Some (Inr 1, demo_file)" using demo_fs_create by (simp add: demo_file_def)
  have "length [97 :: u8] \<le> MAX_NAME" by (simp add: MAX_NAME_def)
  note c = ram_create_inv [OF cr demo_fs_root demo_fs_inv this]
  show "ram_inv demo_file {0x100000 ..< 0x104000}" "get_ino demo_file 0 = Some 0" by (rule c)+
  show "get_ino demo_file 1 = Some 1" using c(4) by (auto simp: get_ino_Some)
  show "ram_lookup demo_file 0 [97] = Some (Inr 1)" by (rule c(5) [OF nf])
  obtain c s1 d m where al: "alloc_inode demo_fs = (Some c, s1)" and c1: "1 = (of_nat c :: u64)"
    and df: "demo_file = upd_inode (upd_inode s1 c (\<lambda>nd. nd\<lparr>i_mode := m, i_nlink := 1\<rparr>)) 0 (\<lambda>nd. add_entry nd d)"
    by (rule ram_create_form [OF cr demo_fs_root demo_fs_inv])
  note fr = alloc_inode_fresh [OF al demo_fs_inv]
  have "c < 256" using fr(1) by (simp add: MAX_INODES_def)
  then have "unat (of_nat c :: u64) = c" by (simp add: unat_of_nat_lt)
  then have "c = 1" using c1 by (metis unat_1)
  then show "i_block_count (inodes demo_file ! 1) = 0"
    unfolding df using fr(1,10) ram_invD(2) [OF fr(4)] by simp
qed


lemma free_blocks_out_of_range:
  "\<exists>b \<in> set bs. length (i_blocks (inodes s ! i)) \<le> b \<Longrightarrow> i < length (inodes s) \<Longrightarrow> free_blocks_loop e s i bs = None"
proof (induction bs arbitrary: s)
  case (Cons b bs)
  show ?case
  proof (cases "length (i_blocks (inodes s ! i)) \<le> b")
    case False
    then have ex: "\<exists>b \<in> set bs. length (i_blocks (inodes s ! i)) \<le> b" using Cons.prems by auto
    have "free_blocks_loop e s1 i bs = None"
      if "s1 = s \<or> (\<exists>pg. s1 = upd_inode (s\<lparr>pages := pg\<rparr>) i (\<lambda>nd. nd\<lparr>i_blocks := (i_blocks nd)[b := 0]\<rparr>))" for s1
      using that ex Cons.prems(2) by (intro Cons.IH) auto
    then show ?thesis using False by (auto split: Option.bind_splits)
  qed simp
qed simp

text \<open>C27: \<^verbatim>\<open>truncate\<close> accepts any size: growing a file beyond 1024 blocks (4 MiB) succeeds and records a block
  count that no longer fits the block table, after which removing that file never returns (the index is out of
  range and the kernel panics).\<close>

theorem truncate_beyond_table_panics:
  assumes "ram_inv s F" and "get_ino s par = Some p" and "length nm \<le> 255" and "nm \<noteq> [47]"
    and "ram_lookup s par nm = Some (Inr ino)" and "get_ino s ino = Some t" and "t \<noteq> p"
    and "i_block_count (inodes s ! t) \<le> 1024" and "4194304 < unat sz" and "unat sz < 2 ^ 63"
  shows "\<exists>s'. ram_truncate e s ino sz = Some (Inr (), s') \<and> 1024 < i_block_count (inodes s' ! t) \<and>
    ram_remove e s' par nm = None"
proof -
  define nb where "nb = unat ((sz + of_nat RAMFS_BLOCK - 1) div of_nat RAMFS_BLOCK)"
  define s' where "s' = upd_inode s t (\<lambda>nd. nd\<lparr>i_block_count := nb, i_size := sz\<rparr>)"
  have "unat (4095 + sz) = 4095 + unat sz" using assms(10) by (subst unat_add_nowrap) auto
  then have "nb = (4095 + unat sz) div 4096" by (simp add: nb_def RAMFS_BLOCK_def unat_div)
  then have nb: "1024 < nb" using assms(9) by simp
  have t: "t < MAX_INODES" "p < MAX_INODES" "i_used (inodes s ! p)" "p = unat par" "i_used (inodes s ! t)" "t = unat ino"
    using assms(2,6) by (auto simp: get_ino_Some)
  have len: "length (inodes s) = MAX_INODES" by (rule ram_invD(2) [OF assms(1)])
  have np: "inodes s' ! p = inodes s ! p" "inodes s' ! t = (inodes s ! t)\<lparr>i_block_count := nb, i_size := sz\<rparr>"
    using assms(7) len t by (simp_all add: s'_def)
  have tr: "ram_truncate e s ino sz = Some (Inr (), s')"
    using assms(6,8) nb by (simp add: ram_truncate_def Let_def nb_def [symmetric] s'_def)
  have okp: "node_ok (inodes s ! p)" by (rule ram_invD(3) [OF assms(1) t(2)])
  have nm: "length nm \<le> MAX_NAME" using assms(3) by (simp add: MAX_NAME_def)
  obtain i where f: "find_index (has_name nm) (entries (inodes s ! p)) = Some i" and ino: "de_ino (i_dirents (inodes s ! p) ! i) = ino"
    using assms(4,5) ram_lookup_entries [OF assms(2) okp nm] by (auto split: option.splits)
  have fd: "find_dirent (inodes s' ! p) nm = Some (Some i)" using f by (simp add: np find_dirent_find [OF okp nm] entries_def)
  have gp: "get_ino s' par = Some p" using t np by (simp add: get_ino_Some)
  have ct: "inodes (clear_dirent s' p i) ! t = inodes s' ! t" using assms(7) by (simp add: clear_dirent_def)
  have gt: "get_ino (clear_dirent s' p i) ino = Some t" using t np ct by (simp add: get_ino_Some)
  have "length (i_blocks (inodes s' ! t)) = 1024"
    using ram_invD(3) [OF assms(1) t(1)] np by (simp add: node_ok_def MAX_BLOCKS_PER_INODE_def)
  then have ex: "\<exists>b \<in> set [0..<nb]. length (i_blocks (inodes (clear_dirent s' p i) ! t)) \<le> b" using nb ct by auto
  have "t < length (inodes (clear_dirent s' p i))" using len t(1) by (simp add: clear_dirent_def s'_def)
  from free_blocks_out_of_range [OF ex this, of e]
  have "drop_inode e (clear_dirent s' p i) t = None"
    unfolding drop_inode_def free_inode_blocks_def ct np(2) by simp
  then show ?thesis using tr nb np fd gp gt ino by (intro exI [of _ s']) (simp add: ram_remove_def Let_def)
qed

theorem truncate_beyond_table_panics_witness:
  "\<exists>s'. ram_truncate demo_env demo_file 1 0x800000 = Some (Inr (), s') \<and> 1024 < i_block_count (inodes s' ! 1) \<and>
    ram_remove demo_env s' 0 [97] = None"
  using truncate_beyond_table_panics [OF demo_file_facts(1,2) _ _ demo_file_facts(4,3), of "0x800000" demo_env] demo_file_facts(5) by auto


lemma clear_has_name:
  assumes "i < length ds"
  shows "find_index (has_name nm) (take n (ds[i := (ds ! i)\<lparr>de_used := False\<rparr>])) = None \<longleftrightarrow>
    (\<forall>k < min n (length ds). k \<noteq> i \<longrightarrow> \<not> has_name nm (ds ! k))"
  using assms by (auto simp: find_index_None has_name_def nth_list_update)

text \<open>A \<^verbatim>\<open>rename\<close> unlinks the old name first. In a directory whose 64 slots have all been used, renaming a
  file to a new name in the same directory fails with an error and the file is gone under both names, although its
  inode stays in use.\<close>

lemma rename_in_full_directory_loses_file:
  assumes "ram_inv s F" and "get_ino s par = Some p" and "i_dirent_count (inodes s ! p) = 64"
    and "length old \<le> 255" and "length new \<le> 255" and "old \<noteq> [47]" and "new \<noteq> [47]"
    and "i < 64" and "has_name old (i_dirents (inodes s ! p) ! i)"
    and "\<forall>k < 64. k \<noteq> i \<longrightarrow> \<not> has_name old (i_dirents (inodes s ! p) ! k) \<and> \<not> has_name new (i_dirents (inodes s ! p) ! k)"
  shows "\<exists>s'. ram_rename e s par old par new = Some (Inl ''ramfs: dirents full'', s') \<and>
    ram_lookup s' par old = Some (Inl ''ramfs: not found'') \<and> ram_lookup s' par new = Some (Inl ''ramfs: not found'') \<and>
    (\<forall>j. i_used (inodes s' ! j) = i_used (inodes s ! j))"
proof -
  let ?ds = "i_dirents (inodes s ! p)"
  have nm: "length old \<le> MAX_NAME" "length new \<le> MAX_NAME" using assms(4,5) by (simp_all add: MAX_NAME_def)
  have p: "p < MAX_INODES" "i_used (inodes s ! p)" "p = unat par" using assms(2) by (auto simp: get_ino_Some)
  have len: "length (inodes s) = MAX_INODES" by (rule ram_invD(2) [OF assms(1)])
  have okp: "node_ok (inodes s ! p)" by (rule ram_invD(3) [OF assms(1) p(1)])
  have dl: "length ?ds = 64" using okp by (simp add: node_ok_def MAX_DIRENTS_def)
  have "find_index (has_name old) ?ds = Some i" using assms(8-10) dl by (intro find_index_here) auto
  then have f: "find_dirent (inodes s ! p) old = Some (Some i)"
    using find_dirent_find [OF okp nm(1)] dl assms(3) by simp
  define s1 where "s1 = clear_dirent s p i"
  have n1: "inodes s1 ! p = (inodes s ! p)\<lparr>i_dirents := ?ds[i := (?ds ! i)\<lparr>de_used := False\<rparr>]\<rparr>" "j \<noteq> p \<Longrightarrow> inodes s1 ! j = inodes s ! j" for j
    using p len by (simp_all add: s1_def clear_dirent_def)
  have ok1: "node_ok (inodes s1 ! p)"
    using okp n1 dl assms(8) by (auto simp: node_ok_def dest!: set_update_subset_insert [THEN subsetD])
  have g1: "get_ino s1 par = Some p" using p n1 by (simp add: get_ino_Some)
  have nf: "find_index (has_name nm) (entries (inodes s1 ! p)) = None" if "nm = old \<or> nm = new" for nm
    using clear_has_name [of i ?ds nm 64] assms(3,8,10) dl n1 that by (auto simp: entries_def)
  have "find_dirent (inodes s1 ! p) new = Some None" using nf find_dirent_find [OF ok1 nm(2)] by (simp add: entries_def)
  then have "ram_rename e s par old par new = Some (Inl ''ramfs: dirents full'', s1)"
    using assms(2,3) f g1 n1 by (simp add: ram_rename_def Let_def s1_def [symmetric] rename_into_def MAX_DIRENTS_def)
  moreover have "i_used (inodes s1 ! j) = i_used (inodes s ! j)" for j using n1 by (cases "j = p") auto
  ultimately show ?thesis
    using ram_lookup_entries [OF g1 ok1 nm(1)] ram_lookup_entries [OF g1 ok1 nm(2)] nf assms(6,7) by (intro exI [of _ s1]) simp
qed

definition full_dir :: ramfs where
  "full_dir = upd_inode demo_fs 0 (\<lambda>nd. nd\<lparr>i_dirent_count := 64, i_dirents := (i_dirents nd)[5 := dirent_set ram_dirent_empty 0 [97] FT_REG_FILE]\<rparr>)"

lemma rename_in_full_directory_loses_file_witness:
  "\<exists>s'. ram_rename demo_env full_dir 0 [97] 0 [98] = Some (Inl ''ramfs: dirents full'', s') \<and>
    ram_lookup s' 0 [97] = Some (Inl ''ramfs: not found'') \<and> ram_lookup s' 0 [98] = Some (Inl ''ramfs: not found'') \<and>
    (\<forall>j. i_used (inodes s' ! j) = i_used (inodes full_dir ! j))"
proof (rule rename_in_full_directory_loses_file [where p = 0 and i = 5])
  let ?d = "dirent_set ram_dirent_empty 0 [97] FT_REG_FILE"
  have e: "length (de_name ram_dirent_empty) = MAX_NAME" "length [97 :: u8] \<le> MAX_NAME" by (simp_all add: ram_dirent_empty_def MAX_NAME_def)
  note ds = dirent_set_name [OF e]
  have n: "inodes full_dir ! 0 = (inodes demo_fs ! 0)\<lparr>i_dirent_count := 64, i_dirents := (i_dirents (inodes demo_fs ! 0))[5 := ?d]\<rparr>"
    "j \<noteq> 0 \<Longrightarrow> inodes full_dir ! j = inodes demo_fs ! j" for j
    by (simp_all add: full_dir_def demo_fs_simps)
  have ds0: "i_dirents (inodes full_dir ! 0) = (replicate 64 ram_dirent_empty)[5 := ?d]"
    by (simp add: n demo_fs_simps ram_inode_empty_def MAX_DIRENTS_def)
  show "ram_inv full_dir {0x100000 ..< 0x104000}"
  proof (rule ram_inv_nodes [OF demo_fs_inv])
    show "node_ok (inodes full_dir ! j)" if "j < MAX_INODES" for j
      using ram_invD(3) [OF demo_fs_inv that] n ds
      by (cases "j = 0") (auto simp: node_ok_def MAX_DIRENTS_def dest!: set_update_subset_insert [THEN subsetD])
    have "page_of full_dir j b = page_of demo_fs j b" "i_used (inodes full_dir ! j) = i_used (inodes demo_fs ! j)" for j b
      using n(2) [of j] by (cases "j = 0"; simp add: page_of_def n(1) cong: if_cong)+
    then show "owns demo_fs j b \<and> page_of full_dir j b = page_of demo_fs j b" if "owns full_dir j b" for j b
      using that by (simp add: owns_def)
  qed (simp_all add: full_dir_def demo_fs_simps MAX_INODES_def)
  show "get_ino full_dir 0 = Some 0" using demo_fs_root n by (auto simp: get_ino_Some)
  show "i_dirent_count (inodes full_dir ! 0) = 64" by (simp add: n)
  show "has_name [97] (i_dirents (inodes full_dir ! 0) ! 5)" using ds by (simp add: ds0)
  show "\<forall>k < 64. k \<noteq> 5 \<longrightarrow> \<not> has_name [97] (i_dirents (inodes full_dir ! 0) ! k) \<and> \<not> has_name [98] (i_dirents (inodes full_dir ! 0) ! k)"
    by (simp add: ds0 has_name_def ram_dirent_empty_def)
qed simp_all

end
