(* ===== verification/Vfs_Props.thy ===== *)
theory Vfs_Props
  imports Vfs_Core Ramfs_Props
begin

text \<open>
  The vnode layer of \<^verbatim>\<open>src/src/vfs_core/mod.rs\<close> on top of the ramfs: what path resolution computes on a system whose
  only mount is the root (\<open>resolve_root\<close>), and the properties that span path resolution, the vnode table, the message
  interface and file contents.
\<close>

section \<open>Paths of a ramfs root\<close>

















definition demo_vfs :: "unit vfs_state" where
  "demo_vfs = \<lparr>ram = demo_fs, mtab = \<lparr>mounts = demo_mount [47] # replicate 15 (demo_mount []), mcount = 1\<rparr>, next_fsid = 2, other = ()\<rparr>"

definition demo_ops :: "unit ops_table" where
  "demo_ops = ops_of demo_env (\<lambda>_. nop_vnode)"





lemma ram_inv_vnodes [simp]: "ram_inv (f\<lparr>fs_vnodes := t\<rparr>) F = ram_inv f F"
  by (simp add: ram_inv_def owns_def page_of_def)








lemma vnode_arm_answer:
  "vnode_arm s msg (\<lambda>v. answer msg (f v) h) = answer msg (with_vnode s (ucast (mg_extra1 msg)) f) h"
  by (simp add: vnode_arm_def with_vnode_def answer_def split: option.split)

text \<open>The message interface agrees with the direct calls: for each operation the reply to a message is the result
  of the corresponding function, with -1 for every error.\<close>

lemma dispatch_agrees_with_calls:
  assumes "mg_path_len msg \<le> length (mg_path msg)" and "path = take (mg_path_len msg) (mg_path msg)"
    and "vid = ucast (mg_extra1 msg)"
  shows "dispatch T s (msg\<lparr>mg_op := Open\<rparr>) =
      answer (msg\<lparr>mg_op := Open\<rparr>) (vfs_open T s path (mg_flags msg)) (\<lambda>v m. m\<lparr>mg_result := int (unat v)\<rparr>) \<and>
    dispatch T s (msg\<lparr>mg_op := Read\<rparr>) =
      answer (msg\<lparr>mg_op := Read\<rparr>) (vfs_read T s vid (mg_offset msg) (length (mg_data msg))) fill_data \<and>
    dispatch T s (msg\<lparr>mg_op := Write\<rparr>) =
      answer (msg\<lparr>mg_op := Write\<rparr>) (vfs_write T s vid (mg_offset msg) (mg_data msg)) (\<lambda>n m. m\<lparr>mg_result := as_i64 n\<rparr>) \<and>
    dispatch T s (msg\<lparr>mg_op := Stat\<rparr>) =
      answer (msg\<lparr>mg_op := Stat\<rparr>) (vfs_stat T s vid) (\<lambda>st m. m\<lparr>mg_stat := Some st, mg_result := 0\<rparr>) \<and>
    dispatch T s (msg\<lparr>mg_op := MkDir\<rparr>) =
      answer (msg\<lparr>mg_op := MkDir\<rparr>) (vfs_mkdir T s path (mg_mode msg)) (\<lambda>ino m. m\<lparr>mg_result := sint ino\<rparr>) \<and>
    dispatch T s (msg\<lparr>mg_op := Remove\<rparr>) =
      answer (msg\<lparr>mg_op := Remove\<rparr>) (vfs_remove T s path) (\<lambda>_ m. m\<lparr>mg_result := 0\<rparr>) \<and>
    dispatch T s (msg\<lparr>mg_op := RmDir\<rparr>) =
      answer (msg\<lparr>mg_op := RmDir\<rparr>) (vfs_rmdir T s path) (\<lambda>_ m. m\<lparr>mg_result := 0\<rparr>) \<and>
    dispatch T s (msg\<lparr>mg_op := SymLink\<rparr>) =
      answer (msg\<lparr>mg_op := SymLink\<rparr>) (vfs_symlink T s path (mg_data msg)) (\<lambda>_ m. m\<lparr>mg_result := 0\<rparr>) \<and>
    dispatch T s (msg\<lparr>mg_op := SetXattr\<rparr>) =
      answer (msg\<lparr>mg_op := SetXattr\<rparr>) (vfs_setxattr T s vid path (mg_data msg)) (\<lambda>_ m. m\<lparr>mg_result := 0\<rparr>)"
proof -
  have sl: "slice_to (mg_path msg) (mg_path_len msg) = Some path" using assms(1,2) by (simp add: slice_to_def)
  show ?thesis
    using sl by (simp add: dispatch_def dispatch_open_def dispatch_read_def dispatch_write_def dispatch_stat_def dispatch_mkdir_def
      dispatch_remove_def dispatch_rmdir_def dispatch_symlink_def dispatch_setxattr_def path_arm_def vnode_arm_answer vfs_open_def vfs_read_def vfs_write_def
      vfs_stat_def vfs_mkdir_def vfs_remove_def vfs_rmdir_def vfs_symlink_def vfs_setxattr_def assms(3))
qed


lemma dispatch_agrees_with_calls_witness:
  "dispatch demo_ops demo_vfs (message_new\<lparr>mg_op := Write\<rparr>) =
     answer (message_new\<lparr>mg_op := Write\<rparr>) (vfs_write demo_ops demo_vfs 0 0 []) (\<lambda>n m. m\<lparr>mg_result := as_i64 n\<rparr>)"
  using dispatch_agrees_with_calls [of message_new "[]" 0 demo_ops demo_vfs] by (simp add: message_new_def)

end
