(* ===== verification/Files_Props.thy ===== *)
theory Files_Props
  imports Files_Pipes Vfs_Props
begin

text \<open>
  The properties of pipes, descriptors and the flat inode table, with small states for their witnesses.
\<close>

unbundle bit_operations_syntax

section \<open>A small state\<close>

definition demo_files :: "unit files" where
  "demo_files = (files_new demo_vfs)\<lparr>cur := 1\<rparr>"

lemma demo_tables: "tables_ok demo_files"
  by (simp add: tables_ok_def demo_files_def files_new_def)

lemma demo_refs: "refs demo_files i = 0"
  by (simp add: refs_def demo_files_def files_new_def cnt_def refers_def fdesc_empty_def sum_list_triv)

lemma demo_pipe_inv: "pipe_inv demo_files"
proof -
  have "\<not> p_used (pipes demo_files ! p)" if "p < PIPE_MAX" for p
    using that by (simp add: demo_files_def files_new_def pipe_empty_def)
  then show ?thesis using demo_tables demo_refs by (simp add: pipe_inv_owed_def ends_ok_def)
qed

text \<open>A task with a file at descriptor 0 and the two ends of pipe 0 at 1 (write) and 2 (read).\<close>

definition demo_table :: "fdesc list" where
  "demo_table = [\<lparr>f_inode = 5, f_pos = 0, f_used = True, f_flags = 0\<rparr>, \<lparr>f_inode = wr_end 0, f_pos = 0, f_used = True, f_flags = 0\<rparr>,
     \<lparr>f_inode = rd_end 0, f_pos = 0, f_used = True, f_flags = 0\<rparr>] @ replicate 61 fdesc_empty"

definition demo_piped :: "unit files" where
  "demo_piped = demo_files\<lparr>fdt := (fdt demo_files)[1 := demo_table],
     pipes := (pipes demo_files)[0 := pipe_empty\<lparr>nread := 1, nwrite := 1, p_used := True\<rparr>]\<rparr>"

lemma demo_piped_refs: "refs demo_piped i = cnt i demo_table"
proof -
  have "cnt i (fdt demo_files ! 1) = 0" by (simp add: demo_files_def files_new_def cnt_def refers_def fdesc_empty_def MAX_TASKS_def)
  then show ?thesis
    using sum_list_upd [of 1 "map (cnt i) (fdt demo_files)" "cnt i demo_table"] demo_refs [of i] demo_tables
    by (simp add: refs_def demo_piped_def map_update tables_ok_def MAX_TASKS_def)
qed

lemma demo_piped_inv: "pipe_inv demo_piped"
proof -
  have c: "cnt i demo_table = (if i = 5 \<or> i = wr_end 0 \<or> i = rd_end 0 then 1 else 0)" for i
    by (simp add: demo_table_def cnt_def refers_def fdesc_empty_def pipe_consts)
  have tl: "length demo_table = 64" by (simp add: demo_table_def)
  have "length ((fdt demo_files)[1 := demo_table] ! t) = 64" if "t < MAX_TASKS" for t
    using demo_tables tl that by (cases "t = 1") (simp_all add: tables_ok_def MAX_TASKS_def MAX_FDS_PER_TASK_def)
  then have "tables_ok demo_piped"
    using demo_tables by (simp add: tables_ok_def demo_piped_def MAX_FDS_PER_TASK_def)
  moreover have "ends_ok (pipes demo_piped ! p) (cnt (rd_end p) demo_table) (cnt (wr_end p) demo_table) 0 0" if "p < PIPE_MAX" for p
    using that by (cases "p = 0") (simp_all add: demo_piped_def demo_files_def files_new_def pipe_empty_def ends_ok_def c pipe_consts, presburger?)
  ultimately show ?thesis by (simp add: pipe_inv_owed_def demo_piped_refs)
qed

section \<open>Properties\<close>

text \<open>C31: The reference counts of pipes are exact. If each pipe slot in use counts, for either end, the open
  descriptors that refer to it, and no descriptor refers to a free slot, then the same holds after opening a pipe
  (successful or not), closing a descriptor, \<^verbatim>\<open>F_DUPFD\<close>, \<^verbatim>\<open>dup2\<close> onto a closed descriptor, \<^verbatim>\<open>fork\<close> into an empty
  table, and exit. So a slot is freed exactly when its last descriptor, of any task, is closed.\<close>

theorem pipe_refs_exact:
  assumes "pipe_inv f"
  shows "pipe_inv (snd (sys_pipe f ptr)) \<and> pipe_inv (snd (sys_close f fd)) \<and> pipe_inv (snd (dupfd f fd arg)) \<and>
    (\<not> (\<exists>t. get_fd_table f = Some t \<and> new < 64 \<and> f_used (fdt f ! t ! new)) \<longrightarrow> pipe_inv (snd (sys_dup2 f fd new))) \<and>
    ((\<forall>d \<in> set (fdt f ! fd_table_for child). \<not> f_used d) \<longrightarrow> pipe_inv (fork_fds f child)) \<and> pipe_inv (exit_fds f)"
proof (intro conjI impI)
  show "pipe_inv (snd (sys_pipe f ptr))" using sys_pipe_cases [OF _ assms] by (metis prod.collapse)
  show "pipe_inv (snd (sys_close f fd))"
    using flat_close_inv(1) [OF assms, of fd] by (cases "flat_close_fd f fd") (auto simp: sys_close_def split: bool.split)
  show "pipe_inv (fork_fds f child)" if "\<forall>d \<in> set (fdt f ! fd_table_for child). \<not> f_used d" by (rule fork_inv [OF assms that])
  show "pipe_inv (exit_fds f)" using close_loop_inv [OF assms] assms by (simp add: exit_fds_def split: option.split)
  show "pipe_inv (snd (dupfd f fd arg))"
  proof (cases "get_fd_table f")
    case (Some t)
    show ?thesis
    proof (cases "find (\<lambda>i. \<not> f_used (fdt f ! t ! i)) [unat arg..<MAX_FDS_PER_TASK]")
      case (Some k)
      then have "k < MAX_FDS_PER_TASK" "\<not> f_used (fdt f ! t ! k)" by (auto simp: find_Some_iff)
      then show ?thesis
        using dup_inv [OF assms get_fd_table_range [OF \<open>get_fd_table f = Some t\<close>], of fd k] assms Some \<open>get_fd_table f = Some t\<close>
        by (auto simp: dupfd_def not_le)
    qed (use assms Some in \<open>simp add: dupfd_def\<close>)
  qed (use assms in \<open>simp add: dupfd_def\<close>)
  assume nu: "\<not> (\<exists>t. get_fd_table f = Some t \<and> new < 64 \<and> f_used (fdt f ! t ! new))"
  show "pipe_inv (snd (sys_dup2 f fd new))"
  proof (cases "get_fd_table f")
    case (Some t)
    then show ?thesis
      using dup_inv [OF assms get_fd_table_range [OF Some], of fd new] assms nu
      by (auto simp: sys_dup2_def not_le MAX_FDS_PER_TASK_def)
  qed (use assms in \<open>simp add: sys_dup2_def\<close>)
qed

theorem pipe_refs_exact_witness:
  "pipe_inv (snd (sys_close (snd (sys_pipe demo_files 0x1000)) 0)) \<and> pipe_inv (exit_fds (snd (sys_pipe demo_files 0x1000)))"
proof -
  have "pipe_inv (snd (sys_pipe demo_files 0x1000))" using pipe_refs_exact [OF demo_pipe_inv] by blast
  from pipe_refs_exact [OF this] show ?thesis by blast
qed

text \<open>C32: A pipe is a first-in-first-out queue of at most 4096 bytes: a write appends what still fits after the write
  position and a read takes bytes from the front; a read finds nothing exactly when the queue is empty.\<close>

theorem pipe_is_fifo:
  assumes "buf_ok s" and "0 < n"
  shows "buf_ok (pipe_put s bs) \<and> pipe_data (pipe_put s bs) = pipe_data s @ take (4096 - wpos s) bs \<and>
    (case pipe_get s n of
       None \<Rightarrow> pipe_data s = []
     | Some (out, s') \<Rightarrow> buf_ok s' \<and> out \<noteq> [] \<and> out = take n (pipe_data s) \<and> pipe_data s' = drop n (pipe_data s))"
  using pipe_put_spec [OF assms(1), of bs] pipe_get_spec [OF assms] by (simp add: PIPE_CAP_def)

theorem pipe_is_fifo_witness:
  "pipe_data (pipe_put pipe_empty [1, 2, 3]) = [1, 2, 3]"
  using pipe_is_fifo [of pipe_empty 1 "[1, 2, 3]"] by (simp add: buf_ok_def pipe_empty_def pipe_data_def PIPE_CAP_def)

text \<open>\<^verbatim>\<open>dup2\<close> onto an open descriptor does not release what that descriptor referred to: if it was the last
  descriptor of a pipe's write end, afterwards no descriptor refers to that end, but the end is still counted and the
  slot stays in use.\<close>

lemma dup2_leaks_pipe_end:
  assumes "pipe_inv f" and "get_fd_table f = Some t" and "old < 64" and "new < 64" and "old \<noteq> new"
    and "f_used (fdt f ! t ! old)" and "f_used (fdt f ! t ! new)" and "p < 8" and "f_inode (fdt f ! t ! new) = wr_end p"
    and "f_inode (fdt f ! t ! old) \<noteq> wr_end p" and "f_inode (fdt f ! t ! old) \<noteq> rd_end p" and "refs f (wr_end p) = 1"
  shows "\<exists>f'. sys_dup2 f old new = (int new, f') \<and> refs f' (wr_end p) = 0 \<and> nwrite (pipes f' ! p) = 1 \<and> p_used (pipes f' ! p)"
proof -
  let ?d = "(fdt f ! t ! old)\<lparr>f_pos := 0\<rparr>" and ?i = "f_inode (fdt f ! t ! old)"
  note T = pipe_invD(1) [OF assms(1)]
  have t: "t < MAX_TASKS" "new < MAX_FDS_PER_TASK" using get_fd_table_range [OF assms(2)] assms(4) by (simp_all add: MAX_FDS_PER_TASK_def)
  have p: "p < PIPE_MAX" using assms(8) by (simp add: PIPE_MAX_def)
  let ?f' = "pipe_inc_refs (set_fd f t new ?d) ?i"
  have "sys_dup2 f old new = (int new, ?f')" using assms by (simp add: sys_dup2_def MAX_FDS_PER_TASK_def)
  moreover have "refs ?f' (wr_end p) = 0"
    using refs_set_fd [OF T t, of ?d "wr_end p"] assms(7,9,10,12) by (simp add: refers_def)
  moreover have "pipes ?f' ! p = pipes f ! p"
  proof -
    have "pipe_idx_of ?i \<noteq> Some p" using assms(10,11) pipe_idx_range by blast
    then show ?thesis by (auto simp: pipe_inc_refs_def upd_pipe_def split: option.split)
  qed
  moreover have "nwrite (pipes f ! p) = 1" "p_used (pipes f ! p)"
    using pipe_invD(2) [OF assms(1) p] assms(12) by (auto simp: ends_ok_def word_unat_eq_iff split: if_splits)
  ultimately show ?thesis by simp
qed

lemma dup2_leaks_pipe_end_witness:
  "\<exists>f'. sys_dup2 demo_piped 0 1 = (int 1, f') \<and> refs f' (wr_end 0) = 0 \<and> nwrite (pipes f' ! 0) = 1 \<and> p_used (pipes f' ! 0)"
proof (rule dup2_leaks_pipe_end [OF demo_piped_inv, where t = 1])
  have t: "fdt demo_piped ! 1 = demo_table" using demo_tables by (simp add: demo_piped_def tables_ok_def MAX_TASKS_def)
  show "get_fd_table demo_piped = Some 1" by (simp add: get_fd_table_def demo_piped_def demo_files_def MAX_TASKS_def)
  show "refs demo_piped (wr_end 0) = 1"
    by (simp add: demo_piped_refs demo_table_def cnt_def refers_def fdesc_empty_def pipe_consts)
qed (use demo_tables in \<open>simp_all add: demo_piped_def demo_table_def tables_ok_def MAX_TASKS_def pipe_consts\<close>)

text \<open>A read from an empty pipe blocks even when no write end is open any more, instead of reporting end of file.\<close>

lemma read_never_sees_eof:
  assumes "fd_to_inode f fd = Some (t, d)" and "f_inode d = rd_end p" and "p < 8" and "f_flags d AND 0x800 = 0"
    and "rpos (pipes f ! p) = wpos (pipes f ! p)" and "nwrite (pipes f ! p) = 0" and "buf \<noteq> 0" and "0 < n"
  shows "sys_read T f fd buf n True = Some (Blocks, f)"
proof -
  have "pipe_idx_of (f_inode d) = Some p" "\<not> pipe_is_write_end (f_inode d)" using assms(2,3) by (simp_all add: PIPE_MAX_def)
  then show ?thesis using assms by (simp add: sys_read_def pipe_get_def)
qed


definition demo_eof :: "unit files" where
  "demo_eof = demo_piped\<lparr>pipes := (pipes demo_piped)[0 := pipe_empty\<lparr>nread := 1, p_used := True\<rparr>]\<rparr>"

lemma read_never_sees_eof_witness:
  "sys_read demo_ops demo_eof 2 0x1000 10 True = Some (Blocks, demo_eof)"
proof (rule read_never_sees_eof [where p = 0])
  show "fd_to_inode demo_eof 2 = Some (1, demo_table ! 2)"
    using demo_tables by (simp add: fd_to_inode_def demo_eof_def demo_piped_def demo_files_def files_new_def get_fd_table_def MAX_TASKS_def
      MAX_FDS_PER_TASK_def demo_table_def)
qed (simp_all add: demo_table_def demo_eof_def demo_piped_def demo_files_def files_new_def PIPE_MAX_def pipe_empty_def)

section \<open>The flat inode table\<close>

lemma norm_name_upd [simp]: "norm_name (upd_flat f i g) nm = norm_name f nm"
  by (simp add: norm_name_def get_cwd_bytes_def upd_flat_def)

lemma flat_match_name:
  assumes "0 \<notin> set nm" and "0 \<notin> set nm'" and "length nm \<le> 63"
  shows "flat_match nm' (inode_empty\<lparr>n_used := True, n_name := flat_name nm, n_size := z, n_data_ptr := p\<rparr>) \<longleftrightarrow> nm' = nm"
proof
  assume m: "flat_match nm' (inode_empty\<lparr>n_used := True, n_name := flat_name nm, n_size := z, n_data_ptr := p\<rparr>)"
  then have l: "length nm' \<le> 63" "take (length nm') (flat_name nm) = nm'" "flat_name nm ! length nm' = 0"
    by (auto simp: flat_match_def Let_def min_def split: if_splits)
  have fn: "flat_name nm = nm @ replicate (64 - length nm) 0" using assms(3) by (simp add: flat_name_def Let_def min_def)
  have "length nm' = length nm"
  proof (rule linorder_cases [of "length nm'" "length nm"])
    assume lt: "length nm' < length nm"
    then have "flat_name nm ! length nm' \<in> set nm" by (simp add: fn nth_append)
    then show ?thesis using l(3) assms(1) by simp
  next
    assume gt: "length nm < length nm'"
    then have "nm' ! length nm = 0" using l(1) by (subst l(2) [symmetric]) (simp add: fn nth_append)
    then show ?thesis using gt assms(2) nth_mem by metis
  qed
  then show "nm' = nm" using l(2) by (simp add: fn)
next
  assume "nm' = nm"
  then show "flat_match nm' (inode_empty\<lparr>n_used := True, n_name := flat_name nm, n_size := z, n_data_ptr := p\<rparr>)"
    using assms(3) by (simp add: flat_match_def flat_name_def Let_def min_def nth_append)
qed

text \<open>C35: The flat table finds what was registered: a path of at most 63 bytes that is not in the table yet is found at
  the slot it is given, which is never one of the pipe slots, and all other paths are found where they were.\<close>

theorem flat_register_then_find:
  assumes "alloc_flat_inode f nm z = (Some i, f')" and "length (finodes f) = 256" and "length nm \<le> 63" and "0 \<notin> set nm"
    and "norm_name f path = nm" and "find_inode f path = None"
  shows "find_inode f' path = Some i \<and> pipe_idx_of i = None \<and>
    (\<forall>path'. norm_name f path' \<noteq> nm \<and> 0 \<notin> set (norm_name f path') \<longrightarrow> find_inode f' path' = find_inode f path')"
proof -
  let ?nd = "inode_empty\<lparr>n_used := True, n_name := flat_name nm, n_size := z, n_data_ptr := 0\<rparr>"
  obtain fi: "find_index (\<lambda>nd. \<not> n_used nd) (take PIPE_INODE_BASE (finodes f)) = Some i" and f': "f' = upd_flat f i (\<lambda>_. ?nd)"
    using assms(1) by (auto simp: alloc_flat_inode_def split: option.splits)
  have i: "i < 240" "\<not> n_used (finodes f ! i)" using find_index_Some [OF fi] assms(2) by (simp_all add: pipe_consts)
  have fn: "finodes f' = (finodes f)[i := ?nd]" by (simp add: f' upd_flat_def)
  have "find_index (flat_match nm) ((finodes f)[i := ?nd]) = Some i"
  proof (rule find_index_here)
    show "flat_match nm ((finodes f)[i := ?nd] ! i)" using flat_match_name [OF assms(4,4,3)] i assms(2) by simp
    show "\<forall>k < i. \<not> flat_match nm ((finodes f)[i := ?nd] ! k)"
      using assms(2,5,6) i by (simp add: find_inode_def find_index_None)
  qed (use i assms(2) in simp)
  moreover have "find_index (flat_match x) ((finodes f)[i := ?nd]) = find_index (flat_match x) (finodes f)"
    if "x \<noteq> nm" "0 \<notin> set x" for x
    using flat_match_name [OF assms(4) that(2) assms(3)] that i assms(2)
    by (intro find_index_update) (auto simp: flat_match_def)
  moreover have "norm_name f' x = norm_name f x" for x by (simp add: f')
  moreover have "pipe_idx_of i = None" using i by (simp add: pipe_idx_of_def pipe_consts)
  ultimately show ?thesis by (simp add: find_inode_def fn assms(5))
qed

theorem flat_register_then_find_witness:
  "find_inode (snd (alloc_flat_inode demo_files [47, 97] 0)) [47, 97] = Some 0"
proof -
  have "find_index (\<lambda>nd. \<not> n_used nd) (take PIPE_INODE_BASE (finodes demo_files)) = Some 0"
    by (rule find_index_hd) (simp_all add: demo_files_def files_new_def inode_empty_def pipe_consts)
  then have al: "alloc_flat_inode demo_files [47, 97] 0 = (Some 0, snd (alloc_flat_inode demo_files [47, 97] 0))"
    by (simp add: alloc_flat_inode_def)
  have "normalize_path [slash] [47, 97] (replicate 512 0) = (Some 2, [47, 97] @ replicate 510 0)" by code_simp
  then have nm: "norm_name demo_files [47, 97] = [47, 97]"
    by (simp add: norm_name_def get_cwd_bytes_def demo_files_def files_new_def)
  have "find_inode demo_files [47, 97] = None"
    unfolding find_inode_def nm find_index_None by (simp add: demo_files_def files_new_def inode_empty_def flat_match_def)
  from flat_register_then_find [OF al _ _ _ nm this] show ?thesis by (simp add: demo_files_def files_new_def FLAT_INODES_def)
qed

text \<open>A path whose canonical form is longer than 63 bytes is never found in the flat table, even when it is there:
  each lookup registers another entry.\<close>

theorem flat_long_names_never_found:
  assumes "63 < length (norm_name f path)"
  shows "find_inode f path = None"
  using assms by (simp add: find_inode_def find_index_None flat_match_def Let_def min_def)


theorem flat_long_names_never_found_witness:
  "find_inode demo_files (47 # replicate 70 97) = None"
proof (rule flat_long_names_never_found)
  have "normalize_path [slash] (47 # replicate 70 97) (replicate 512 0) = (Some 71, 47 # replicate 70 97 @ replicate 441 0)" by code_simp
  then show "63 < length (norm_name demo_files (47 # replicate 70 97))"
    by (simp add: norm_name_def get_cwd_bytes_def demo_files_def files_new_def)
qed

end
