(* ===== verification/Sched.thy ===== *)
theory Sched
  imports Files Machine_Memory
begin

text \<open>
  The task table, process identifiers, run queues and scheduler of \<^verbatim>\<open>src/src/task.rs\<close>, with the sleeping and waking
  operations on futexes and timers.

  The state \<open>sched\<close> has the 64 task slots, the run queue of each CPU (a priority bitmap and 40 singly linked lists that
  are threaded through the \<^verbatim>\<open>runqueue_next\<close> fields of the tasks), the task each CPU runs, the bitmap of process
  identifiers, the timer ticks, the signal lock and the memory of the current address space. Saved register contexts, and with them the
  register part of a context switch, are not part of it. \<open>None\<close> is a panic (an index out of range) or a walk along
  a cyclic list that never ends. The CPU that executes a function is its argument \<open>c\<close>.

  A function that blocks is split where it gives up the CPU: its result \<open>Suspend\<close> says that it has called
  \<^verbatim>\<open>force_schedule\<close>, which is the separate step \<open>schedule_inner\<close>.
\<close>

unbundle bit_operations_syntax

section \<open>Data\<close>

definition PRIORITY_LEVELS :: nat where "PRIORITY_LEVELS = 40"
definition PRIORITY_LOWEST :: u8 where "PRIORITY_LOWEST = 39"
definition MAX_CPUS :: nat where "MAX_CPUS = 2"
definition SIGNAL_COUNT :: nat where "SIGNAL_COUNT = 32"
definition FUTEX_WAITERS :: u32 where "FUTEX_WAITERS = 0x80000000"

definition ESRCH :: int where "ESRCH = 3"
definition EINTR :: int where "EINTR = 4"
definition ETIMEDOUT :: int where "ETIMEDOUT = 110"
definition ENOSYS :: int where "ENOSYS = 38"
definition EPERM :: int where "EPERM = 1"

datatype task_state = Empty | Ready | Running | Blocked | Exited | Zombie

record sig_action =
  sa_handler :: u64
  sa_mask :: u64
  sa_flags :: u64
  sa_restorer :: u64

definition sig_action_empty :: sig_action where
  "sig_action_empty = \<lparr>sa_handler = 0, sa_mask = 0, sa_flags = 0, sa_restorer = 0\<rparr>"

record task =
  tk_id :: u64
  tk_tgid :: u64
  tk_state :: task_state
  tk_cs :: u64
  tk_user_stack :: u64
  tk_cpu :: u8
  tk_static_prio :: u8
  tk_prio :: u8
  tk_slice :: u32
  tk_parent :: "u64 option"
  tk_blocked_on :: u64
  tk_boosted :: bool
  tk_next :: "u64 option"
  tk_in_syscall :: bool
  tk_exit_code :: i32
  tk_handlers :: "sig_action list"
  tk_sig_blocked :: u64
  tk_sig_pending :: u64
  tk_wakeup :: u64
  tk_deadline :: u64
  tk_child_tidptr :: u64
  tk_poll_fds :: u64

definition task_empty :: task where
  "task_empty = \<lparr>tk_id = 0, tk_tgid = 0, tk_state = Empty, tk_cs = 0, tk_user_stack = 0, tk_cpu = 0,
     tk_static_prio = 20, tk_prio = 20, tk_slice = 0, tk_parent = None, tk_blocked_on = 0, tk_boosted = False,
     tk_next = None, tk_in_syscall = False, tk_exit_code = 0, tk_handlers = replicate SIGNAL_COUNT sig_action_empty,
     tk_sig_blocked = 0, tk_sig_pending = 0, tk_wakeup = 0, tk_deadline = 0, tk_child_tidptr = 0, tk_poll_fds = 0\<rparr>"

record run_queue =
  rq_bitmap :: u64
  rq_heads :: "u64 option list"
  rq_tails :: "u64 option list"
  nr_running :: u32

definition run_queue_new :: run_queue where
  "run_queue_new = \<lparr>rq_bitmap = 0, rq_heads = replicate PRIORITY_LEVELS None, rq_tails = replicate PRIORITY_LEVELS None,
     nr_running = 0\<rparr>"

record sched =
  tasks :: "task list"
  rqs :: "run_queue list"
  currents :: "u64 list"
  pid_bitmap :: u64
  ticks :: u64
  signal_locked :: bool
  umem :: "u64 \<Rightarrow> u8"
  pending_restore :: "u64 list option"
  user_rsp :: u64

definition sched_new :: sched where
  "sched_new = \<lparr>tasks = replicate MAX_TASKS task_empty, rqs = replicate MAX_CPUS run_queue_new,
     currents = replicate MAX_CPUS 0, pid_bitmap = 1, ticks = 0, signal_locked = False, umem = (\<lambda>_. 0),
     pending_restore = None, user_rsp = 0\<rparr>"

datatype flow = Return int | Suspend

section \<open>Tasks\<close>

definition nice_to_prio :: "i32 \<Rightarrow> u8" where
  "nice_to_prio n = ucast (n + 20)"

definition prio_to_nice :: "u8 \<Rightarrow> i32" where
  "prio_to_nice p = ucast p - 20"

definition initial_time_slice :: "u8 \<Rightarrow> u32" where
  "initial_time_slice p = (let x = ucast p * 5 div 40; t = (if x \<le> 8 then 8 - x else 0) in if t < 2 then 2 else t)"

definition task_idx :: "u64 \<Rightarrow> nat" where
  "task_idx t = (if unat t \<ge> MAX_TASKS then 0 else unat t)"

definition task_ref :: "sched \<Rightarrow> u64 \<Rightarrow> task" where
  "task_ref s t = tasks s ! task_idx t"

definition upd_slot :: "sched \<Rightarrow> nat \<Rightarrow> (task \<Rightarrow> task) \<Rightarrow> sched" where
  "upd_slot s i f = s\<lparr>tasks := (tasks s)[i := f (tasks s ! i)]\<rparr>"

abbreviation upd_task :: "sched \<Rightarrow> u64 \<Rightarrow> (task \<Rightarrow> task) \<Rightarrow> sched" where
  "upd_task s t f \<equiv> upd_slot s (task_idx t) f"

definition upd_rq :: "sched \<Rightarrow> nat \<Rightarrow> (run_queue \<Rightarrow> run_queue) \<Rightarrow> sched" where
  "upd_rq s c f = s\<lparr>rqs := (rqs s)[c := f (rqs s ! c)]\<rparr>"

definition cur_task :: "sched \<Rightarrow> nat \<Rightarrow> u64" where
  "cur_task s c = currents s ! c"

definition in_syscall :: "sched \<Rightarrow> nat \<Rightarrow> bool" where
  "in_syscall s c = (cur_task s c \<noteq> 0 \<and> tk_in_syscall (task_ref s (cur_task s c)))"

definition in_syscall_set :: "sched \<Rightarrow> nat \<Rightarrow> bool \<Rightarrow> sched" where
  "in_syscall_set s c b = (if cur_task s c \<noteq> 0 then upd_task s (cur_task s c) (\<lambda>t. t\<lparr>tk_in_syscall := b\<rparr>) else s)"

section \<open>Process identifiers\<close>

definition trailing_ones :: "u64 \<Rightarrow> nat" where
  "trailing_ones w = length (takeWhile (bit w) [0..<64])"

definition trailing_zeros :: "u64 \<Rightarrow> nat" where
  "trailing_zeros w = length (takeWhile (\<lambda>i. \<not> bit w i) [0..<64])"

definition alloc_pid_from :: "sched \<Rightarrow> u64 \<Rightarrow> u64 option \<times> sched" where
  "alloc_pid_from s lo =
     (if unat lo \<ge> MAX_TASKS then (None, s)
      else let bm = pid_bitmap s; shifted = drop_bit (unat lo) bm;
               b = (if shifted = - 1 then MAX_TASKS else unat lo + trailing_ones shifted)
           in if b \<ge> MAX_TASKS then (None, s)
              else (Some (of_nat b), s\<lparr>pid_bitmap := bm OR 2 ^ b\<rparr>))"

definition alloc_pid_specific :: "sched \<Rightarrow> u64 \<Rightarrow> bool \<times> sched" where
  "alloc_pid_specific s slot =
     (if unat slot \<ge> MAX_TASKS then (False, s)
      else let m = 2 ^ unat slot; bm = pid_bitmap s
           in if bm AND m \<noteq> 0 then (False, s) else (True, s\<lparr>pid_bitmap := bm OR m\<rparr>))"

definition alloc_kernel_pid :: "sched \<Rightarrow> u64 option \<times> sched" where
  "alloc_kernel_pid s = alloc_pid_from s 2"

definition alloc_user_pid :: "sched \<Rightarrow> u64 option \<times> sched" where
  "alloc_user_pid s = alloc_pid_from s 1"

definition free_pid :: "sched \<Rightarrow> u64 \<Rightarrow> sched" where
  "free_pid s p = (if p = 0 \<or> unat p \<ge> MAX_TASKS then s else s\<lparr>pid_bitmap := pid_bitmap s AND NOT (2 ^ unat p)\<rparr>)"

section \<open>Run queues\<close>

definition enqueue_task :: "sched \<Rightarrow> u64 \<Rightarrow> u8 \<Rightarrow> sched option" where
  "enqueue_task s t prio =
     (let c = unat (tk_cpu (task_ref s t)); p = unat prio
      in if c \<ge> MAX_CPUS then None
         else let s1 = upd_task s t (\<lambda>k. k\<lparr>tk_next := None\<rparr>)
              in if p \<ge> PRIORITY_LEVELS then None
                 else (case rq_tails (rqs s1 ! c) ! p of
                         None \<Rightarrow> Some (upd_rq s1 c (\<lambda>q. q\<lparr>rq_heads := (rq_heads q)[p := Some t], rq_tails := (rq_tails q)[p := Some t],
                                   rq_bitmap := rq_bitmap q OR 2 ^ p, nr_running := nr_running q + 1\<rparr>))
                       | Some tail \<Rightarrow>
                           let s2 = upd_task s1 tail (\<lambda>k. k\<lparr>tk_next := Some t\<rparr>)
                           in Some (upd_rq s2 c (\<lambda>q. q\<lparr>rq_tails := (rq_tails q)[p := Some t], nr_running := nr_running q + 1\<rparr>))))"

definition dequeue_task :: "sched \<Rightarrow> nat \<Rightarrow> (u64 option \<times> sched) option" where
  "dequeue_task s c =
     (let q = rqs s ! c
      in if rq_bitmap q = 0 then Some (None, s)
         else let p = trailing_zeros (rq_bitmap q)
              in if p \<ge> PRIORITY_LEVELS then None
                 else (case rq_heads q ! p of
                         None \<Rightarrow> Some (None, s)
                       | Some t \<Rightarrow>
                           let nx = tk_next (task_ref s t);
                               s1 = upd_rq s c (\<lambda>q. q\<lparr>rq_heads := (rq_heads q)[p := nx]\<rparr>);
                               s2 = upd_task s1 t (\<lambda>k. k\<lparr>tk_next := None\<rparr>);
                               s3 = (if nx = None then upd_rq s2 c (\<lambda>q. q\<lparr>rq_tails := (rq_tails q)[p := None],
                                       rq_bitmap := rq_bitmap q AND NOT (2 ^ p)\<rparr>) else s2)
                           in Some (Some t, upd_rq s3 c (\<lambda>q. q\<lparr>nr_running := nr_running q - 1\<rparr>))))"

text \<open>The walk of \<^verbatim>\<open>remove_from_runqueue\<close> along one list: the predecessor of the task, if it is on the list.\<close>

partial_function (option) rq_search :: "sched \<Rightarrow> u64 \<Rightarrow> u64 option \<Rightarrow> u64 option \<Rightarrow> u64 option option option" where
  "rq_search s t prev cu =
     (case cu of
        None \<Rightarrow> Some None
      | Some cid \<Rightarrow> if cid = t then Some (Some prev) else rq_search s t cu (tk_next (task_ref s cid)))"

declare rq_search.simps [code]

definition unlink_task :: "sched \<Rightarrow> u64 \<Rightarrow> nat \<Rightarrow> nat \<Rightarrow> u64 option \<Rightarrow> sched" where
  "unlink_task s t c p prev =
     (let nx = tk_next (task_ref s t);
          s1 = (case prev of
                  Some pid \<Rightarrow> upd_task s pid (\<lambda>k. k\<lparr>tk_next := nx\<rparr>)
                | None \<Rightarrow> upd_rq s c (\<lambda>q. q\<lparr>rq_heads := (rq_heads q)[p := nx]\<rparr>));
          s2 = (if rq_tails (rqs s1 ! c) ! p = Some t then upd_rq s1 c (\<lambda>q. q\<lparr>rq_tails := (rq_tails q)[p := prev]\<rparr>) else s1);
          s3 = upd_task s2 t (\<lambda>k. k\<lparr>tk_next := None\<rparr>);
          s4 = (if rq_heads (rqs s3 ! c) ! p = None then upd_rq s3 c (\<lambda>q. q\<lparr>rq_bitmap := rq_bitmap q AND NOT (2 ^ p)\<rparr>) else s3)
      in upd_rq s4 c (\<lambda>q. q\<lparr>nr_running := nr_running q - 1\<rparr>))"

definition remove_from_runqueue :: "sched \<Rightarrow> u64 \<Rightarrow> (bool \<times> sched) option" where
  "remove_from_runqueue s t =
     (let k = task_ref s t; c = unat (tk_cpu k); p = unat (tk_prio k)
      in if c \<ge> MAX_CPUS \<or> p \<ge> PRIORITY_LEVELS then None
         else do {
           r \<leftarrow> rq_search s t None (rq_heads (rqs s ! c) ! p);
           Some (case r of None \<Rightarrow> (False, s) | Some prev \<Rightarrow> (True, unlink_task s t c p prev)) })"

definition requeue_current :: "sched \<Rightarrow> nat \<Rightarrow> sched option" where
  "requeue_current s c =
     (let t = cur_task s c; k = task_ref s t
      in if t = 0 then Some s
         else if tk_state k = Running \<or> tk_state k = Ready
         then enqueue_task (upd_task s t (\<lambda>k. k\<lparr>tk_state := Ready\<rparr>)) t (tk_prio k)
         else Some s)"


section \<open>The scheduler\<close>

datatype pick = Stay | Switched u64 | Idle

definition enqueue_self :: "sched \<Rightarrow> u64 \<Rightarrow> sched option" where
  "enqueue_self s t = enqueue_task s t (tk_prio (task_ref s t))"

definition switch_task :: "sched \<Rightarrow> nat \<Rightarrow> u64 \<Rightarrow> (pick \<times> sched) option" where
  "switch_task s c next_id =
     (let cu = cur_task s c; st = tk_state (task_ref s cu)
      in do {
        s1 \<leftarrow> (if cu \<noteq> 0 \<and> st = Running then enqueue_self (upd_task s cu (\<lambda>k. k\<lparr>tk_state := Ready\<rparr>)) cu
               else if cu \<noteq> 0 \<and> st = Ready then enqueue_self s cu
               else Some s);
        Some (Switched next_id, upd_task (s1\<lparr>currents := (currents s1)[c := next_id]\<rparr>) next_id (\<lambda>k. k\<lparr>tk_state := Running\<rparr>)) })"

definition schedule_inner :: "sched \<Rightarrow> nat \<Rightarrow> bool \<Rightarrow> (pick \<times> sched) option" where
  "schedule_inner s c force =
     (if \<not> force \<and> in_syscall s c then Some (Stay, s)
      else let cu = cur_task s c in do {
        (first, s1) \<leftarrow> dequeue_task s c;
        case first of
          None \<Rightarrow> Some (Idle, s1)
        | Some t \<Rightarrow>
            if t \<noteq> cu then switch_task s1 c t
            else do {
              (second, s2) \<leftarrow> dequeue_task s1 c;
              case second of
                Some nxt \<Rightarrow>
                  if nxt \<noteq> cu then switch_task s2 c nxt
                  else do {
                    s3 \<leftarrow> enqueue_self s2 nxt;
                    s4 \<leftarrow> enqueue_self s3 cu;
                    Some (Stay, upd_task s4 cu (\<lambda>k. k\<lparr>tk_state := Running\<rparr>)) }
              | None \<Rightarrow> do {
                  s4 \<leftarrow> enqueue_self s2 cu;
                  Some (Stay, upd_task s4 cu (\<lambda>k. k\<lparr>tk_state := Running\<rparr>)) } } })"

text \<open>One round of the idle loop of \<^verbatim>\<open>schedule_inner\<close>, after an interrupt has ended the \<^verbatim>\<open>hlt\<close>.\<close>

definition idle_poll :: "sched \<Rightarrow> nat \<Rightarrow> (pick \<times> sched) option" where
  "idle_poll s c = do {
     (r, s1) \<leftarrow> dequeue_task s c;
     case r of
       None \<Rightarrow> Some (Idle, s1)
     | Some t \<Rightarrow> if t \<noteq> cur_task s c then switch_task s1 c t else Some (Stay, upd_task s1 t (\<lambda>k. k\<lparr>tk_state := Running\<rparr>)) }"

definition yield_now :: "sched \<Rightarrow> nat \<Rightarrow> (pick \<times> sched) option" where
  "yield_now s c =
     (let t = cur_task s c
      in if t = 0 then Some (Stay, s)
         else schedule_inner (if tk_state (task_ref s t) = Running then upd_task s t (\<lambda>k. k\<lparr>tk_state := Ready\<rparr>) else s) c False)"

definition yield_now_force :: "sched \<Rightarrow> nat \<Rightarrow> (pick \<times> sched) option" where
  "yield_now_force s c =
     (let t = cur_task s c
      in if t = 0 then Some (Stay, s)
         else schedule_inner (if tk_state (task_ref s t) = Running
                then upd_task s t (\<lambda>k. k\<lparr>tk_state := Ready, tk_slice := initial_time_slice (tk_prio k)\<rparr>) else s) c True)"

section \<open>Waking\<close>

text \<open>The scan that \<^verbatim>\<open>futex_wake\<close> and \<^verbatim>\<open>wakeup_expired_sleepers\<close> share: in slot order, each task that matches is
  changed and put on its run queue, until \<open>m\<close> tasks have been woken.\<close>

fun wake_scan :: "(task \<Rightarrow> bool) \<Rightarrow> (task \<Rightarrow> task) \<Rightarrow> nat \<Rightarrow> nat list \<Rightarrow> nat \<Rightarrow> sched \<Rightarrow> (nat \<times> sched) option" where
  "wake_scan P f m [] w s = Some (w, s)"
| "wake_scan P f m (i # is) w s =
     (if w \<ge> m then Some (w, s)
      else if P (tasks s ! i)
      then do {
        s1 \<leftarrow> enqueue_task (upd_slot s i f) (tk_id (tasks s ! i)) (tk_prio (tasks s ! i));
        wake_scan P f m is (w + 1) s1 }
      else wake_scan P f m is w s)"

definition waits_on :: "u64 \<Rightarrow> task \<Rightarrow> bool" where
  "waits_on a k \<longleftrightarrow> tk_state k = Blocked \<and> tk_blocked_on k = a \<and> tk_id k \<noteq> 0"

definition woken :: "task \<Rightarrow> task" where
  "woken k = k\<lparr>tk_state := Ready, tk_blocked_on := 0, tk_wakeup := 0, tk_deadline := 0\<rparr>"

definition futex_wake :: "sched \<Rightarrow> u64 \<Rightarrow> u32 \<Rightarrow> (int \<times> sched) option" where
  "futex_wake s a m = map_option (\<lambda>(w, s1). (int w, s1)) (wake_scan (waits_on a) woken (unat m) [0..<MAX_TASKS] 0 s)"

definition expired :: "u64 \<Rightarrow> task \<Rightarrow> bool" where
  "expired now k \<longleftrightarrow> tk_state k = Blocked \<and> tk_wakeup k > 0 \<and> tk_wakeup k \<le> now \<and> tk_id k \<noteq> 0"

definition timer_woken :: "task \<Rightarrow> task" where
  "timer_woken k = k\<lparr>tk_state := Ready, tk_wakeup := 0\<rparr>"

definition wakeup_expired_sleepers :: "sched \<Rightarrow> sched option" where
  "wakeup_expired_sleepers s = map_option snd (wake_scan (expired (ticks s)) timer_woken MAX_TASKS [0..<MAX_TASKS] 0 s)"

definition inc_ticks :: "sched \<Rightarrow> nat \<Rightarrow> sched" where
  "inc_ticks s c = (if c = 0 then s\<lparr>ticks := ticks s + 1\<rparr> else s)"

definition timer_schedule :: "sched \<Rightarrow> nat \<Rightarrow> (pick \<times> sched) option" where
  "timer_schedule s0 c =
     (if c \<noteq> 0 then Some (Stay, s0)
      else do {
        s \<leftarrow> wakeup_expired_sleepers s0;
        let cu = cur_task s c; k = task_ref s cu
        in if cu = 0 \<or> in_syscall s c \<or> tk_user_stack k = 0 \<or> tk_cs k AND 3 = 0 then Some (Stay, s)
           else let s1 = (if tk_slice k > 0 then upd_task s cu (\<lambda>k. k\<lparr>tk_slice := tk_slice k - 1\<rparr>) else s)
                in if tk_state k \<noteq> Running \<or> tk_slice (task_ref s1 cu) > 0 then Some (Stay, s1)
                   else let s2 = upd_task s1 cu (\<lambda>k. k\<lparr>tk_slice := initial_time_slice (tk_prio k)\<rparr>) in do {
                     (r, s3) \<leftarrow> dequeue_task s2 c;
                     case r of
                       None \<Rightarrow> Some (Stay, upd_task s3 cu (\<lambda>k. k\<lparr>tk_state := Running\<rparr>))
                     | Some next_id \<Rightarrow>
                         if next_id = cu then Some (Stay, upd_task s3 cu (\<lambda>k. k\<lparr>tk_state := Running\<rparr>))
                         else do {
                           s4 \<leftarrow> enqueue_self (upd_task s3 cu (\<lambda>k. k\<lparr>tk_state := Ready\<rparr>)) cu;
                           Some (Switched next_id, (upd_task s4 next_id (\<lambda>k. k\<lparr>tk_state := Running\<rparr>))
                             \<lparr>currents := (currents s4)[c := next_id]\<rparr>) } } })"

section \<open>Sleeping and futexes\<close>

definition sys_sleep :: "sched \<Rightarrow> nat \<Rightarrow> u64 \<Rightarrow> flow \<times> sched" where
  "sys_sleep s c n =
     (let t = cur_task s c
      in if t = 0 then (Return (- EINVAL), s)
         else (Suspend, upd_task s t (\<lambda>k. k\<lparr>tk_wakeup := ticks s + n, tk_state := Blocked\<rparr>)))"

definition sat_mul :: "u64 \<Rightarrow> u64 \<Rightarrow> u64" where
  "sat_mul a b = (if unat a * unat b < 2 ^ 64 then a * b else - 1)"

definition sat_add :: "u64 \<Rightarrow> u64 \<Rightarrow> u64" where
  "sat_add a b = (if unat a + unat b < 2 ^ 64 then a + b else - 1)"

text \<open>The deadline of a relative timeout, given as seconds and nanoseconds.\<close>

definition futex_deadline :: "u64 \<Rightarrow> u64 \<Rightarrow> u64 \<Rightarrow> u64" where
  "futex_deadline now sec nsec =
     (let total = (if sint sec < 0 \<or> sint nsec < 0 then 0 else sat_add (sat_mul sec 1000000000) nsec)
      in sat_add now ((total + 19999999) div 20000000))"

text \<open>\<^verbatim>\<open>user_range_valid\<close> on the futex word and on the timeout is the argument \<open>ok\<close>; the timeout is its address.\<close>

definition futex_wait :: "(u64 \<Rightarrow> nat \<Rightarrow> bool) \<Rightarrow> sched \<Rightarrow> nat \<Rightarrow> u64 \<Rightarrow> u32 \<Rightarrow> u64 \<Rightarrow> (flow \<times> sched) option" where
  "futex_wait ok s c uaddr val timeout =
     (if \<not> ok uaddr 4 then Some (Return (- EFAULT), s)
      else if load 4 (umem s) uaddr \<noteq> val then Some (Return (- EAGAIN), s)
      else let t = cur_task s c
           in if t = 0 then Some (Return (- EINVAL), s)
              else if timeout \<noteq> 0 \<and> \<not> ok timeout 16 then Some (Return (- EFAULT), s)
              else let d = (if timeout = 0 then 0
                            else futex_deadline (ticks s) (load 8 (umem s) timeout) (load 8 (umem s) (timeout + 8)))
                   in do {
                     (_, s1) \<leftarrow> remove_from_runqueue s t;
                     Some (Suspend, upd_task s1 t (\<lambda>k. k\<lparr>tk_blocked_on := uaddr, tk_state := Blocked,
                       tk_wakeup := d, tk_deadline := d\<rparr>)) })"

definition futex_wait_resumed :: "sched \<Rightarrow> u64 \<Rightarrow> int \<times> sched" where
  "futex_wait_resumed s t =
     (if tk_deadline (task_ref s t) \<noteq> 0 then (- ETIMEDOUT, upd_task s t (\<lambda>k. k\<lparr>tk_deadline := 0\<rparr>)) else (0, s))"

definition block_on_futex :: "sched \<Rightarrow> nat \<Rightarrow> u64 \<Rightarrow> (flow \<times> sched) option" where
  "block_on_futex s c uaddr =
     (let t = cur_task s c
      in if t = 0 then Some (Return 0, s)
         else do {
           (_, s1) \<leftarrow> remove_from_runqueue s t;
           Some (Suspend, upd_task s1 t (\<lambda>k. k\<lparr>tk_blocked_on := uaddr, tk_state := Blocked\<rparr>)) })"

definition futex_lock_pi :: "sched \<Rightarrow> nat \<Rightarrow> u64 \<Rightarrow> (flow \<times> sched) option" where
  "futex_lock_pi s c uaddr =
     (let t = cur_task s c
      in if t = 0 then Some (Return (- EINVAL), s)
         else let prev = load 4 (umem s) uaddr :: u32
              in if prev = 0 then Some (Return 0, s\<lparr>umem := store 4 (umem s) uaddr (ucast t :: u32)\<rparr>)
                 else let owner = ucast (prev AND NOT FUTEX_WAITERS) :: u64;
                          s1 = (if prev AND FUTEX_WAITERS = 0 then s\<lparr>umem := store 4 (umem s) uaddr (prev OR FUTEX_WAITERS)\<rparr> else s);
                          p = tk_prio (task_ref s1 t)
                      in do {
                        s2 \<leftarrow> (if tk_state (task_ref s1 owner) \<noteq> Empty \<and> tk_prio (task_ref s1 owner) > p
                               then do {
                                 (_, s2) \<leftarrow> remove_from_runqueue s1 owner;
                                 let s3 = upd_task s2 owner (\<lambda>k. k\<lparr>tk_prio := p, tk_boosted := True\<rparr>)
                                 in if tk_state (task_ref s3 owner) = Ready then enqueue_task s3 owner p else Some s3 }
                               else Some s1);
                        let s3 = upd_task s2 t (\<lambda>k. k\<lparr>tk_blocked_on := uaddr, tk_state := Blocked\<rparr>)
                        in Some (if in_syscall s3 c then Return 0 else Suspend, s3) })"

definition better_waiter :: "u64 \<Rightarrow> task \<Rightarrow> (u64 \<times> u8) option \<Rightarrow> (u64 \<times> u8) option" where
  "better_waiter a k best =
     (if waits_on a k \<and> (case best of None \<Rightarrow> True | Some (_, p) \<Rightarrow> tk_prio k < p) then Some (tk_id k, tk_prio k) else best)"

definition futex_unlock_pi :: "sched \<Rightarrow> nat \<Rightarrow> u64 \<Rightarrow> (int \<times> sched) option" where
  "futex_unlock_pi s c uaddr =
     (let t = cur_task s c
      in if t = 0 then Some (- EINVAL, s)
         else do {
           s1 \<leftarrow> (if tk_boosted (task_ref s t)
                  then let old = tk_prio (task_ref s t);
                           s1 = upd_task s t (\<lambda>k. k\<lparr>tk_boosted := False, tk_prio := tk_static_prio k\<rparr>)
                       in if tk_state (task_ref s1 t) = Ready \<and> old \<noteq> tk_prio (task_ref s1 t)
                          then do { (_, s2) \<leftarrow> remove_from_runqueue s1 t; enqueue_self s2 t } else Some s1
                  else Some s);
           case fold (better_waiter uaddr) (tasks s1) None of
             Some (w, _) \<Rightarrow>
               let s2 = s1\<lparr>umem := store 4 (umem s1) uaddr (ucast w OR FUTEX_WAITERS :: u32)\<rparr>
               in do { s3 \<leftarrow> enqueue_self (upd_task s2 w woken) w; Some (0, s3) }
           | None \<Rightarrow> Some (0, s1\<lparr>umem := store 4 (umem s1) uaddr (0 :: u32)\<rparr>) })"

definition sys_futex :: "(u64 \<Rightarrow> nat \<Rightarrow> bool) \<Rightarrow> sched \<Rightarrow> nat \<Rightarrow> u64 \<Rightarrow> i32 \<Rightarrow> u32 \<Rightarrow> u64 \<Rightarrow> (flow \<times> sched) option" where
  "sys_futex ok s c uaddr fop val uaddr2 =
     (let cmd = fop AND NOT (128 OR 256); ret = map_option (\<lambda>(r, s1). (Return r, s1))
      in if cmd = 0 \<or> cmd = 9 then futex_wait ok s c uaddr val uaddr2
         else if cmd = 1 \<or> cmd = 8 then ret (futex_wake s uaddr val)
         else if cmd = 6 then futex_lock_pi s c uaddr
         else if cmd = 7 then ret (futex_unlock_pi s c uaddr)
         else Some (Return (- ENOSYS), s))"

end
