(* ===== verification/Sched_Queues.thy ===== *)
theory Sched_Queues
  imports Sched
begin

text \<open>
  The run queues as lists. \<open>rq_ok s Q\<close> says that the linked lists, tails, bitmaps and counters of all CPUs represent the
  queues \<open>Q c p\<close> of CPU \<open>c\<close> and priority level \<open>p\<close>; enqueueing, dequeueing and removing a task are refined to list
  operations, and the run queue of a CPU implements the interface \<open>level_queues\<close>.
\<close>

unbundle bit_operations_syntax

type_synonym queues = "nat \<Rightarrow> nat \<Rightarrow> u64 list"

definition link :: "sched \<Rightarrow> u64 \<Rightarrow> u64 option" where
  "link s t = tk_next (task_ref s t)"

fun chain :: "(u64 \<Rightarrow> u64 option) \<Rightarrow> u64 option \<Rightarrow> u64 list \<Rightarrow> bool" where
  "chain nx h [] \<longleftrightarrow> h = None"
| "chain nx h (t # ts) \<longleftrightarrow> h = Some t \<and> chain nx (nx t) ts"

definition last_opt :: "'a list \<Rightarrow> 'a option" where
  "last_opt xs = (if xs = [] then None else Some (last xs))"

definition queue_ok :: "sched \<Rightarrow> run_queue \<Rightarrow> (nat \<Rightarrow> u64 list) \<Rightarrow> bool" where
  "queue_ok s q L \<longleftrightarrow>
     length (rq_heads q) = PRIORITY_LEVELS \<and> length (rq_tails q) = PRIORITY_LEVELS \<and>
     (\<forall>p < PRIORITY_LEVELS. chain (link s) (rq_heads q ! p) (L p) \<and> rq_tails q ! p = last_opt (L p)) \<and>
     (\<forall>p. bit (rq_bitmap q) p \<longleftrightarrow> p < PRIORITY_LEVELS \<and> L p \<noteq> []) \<and>
     nr_running q = of_nat (\<Sum>p < PRIORITY_LEVELS. length (L p))"

definition home :: "sched \<Rightarrow> u64 \<Rightarrow> nat \<Rightarrow> nat \<Rightarrow> bool" where
  "home s t c p \<longleftrightarrow> unat t < MAX_TASKS \<and> unat (tk_cpu (task_ref s t)) = c \<and> unat (tk_prio (task_ref s t)) = p"

definition rq_ok :: "sched \<Rightarrow> queues \<Rightarrow> bool" where
  "rq_ok s Q \<longleftrightarrow> length (tasks s) = MAX_TASKS \<and> length (rqs s) = MAX_CPUS \<and>
     (\<forall>c < MAX_CPUS. queue_ok s (rqs s ! c) (Q c)) \<and>
     (\<forall>c p. distinct (Q c p)) \<and>
     (\<forall>c p. \<forall>t \<in> set (Q c p). c < MAX_CPUS \<and> p < PRIORITY_LEVELS \<and> home s t c p)"

definition set_queue :: "queues \<Rightarrow> nat \<Rightarrow> nat \<Rightarrow> u64 list \<Rightarrow> queues" where
  "set_queue Q c p xs = Q(c := (Q c)(p := xs))"

lemmas sizes = MAX_TASKS_def MAX_CPUS_def PRIORITY_LEVELS_def

section \<open>Updates\<close>

lemma task_idx_less [simp]: "task_idx t < MAX_TASKS"
  by (simp add: task_idx_def MAX_TASKS_def)

lemma task_idx_eq: "unat t < MAX_TASKS \<Longrightarrow> unat u < MAX_TASKS \<Longrightarrow> task_idx t = task_idx u \<longleftrightarrow> t = u"
  by (simp add: task_idx_def word_unat_eq_iff)

lemma upd_slot_simps [simp]:
  "rqs (upd_slot s i f) = rqs s" "length (tasks (upd_slot s i f)) = length (tasks s)"
  "currents (upd_slot s i f) = currents s" "umem (upd_slot s i f) = umem s"
  "signal_locked (upd_slot s i f) = signal_locked s" "pid_bitmap (upd_slot s i f) = pid_bitmap s"
  "ticks (upd_slot s i f) = ticks s"
  by (simp_all add: upd_slot_def)

lemma upd_rq_simps [simp]:
  "tasks (upd_rq s c f) = tasks s" "length (rqs (upd_rq s c f)) = length (rqs s)" "task_ref (upd_rq s c f) = task_ref s"
  "currents (upd_rq s c f) = currents s" "umem (upd_rq s c f) = umem s" "link (upd_rq s c f) = link s"
  "signal_locked (upd_rq s c f) = signal_locked s" "pid_bitmap (upd_rq s c f) = pid_bitmap s" "ticks (upd_rq s c f) = ticks s"
  by (simp_all add: upd_rq_def task_ref_def link_def fun_eq_iff)

lemma rqs_upd_rq [simp]: "c < length (rqs s) \<Longrightarrow> rqs (upd_rq s c f) ! d = (if d = c then f (rqs s ! c) else rqs s ! d)"
  by (auto simp: upd_rq_def)

lemma task_ref_upd [simp]:
  "length (tasks s) = MAX_TASKS \<Longrightarrow>
     task_ref (upd_slot s i f) u = (if task_idx u = i then f (tasks s ! i) else task_ref s u)"
  by (auto simp: upd_slot_def task_ref_def)

section \<open>Chains\<close>

lemma next_chain_cong: "\<forall>t \<in> set xs. nx' t = nx t \<Longrightarrow> chain nx' h xs = chain nx h xs"
  by (induction xs arbitrary: h) auto

lemma chain_snoc:
  assumes "chain nx h xs" and "xs \<noteq> []" and "distinct xs" and "t \<notin> set xs"
  shows "chain (nx(last xs := Some t, t := None)) h (xs @ [t])"
  using assms
proof (induction xs arbitrary: h)
  case (Cons x xs)
  show ?case
  proof (cases "xs = []")
    case False
    then have "last xs \<in> set xs" by simp
    then have "last xs \<noteq> x" using Cons.prems by auto
    then show ?thesis using Cons False by auto
  qed (use Cons in auto)
qed simp

lemma chain_end: "chain nx h xs \<Longrightarrow> xs \<noteq> [] \<Longrightarrow> nx (last xs) = None"
  by (induction xs arbitrary: h) auto

lemma chain_hd: "chain nx h xs \<Longrightarrow> h = (case xs of [] \<Rightarrow> None | t # _ \<Rightarrow> Some t)"
  by (cases xs) auto

lemma chain_split:
  "chain nx h (xs @ t # ys) \<Longrightarrow> (if xs = [] then h = Some t else nx (last xs) = Some t) \<and> chain nx (nx t) ys"
proof (induction xs arbitrary: h)
  case (Cons x xs)
  from Cons.prems have "chain nx (nx x) (xs @ t # ys)" by simp
  from Cons.IH [OF this] show ?case by (cases "xs = []") simp_all
qed simp

lemma chain_remove:
  assumes "chain nx h (xs @ t # ys)" and "distinct (xs @ t # ys)" and "xs \<noteq> []"
  shows "chain (nx(last xs := nx t, t := None)) h (xs @ ys)"
  using assms
proof (induction xs arbitrary: h)
  case (Cons x xs)
  show ?case
  proof (cases "xs = []")
    case True
    with Cons.prems have "chain (nx(x := nx t, t := None)) (nx t) ys = chain nx (nx t) ys" by (intro next_chain_cong) auto
    with True Cons.prems show ?thesis by (simp del: fun_upd_apply) (simp add: fun_upd_same)
  next
    case False
    then have "last xs \<noteq> x" using Cons.prems last_in_set [OF False] by auto
    then show ?thesis using Cons False by auto
  qed
qed simp

lemma search_chain:
  assumes "chain (link s) h (xs @ t # ys)" and "t \<notin> set xs"
  shows "rq_search s t pr h = Some (Some (if xs = [] then pr else Some (last xs)))"
  using assms
  by (induction xs arbitrary: h pr) (subst rq_search.simps, auto simp: link_def)+

lemma search_absent: "chain (link s) h xs \<Longrightarrow> t \<notin> set xs \<Longrightarrow> rq_search s t pr h = Some None"
  by (induction xs arbitrary: h pr) (subst rq_search.simps, auto simp: link_def)+


section \<open>One list changes\<close>

lemma rq_okD:
  assumes "rq_ok s Q"
  shows "length (tasks s) = MAX_TASKS" and "length (rqs s) = MAX_CPUS" and "distinct (Q c p)"
    and "t \<in> set (Q c p) \<Longrightarrow> c < MAX_CPUS \<and> p < PRIORITY_LEVELS \<and> home s t c p"
    and "c < MAX_CPUS \<Longrightarrow> queue_ok s (rqs s ! c) (Q c)"
  using assms by (auto simp: rq_ok_def)

lemma queue_okD:
  assumes "queue_ok s q L"
  shows "length (rq_heads q) = PRIORITY_LEVELS" and "length (rq_tails q) = PRIORITY_LEVELS"
    and "p < PRIORITY_LEVELS \<Longrightarrow> chain (link s) (rq_heads q ! p) (L p)"
    and "p < PRIORITY_LEVELS \<Longrightarrow> rq_tails q ! p = last_opt (L p)"
    and "bit (rq_bitmap q) p \<longleftrightarrow> p < PRIORITY_LEVELS \<and> L p \<noteq> []"
    and "nr_running q = of_nat (\<Sum>p < PRIORITY_LEVELS. length (L p))"
  using assms by (auto simp: queue_ok_def)

lemma sum_one_changed:
  fixes f g :: "nat \<Rightarrow> nat"
  assumes "p < n" and "\<And>i. i \<noteq> p \<Longrightarrow> g i = f i"
  shows "(\<Sum>i < n. g i) + f p = (\<Sum>i < n. f i) + g p"
proof -
  have "(\<Sum>i < n. g i) = g p + (\<Sum>i \<in> {..<n} - {p}. g i)" "(\<Sum>i < n. f i) = f p + (\<Sum>i \<in> {..<n} - {p}. f i)"
    using assms(1) by (simp_all add: sum.remove)
  moreover have "(\<Sum>i \<in> {..<n} - {p}. g i) = (\<Sum>i \<in> {..<n} - {p}. f i)" using assms(2) by (intro sum.cong) auto
  ultimately show ?thesis by simp
qed

text \<open>What an operation on the list of CPU \<open>c\<close> and level \<open>p\<close> has to establish.\<close>

lemma rq_ok_one:
  assumes ok: "rq_ok s Q" and cp: "c < MAX_CPUS" "p < PRIORITY_LEVELS"
    and len: "length (tasks s') = length (tasks s)" "length (rqs s') = length (rqs s)"
    and home: "\<And>u d q. home s' u d q = home s u d q"
    and links: "\<And>u d q. u \<in> set (Q d q) \<Longrightarrow> (d, q) \<noteq> (c, p) \<Longrightarrow> link s' u = link s u"
    and others: "\<And>d. d \<noteq> c \<Longrightarrow> rqs s' ! d = rqs s ! d"
    and hd: "rq_heads (rqs s' ! c) = (rq_heads (rqs s ! c))[p := h]"
    and tl: "rq_tails (rqs s' ! c) = (rq_tails (rqs s ! c))[p := last_opt xs]"
    and bm: "\<And>i. bit (rq_bitmap (rqs s' ! c)) i \<longleftrightarrow> (if i = p then xs \<noteq> [] else bit (rq_bitmap (rqs s ! c)) i)"
    and nr: "nr_running (rqs s' ! c) + of_nat (length (Q c p)) = nr_running (rqs s ! c) + of_nat (length xs)"
    and xs: "chain (link s') h xs" "distinct xs" "\<And>t. t \<in> set xs \<Longrightarrow> home s t c p"
  shows "rq_ok s' (set_queue Q c p xs)"
proof -
  note d = rq_okD [OF ok]
  have qc: "queue_ok s (rqs s ! c) (Q c)" by (rule d(5) [OF cp(1)])
  note qd = queue_okD [OF qc]
  have ch: "chain (link s') g (Q e q) = chain (link s) g (Q e q)" if "(e, q) \<noteq> (c, p)" for g e q
    using links that by (intro next_chain_cong) blast
  have "(\<Sum>i < PRIORITY_LEVELS. length (((Q c)(p := xs)) i)) + length (Q c p) =
      (\<Sum>i < PRIORITY_LEVELS. length (Q c i)) + length xs"
    using sum_one_changed [OF cp(2), of "\<lambda>i. length (((Q c)(p := xs)) i)" "\<lambda>i. length (Q c i)"] by simp
  then have "(of_nat (\<Sum>i < PRIORITY_LEVELS. length (((Q c)(p := xs)) i)) :: u32) + of_nat (length (Q c p)) =
      of_nat (\<Sum>i < PRIORITY_LEVELS. length (Q c i)) + of_nat (length xs)"
    by (metis of_nat_add)
  with nr qd(6) have "nr_running (rqs s' ! c) = of_nat (\<Sum>i < PRIORITY_LEVELS. length (((Q c)(p := xs)) i))"
    by (metis add_right_cancel)
  then have "queue_ok s' (rqs s' ! c) ((Q c)(p := xs))"
    using qd(1-5) cp(2) xs(1) ch hd tl bm unfolding queue_ok_def by (auto simp: nth_list_update)
  moreover have "queue_ok s' (rqs s' ! e) (Q e)" if "e < MAX_CPUS" "e \<noteq> c" for e
    using queue_okD [OF d(5) [OF that(1)]] that ch others unfolding queue_ok_def by auto
  ultimately show ?thesis
    using d(1-4) len xs(2,3) cp home unfolding rq_ok_def set_queue_def by auto
qed

lemma home_unique: "home s t c p \<Longrightarrow> home s t d q \<Longrightarrow> (d, q) = (c, p)"
  by (auto simp: home_def)

lemma in_other_list: "rq_ok s Q \<Longrightarrow> home s t c p \<Longrightarrow> t \<in> set (Q d q) \<Longrightarrow> (d, q) = (c, p)"
  using rq_okD(4) home_unique by metis

lemma not_in_other_list:
  "rq_ok s Q \<Longrightarrow> home s t c p \<Longrightarrow> u \<in> set (Q d q) \<Longrightarrow> (d, q) \<noteq> (c, p) \<Longrightarrow> task_idx u \<noteq> task_idx t"
  using in_other_list rq_okD(4) by (metis home_def task_idx_eq)

lemma link_upd:
  "length (tasks s) = MAX_TASKS \<Longrightarrow> link (upd_task s t (\<lambda>k. k\<lparr>tk_next := v\<rparr>)) u =
     (if task_idx u = task_idx t then v else link s u)"
  by (simp add: link_def)

lemma home_upd_next [simp]:
  "length (tasks s) = MAX_TASKS \<Longrightarrow> home (upd_task s t (\<lambda>k. k\<lparr>tk_next := v\<rparr>)) u d q = home s u d q"
  by (cases "task_idx u = task_idx t"; simp add: home_def; simp add: task_ref_def)

lemma home_upd_rq [simp]: "home (upd_rq s c f) = home s"
  by (simp add: home_def fun_eq_iff)


text \<open>A run-queue operation changes nothing but the links and the queues: it keeps the state without them.\<close>

definition unlinked :: "sched \<Rightarrow> sched" where
  "unlinked s = s\<lparr>tasks := map (\<lambda>k. k\<lparr>tk_next := None\<rparr>) (tasks s), rqs := []\<rparr>"

lemma unlinked_next [simp]: "unlinked (upd_slot s i (\<lambda>k. k\<lparr>tk_next := v\<rparr>)) = unlinked s"
  by (cases "i < length (tasks s)") (simp_all add: unlinked_def upd_slot_def map_update list_update_same_conv list_update_beyond)

lemma unlinked_rq [simp]: "unlinked (upd_rq s c f) = unlinked s"
  by (simp add: unlinked_def upd_rq_def)

lemma unlinkedD:
  assumes "unlinked s' = unlinked s"
  shows "length (tasks s') = length (tasks s)" and "currents s' = currents s" and "umem s' = umem s"
    and "signal_locked s' = signal_locked s" and "pid_bitmap s' = pid_bitmap s" and "ticks s' = ticks s"
    and "user_rsp s' = user_rsp s" and "pending_restore s' = pending_restore s"
proof -
  have e: "map (\<lambda>k. k\<lparr>tk_next := None\<rparr>) (tasks s') = map (\<lambda>k. k\<lparr>tk_next := None\<rparr>) (tasks s)"
    using arg_cong [OF assms, of tasks] by (simp add: unlinked_def)
  then show "length (tasks s') = length (tasks s)" by (rule map_eq_imp_length_eq)
  show "currents s' = currents s" "umem s' = umem s" "signal_locked s' = signal_locked s" "pid_bitmap s' = pid_bitmap s"
    "ticks s' = ticks s" "user_rsp s' = user_rsp s" "pending_restore s' = pending_restore s"
    using arg_cong [OF assms, of currents] arg_cong [OF assms, of umem] arg_cong [OF assms, of signal_locked]
      arg_cong [OF assms, of pid_bitmap] arg_cong [OF assms, of ticks] arg_cong [OF assms, of user_rsp]
      arg_cong [OF assms, of pending_restore] by (simp_all add: unlinked_def)
qed

lemma unlinked_slot:
  assumes "unlinked s' = unlinked s" and "i < length (tasks s)"
  shows "tasks s' ! i = (tasks s ! i)\<lparr>tk_next := tk_next (tasks s' ! i)\<rparr>"
proof -
  have "map (\<lambda>k. k\<lparr>tk_next := None\<rparr>) (tasks s') ! i = map (\<lambda>k. k\<lparr>tk_next := None\<rparr>) (tasks s) ! i"
    using arg_cong [OF assms(1), of tasks] by (simp add: unlinked_def)
  then have "(tasks s' ! i)\<lparr>tk_next := None\<rparr> = (tasks s ! i)\<lparr>tk_next := None\<rparr>"
    using assms(2) unlinkedD(1) [OF assms(1)] by simp
  then have "(tasks s' ! i)\<lparr>tk_next := None\<rparr>\<lparr>tk_next := tk_next (tasks s' ! i)\<rparr> =
      (tasks s ! i)\<lparr>tk_next := None\<rparr>\<lparr>tk_next := tk_next (tasks s' ! i)\<rparr>" by (rule arg_cong)
  then show ?thesis by simp
qed

section \<open>The operations\<close>

lemma enqueue_ok:
  assumes ok: "rq_ok s Q" and h: "home s t c p" and cp: "c < MAX_CPUS" "unat pr = p" "p < PRIORITY_LEVELS"
    and new: "t \<notin> set (Q c p)"
  shows "\<exists>s'. enqueue_task s t pr = Some s' \<and> rq_ok s' (set_queue Q c p (Q c p @ [t])) \<and> unlinked s' = unlinked s"
proof -
  note d = rq_okD [OF ok]
  note q = queue_okD [OF d(5) [OF cp(1)]]
  have c: "unat (tk_cpu (task_ref s t)) = c" "unat t < MAX_TASKS" using h by (simp_all add: home_def)
  define s1 where "s1 = upd_task s t (\<lambda>k. k\<lparr>tk_next := None\<rparr>)"
  show ?thesis
  proof (cases "Q c p = []")
    case True
    then have tl: "rq_tails (rqs s1 ! c) ! p = None" using q(4) cp by (simp add: s1_def last_opt_def)
    let ?s = "upd_rq s1 c (\<lambda>q. q\<lparr>rq_heads := (rq_heads q)[p := Some t], rq_tails := (rq_tails q)[p := Some t],
        rq_bitmap := rq_bitmap q OR 2 ^ p, nr_running := nr_running q + 1\<rparr>)"
    have "enqueue_task s t pr = Some ?s" using c cp tl by (simp add: enqueue_task_def Let_def s1_def)
    moreover have "rq_ok ?s (set_queue Q c p [t])"
    proof (rule rq_ok_one [OF ok cp(1,3)])
      fix u dd qq assume u: "u \<in> set (Q dd qq)" "(dd, qq) \<noteq> (c, p)"
      then show "link ?s u = link s u"
        using not_in_other_list [OF ok h] d(1) by (simp add: s1_def link_upd)
    qed (use d(1,2) cp True h in \<open>auto simp: s1_def last_opt_def link_upd bit_mask_or PRIORITY_LEVELS_def\<close>)
    ultimately show ?thesis using True by (simp add: s1_def)
  next
    case False
    define w where "w = last (Q c p)"
    have w: "w \<in> set (Q c p)" using False by (simp add: w_def)
    then have hw: "home s w c p" using d(4) by blast
    have ne: "task_idx w \<noteq> task_idx t" using w new hw c by (metis home_def task_idx_eq)
    have tl: "rq_tails (rqs s1 ! c) ! p = Some w" using q(4) cp False by (simp add: s1_def last_opt_def w_def)
    define s2 where "s2 = upd_task s1 w (\<lambda>k. k\<lparr>tk_next := Some t\<rparr>)"
    let ?s = "upd_rq s2 c (\<lambda>q. q\<lparr>rq_tails := (rq_tails q)[p := Some t], nr_running := nr_running q + 1\<rparr>)"
    let ?h = "rq_heads (rqs s ! c) ! p"
    have e: "enqueue_task s t pr = Some ?s" using c cp tl by (simp add: enqueue_task_def Let_def s1_def s2_def)
    have lk: "link ?s u = (if task_idx u = task_idx w then Some t else if task_idx u = task_idx t then None else link s u)" for u
      using d(1) by (simp add: s1_def s2_def link_upd)
    have "chain (link ?s) ?h (Q c p @ [t]) = chain ((link s)(w := Some t, t := None)) ?h (Q c p @ [t])"
    proof (rule next_chain_cong, rule ballI)
      fix u assume "u \<in> set (Q c p @ [t])"
      then have "unat u < MAX_TASKS" using d(4) c(2) by (auto simp: home_def)
      then show "link ?s u = ((link s)(w := Some t, t := None)) u"
        using lk hw c(2) ne by (auto simp: task_idx_eq home_def)
    qed
    then have ch: "chain (link ?s) ?h (Q c p @ [t])"
      using chain_snoc [OF q(3) [OF cp(3)] False d(3) new] by (simp add: w_def)
    have "rq_ok ?s (set_queue Q c p (Q c p @ [t]))"
    proof (rule rq_ok_one [OF ok cp(1,3) _ _ _ _ _ _ _ _ _ ch])
      fix u dd qq assume u: "u \<in> set (Q dd qq)" "(dd, qq) \<noteq> (c, p)"
      then show "link ?s u = link s u"
        using not_in_other_list [OF ok h] not_in_other_list [OF ok hw] lk by simp
    qed (use d cp False h new q(5) in \<open>auto simp: s1_def s2_def last_opt_def\<close>)
    then show ?thesis using e by (simp add: s1_def s2_def)
  qed
qed

lemma takeWhile_upt:
  fixes P n
  defines "k \<equiv> length (takeWhile P [0..<n])"
  shows "k \<le> n" and "i < k \<Longrightarrow> P i" and "k < n \<Longrightarrow> \<not> P k"
proof -
  show kn: "k \<le> n" using length_takeWhile_le [of P "[0..<n]"] by (simp add: k_def)
  show "P i" if "i < k"
  proof -
    from that kn have "takeWhile P [0..<n] ! i = i" unfolding k_def by (subst takeWhile_nth) auto
    then have "i \<in> set (takeWhile P [0..<n])" using that nth_mem [of i "takeWhile P [0..<n]"] by (simp add: k_def)
    then show ?thesis by (auto dest: set_takeWhileD)
  qed
  show "\<not> P k" if "k < n" using nth_length_takeWhile [of P "[0..<n]"] that by (simp add: k_def)
qed

lemma trailing_zeros_least:
  assumes "w \<noteq> 0"
  shows "bit w (trailing_zeros w)" and "i < trailing_zeros w \<Longrightarrow> \<not> bit w i"
proof -
  note tw = takeWhile_upt [where P = "\<lambda>i. \<not> bit w i" and n = 64, folded trailing_zeros_def]
  obtain j where j: "bit w j" using assms by (metis bit_0_eq bit_eqI bot_apply bot_bool_def)
  then have "j < 64" using bit_imp_le_length [OF j] by simp
  with tw(1,2) j have "trailing_zeros w < 64" by (metis order_le_less)
  with tw(3) show "bit w (trailing_zeros w)" by blast
  show "i < trailing_zeros w \<Longrightarrow> \<not> bit w i" by (rule tw(2))
qed

lemma dequeue_none:
  assumes ok: "rq_ok s Q" and c: "c < MAX_CPUS" and none: "\<forall>p < PRIORITY_LEVELS. Q c p = []"
  shows "dequeue_task s c = Some (None, s)"
proof -
  have "rq_bitmap (rqs s ! c) = 0"
    using queue_okD(5) [OF rq_okD(5) [OF ok c]] none by (intro bit_eqI) auto
  then show ?thesis by (simp add: dequeue_task_def)
qed

lemma dequeue_ok:
  assumes ok: "rq_ok s Q" and c: "c < MAX_CPUS" and p: "p < PRIORITY_LEVELS" "Q c p = t # ts" "\<forall>i < p. Q c i = []"
  shows "\<exists>s'. dequeue_task s c = Some (Some t, s') \<and> rq_ok s' (set_queue Q c p ts) \<and> unlinked s' = unlinked s"
proof -
  note d = rq_okD [OF ok]
  note q = queue_okD [OF d(5) [OF c]]
  have b: "bit (rq_bitmap (rqs s ! c)) p" using q(5) p by simp
  then have nz: "rq_bitmap (rqs s ! c) \<noteq> 0" by auto
  have "trailing_zeros (rq_bitmap (rqs s ! c)) = p"
    using trailing_zeros_least [OF nz] b q(5) p(3) by (metis linorder_neqE_nat)
  moreover have ch: "chain (link s) (rq_heads (rqs s ! c) ! p) (t # ts)" using q(3) [OF p(1)] p(2) by simp
  moreover have ht: "home s t c p" using d(4) [of t c p] p(2) by simp
  moreover define s1 where "s1 = upd_rq s c (\<lambda>q. q\<lparr>rq_heads := (rq_heads q)[p := link s t]\<rparr>)"
  moreover define s2 where "s2 = upd_task s1 t (\<lambda>k. k\<lparr>tk_next := None\<rparr>)"
  moreover define s3 where "s3 = (if link s t = None then upd_rq s2 c (\<lambda>q. q\<lparr>rq_tails := (rq_tails q)[p := None],
      rq_bitmap := rq_bitmap q AND NOT (2 ^ p)\<rparr>) else s2)"
  moreover define s4 where "s4 = upd_rq s3 c (\<lambda>q. q\<lparr>nr_running := nr_running q - 1\<rparr>)"
  ultimately have e: "dequeue_task s c = Some (Some t, s4)"
    using nz p(1) by (simp add: dequeue_task_def Let_def link_def)
  note defs = s1_def s2_def s3_def s4_def
  have nx: "link s t = None \<longleftrightarrow> ts = []" using ch by (cases ts) auto
  have dt: "distinct (t # ts)" using d(3) [of c p] p(2) by simp
  have lk: "link s4 u = (if task_idx u = task_idx t then None else link s u)" for u
    using d(1) by (simp add: defs link_upd)
  have h4: "task_idx u \<noteq> task_idx t" if "u \<in> set ts" for u
    using that d(4) [of u c p] p(2) ht dt task_idx_eq [of u t] by (auto simp: home_def)
  have "chain (link s4) (link s t) ts = chain (link s) (link s t) ts" using h4 lk by (intro next_chain_cong) auto
  then have ch4: "chain (link s4) (link s t) ts" using ch by simp
  have "rq_ok s4 (set_queue Q c p ts)"
  proof (rule rq_ok_one [OF ok c p(1) _ _ _ _ _ _ _ _ _ ch4])
    fix u dd qq assume u: "u \<in> set (Q dd qq)" "(dd, qq) \<noteq> (c, p)"
    then show "link s4 u = link s u" using not_in_other_list [OF ok ht] lk by simp
  next
    have "ts \<noteq> [] \<Longrightarrow> (rq_tails (rqs s ! c))[p := last_opt ts] = rq_tails (rqs s ! c)"
      using q(4) [OF p(1)] q(2) p by (simp add: last_opt_def list_update_same_conv)
    then show "rq_tails (rqs s4 ! c) = (rq_tails (rqs s ! c))[p := last_opt ts]"
      using d(2) c nx by (cases "ts = []") (auto simp: defs last_opt_def)
  next
    fix i show "bit (rq_bitmap (rqs s4 ! c)) i \<longleftrightarrow> (if i = p then ts \<noteq> [] else bit (rq_bitmap (rqs s ! c)) i)"
      using d(2) c nx b by (auto simp: defs bit_mask_andnot)
  qed (use d(1,2) d(4) [of _ c p] c p(2) dt in \<open>auto simp: defs\<close>)
  then show ?thesis using e by (simp add: defs)
qed

lemma remove_absent:
  assumes ok: "rq_ok s Q" and h: "home s t c p" and cp: "c < MAX_CPUS" "p < PRIORITY_LEVELS" and t: "t \<notin> set (Q c p)"
  shows "remove_from_runqueue s t = Some (False, s)"
  using search_absent [OF queue_okD(3) [OF rq_okD(5) [OF ok cp(1)] cp(2)] t] h cp
  by (simp add: remove_from_runqueue_def home_def Let_def)

lemma last_opt_append: "last_opt (xs @ ys) = (if ys = [] then last_opt xs else last_opt ys)"
  by (simp add: last_opt_def)

lemma unlink_queue:
  fixes t u :: u64 and prev :: "u64 option"
  assumes len: "length (tasks s) = MAX_TASKS" "c < length (rqs s)" and q: "rqs s ! c = q" "p < length (rq_heads q)"
  defines "s' \<equiv> unlink_task s t c p prev" and "h \<equiv> (if prev = None then link s t else rq_heads q ! p)"
  shows "rqs s' ! c = q\<lparr>rq_heads := (rq_heads q)[p := h],
      rq_tails := (if rq_tails q ! p = Some t then (rq_tails q)[p := prev] else rq_tails q),
      rq_bitmap := (if h = None then rq_bitmap q AND NOT (2 ^ p) else rq_bitmap q), nr_running := nr_running q - 1\<rparr>"
    and "d \<noteq> c \<Longrightarrow> rqs s' ! d = rqs s ! d" and "length (rqs s') = length (rqs s)" and "unlinked s' = unlinked s"
    and "home s' = home s"
    and "link s' u = (if task_idx u = task_idx t then None
      else if \<exists>w. prev = Some w \<and> task_idx u = task_idx w then link s t else link s u)"
  using assms by (cases prev; auto simp: unlink_task_def Let_def link_upd link_def [symmetric] fun_eq_iff)+

lemma unlink_chain:
  assumes ch: "chain (link s) h (xs @ t # ys)" and dt: "distinct (xs @ t # ys)" and lt: "\<And>u. u \<in> set (xs @ t # ys) \<Longrightarrow> unat u < MAX_TASKS"
    and lk: "\<And>u. link s' u = (if task_idx u = task_idx t then None
      else if \<exists>w. last_opt xs = Some w \<and> task_idx u = task_idx w then link s t else link s u)"
  shows "chain (link s') (if last_opt xs = None then link s t else h) (xs @ ys)"
proof (cases "xs = []")
  case True
  have "chain (link s') (link s t) ys = chain (link s) (link s t) ys"
    using True dt lt by (intro next_chain_cong) (auto simp: lk task_idx_eq last_opt_def)
  then show ?thesis using True ch by (simp add: last_opt_def)
next
  case False
  have "chain (link s') h (xs @ ys) = chain ((link s)(last xs := link s t, t := None)) h (xs @ ys)"
    using False lt last_in_set [OF False] dt by (intro next_chain_cong) (auto simp: lk task_idx_eq last_opt_def)
  then show ?thesis using chain_remove [OF ch dt False] False by (simp add: last_opt_def)
qed

lemma remove_ok:
  assumes ok: "rq_ok s Q" and q0: "Q c p = xs @ t # ys"
  shows "\<exists>s'. remove_from_runqueue s t = Some (True, s') \<and> rq_ok s' (set_queue Q c p (xs @ ys)) \<and> unlinked s' = unlinked s"
proof -
  note d = rq_okD [OF ok]
  have cp: "c < MAX_CPUS" "p < PRIORITY_LEVELS" and ht: "home s t c p" using d(4) [of t c p] q0 by auto
  note q = queue_okD [OF d(5) [OF cp(1)]]
  have ch: "chain (link s) (rq_heads (rqs s ! c) ! p) (xs @ t # ys)" using q(3) [OF cp(2)] q0 by simp
  have dt: "distinct (xs @ t # ys)" using d(3) [of c p] q0 by simp
  then have sr: "rq_search s t None (rq_heads (rqs s ! c) ! p) = Some (Some (last_opt xs))"
    using search_chain [OF ch, of None] by (auto simp: last_opt_def)
  let ?s = "unlink_task s t c p (last_opt xs)"
  have e: "remove_from_runqueue s t = Some (True, ?s)"
    using sr cp ht by (simp add: remove_from_runqueue_def home_def Let_def)
  have "c < length (rqs s)" "p < length (rq_heads (rqs s ! c))" using d(2) cp q(1) by simp_all
  note u = unlink_queue [OF d(1) this(1) refl this(2), where t = t and prev = "last_opt xs"]
  let ?h = "if last_opt xs = None then link s t else rq_heads (rqs s ! c) ! p"
  have lt: "unat v < MAX_TASKS" if "v \<in> set (xs @ t # ys)" for v using that d(4) [of v c p] q0 by (auto simp: home_def)
  have ch': "chain (link ?s) ?h (xs @ ys)" by (rule unlink_chain [OF ch dt lt u(6)])
  have tl: "rq_tails (rqs s ! c) ! p = last_opt (t # ys)" using q(4) [OF cp(2)] q0 by (simp add: last_opt_def)
  have "rq_ok ?s (set_queue Q c p (xs @ ys))"
  proof (rule rq_ok_one [OF ok cp _ _ _ _ _ _ _ _ _ ch'])
    fix v dd qq assume v: "v \<in> set (Q dd qq)" "(dd, qq) \<noteq> (c, p)"
    have "task_idx v \<noteq> task_idx (last xs)" if "xs \<noteq> []"
      using not_in_other_list [OF ok _ v] d(4) [of "last xs" c p] q0 that by auto
    then show "link ?s v = link s v" unfolding u(6) using not_in_other_list [OF ok ht v] by (auto simp: last_opt_def)
  next
    have "\<not> (t \<in> set ys)" using dt by auto
    then have "last_opt (t # ys) = Some t \<longleftrightarrow> ys = []" using last_in_set [of ys] by (auto simp: last_opt_def)
    then show "rq_tails (rqs ?s ! c) = (rq_tails (rqs s ! c))[p := last_opt (xs @ ys)]"
      unfolding u(1) using tl by (auto simp: last_opt_append last_opt_def) (metis list_update_id)
  next
    fix i
    have "?h = None \<longleftrightarrow> xs @ ys = []" using chain_hd [OF ch'] by (cases "xs @ ys") simp_all
    then show "bit (rq_bitmap (rqs ?s ! c)) i \<longleftrightarrow> (if i = p then xs @ ys \<noteq> [] else bit (rq_bitmap (rqs s ! c)) i)"
      unfolding u(1) using q(5) [of p] q0 cp by (auto simp: bit_mask_andnot)
  next
    show "nr_running (rqs ?s ! c) + of_nat (length (Q c p)) = nr_running (rqs s ! c) + of_nat (length (xs @ ys))"
      unfolding u(1) using q0 by simp
  qed (use u d(4) [of _ c p] q0 dt unlinkedD(1) [OF u(4)] in auto)
  with e u(4) show ?thesis by blast
qed

section \<open>The interface of the run queue\<close>

text \<open>What a change to a task does to the queues: nothing, unless it changes the CPU, the priority or the link.\<close>

lemma home_upd_slot:
  "length (tasks s) = MAX_TASKS \<Longrightarrow> tk_cpu (f (tasks s ! i)) = tk_cpu (tasks s ! i) \<Longrightarrow>
     tk_prio (f (tasks s ! i)) = tk_prio (tasks s ! i) \<Longrightarrow> home (upd_slot s i f) = home s"
  by (auto simp: home_def fun_eq_iff) (auto simp: task_ref_def)

lemma rq_ok_upd_slot:
  assumes ok: "rq_ok s Q" and f: "tk_cpu (f (tasks s ! i)) = tk_cpu (tasks s ! i)" "tk_prio (f (tasks s ! i)) = tk_prio (tasks s ! i)"
    "tk_next (f (tasks s ! i)) = tk_next (tasks s ! i)"
  shows "rq_ok (upd_slot s i f) Q"
proof -
  have "link (upd_slot s i f) = link s"
    using rq_okD(1) [OF ok] f(3) by (auto simp: link_def fun_eq_iff) (auto simp: task_ref_def)
  then show ?thesis
    using ok home_upd_slot [of s f i, OF rq_okD(1) [OF ok] f(1,2)] unfolding rq_ok_def queue_ok_def by simp
qed

lemma unlinked_fields:
  assumes "unlinked s' = unlinked s" and "length (tasks s) = MAX_TASKS"
  shows "tk_id (task_ref s' t) = tk_id (task_ref s t)" and "tk_state (task_ref s' t) = tk_state (task_ref s t)"
    and "tk_cpu (task_ref s' t) = tk_cpu (task_ref s t)" and "tk_prio (task_ref s' t) = tk_prio (task_ref s t)"
    and "tk_blocked_on (task_ref s' t) = tk_blocked_on (task_ref s t)"
proof -
  note e = unlinked_slot [OF assms(1), of "task_idx t", unfolded assms(2), OF task_idx_less]
  show "tk_id (task_ref s' t) = tk_id (task_ref s t)" "tk_state (task_ref s' t) = tk_state (task_ref s t)"
    "tk_cpu (task_ref s' t) = tk_cpu (task_ref s t)" "tk_prio (task_ref s' t) = tk_prio (task_ref s t)"
    "tk_blocked_on (task_ref s' t) = tk_blocked_on (task_ref s t)"
    using arg_cong [OF e, of tk_id] arg_cong [OF e, of tk_state] arg_cong [OF e, of tk_cpu] arg_cong [OF e, of tk_prio]
      arg_cong [OF e, of tk_blocked_on] by (simp_all add: task_ref_def)
qed

lemma unlinked_home:
  assumes "unlinked s' = unlinked s" and "length (tasks s) = MAX_TASKS"
  shows "home s' = home s"
  by (simp add: home_def fun_eq_iff unlinked_fields(3,4) [OF assms])

definition cpu_queue :: "nat \<Rightarrow> sched \<Rightarrow> (nat \<Rightarrow> u64 list) \<Rightarrow> bool" where
  "cpu_queue c s L \<longleftrightarrow> c < MAX_CPUS \<and> (\<exists>Q. rq_ok s Q \<and> Q c = L)"

interpretation runq: level_queues "cpu_queue c" PRIORITY_LEVELS "\<lambda>s t p. home s t c p" enqueue_self "\<lambda>s. dequeue_task s c" for c
proof
  fix s L x p
  assume "cpu_queue c s L" and h: "home s x c p" and p: "p < PRIORITY_LEVELS" and x: "x \<notin> set (L p)"
  then obtain Q where Q: "c < MAX_CPUS" "rq_ok s Q" "Q c = L" by (auto simp: cpu_queue_def)
  have "unat (tk_prio (task_ref s x)) = p" using h by (simp add: home_def)
  with enqueue_ok [OF Q(2) h Q(1) this p] x Q(3) obtain s' where
    s': "enqueue_self s x = Some s'" "rq_ok s' (set_queue Q c p (L p @ [x]))" "unlinked s' = unlinked s"
    by (auto simp: enqueue_self_def)
  have "home s' = home s" using unlinked_home [OF s'(3)] rq_okD(1) [OF Q(2)] by simp
  with s' Q show "\<exists>s'. enqueue_self s x = Some s' \<and> cpu_queue c s' (L(p := L p @ [x])) \<and>
      (\<lambda>t p. home s' t c p) = (\<lambda>t p. home s t c p)"
    by (auto simp: cpu_queue_def set_queue_def intro!: exI [of _ "Q(c := L(p := L p @ [x]))"])
next
  fix s L assume "cpu_queue c s L" and "\<forall>p < PRIORITY_LEVELS. L p = []"
  then show "dequeue_task s c = Some (None, s)" using dequeue_none by (auto simp: cpu_queue_def)
next
  fix s L p x xs
  assume "cpu_queue c s L" and p: "p < PRIORITY_LEVELS" "L p = x # xs" "\<forall>q < p. L q = []"
  then obtain Q where Q: "c < MAX_CPUS" "rq_ok s Q" "Q c = L" by (auto simp: cpu_queue_def)
  from dequeue_ok [OF Q(2,1) p(1)] p Q(3) obtain s' where
    s': "dequeue_task s c = Some (Some x, s')" "rq_ok s' (set_queue Q c p xs)" "unlinked s' = unlinked s" by auto
  have "home s' = home s" using unlinked_home [OF s'(3)] rq_okD(1) [OF Q(2)] by simp
  with s' Q show "\<exists>s'. dequeue_task s c = Some (Some x, s') \<and> cpu_queue c s' (L(p := xs)) \<and>
      (\<lambda>t p. home s' t c p) = (\<lambda>t p. home s t c p)"
    by (auto simp: cpu_queue_def set_queue_def intro!: exI [of _ "Q(c := L(p := xs))"])
qed

section \<open>Waking\<close>

definition table_ok :: "sched \<Rightarrow> bool" where
  "table_ok s \<longleftrightarrow> length (tasks s) = MAX_TASKS \<and>
     (\<forall>i < MAX_TASKS. tk_id (tasks s ! i) \<noteq> 0 \<longrightarrow> unat (tk_id (tasks s ! i)) = i \<and>
        unat (tk_cpu (tasks s ! i)) < MAX_CPUS \<and> unat (tk_prio (tasks s ! i)) < PRIORITY_LEVELS)"

text \<open>A test and an update of tasks that ignore the links and keep what the queues depend on.\<close>

definition link_free :: "(task \<Rightarrow> bool) \<Rightarrow> (task \<Rightarrow> task) \<Rightarrow> bool" where
  "link_free P f \<longleftrightarrow> (\<forall>k v. P (k\<lparr>tk_next := v\<rparr>) = P k \<and> f (k\<lparr>tk_next := v\<rparr>) = (f k)\<lparr>tk_next := v\<rparr>) \<and>
     (\<forall>k. tk_id (f k) = tk_id k \<and> tk_cpu (f k) = tk_cpu k \<and> tk_prio (f k) = tk_prio k \<and> tk_next (f k) = tk_next k)"

lemma unlinked_tasks: "i < length (tasks s) \<Longrightarrow> tasks (unlinked s) ! i = (tasks s ! i)\<lparr>tk_next := None\<rparr>"
  by (simp add: unlinked_def)

lemma unlinked_upd: "link_free P f \<Longrightarrow> unlinked (upd_slot s i f) = upd_slot (unlinked s) i f"
  by (cases "i < length (tasks s)") (simp_all add: unlinked_def upd_slot_def map_update link_free_def list_update_beyond)

definition append_slot :: "sched \<Rightarrow> nat \<Rightarrow> queues \<Rightarrow> queues" where
  "append_slot s i Q = (let k = tasks s ! i; c = unat (tk_cpu k); p = unat (tk_prio k) in set_queue Q c p (Q c p @ [tk_id k]))"

definition in_queue :: "queues \<Rightarrow> u64 \<Rightarrow> bool" where
  "in_queue Q t \<longleftrightarrow> (\<exists>c p. t \<in> set (Q c p))"

lemma in_queue_set:
  assumes "set (Q c p) \<subseteq> set xs"
  shows "in_queue (set_queue Q c p xs) t \<longleftrightarrow> in_queue Q t \<or> t \<in> set xs"
proof -
  have "t \<in> set (set_queue Q c p xs d q) \<longleftrightarrow> (d, q) = (c, p) \<and> t \<in> set xs \<or> (d, q) \<noteq> (c, p) \<and> t \<in> set (Q d q)" for d q
    by (auto simp: set_queue_def)
  then show ?thesis using assms unfolding in_queue_def by blast
qed

lemma in_queue_append: "in_queue (append_slot s i Q) t \<longleftrightarrow> in_queue Q t \<or> t = tk_id (tasks s ! i)"
  unfolding append_slot_def Let_def by (subst in_queue_set) (auto simp: in_queue_def)

lemma table_ok_upd: "table_ok s \<Longrightarrow> link_free P f \<Longrightarrow> table_ok (upd_slot s i f)"
  by (cases "i < length (tasks s)") (auto simp: table_ok_def link_free_def upd_slot_def nth_list_update list_update_beyond)

lemma table_ok_unlinked: "table_ok (unlinked s) \<longleftrightarrow> table_ok s"
  by (auto simp: table_ok_def unlinked_def)

lemma wake_one:
  assumes ok: "rq_ok s Q" "table_ok s" and lf: "link_free P f" and i: "i < MAX_TASKS" "tk_id (tasks s ! i) \<noteq> 0"
    and q: "\<not> in_queue Q (tk_id (tasks s ! i))"
  shows "\<exists>s1. enqueue_task (upd_slot s i f) (tk_id (tasks s ! i)) (tk_prio (tasks s ! i)) = Some s1 \<and>
    rq_ok s1 (append_slot s i Q) \<and> unlinked s1 = upd_slot (unlinked s) i f"
proof -
  let ?k = "tasks s ! i" and ?s = "upd_slot s i f"
  have t: "task_idx (tk_id ?k) = i" "unat (tk_id ?k) < MAX_TASKS" "unat (tk_cpu ?k) < MAX_CPUS" "unat (tk_prio ?k) < PRIORITY_LEVELS"
    using ok(2) i by (auto simp: table_ok_def task_idx_def)
  have o2: "rq_ok ?s Q" using lf by (intro rq_ok_upd_slot [OF ok(1)]) (auto simp: link_free_def)
  have "home ?s (tk_id ?k) (unat (tk_cpu ?k)) (unat (tk_prio ?k))"
    using t lf rq_okD(1) [OF ok(1)] by (simp add: home_def link_free_def)
  from enqueue_ok [OF o2 this t(3) refl t(4)] q lf show ?thesis
    by (auto simp: append_slot_def Let_def in_queue_def unlinked_upd)
qed

text \<open>The scan wakes exactly the first matching tasks, in slot order, and appends each to the queue of its CPU and
  priority.\<close>

lemma wake_scan_exact:
  assumes ok: "rq_ok s Q" "table_ok s" and lf: "link_free P f" and "distinct is" "set is \<subseteq> {..<MAX_TASKS}"
    and "\<forall>i \<in> set is. P (tasks s ! i) \<longrightarrow> tk_id (tasks s ! i) \<noteq> 0 \<and> \<not> in_queue Q (tk_id (tasks s ! i))"
  shows "let ws = take (m - w) (filter (\<lambda>i. P (tasks s ! i)) is)
    in \<exists>s'. wake_scan P f m is w s = Some (w + length ws, s') \<and> rq_ok s' (fold (append_slot s) ws Q) \<and>
      unlinked s' = fold (\<lambda>i s. upd_slot s i f) ws (unlinked s)"
  using assms
proof (induction "is" arbitrary: s Q w)
  case (Cons i "is")
  note P = Cons.prems
  show ?case
  proof (cases "w < m \<and> P (tasks s ! i)")
    case False
    show ?thesis
    proof (cases "w < m")
      case True
      with False Cons.IH [OF P(1-3), of w] P(4-6) show ?thesis by (simp add: Let_def)
    qed (use P(1) in simp)
  next
    case True
    have i: "i < MAX_TASKS" "tk_id (tasks s ! i) \<noteq> 0" "\<not> in_queue Q (tk_id (tasks s ! i))" using P(5,6) True by auto
    from wake_one [OF P(1-3) i] obtain s1 where
      s1: "enqueue_task (upd_slot s i f) (tk_id (tasks s ! i)) (tk_prio (tasks s ! i)) = Some s1"
        "rq_ok s1 (append_slot s i Q)" "unlinked s1 = upd_slot (unlinked s) i f" by blast
    have len: "length (tasks s) = MAX_TASKS" using rq_okD(1) [OF P(1)] .
    have l1: "length (tasks s1) = MAX_TASKS" using rq_okD(1) [OF s1(2)] .
    have e: "(tasks s1 ! j)\<lparr>tk_next := None\<rparr> = (tasks s ! j)\<lparr>tk_next := None\<rparr>" if "j \<in> set is" for j
    proof -
      have "j < MAX_TASKS" "j \<noteq> i" using that P(4,5) by auto
      then show ?thesis
        using unlinked_tasks [of j s1] unlinked_tasks [of j s] s1(3) len l1 by (simp add: upd_slot_def)
    qed
    have pe: "P (tasks s1 ! j) = P (tasks s ! j)" if "j \<in> set is" for j
      using e [OF that] lf unfolding link_free_def by metis
    have fe: "tk_id (tasks s1 ! j) = tk_id (tasks s ! j)" "append_slot s1 j = append_slot s j" if "j \<in> set is" for j
      using arg_cong [OF e [OF that], of tk_id] arg_cong [OF e [OF that], of tk_cpu] arg_cong [OF e [OF that], of tk_prio]
      by (simp_all add: append_slot_def fun_eq_iff Let_def)
    have ne: "tk_id (tasks s ! j) \<noteq> tk_id (tasks s ! i)" if "j \<in> set is" for j
      using P(2,4,5) that i unfolding table_ok_def by (metis distinct.simps(2) lessThan_iff list.set_intros(2) subsetD)
    have t1: "table_ok s1"
      using table_ok_unlinked [of s1] table_ok_upd [of "unlinked s" P f i] P(2,3) s1(3) by (simp add: table_ok_unlinked)
    have "let ws = take (m - Suc w) (filter (\<lambda>i. P (tasks s1 ! i)) is)
      in \<exists>s'. wake_scan P f m is (Suc w) s1 = Some (Suc w + length ws, s') \<and> rq_ok s' (fold (append_slot s1) ws (append_slot s i Q)) \<and>
        unlinked s' = fold (\<lambda>i s. upd_slot s i f) ws (unlinked s1)"
      by (rule Cons.IH [OF s1(2) t1 P(3)]) (use P(4-6) pe fe ne in \<open>auto simp: in_queue_append\<close>)
    moreover have "filter (\<lambda>i. P (tasks s1 ! i)) is = filter (\<lambda>i. P (tasks s ! i)) is" using pe by (intro filter_cong) auto
    moreover have "fold (append_slot s1) ws R = fold (append_slot s) ws R" if "set ws \<subseteq> set is" for ws R
      using that fe(2) by (intro fold_cong) auto
    moreover have "set (take (m - Suc w) (filter (\<lambda>i. P (tasks s ! i)) is)) \<subseteq> set is" using set_take_subset by fastforce
    moreover have "m - w = Suc (m - Suc w)" using True by linarith
    ultimately show ?thesis using True s1(1,3) by (simp add: Let_def)
  qed
qed simp

section \<open>Waking never fails\<close>

lemma table_ok_next: "table_ok s \<Longrightarrow> table_ok (upd_slot s j (\<lambda>k. k\<lparr>tk_next := v\<rparr>))"
  by (cases "j < length (tasks s)") (auto simp: table_ok_def upd_slot_def nth_list_update list_update_beyond)

lemma table_ok_rq [simp]: "table_ok (upd_rq s c f) = table_ok s"
  by (simp add: table_ok_def upd_rq_def)

lemma enqueue_total:
  assumes "table_ok s" and "unat (tk_cpu (task_ref s t)) < MAX_CPUS" and "unat p < PRIORITY_LEVELS"
  shows "\<exists>s1. enqueue_task s t p = Some s1 \<and> table_ok s1"
  using assms by (cases "rq_tails (rqs s ! unat (tk_cpu (task_ref s t))) ! unat p") (simp_all add: enqueue_task_def Let_def table_ok_next)

lemma wake_total:
  assumes "table_ok s" and "link_free P f" and "\<And>k. P k \<Longrightarrow> tk_id k \<noteq> 0" and "set is \<subseteq> {..<MAX_TASKS}"
  shows "\<exists>w' s'. wake_scan P f m is w s = Some (w', s') \<and> table_ok s'"
  using assms(1,4)
proof (induction "is" arbitrary: w s)
  case (Cons i "is")
  show ?case
  proof (cases "m \<le> w \<or> \<not> P (tasks s ! i)")
    case False
    let ?k = "tasks s ! i"
    have i: "i < MAX_TASKS" "tk_id ?k \<noteq> 0" using Cons.prems False assms(3) by auto
    have k: "task_idx (tk_id ?k) = i" "unat (tk_cpu ?k) < MAX_CPUS" "unat (tk_prio ?k) < PRIORITY_LEVELS" "length (tasks s) = MAX_TASKS"
      using Cons.prems(1) i by (auto simp: table_ok_def task_idx_def)
    have t1: "table_ok (upd_slot s i f)" by (rule table_ok_upd [OF Cons.prems(1) assms(2)])
    have cpu: "tk_cpu (task_ref (upd_slot s i f) (tk_id ?k)) = tk_cpu ?k"
      using k assms(2) i by (simp add: task_ref_def upd_slot_def link_free_def)
    obtain s1 where "enqueue_task (upd_slot s i f) (tk_id ?k) (tk_prio ?k) = Some s1" "table_ok s1"
      using enqueue_total [OF t1, of "tk_id ?k" "tk_prio ?k"] k cpu by auto
    then show ?thesis using Cons.IH [of s1 "Suc w"] Cons.prems(2) False by simp
  qed (use Cons in auto)
qed simp

lemma futex_wake_total: "table_ok s \<Longrightarrow> \<exists>n s'. futex_wake s a m = Some (n, s') \<and> table_ok s'"
  using wake_total [of s "waits_on a" woken "[0..<MAX_TASKS]" "unat m" 0]
  by (fastforce simp: futex_wake_def link_free_def waits_on_def woken_def)

end
