(* ===== verification/Signals.thy ===== *)
theory Signals
  imports Sched
begin

text \<open>
  Task exit, signals and process groups (\<^verbatim>\<open>src/src/task.rs\<close>): what an exiting task leaves behind and whom it wakes, the
  delivery of a signal to a task, the signal masks and actions, and the signal frame that a handler runs on.

  The lock \<^verbatim>\<open>SIGNAL_LOCK\<close> is part of the state, because one path takes it twice and one never gives it back: taking a
  held lock spins for ever and is \<open>None\<close>.
\<close>

unbundle bit_operations_syntax

section \<open>Constants\<close>

definition SIG_DFL :: u64 where "SIG_DFL = 0"
definition SIG_IGN :: u64 where "SIG_IGN = 1"
definition SA_RESTORER :: u64 where "SA_RESTORER = 0x04000000"
definition SIGKILL :: i32 where "SIGKILL = 9"
definition SIGSTOP :: i32 where "SIGSTOP = 19"
definition SIGCHLD :: nat where "SIGCHLD = 17"
definition SIGSUSPEND_MAGIC :: u64 where "SIGSUSPEND_MAGIC = - 2"

definition terminates :: "nat \<Rightarrow> bool" where
  "terminates n \<longleftrightarrow> n = 2 \<or> n = 3 \<or> n = 4 \<or> n = 6 \<or> n = 11 \<or> n = 15 \<or> n = 13 \<or> n = 8 \<or> n = 7 \<or> n = 5 \<or> n = 14"

definition is_user_addr :: "u64 \<Rightarrow> bool" where
  "is_user_addr a \<longleftrightarrow> a < 0x0000800000000000"

definition lock_signals :: "sched \<Rightarrow> sched option" where
  "lock_signals s = (if signal_locked s then None else Some (s\<lparr>signal_locked := True\<rparr>))"

definition unlock_signals :: "sched \<Rightarrow> sched" where
  "unlock_signals s = s\<lparr>signal_locked := False\<rparr>"

section \<open>Exit\<close>

definition reparent_children_to_init :: "sched \<Rightarrow> u64 \<Rightarrow> sched" where
  "reparent_children_to_init s p =
     s\<lparr>tasks := map (\<lambda>k. if tk_id k \<noteq> 0 \<and> tk_parent k = Some p then k\<lparr>tk_parent := Some 1\<rparr> else k) (tasks s)\<rparr>"

text \<open>Clearing the thread identifier in user memory and waking one joiner. \<^verbatim>\<open>is_user_tidptr_valid\<close> is the
  argument \<open>ok\<close>.\<close>

definition clear_tid :: "(u64 \<Rightarrow> bool) \<Rightarrow> sched \<Rightarrow> u64 \<Rightarrow> sched option" where
  "clear_tid ok s p =
     (if p \<noteq> 0 \<and> ok p then map_option snd (futex_wake (s\<lparr>umem := store 8 (umem s) p (0 :: u64)\<rparr>) p 1) else Some s)"

definition wake_waiting_parent :: "sched \<Rightarrow> u64 option \<Rightarrow> u64 \<Rightarrow> sched option" where
  "wake_waiting_parent s parent t =
     (case parent of
        None \<Rightarrow> Some s
      | Some p \<Rightarrow>
          let k = task_ref s p
          in if tk_state k = Blocked \<and> (tk_blocked_on k = t \<or> tk_blocked_on k = - 1)
             then enqueue_self (upd_task s p (\<lambda>k. k\<lparr>tk_state := Ready, tk_blocked_on := 0\<rparr>)) p
             else Some s)"

text \<open>SIGCHLD for the parent of an exiting task, under the signal lock; the wake-up comes after the lock.\<close>

definition notify_parent :: "sched \<Rightarrow> u64 \<Rightarrow> sched option" where
  "notify_parent s t =
     (case tk_parent (task_ref s t) of
        None \<Rightarrow> Some s
      | Some p \<Rightarrow> do {
          s1 \<leftarrow> lock_signals s;
          let k = task_ref s1 p; h = sa_handler (tk_handlers k ! SIGCHLD)
          in if tk_id k \<noteq> 0 \<and> tk_state k \<noteq> Empty \<and> h \<noteq> SIG_IGN \<and> h \<noteq> SIG_DFL
             then let s2 = upd_task s1 p (\<lambda>k. k\<lparr>tk_sig_pending := tk_sig_pending k OR 2 ^ SIGCHLD\<rparr>)
                  in if tk_state k = Blocked \<and> (tk_blocked_on k = SIGSUSPEND_MAGIC \<or> tk_poll_fds k \<noteq> 0)
                     then enqueue_self (unlock_signals (upd_task s2 p (\<lambda>k. k\<lparr>tk_state := Ready, tk_blocked_on := 0\<rparr>))) p
                     else Some (unlock_signals s2)
             else Some (unlock_signals s1) })"

text \<open>\<^verbatim>\<open>exit_task\<close> after the descriptors of the task have been closed, up to the switch to another task.\<close>

definition exit_task :: "(u64 \<Rightarrow> bool) \<Rightarrow> sched \<Rightarrow> nat \<Rightarrow> i32 \<Rightarrow> (flow \<times> sched) option" where
  "exit_task ok s c code =
     (let t = cur_task s c
      in if t = 0 then Some (Return 0, s)
         else do {
           s1 \<leftarrow> clear_tid ok (upd_task s t (\<lambda>k. k\<lparr>tk_state := Zombie, tk_exit_code := code\<rparr>)) (tk_child_tidptr (task_ref s t));
           s2 \<leftarrow> notify_parent s1 t;
           s3 \<leftarrow> wake_waiting_parent s2 (tk_parent (task_ref s2 t)) t;
           Some (Suspend, reparent_children_to_init s3 t) })"

definition kill_task_zombie :: "(u64 \<Rightarrow> bool) \<Rightarrow> sched \<Rightarrow> nat \<Rightarrow> nat \<Rightarrow> i32 \<Rightarrow> sched option" where
  "kill_task_zombie ok s c idx code =
     (let s1 = upd_slot s idx (\<lambda>k. k\<lparr>tk_exit_code := code, tk_state := Zombie\<rparr>); t = tk_id (tasks s1 ! idx)
      in do {
        s2 \<leftarrow> (if t \<noteq> 0 then map_option snd (remove_from_runqueue s1 t) else Some s1);
        s3 \<leftarrow> clear_tid ok s2 (if t = cur_task s2 c then tk_child_tidptr (tasks s2 ! idx) else 0);
        s4 \<leftarrow> wake_waiting_parent s3 (tk_parent (tasks s3 ! idx)) t;
        Some (reparent_children_to_init s4 t) })"

section \<open>Delivery\<close>

text \<open>The body of \<^verbatim>\<open>sig_deliver_to_task\<close>, with its early returns; the lock guard is dropped on every return, but a call
  of \<^verbatim>\<open>exit_task\<close> that switches away keeps it.\<close>

definition sig_deliver_to_task :: "(u64 \<Rightarrow> bool) \<Rightarrow> sched \<Rightarrow> nat \<Rightarrow> nat \<Rightarrow> i32 \<Rightarrow> (flow \<times> sched) option" where
  "sig_deliver_to_task ok s0 c idx sig =
     do {
       s \<leftarrow> lock_signals s0;
       let k = tasks s ! idx; n = unat sig; h = sa_handler (tk_handlers k ! n); ret = (\<lambda>r s1. Some (Return r, unlock_signals s1))
       in if tk_id k = 0 \<or> tk_state k = Empty then ret (- ESRCH) s
          else if sint sig \<le> 0 \<or> n \<ge> SIGNAL_COUNT then ret (- EINVAL) s
          else if sig = SIGKILL \<or> sig = SIGSTOP then do { s1 \<leftarrow> kill_task_zombie ok s c idx (128 + sig); ret 0 s1 }
          else if h = SIG_IGN then ret 0 s
          else if h \<noteq> SIG_DFL
          then let s1 = upd_slot s idx (\<lambda>k. k\<lparr>tk_sig_pending := tk_sig_pending k OR 2 ^ n\<rparr>)
               in ret 0 (if tk_state k = Blocked \<and> tk_blocked_on k = SIGSUSPEND_MAGIC
                         then upd_slot s1 idx (\<lambda>k. k\<lparr>tk_state := Ready, tk_blocked_on := 0\<rparr>) else s1)
          else if terminates n
          then if bit (tk_sig_blocked k) n then ret 0 (upd_slot s idx (\<lambda>k. k\<lparr>tk_sig_pending := tk_sig_pending k OR 2 ^ n\<rparr>))
               else if task_idx (cur_task s c) = idx
               then do {
                 (r, s1) \<leftarrow> exit_task ok s c (128 + sig);
                 case r of Suspend \<Rightarrow> Some (Suspend, s1) | Return _ \<Rightarrow> ret 0 s1 }
               else do { s1 \<leftarrow> kill_task_zombie ok s c idx (128 + sig); ret 0 s1 }
          else ret 0 s }"

text \<open>The loop of \<^verbatim>\<open>sys_kill\<close> and \<^verbatim>\<open>signal_foreground_group\<close>: every occupied slot that matches gets the signal; the number
  of deliveries that returned 0. A delivery that ends the caller itself ends the loop.\<close>

fun deliver_scan :: "(u64 \<Rightarrow> bool) \<Rightarrow> nat \<Rightarrow> i32 \<Rightarrow> (task \<Rightarrow> bool) \<Rightarrow> nat list \<Rightarrow> int \<Rightarrow> sched \<Rightarrow> (flow \<times> sched) option" where
  "deliver_scan ok c sig P [] n s = Some (Return n, s)"
| "deliver_scan ok c sig P (i # is) n s =
     (if tk_id (tasks s ! i) \<noteq> 0 \<and> P (tasks s ! i)
      then do {
        (r, s1) \<leftarrow> sig_deliver_to_task ok s c i sig;
        case r of
          Suspend \<Rightarrow> Some (Suspend, s1)
        | Return v \<Rightarrow> deliver_scan ok c sig P is (if v = 0 then n + 1 else n) s1 }
      else deliver_scan ok c sig P is n s)"

definition kill_matches :: "u64 \<Rightarrow> u64 \<Rightarrow> task \<Rightarrow> bool" where
  "kill_matches pid cu k \<longleftrightarrow> pid = - 1 \<or> (pid = 0 \<and> tk_tgid k = cu) \<or> (sint pid < - 1 \<and> tk_tgid k = - pid) \<or>
     (sint pid > 0 \<and> tk_id k = pid)"

definition sys_kill :: "(u64 \<Rightarrow> bool) \<Rightarrow> sched \<Rightarrow> nat \<Rightarrow> u64 \<Rightarrow> i32 \<Rightarrow> (flow \<times> sched) option" where
  "sys_kill ok s c pid sig =
     (if sig = 0 then Some (Return 0, s)
      else do {
        (r, s1) \<leftarrow> deliver_scan ok c sig (kill_matches pid (cur_task s c)) [0..<MAX_TASKS] 0 s;
        Some (case r of Suspend \<Rightarrow> Suspend | Return hits \<Rightarrow> if hits > 0 then Return 0 else Return (- ESRCH), s1) })"

definition sys_tkill :: "(u64 \<Rightarrow> bool) \<Rightarrow> sched \<Rightarrow> nat \<Rightarrow> u64 \<Rightarrow> i32 \<Rightarrow> (flow \<times> sched) option" where
  "sys_tkill ok s c t sig =
     (if sig = 0 then Some (Return 0, s)
      else if sint t \<le> 0 then Some (Return (- EINVAL), s)
      else if tk_id (task_ref s t) = 0 then Some (Return (- ESRCH), s)
      else sig_deliver_to_task ok s c (task_idx t) sig)"

text \<open>The foreground group of the terminal is the argument \<open>fg\<close> (\<^verbatim>\<open>TTY_DEVICE.get_fg_pgrp()\<close>).\<close>

definition signal_foreground_group :: "(u64 \<Rightarrow> bool) \<Rightarrow> sched \<Rightarrow> nat \<Rightarrow> u64 \<Rightarrow> i32 \<Rightarrow> (flow \<times> sched) option" where
  "signal_foreground_group ok s c fg sig =
     (let cu = cur_task s c; target = (if fg > 0 then fg else tk_tgid (task_ref s cu))
      in if cu = 0 then Some (Return 0, s)
         else deliver_scan ok c sig (\<lambda>k. tk_tgid k = target \<or> target = 0) [0..<MAX_TASKS] 0 s)"

section \<open>Actions and masks\<close>

definition sys_rt_sigaction :: "(u64 \<Rightarrow> nat \<Rightarrow> bool) \<Rightarrow> sched \<Rightarrow> nat \<Rightarrow> i32 \<Rightarrow> u64 \<Rightarrow> u64 \<Rightarrow> int \<times> sched" where
  "sys_rt_sigaction ok s c sig act oldact =
     (let n = unat sig; t = cur_task s c
      in if sint sig \<le> 0 \<or> n \<ge> SIGNAL_COUNT \<or> sig = SIGKILL \<or> sig = SIGSTOP \<or> t = 0 then (- EINVAL, s)
         else let a = tk_handlers (task_ref s t) ! n;
                  s1 = (if oldact \<noteq> 0
                        then s\<lparr>umem := store 8 (store 8 (store 8 (store 8 (umem s) oldact (sa_handler a))
                               (oldact + 8) (sa_flags a)) (oldact + 16) (sa_restorer a)) (oldact + 24) (sa_mask a)\<rparr>
                        else s)
              in if act = 0 then (0, s1)
                 else if \<not> ok act 32 then (- EFAULT, s1)
                 else let h = load 8 (umem s1) act; fl = load 8 (umem s1) (act + 8);
                          r = load 8 (umem s1) (act + 16); m = load 8 (umem s1) (act + 24)
                      in if \<not> is_user_addr h \<or> \<not> is_user_addr r then (- EFAULT, s1)
                         else (0, upd_task s1 t (\<lambda>k. k\<lparr>tk_handlers :=
                                (tk_handlers k)[n := \<lparr>sa_handler = h, sa_mask = m, sa_flags = fl, sa_restorer = r\<rparr>]\<rparr>)))"

definition sys_rt_sigprocmask :: "sched \<Rightarrow> nat \<Rightarrow> i32 \<Rightarrow> u64 \<Rightarrow> u64 \<Rightarrow> (int \<times> sched) option" where
  "sys_rt_sigprocmask s0 c how st oldset =
     do {
       s \<leftarrow> lock_signals s0;
       let t = cur_task s c; ret = (\<lambda>r s1. Some (r, unlock_signals s1))
       in if t = 0 then ret (- EINVAL) s
          else let s1 = (if oldset \<noteq> 0 then s\<lparr>umem := store 8 (umem s) oldset (tk_sig_blocked (task_ref s t))\<rparr> else s)
               in if st = 0 then ret 0 s1
                  else let b = load 8 (umem s1) st AND NOT (2 ^ 9 OR 2 ^ 19 :: u64)
                       in if how = 0 then ret 0 (upd_task s1 t (\<lambda>k. k\<lparr>tk_sig_blocked := tk_sig_blocked k OR b\<rparr>))
                          else if how = 1 then ret 0 (upd_task s1 t (\<lambda>k. k\<lparr>tk_sig_blocked := tk_sig_blocked k AND NOT b\<rparr>))
                          else if how = 2 then ret 0 (upd_task s1 t (\<lambda>k. k\<lparr>tk_sig_blocked := b\<rparr>))
                          else ret (- EINVAL) s1 }"

definition signal_ready :: "task \<Rightarrow> bool" where
  "signal_ready k \<longleftrightarrow> (\<exists>n \<in> set [1..<SIGNAL_COUNT]. bit (tk_sig_pending k) n \<and> \<not> bit (tk_sig_blocked k) n \<and>
     sa_handler (tk_handlers k ! n) \<noteq> SIG_IGN)"

text \<open>When the call suspends, \<^verbatim>\<open>old_mask\<close> stays on the kernel stack of the task: it is the first component, and
  \<open>sys_rt_sigsuspend_resumed\<close> puts it back.\<close>

definition sys_rt_sigsuspend :: "sched \<Rightarrow> nat \<Rightarrow> u64 \<Rightarrow> (u64 \<times> flow \<times> sched) option" where
  "sys_rt_sigsuspend s0 c mask_set =
     (let t = cur_task s0 c; m = load 8 (umem s0) mask_set; old = tk_sig_blocked (task_ref s0 t)
      in if t = 0 \<or> mask_set = 0 then Some (old, Return (- EINVAL), s0)
         else do {
           s \<leftarrow> lock_signals s0;
           let s1 = upd_task s t (\<lambda>k. k\<lparr>tk_sig_blocked := m\<rparr>)
           in if signal_ready (task_ref s1 t)
              then Some (old, Return (- EINTR), unlock_signals (upd_task s1 t (\<lambda>k. k\<lparr>tk_sig_blocked := old\<rparr>)))
              else Some (old, Suspend, unlock_signals (upd_task s1 t (\<lambda>k. k\<lparr>tk_blocked_on := SIGSUSPEND_MAGIC, tk_state := Blocked\<rparr>))) })"

definition sys_rt_sigsuspend_resumed :: "sched \<Rightarrow> u64 \<Rightarrow> u64 \<Rightarrow> int \<times> sched" where
  "sys_rt_sigsuspend_resumed s t old = (- EINTR, upd_task s t (\<lambda>k. k\<lparr>tk_sig_blocked := old\<rparr>))"

section \<open>Process groups\<close>

definition sys_setpgid :: "sched \<Rightarrow> nat \<Rightarrow> i32 \<Rightarrow> i32 \<Rightarrow> int \<times> sched" where
  "sys_setpgid s c pid pgid =
     (let cu = cur_task s c; target = (if pid = 0 then ucast cu else pid); group = (if pgid = 0 then target else pgid)
      in if cu = 0 then (- EINVAL, s)
         else if target \<noteq> ucast cu \<and> target \<noteq> 0 then (- EPERM, s)
         else if tk_id (task_ref s (scast target)) = 0 then (- ESRCH, s)
         else (0, upd_task s (scast target) (\<lambda>k. k\<lparr>tk_tgid := scast group\<rparr>)))"

definition sys_getpgid :: "sched \<Rightarrow> nat \<Rightarrow> i32 \<Rightarrow> int" where
  "sys_getpgid s c pid =
     (let t = (if pid = 0 then cur_task s c else scast pid)
      in if t = 0 then - EINVAL else if tk_id (task_ref s t) = 0 then - ESRCH else sint (tk_tgid (task_ref s t)))"

definition sys_getpgrp :: "sched \<Rightarrow> nat \<Rightarrow> int" where
  "sys_getpgrp s c = (let t = cur_task s c in if t = 0 then - EINVAL else sint (tk_tgid (task_ref s t)))"

definition sys_setsid :: "sched \<Rightarrow> nat \<Rightarrow> int \<times> sched" where
  "sys_setsid s c =
     (let t = cur_task s c in if t = 0 then (- EINVAL, s) else (sint t, upd_task s t (\<lambda>k. k\<lparr>tk_tgid := t\<rparr>)))"

section \<open>Signal frames\<close>

text \<open>The frame on the user stack and the registers that the system call entry saved at \<^verbatim>\<open>kstack\<close> are tables of 64-bit
  words at fixed offsets.\<close>

type_synonym words = "(u64 \<times> u64) list"

definition store_all :: "u64 \<Rightarrow> words \<Rightarrow> (u64 \<Rightarrow> u8) \<Rightarrow> u64 \<Rightarrow> u8" where
  "store_all b ws m = fold (\<lambda>(off, v) m. store 8 m (b + off) v) ws m"

definition SIG_FRAME_SIZE :: u64 where "SIG_FRAME_SIZE = 320"
definition SIG_UC :: u64 where "SIG_UC = 8"
definition SIG_MCTX :: u64 where "SIG_MCTX = 48"
definition SIG_SIGMASK :: u64 where "SIG_SIGMASK = 304"

abbreviation kload :: "sched \<Rightarrow> u64 \<Rightarrow> u64 \<Rightarrow> u64" where
  "kload s b off \<equiv> load 8 (umem s) (b + off)"

definition saved_rsp :: "sched \<Rightarrow> u64 \<Rightarrow> u64" where
  "saved_rsp s k = kload s k 8 + 24"

definition frame_of :: "sched \<Rightarrow> u64 \<Rightarrow> u64" where
  "frame_of s k = (saved_rsp s k - SIG_FRAME_SIZE) AND NOT 0xF"

definition frame_words :: "sched \<Rightarrow> u64 \<Rightarrow> u64 \<Rightarrow> u64 \<Rightarrow> u64 \<Rightarrow> words" where
  "frame_words s k restorer old sys_ret =
     [(0, restorer), (SIG_SIGMASK, old),
      (SIG_MCTX + 0, kload s k 24), (SIG_MCTX + 8, kload s k 16), (SIG_MCTX + 16, kload s (saved_rsp s k) (- 8)),
      (SIG_MCTX + 24, kload s k 56), (SIG_MCTX + 32, kload s k 96), (SIG_MCTX + 40, kload s k 88),
      (SIG_MCTX + 48, kload s k 80), (SIG_MCTX + 56, kload s k 72), (SIG_MCTX + 64, kload s k 40),
      (SIG_MCTX + 72, kload s k 32), (SIG_MCTX + 80, kload s k 104), (SIG_MCTX + 88, kload s k 112),
      (SIG_MCTX + 96, kload s k 48), (SIG_MCTX + 104, sys_ret), (SIG_MCTX + 112, kload s k 64),
      (SIG_MCTX + 120, saved_rsp s k), (SIG_MCTX + 128, kload s k 64), (SIG_MCTX + 136, kload s k 56)]"

definition enter_handler :: "sched \<Rightarrow> u64 \<Rightarrow> u64 \<Rightarrow> nat \<Rightarrow> sig_action \<Rightarrow> u64 \<Rightarrow> sched" where
  "enter_handler s t k n a sys_ret =
     (let frame = frame_of s k;
          m1 = store_all frame (frame_words s k (sa_restorer a) (tk_sig_blocked (task_ref s t)) sys_ret) (umem s);
          m2 = store 2 (store 2 (store 2 m1 (frame + (SIG_MCTX + 144)) (0x33 :: u16)) (frame + (SIG_MCTX + 146)) (0 :: u16))
                 (frame + (SIG_MCTX + 148)) (0 :: u16);
          s1 = upd_task (s\<lparr>umem := m2\<rparr>) t (\<lambda>q. q\<lparr>tk_sig_blocked := tk_sig_blocked q OR (2 ^ n OR sa_mask a),
                 tk_sig_pending := tk_sig_pending q AND NOT (2 ^ n)\<rparr>)
      in s1\<lparr>umem := store_all k [(40, of_nat n), (32, frame + SIG_UC), (64, sa_handler a), (8, frame - 24)] m2\<rparr>)"

definition restore_words :: "u64 list \<Rightarrow> words" where
  "restore_words ctx =
     [(40, ctx ! 0), (32, ctx ! 1), (48, ctx ! 2), (24, ctx ! 3), (16, ctx ! 4), (64, ctx ! 5), (56, ctx ! 6),
      (8, ctx ! 7 - 24), (72, ctx ! 8), (80, ctx ! 9), (88, ctx ! 10), (96, ctx ! 11), (104, ctx ! 12), (112, ctx ! 13)]"

fun deliver_pending :: "(u64 \<Rightarrow> bool) \<Rightarrow> nat \<Rightarrow> u64 \<Rightarrow> u64 \<Rightarrow> nat list \<Rightarrow> sched \<Rightarrow> (flow \<times> sched) option" where
  "deliver_pending ok c k sys_ret [] s = Some (Return 0, s)"
| "deliver_pending ok c k sys_ret (n # ns) s =
     (let t = cur_task s c; q = task_ref s t; a = tk_handlers q ! n
      in if \<not> bit (tk_sig_pending q) n \<or> bit (tk_sig_blocked q) n \<or> sa_handler a = SIG_IGN then deliver_pending ok c k sys_ret ns s
         else if sa_handler a = SIG_DFL
         then if terminates n
              then do {
                (r, s1) \<leftarrow> exit_task ok (upd_task s t (\<lambda>q. q\<lparr>tk_sig_pending := tk_sig_pending q AND NOT (2 ^ n)\<rparr>)) c (128 + of_nat n);
                case r of Suspend \<Rightarrow> Some (Suspend, s1) | Return _ \<Rightarrow> deliver_pending ok c k sys_ret ns s1 }
              else deliver_pending ok c k sys_ret ns s
         else if sa_restorer a = 0 \<or> sa_flags a AND SA_RESTORER = 0 then deliver_pending ok c k sys_ret ns s
         else Some (Return 1, enter_handler s t k n a sys_ret))"

definition check_deliver_signal :: "(u64 \<Rightarrow> bool) \<Rightarrow> sched \<Rightarrow> nat \<Rightarrow> u64 \<Rightarrow> u64 \<Rightarrow> (flow \<times> sched) option" where
  "check_deliver_signal ok s0 c k sys_ret =
     do {
       s \<leftarrow> lock_signals s0;
       case pending_restore s of
         Some ctx \<Rightarrow> Some (Return 1, unlock_signals (s\<lparr>pending_restore := None, umem := store_all k (restore_words ctx) (umem s)\<rparr>))
       | None \<Rightarrow>
           let t = cur_task s c
           in if t = 0 \<or> tk_state (task_ref s t) = Empty then Some (Return 0, unlock_signals s)
              else do {
                (r, s1) \<leftarrow> deliver_pending ok c k sys_ret [1..<SIGNAL_COUNT] s;
                case r of Suspend \<Rightarrow> Some (Suspend, s1) | Return v \<Rightarrow> Some (Return v, unlock_signals s1) } }"

definition frame_context :: "sched \<Rightarrow> u64 \<Rightarrow> u64 list" where
  "frame_context s f = map (\<lambda>off. kload s f (SIG_MCTX + off)) [64, 72, 96, 0, 8, 128, 136, 120, 56, 48, 40, 32, 80, 88]"

definition sys_rt_sigreturn :: "sched \<Rightarrow> nat \<Rightarrow> (int \<times> sched) option" where
  "sys_rt_sigreturn s0 c =
     do {
       s \<leftarrow> lock_signals s0;
       let t = cur_task s c; f = user_rsp s - 8
       in if t = 0 then Some (- EINVAL, unlock_signals s)
          else Some (sint (kload s f (SIG_MCTX + 104)),
                 unlock_signals (upd_task (s\<lparr>pending_restore := Some (frame_context s f)\<rparr>) t
                   (\<lambda>q. q\<lparr>tk_sig_blocked := kload s f SIG_SIGMASK\<rparr>))) }"

end
