(* ===== verification/Signal_Frames.thy ===== *)
theory Signal_Frames
  imports Signals
begin

text \<open>
  The signal frame as a round trip: what \<^verbatim>\<open>check_deliver_signal\<close> stores on the user stack when it enters a handler is what
  \<^verbatim>\<open>sys_rt_sigreturn\<close> reads back and the next \<^verbatim>\<open>check_deliver_signal\<close> puts into the saved registers.
\<close>

unbundle bit_operations_syntax

section \<open>Tables of words in memory\<close>

lemma apart_multiple:
  assumes "8 dvd unat x" and "8 dvd unat y" and "x \<noteq> y"
  shows "apart x 8 y 8"
proof -
  have ne: "unat x \<noteq> unat y" using assms(3) by (simp add: word_unat_eq_iff)
  obtain i j where ij: "unat x = 8 * i" "unat y = 8 * j" using assms(1,2) by (auto elim!: dvdE)
  have "8 * i < 2 ^ 64" "8 * j < 2 ^ 64" using ij unat_lt64 [of x] unat_lt64 [of y] by simp_all
  with ne ij show ?thesis by (cases "i < j") (auto simp: apart_def)
qed

lemma store_all_simps [simp]:
  "store_all b [] m = m" "store_all b (ws @ [w]) m = store 8 (store_all b ws m) (b + fst w) (snd w)"
  by (simp_all add: store_all_def case_prod_beta)

lemma load_store_all:
  assumes "\<forall>w \<in> set ws. 8 dvd unat (fst w)" and "8 dvd unat y"
  shows "load 8 (store_all b ws m) (b + y) = (case map_of (rev ws) y of Some v \<Rightarrow> v | None \<Rightarrow> load 8 m (b + y))"
  using assms(1)
proof (induction ws rule: rev_induct)
  case (snoc w ws)
  show ?case
  proof (cases "fst w = y")
    case True
    then show ?thesis by (simp add: split_beta)
  next
    case False
    then have "apart (fst w) 8 y 8" using snoc.prems assms(2) by (intro apart_multiple) auto
    then show ?thesis using False snoc by (simp add: load_store_apart split_beta)
  qed
qed simp

lemma load_store_all_apart:
  assumes "\<forall>w \<in> set ws. apart (b + fst w) 8 q 8"
  shows "(load 8 (store_all b ws m) q :: u64) = load 8 m q"
  using assms
proof (induction ws rule: rev_induct)
  case (snoc w ws)
  have "(load 8 (store 8 (store_all b ws m) (b + fst w) (snd w)) q :: u64) = load 8 (store_all b ws m) q"
    using snoc.prems by (intro load_store_apart [where b = 0, simplified]) auto
  then show ?case using snoc by simp
qed simp

lemma apart_inside:
  assumes "apart f n k l" and "unat x + 8 \<le> n" and "unat y + 8 \<le> l"
  shows "apart (k + y) 8 (f + x) 8"
proof -
  have "n \<le> 2 ^ 64" "l \<le> 2 ^ 64" and "unat f + n \<le> 2 ^ 64" "unat k + l \<le> 2 ^ 64"
    using assms(1) unat_lt64 [of f] unat_lt64 [of k] by (auto simp: apart_def)
  then have "unat (f + x) = unat f + unat x" "unat (k + y) = unat k + unat y"
    using assms(2,3) by (simp_all add: unat_add_nowrap)
  then show ?thesis using assms by (auto simp: apart_def)
qed

section \<open>Entering and leaving a handler\<close>

lemmas sig_offsets = SIG_MCTX_def SIG_SIGMASK_def SIG_UC_def SIG_FRAME_SIZE_def

lemma frame_loads:
  assumes "apart (frame_of s k) 320 k 120" and "8 dvd unat y" and "unat y + 8 \<le> 320" and "y \<noteq> 192"
  shows "load 8 (umem (enter_handler s t k n a ret)) (frame_of s k + y) =
    (case map_of (rev (frame_words s k (sa_restorer a) (tk_sig_blocked (task_ref s t)) ret)) y of
       Some v \<Rightarrow> v | None \<Rightarrow> load 8 (umem s) (frame_of s k + y))"
proof -
  let ?f = "frame_of s k" and ?ws = "frame_words s k (sa_restorer a) (tk_sig_blocked (task_ref s t)) ret"
  let ?m1 = "store_all ?f ?ws (umem s)"
  let ?m2 = "store 2 (store 2 (store 2 ?m1 (?f + (SIG_MCTX + 144)) (0x33 :: u16)) (?f + (SIG_MCTX + 146)) (0 :: u16))
      (?f + (SIG_MCTX + 148)) (0 :: u16)"
  let ?kw = "[(40, of_nat n), (32, ?f + SIG_UC), (64, sa_handler a), (8, ?f - 24)] :: words"
  have "umem (enter_handler s t k n a ret) = store_all k ?kw ?m2" by (simp add: enter_handler_def Let_def)
  moreover have "(load 8 (store_all k ?kw ?m2) (?f + y) :: u64) = load 8 ?m2 (?f + y)"
    using assms(1,3) by (intro load_store_all_apart) (auto intro: apart_inside)
  moreover have "(load 8 ?m2 (?f + y) :: u64) = load 8 ?m1 (?f + y)"
  proof -
    have "unat y \<noteq> 192" using assms(4) word_unat_eq_iff [of y 192] by simp
    moreover obtain j where "unat y = 8 * j" using assms(2) by (auto elim!: dvdE)
    ultimately have "apart (SIG_MCTX + 144) 2 y 8" "apart (SIG_MCTX + 146) 2 y 8" "apart (SIG_MCTX + 148) 2 y 8"
      using assms(3) by (auto simp: apart_def SIG_MCTX_def)
    then show ?thesis by (simp add: load_store_apart)
  qed
  moreover have "load 8 ?m1 (?f + y) = (case map_of (rev ?ws) y of Some v \<Rightarrow> v | None \<Rightarrow> load 8 (umem s) (?f + y))"
    using assms(2) by (intro load_store_all) (auto simp: frame_words_def sig_offsets)
  ultimately show ?thesis by simp
qed

lemma cur_task_upd [simp]: "cur_task (upd_slot s i f) c = cur_task s c"
  by (simp add: cur_task_def upd_slot_def)

lemma exit_task_suspends: "cur_task s c \<noteq> 0 \<Longrightarrow> exit_task ok s c code = Some (r, s1) \<Longrightarrow> r = Suspend"
  by (auto simp: exit_task_def Let_def split: bind_splits)

lemma deliver_enters:
  assumes "cur_task s c \<noteq> 0" and "deliver_pending ok c k ret ns s = Some (Return 1, s1)"
  shows "\<exists>n a. s1 = enter_handler s (cur_task s c) k n a ret"
  using assms
proof (induction ns)
  case (Cons n ns)
  show ?case
    using Cons by (auto simp: Let_def split: if_splits bind_splits flow.splits dest!: exit_task_suspends [rotated])
qed simp

lemma check_enters:
  assumes "cur_task s c \<noteq> 0" and "pending_restore s = None" and "check_deliver_signal ok s c k ret = Some (Return 1, s1)"
  shows "\<exists>n a. umem s1 = umem (enter_handler s (cur_task s c) k n a ret)"
proof -
  let ?s = "s\<lparr>signal_locked := True\<rparr>"
  have e: "cur_task ?s c = cur_task s c" by (simp add: cur_task_def)
  from assms obtain s2 where "deliver_pending ok c k ret [1..<SIGNAL_COUNT] ?s = Some (Return 1, s2)" "s1 = unlock_signals s2"
    by (auto simp: check_deliver_signal_def lock_signals_def Let_def cur_task_def split: if_splits bind_splits flow.splits)
  with deliver_enters [of ?s c ok k ret "[1..<SIGNAL_COUNT]" s2] assms(1) e obtain n a where "s2 = enter_handler ?s (cur_task s c) k n a ret" by auto
  then have "umem s1 = umem (enter_handler s (cur_task s c) k n a ret)"
    using \<open>s1 = _\<close> by (simp add: enter_handler_def unlock_signals_def Let_def frame_of_def frame_words_def saved_rsp_def task_ref_def)
  then show ?thesis by blast
qed

lemma load_cong:
  assumes "\<forall>y < n. m (f + of_nat y) = m' (f + of_nat y)" and "unat y + k \<le> n"
  shows "(load k m (f + y) :: u64) = load k m' (f + y)"
proof -
  have "m (f + y + of_nat j) = m' (f + y + of_nat j)" if "j < k" for j
    using assms(1) [rule_format, of "unat y + j"] that assms(2) by (simp add: add.assoc)
  then have "mem_read m (f + y) k = mem_read m' (f + y) k" by (simp add: mem_read_def)
  then show ?thesis by (simp add: load_def)
qed

definition interrupted :: "sched \<Rightarrow> u64 \<Rightarrow> u64 list" where
  "interrupted s k = map (kload s k) [40, 32, 48, 24, 16, 64, 56] @ [saved_rsp s k] @ map (kload s k) [72, 80, 88, 96, 104, 112]"

lemma frame_saves:
  assumes "apart (frame_of s k) 320 k 120" and m: "umem s1 = umem (enter_handler s t k n a ret)"
    and f: "\<forall>y < 320. umem s2 (frame_of s k + of_nat y) = umem s1 (frame_of s k + of_nat y)"
  shows "frame_context s2 (frame_of s k) = interrupted s k" and "kload s2 (frame_of s k) (SIG_MCTX + 104) = ret"
    and "kload s2 (frame_of s k) SIG_SIGMASK = tk_sig_blocked (task_ref s t)"
proof -
  have ld: "kload s2 (frame_of s k) y = (case map_of (rev (frame_words s k (sa_restorer a) (tk_sig_blocked (task_ref s t)) ret)) y of
       Some v \<Rightarrow> v | None \<Rightarrow> load 8 (umem s) (frame_of s k + y))"
    if "8 dvd unat y" "unat y + 8 \<le> 320" "y \<noteq> 192" for y
    using frame_loads [OF assms(1) that] load_cong [OF f that(2)] m by simp
  show "frame_context s2 (frame_of s k) = interrupted s k"
    unfolding frame_context_def interrupted_def by (simp add: ld SIG_MCTX_def SIG_SIGMASK_def frame_words_def)
  show "kload s2 (frame_of s k) (SIG_MCTX + 104) = ret" "kload s2 (frame_of s k) SIG_SIGMASK = tk_sig_blocked (task_ref s t)"
    by (simp_all add: ld SIG_MCTX_def SIG_SIGMASK_def frame_words_def)
qed

lemma restore_loads:
  assumes "length ctx = 14"
  shows "map (\<lambda>off. load 8 (store_all k (restore_words ctx) m) (k + off)) [40, 32, 48, 24, 16, 64, 56, 8, 72, 80, 88, 96, 104, 112] =
    ctx[7 := ctx ! 7 - 24]"
proof -
  have ld: "load 8 (store_all k (restore_words ctx) m) (k + y) = (case map_of (rev (restore_words ctx)) y of
      Some v \<Rightarrow> v | None \<Rightarrow> load 8 m (k + y))" if "8 dvd unat y" for y
    using that by (intro load_store_all) (auto simp: restore_words_def)
  have e: "map (\<lambda>off. load 8 (store_all k (restore_words ctx) m) (k + off)) [40, 32, 48, 24, 16, 64, 56, 8, 72, 80, 88, 96, 104, 112] =
      map (\<lambda>y. case map_of (rev (restore_words ctx)) y of Some v \<Rightarrow> v | None \<Rightarrow> load 8 m (k + y))
        [40, 32, 48, 24, 16, 64, 56, 8, 72, 80, 88, 96, 104, 112]"
    by (simp add: ld)
  obtain a0 a1 a2 a3 a4 a5 a6 a7 a8 a9 a10 a11 a12 a13 where "ctx = [a0, a1, a2, a3, a4, a5, a6, a7, a8, a9, a10, a11, a12, a13]"
    using assms by (auto simp: numeral_eq_Suc length_Suc_conv)
  then show ?thesis unfolding e by (simp add: restore_words_def)
qed

definition reg_slots :: "u64 list" where
  "reg_slots = [40, 32, 48, 24, 16, 64, 56, 8, 72, 80, 88, 96, 104, 112]"

lemma interrupted_slots: "(interrupted s k)[7 := interrupted s k ! 7 - 24] = map (kload s k) reg_slots"
  by (simp add: interrupted_def reg_slots_def saved_rsp_def)

text \<open>C18: A signal handler is transparent: if the kernel has entered a handler on the way out of a system call, and the
  handler returns with its frame intact, then \<^verbatim>\<open>rt_sigreturn\<close> yields the interrupted return value, puts back the signal
  mask, and on the way out of it every saved register, the stack pointer, the instruction pointer and the flags are those of
  the interrupted system call.\<close>

theorem signal_frame_roundtrip:
  assumes t: "cur_task s c \<noteq> 0" and pr: "pending_restore s = None"
    and d: "check_deliver_signal ok s c k ret = Some (Return 1, s1)" and ap: "apart (frame_of s k) 320 k 120"
    and h: "cur_task s2 c = cur_task s c" "\<not> signal_locked s2" "length (tasks s2) = MAX_TASKS" "user_rsp s2 = frame_of s k + 8"
    and mem: "\<forall>y < 320. umem s2 (frame_of s k + of_nat y) = umem s1 (frame_of s k + of_nat y)"
  shows "\<exists>s3 s4. sys_rt_sigreturn s2 c = Some (sint ret, s3) \<and>
    tk_sig_blocked (task_ref s3 (cur_task s c)) = tk_sig_blocked (task_ref s (cur_task s c)) \<and>
    check_deliver_signal ok s3 c k' ret' = Some (Return 1, s4) \<and>
    map (kload s4 k') reg_slots = map (kload s k) reg_slots"
proof -
  let ?t = "cur_task s c"
  obtain n a where m: "umem s1 = umem (enter_handler s ?t k n a ret)" using check_enters [OF t pr d] by blast
  note f = frame_saves [OF ap m mem]
  define s3 where "s3 = unlock_signals (upd_task (s2\<lparr>signal_locked := True, pending_restore := Some (interrupted s k)\<rparr>) ?t
      (\<lambda>q. q\<lparr>tk_sig_blocked := tk_sig_blocked (task_ref s ?t)\<rparr>))"
  define s4 where "s4 = s3\<lparr>pending_restore := None, umem := store_all k' (restore_words (interrupted s k)) (umem s3)\<rparr>"
  have "sys_rt_sigreturn s2 c = Some (sint ret, s3)"
    using h t f by (simp add: sys_rt_sigreturn_def lock_signals_def Let_def cur_task_def s3_def frame_context_def)
  moreover have "tk_sig_blocked (task_ref s3 ?t) = tk_sig_blocked (task_ref s ?t)"
    using h(3) by (simp add: s3_def unlock_signals_def task_ref_def upd_slot_def task_idx_def MAX_TASKS_def)
  moreover have "check_deliver_signal ok s3 c k' ret' = Some (Return 1, s4)"
    by (simp add: check_deliver_signal_def lock_signals_def s3_def s4_def unlock_signals_def upd_slot_def)
  moreover have "map (kload s4 k') reg_slots = map (kload s k) reg_slots"
    using restore_loads [of "interrupted s k" k' "umem s3"] interrupted_slots [of s k]
    by (simp add: s4_def reg_slots_def interrupted_def)
  ultimately show ?thesis by blast
qed

definition demo_sig_task :: task where
  "demo_sig_task = task_empty\<lparr>tk_id := 1, tk_state := Running, tk_sig_pending := 2, tk_sig_blocked := 8,
     tk_handlers := (tk_handlers task_empty)[1 := \<lparr>sa_handler = 0x400000, sa_mask = 0, sa_flags = SA_RESTORER, sa_restorer = 0x400100\<rparr>]\<rparr>"

definition demo_sig :: sched where
  "demo_sig = sched_new\<lparr>tasks := (tasks sched_new)[1 := demo_sig_task], currents := [1, 0],
     umem := store 8 (\<lambda>_. 0) 0x100008 (0x7000 :: u64)\<rparr>"

lemma demo_sig_facts:
  "cur_task demo_sig 0 = 1" "pending_restore demo_sig = None" "frame_of demo_sig 0x100000 = 0x6ED0"
  "length (tasks demo_sig) = MAX_TASKS"
  by (simp_all add: demo_sig_def sched_new_def cur_task_def frame_of_def saved_rsp_def SIG_FRAME_SIZE_def)

definition demo_in_handler :: sched where
  "demo_in_handler = unlock_signals (enter_handler (demo_sig\<lparr>signal_locked := True\<rparr>) 1 0x100000 1 (tk_handlers demo_sig_task ! 1) 5)"

lemma demo_sig_enters: "check_deliver_signal ok demo_sig 0 0x100000 5 = Some (Return 1, demo_in_handler)"
proof -
  define d where "d = demo_sig\<lparr>signal_locked := True\<rparr>"
  have d: "lock_signals demo_sig = Some d" "cur_task d 0 = 1" "task_ref d 1 = demo_sig_task" "pending_restore d = None"
    by (simp_all add: d_def demo_sig_def sched_new_def lock_signals_def cur_task_def task_ref_def task_idx_def MAX_TASKS_def)
  have h: "sa_handler (tk_handlers demo_sig_task ! 1) = 0x400000" "sa_flags (tk_handlers demo_sig_task ! 1) = SA_RESTORER"
    "sa_restorer (tk_handlers demo_sig_task ! 1) = 0x400100" "bit (tk_sig_pending demo_sig_task) 1" "\<not> bit (tk_sig_blocked demo_sig_task) 1"
    "tk_state demo_sig_task = Running"
    by (simp_all add: demo_sig_task_def task_empty_def SIGNAL_COUNT_def bit_numeral_rec)
  have n: "[1..<SIGNAL_COUNT] = 1 # [2..<SIGNAL_COUNT]" by (simp add: SIGNAL_COUNT_def upt_rec)
  have "deliver_pending ok 0 0x100000 5 [1..<SIGNAL_COUNT] d = Some (Return 1, enter_handler d 1 0x100000 1 (tk_handlers demo_sig_task ! 1) 5)"
    unfolding n deliver_pending.simps Let_def d using h by (simp add: SIG_IGN_def SIG_DFL_def SA_RESTORER_def)
  then show ?thesis
    using h d by (simp add: check_deliver_signal_def Let_def demo_in_handler_def d_def [symmetric])
qed

theorem signal_frame_roundtrip_witness:
  "\<exists>s3 s4. sys_rt_sigreturn (demo_in_handler\<lparr>user_rsp := 0x6ED8\<rparr>) 0 = Some (5, s3) \<and>
    tk_sig_blocked (task_ref s3 1) = tk_sig_blocked (task_ref demo_sig 1) \<and>
    check_deliver_signal (\<lambda>_. True) s3 0 0x100000 0 = Some (Return 1, s4) \<and>
    map (kload s4 0x100000) reg_slots = map (kload demo_sig 0x100000) reg_slots"
proof -
  have "cur_task (demo_in_handler\<lparr>user_rsp := 0x6ED8\<rparr>) 0 = 1" "length (tasks (demo_in_handler\<lparr>user_rsp := 0x6ED8\<rparr>)) = MAX_TASKS"
    using demo_sig_facts by (simp_all add: demo_in_handler_def unlock_signals_def enter_handler_def Let_def cur_task_def upd_slot_def)
  moreover have "\<not> signal_locked (demo_in_handler\<lparr>user_rsp := 0x6ED8\<rparr>)" by (simp add: demo_in_handler_def unlock_signals_def)
  ultimately show ?thesis
    using signal_frame_roundtrip [where ?s2.0 = "demo_in_handler\<lparr>user_rsp := 0x6ED8\<rparr>" and k' = "0x100000" and ret' = "0"
      and ok = "\<lambda>_. True", OF _ _ demo_sig_enters]
    by (simp add: demo_sig_facts apart_def)
qed

end
