(* ===== verification/Sched_Props.thy ===== *)
theory Sched_Props
  imports Sched_Queues Signal_Frames
begin

text \<open>
  Properties of the scheduler: process identifiers, the order in which the run queue hands out tasks, what waking does, and
  where the code falls short of it.
\<close>

unbundle bit_operations_syntax

section \<open>Process identifiers\<close>

lemma trailing_ones_spec: "i < trailing_ones w \<Longrightarrow> bit w i" "trailing_ones w < 64 \<Longrightarrow> \<not> bit w (trailing_ones w)" "trailing_ones w \<le> 64"
  using takeWhile_upt [where P = "bit w" and n = 64, folded trailing_ones_def] by auto

lemma alloc_pid_from_lowest:
  assumes "alloc_pid_from s lo = (Some p, s')"
  shows "lo \<le> p \<and> unat p < MAX_TASKS \<and> \<not> bit (pid_bitmap s) (unat p) \<and>
    (\<forall>i. unat lo \<le> i \<and> i < unat p \<longrightarrow> bit (pid_bitmap s) i) \<and>
    (\<forall>i. bit (pid_bitmap s') i \<longleftrightarrow> bit (pid_bitmap s) i \<or> i = unat p)"
proof -
  define w where "w = drop_bit (unat lo) (pid_bitmap s)"
  have a: "unat lo < 64" "unat lo + trailing_ones w < 64" "p = of_nat (unat lo + trailing_ones w)"
    "s' = s\<lparr>pid_bitmap := pid_bitmap s OR 2 ^ (unat lo + trailing_ones w)\<rparr>"
    using assms by (auto simp: alloc_pid_from_def Let_def w_def MAX_TASKS_def split: if_splits)
  have p: "unat p = unat lo + trailing_ones w" unfolding a(3) using a(2) by (intro unat_of_nat_lt) simp
  have b: "bit w i \<longleftrightarrow> bit (pid_bitmap s) (unat lo + i)" for i by (simp add: w_def bit_drop_bit_eq add.commute)
  have "bit (pid_bitmap s) i" if "unat lo \<le> i" "i < unat p" for i
    using trailing_ones_spec(1) [of "i - unat lo" w] that p b [of "i - unat lo"] by simp
  moreover have "\<not> bit (pid_bitmap s) (unat p)" using trailing_ones_spec(2) [of w] a(2) b p by simp
  ultimately show ?thesis using a p by (auto simp: word_le_nat_alt MAX_TASKS_def bit_mask_or)
qed

lemma alloc_pid_from_full:
  assumes "alloc_pid_from s lo = (None, s')" and "unat lo < MAX_TASKS"
  shows "s' = s \<and> (\<forall>i. unat lo \<le> i \<and> i < MAX_TASKS \<longrightarrow> bit (pid_bitmap s) i)"
proof -
  define w where "w = drop_bit (unat lo) (pid_bitmap s)"
  have b: "bit w i \<longleftrightarrow> bit (pid_bitmap s) (unat lo + i)" for i by (simp add: w_def bit_drop_bit_eq add.commute)
  have a: "s' = s" "w = - 1 \<or> unat lo + trailing_ones w \<ge> 64"
    using assms by (auto simp: alloc_pid_from_def Let_def w_def MAX_TASKS_def split: if_splits)
  have "bit (pid_bitmap s) i" if "unat lo \<le> i" "i < 64" for i
  proof (cases "w = - 1")
    case True
    then have "bit w (i - unat lo)" using that by simp
    then show ?thesis using b [of "i - unat lo"] that by simp
  next
    case False
    then have "i - unat lo < trailing_ones w" using a(2) that by linarith
    then show ?thesis using trailing_ones_spec(1) b [of "i - unat lo"] that by simp
  qed
  then show ?thesis using a by (simp add: MAX_TASKS_def)
qed

lemma free_pid_bit:
  "bit (pid_bitmap (free_pid s p)) i \<longleftrightarrow> bit (pid_bitmap s) i \<and> \<not> (p \<noteq> 0 \<and> unat p < MAX_TASKS \<and> i = unat p)"
  by (auto simp: free_pid_def bit_mask_andnot)

section \<open>The order of the run queue\<close>

text \<open>C37: The run queue hands out tasks in the order of a stable sort by priority: tasks of one CPU that are enqueued in any
  order onto its empty run queue are dequeued with the smallest priority number first, and in the order of their arrival
  within a priority.\<close>

theorem runqueue_is_stable_priority_sort:
  assumes "cpu_queue c s (\<lambda>_. [])" and "distinct ts"
    and "\<forall>t \<in> set ts. home s t c (unat (tk_prio (task_ref s t))) \<and> unat (tk_prio (task_ref s t)) < PRIORITY_LEVELS"
  shows "\<exists>s1 s2. feed enqueue_self s ts = Some s1 \<and>
    drain (\<lambda>s. dequeue_task s c) (length ts) s1 = Some (sort_key (\<lambda>t. unat (tk_prio (task_ref s t))) ts, s2)"
  using runq.feed_drain_sorts [OF assms(1) assms(3,2)] by blast

lemma rq_ok_new: "rq_ok (s\<lparr>tasks := ts, rqs := rqs sched_new\<rparr>) (\<lambda>_ _. []) \<longleftrightarrow> length ts = MAX_TASKS"
  by (auto simp: rq_ok_def queue_ok_def sched_new_def run_queue_new_def last_opt_def)

definition demo_tasks :: "task list" where
  "demo_tasks = (replicate MAX_TASKS task_empty)[3 := task_empty\<lparr>tk_id := 3, tk_prio := 20\<rparr>,
     5 := task_empty\<lparr>tk_id := 5, tk_prio := 4\<rparr>, 9 := task_empty\<lparr>tk_id := 9, tk_prio := 20\<rparr>]"

definition demo_sched :: sched where
  "demo_sched = sched_new\<lparr>tasks := demo_tasks, rqs := rqs sched_new\<rparr>"

lemma demo_prios: "tk_prio (task_ref demo_sched 3) = 20" "tk_prio (task_ref demo_sched 5) = 4" "tk_prio (task_ref demo_sched 9) = 20"
    "tk_cpu (task_ref demo_sched 3) = 0" "tk_cpu (task_ref demo_sched 5) = 0" "tk_cpu (task_ref demo_sched 9) = 0"
  by (simp_all add: demo_sched_def demo_tasks_def task_ref_def task_idx_def MAX_TASKS_def task_empty_def)

theorem runqueue_is_stable_priority_sort_witness:
  "\<exists>s1 s2. feed enqueue_self demo_sched [3, 5, 9] = Some s1 \<and> drain (\<lambda>s. dequeue_task s 0) 3 s1 = Some ([5, 3, 9], s2)"
proof -
  have "cpu_queue 0 demo_sched (\<lambda>_. [])"
    unfolding cpu_queue_def demo_sched_def using rq_ok_new [of demo_tasks sched_new] by (auto simp: demo_tasks_def MAX_CPUS_def)
  moreover have "length [3, 5, 9 :: u64] = 3" by simp
  ultimately show ?thesis using runqueue_is_stable_priority_sort [of 0 demo_sched "[3, 5, 9]", unfolded \<open>length _ = 3\<close>]
    by (simp add: demo_prios home_def MAX_TASKS_def PRIORITY_LEVELS_def del: feed.simps drain.simps)
qed

text \<open>C34: Removing a task from its run queue always returns, although the walk over the linked list need not end on a damaged list:
  on well-formed queues it finds the task exactly when it is queued, takes it out of the queue of its CPU and priority and
  leaves the order of the others, and otherwise changes nothing.\<close>

theorem remove_from_runqueue_returns:
  assumes "rq_ok s Q" and "home s t c p" and "c < MAX_CPUS" and "p < PRIORITY_LEVELS"
  shows "\<exists>s'. remove_from_runqueue s t = Some (t \<in> set (Q c p), s') \<and> rq_ok s' (set_queue Q c p (remove1 t (Q c p))) \<and>
    unlinked s' = unlinked s \<and> (t \<notin> set (Q c p) \<longrightarrow> s' = s)"
proof (cases "t \<in> set (Q c p)")
  case True
  then obtain xs ys where q: "Q c p = xs @ t # ys" "t \<notin> set xs" by (meson split_list_first)
  then have "remove1 t (Q c p) = xs @ ys" by (simp add: remove1_append)
  then show ?thesis using remove_ok [OF assms(1) q(1)] True by simp
next
  case False
  then have "set_queue Q c p (remove1 t (Q c p)) = Q" by (auto simp: set_queue_def remove1_idem fun_eq_iff)
  then show ?thesis using remove_absent [OF assms False] assms(1) False by simp
qed

theorem remove_from_runqueue_returns_witness:
  "\<exists>s1 s2. enqueue_self demo_sched 3 = Some s1 \<and> remove_from_runqueue s1 3 = Some (True, s2)"
proof -
  have ok: "rq_ok demo_sched (\<lambda>_ _. [])" unfolding demo_sched_def rq_ok_new by (simp add: demo_tasks_def)
  have h: "home demo_sched 3 0 20" "(0 :: nat) < MAX_CPUS" "20 < PRIORITY_LEVELS"
    by (simp_all add: demo_prios home_def MAX_CPUS_def MAX_TASKS_def PRIORITY_LEVELS_def)
  from enqueue_ok [OF ok h(1,2) _ h(3), of "tk_prio (task_ref demo_sched 3)"] obtain s1 where
    s1: "enqueue_self demo_sched 3 = Some s1" "rq_ok s1 (set_queue (\<lambda>_ _. []) 0 20 [3])" "unlinked s1 = unlinked demo_sched"
    by (auto simp: enqueue_self_def demo_prios set_queue_def)
  have "home s1 3 0 20" using unlinked_home [OF s1(3) rq_okD(1) [OF ok]] h(1) by simp
  from remove_from_runqueue_returns [OF s1(2) this h(2,3)] s1(1) show ?thesis by (auto simp: set_queue_def)
qed

section \<open>Waking\<close>

definition sleepers_unqueued :: "sched \<Rightarrow> queues \<Rightarrow> bool" where
  "sleepers_unqueued s Q \<longleftrightarrow> (\<forall>i < MAX_TASKS. tk_state (tasks s ! i) = Blocked \<longrightarrow> \<not> in_queue Q (tk_id (tasks s ! i)))"

lemma link_free_wakers: "link_free (waits_on a) woken" "link_free (expired n) timer_woken"
  by (simp_all add: link_free_def waits_on_def woken_def expired_def timer_woken_def)

lemma tasks_upd_slot: "tasks (upd_slot s a f) ! i = (if i = a \<and> a < length (tasks s) then f (tasks s ! a) else tasks s ! i)"
  by (auto simp: upd_slot_def nth_list_update list_update_beyond)

lemma woken_others: "i \<notin> set ws \<Longrightarrow> tasks (fold (\<lambda>i s. upd_slot s i f) ws s) ! i = tasks s ! i"
  by (induction ws arbitrary: s) (auto simp: tasks_upd_slot)

lemma woken_these:
  "distinct ws \<Longrightarrow> i \<in> set ws \<Longrightarrow> i < length (tasks s) \<Longrightarrow> tasks (fold (\<lambda>i s. upd_slot s i f) ws s) ! i = f (tasks s ! i)"
  by (induction ws arbitrary: s) (auto simp: woken_others tasks_upd_slot)

definition chosen :: "(task \<Rightarrow> bool) \<Rightarrow> nat \<Rightarrow> sched \<Rightarrow> nat list" where
  "chosen P m s = take m (filter (\<lambda>i. P (tasks s ! i)) [0..<MAX_TASKS])"

lemma wake_effect:
  assumes ok: "rq_ok s Q" "table_ok s" "sleepers_unqueued s Q" and lf: "link_free P f"
    and P: "\<And>k. P k \<Longrightarrow> tk_state k = Blocked \<and> tk_id k \<noteq> 0"
  shows "\<exists>s'. wake_scan P f m [0..<MAX_TASKS] 0 s = Some (length (chosen P m s), s') \<and>
    rq_ok s' (fold (append_slot s) (chosen P m s) Q) \<and>
    (\<forall>i < MAX_TASKS. (tasks s' ! i)\<lparr>tk_next := None\<rparr> =
       (if i \<in> set (chosen P m s) then f (tasks s ! i) else tasks s ! i)\<lparr>tk_next := None\<rparr>)"
proof -
  let ?ws = "chosen P m s"
  have "let ws = take (m - 0) (filter (\<lambda>i. P (tasks s ! i)) [0..<MAX_TASKS])
    in \<exists>s'. wake_scan P f m [0..<MAX_TASKS] 0 s = Some (0 + length ws, s') \<and>
      rq_ok s' (fold (append_slot s) ws Q) \<and> unlinked s' = fold (\<lambda>i s. upd_slot s i f) ws (unlinked s)"
    by (rule wake_scan_exact [OF ok(1,2) lf]) (use ok(3) P in \<open>auto simp: sleepers_unqueued_def\<close>)
  then obtain s' where s': "wake_scan P f m [0..<MAX_TASKS] 0 s = Some (length ?ws, s')"
      "rq_ok s' (fold (append_slot s) ?ws Q)" "unlinked s' = fold (\<lambda>i s. upd_slot s i f) ?ws (unlinked s)"
    by (auto simp: chosen_def Let_def)
  have len: "length (tasks s) = MAX_TASKS" "length (tasks s') = MAX_TASKS" using rq_okD(1) ok(1) s'(2) by auto
  have dw: "distinct ?ws" by (simp add: chosen_def)
  have "(tasks s' ! i)\<lparr>tk_next := None\<rparr> = (if i \<in> set ?ws then f (tasks s ! i) else tasks s ! i)\<lparr>tk_next := None\<rparr>"
    if "i < MAX_TASKS" for i
  proof -
    have "tasks (unlinked s') ! i = (if i \<in> set ?ws then f (tasks (unlinked s) ! i) else tasks (unlinked s) ! i)"
      unfolding s'(3) using woken_others woken_these [OF dw] that len by (auto simp: unlinked_def)
    then show ?thesis using that len lf by (simp add: unlinked_tasks link_free_def)
  qed
  with s' show ?thesis by blast
qed

lemma chosen_blocked: "i \<in> set (chosen P m s) \<Longrightarrow> i < MAX_TASKS \<and> P (tasks s ! i)"
  unfolding chosen_def using set_take_subset by fastforce





section \<open>Lost wake-ups and other defects\<close>

lemma rq_ok_flags:
  "rq_ok (s\<lparr>signal_locked := b\<rparr>) Q = rq_ok s Q" "table_ok (s\<lparr>signal_locked := b\<rparr>) = table_ok s"
  by (simp_all add: rq_ok_def queue_ok_def home_def link_def [abs_def] task_ref_def table_ok_def)

text \<open>A task that is not blocked is left where it is by everything that wakes tasks.\<close>

lemma not_woken:
  assumes ok: "rq_ok s Q" "table_ok s" "sleepers_unqueued s Q" and lf: "link_free P f"
    and P: "\<And>k. P k \<Longrightarrow> tk_state k = Blocked \<and> tk_id k \<noteq> 0"
    and i: "i < MAX_TASKS" "tk_state (tasks s ! i) \<noteq> Blocked" "tk_id (tasks s ! i) \<noteq> 0" "\<not> in_queue Q (tk_id (tasks s ! i))"
  shows "\<exists>n s' Q'. wake_scan P f m [0..<MAX_TASKS] 0 s = Some (n, s') \<and> rq_ok s' Q' \<and>
    \<not> in_queue Q' (tk_id (tasks s ! i)) \<and> tk_state (tasks s' ! i) = tk_state (tasks s ! i)"
proof -
  from wake_effect [OF ok lf P] obtain s' where
    s': "wake_scan P f m [0..<MAX_TASKS] 0 s = Some (length (chosen P m s), s')" "rq_ok s' (fold (append_slot s) (chosen P m s) Q)"
      "(tasks s' ! i)\<lparr>tk_next := None\<rparr> = (if i \<in> set (chosen P m s) then f (tasks s ! i) else tasks s ! i)\<lparr>tk_next := None\<rparr>"
    using i(1) by blast
  have ni: "i \<notin> set (chosen P m s)" using chosen_blocked P i(2) by blast
  have "in_queue (fold (append_slot s) ws Q) t \<longleftrightarrow> in_queue Q t \<or> t \<in> (\<lambda>j. tk_id (tasks s ! j)) ` set ws" for ws t
    by (induction ws arbitrary: Q) (auto simp: in_queue_append)
  moreover have "tk_id (tasks s ! j) \<noteq> tk_id (tasks s ! i)" if "j \<in> set (chosen P m s)" for j
  proof -
    have "j < MAX_TASKS" "tk_id (tasks s ! j) \<noteq> 0" "j \<noteq> i" using chosen_blocked [OF that] P ni that by auto
    then show ?thesis using ok(2) i(1,3) unfolding table_ok_def by metis
  qed
  ultimately have "\<not> in_queue (fold (append_slot s) (chosen P m s) Q) (tk_id (tasks s ! i))" using i(4) by (metis imageE)
  moreover have "tk_state (tasks s' ! i) = tk_state (tasks s ! i)" using arg_cong [OF s'(3), of tk_state] ni by simp
  ultimately show ?thesis using s'(1,2) by blast
qed

text \<open>The wake-up of a task in \<^verbatim>\<open>rt_sigsuspend\<close> by a signal is lost: delivering a handled signal to it returns success and
  marks it ready, but puts it on no run queue, and afterwards neither a futex wake nor the timer nor another delivery of the
  signal puts it on one, because they look at blocked tasks only.\<close>

lemma sigsuspend_wake_is_lost:
  assumes ok: "rq_ok s Q" "table_ok s" "sleepers_unqueued s Q" "\<not> signal_locked s"
    and t: "i < MAX_TASKS" "tk_id (tasks s ! i) \<noteq> 0" "tk_state (tasks s ! i) = Blocked" "tk_blocked_on (tasks s ! i) = SIGSUSPEND_MAGIC"
    and sig: "0 < sint sig" "unat sig < SIGNAL_COUNT" "sig \<noteq> SIGKILL" "sig \<noteq> SIGSTOP"
      "sa_handler (tk_handlers (tasks s ! i) ! unat sig) \<noteq> SIG_DFL" "sa_handler (tk_handlers (tasks s ! i) ! unat sig) \<noteq> SIG_IGN"
  shows "\<exists>s'. sig_deliver_to_task v s c i sig = Some (Return 0, s') \<and> tk_state (tasks s' ! i) = Ready \<and>
    rq_ok s' Q \<and> \<not> in_queue Q (tk_id (tasks s ! i)) \<and>
    (\<exists>n s2 Q2. futex_wake s' a m = Some (n, s2) \<and> rq_ok s2 Q2 \<and> \<not> in_queue Q2 (tk_id (tasks s ! i))) \<and>
    (\<exists>s2 Q2. wakeup_expired_sleepers s' = Some s2 \<and> rq_ok s2 Q2 \<and> \<not> in_queue Q2 (tk_id (tasks s ! i))) \<and>
    (\<exists>s2. sig_deliver_to_task v s' c i sig = Some (Return 0, s2) \<and> rq_ok s2 Q)"
proof -
  let ?f = "\<lambda>k. k\<lparr>tk_sig_pending := tk_sig_pending k OR 2 ^ unat sig, tk_state := Ready, tk_blocked_on := 0\<rparr>"
  define s' where "s' = upd_slot s i ?f"
  have len: "length (tasks s) = MAX_TASKS" using rq_okD(1) [OF ok(1)] .
  have k': "tasks s' ! j = (if j = i then ?f (tasks s ! i) else tasks s ! j)" for j using t(1) len by (simp add: s'_def tasks_upd_slot)
  have d: "sig_deliver_to_task v s c i sig = Some (Return 0, s')"
    using ok(4) t sig len
    by (simp add: sig_deliver_to_task_def lock_signals_def unlock_signals_def Let_def s'_def upd_slot_def)
  have rq: "rq_ok s' Q" unfolding s'_def by (rule rq_ok_upd_slot [OF ok(1)]) simp_all
  have tb: "table_ok s'" using ok(2) k' len by (auto simp: table_ok_def s'_def)
  have sl: "sleepers_unqueued s' Q" using ok(3) k' by (auto simp: sleepers_unqueued_def)
  have nq: "\<not> in_queue Q (tk_id (tasks s ! i))" using ok(3) t by (simp add: sleepers_unqueued_def)
  have st: "tk_state (tasks s' ! i) \<noteq> Blocked" "tk_id (tasks s' ! i) = tk_id (tasks s ! i)" by (simp_all add: k')
  note nw = not_woken [OF rq tb sl _ _ t(1) st(1), unfolded st(2), OF _ _ t(2) nq]
  have "\<exists>n s2 Q2. futex_wake s' a m = Some (n, s2) \<and> rq_ok s2 Q2 \<and> \<not> in_queue Q2 (tk_id (tasks s ! i))"
    using nw [OF link_free_wakers(1), of a "unat m"] by (auto simp: futex_wake_def waits_on_def)
  moreover have "\<exists>s2 Q2. wakeup_expired_sleepers s' = Some s2 \<and> rq_ok s2 Q2 \<and> \<not> in_queue Q2 (tk_id (tasks s ! i))"
    using nw [OF link_free_wakers(2), of "ticks s'" MAX_TASKS] by (auto simp: wakeup_expired_sleepers_def expired_def)
  moreover have "\<exists>s2. sig_deliver_to_task v s' c i sig = Some (Return 0, s2) \<and> rq_ok s2 Q"
  proof -
    let ?g = "\<lambda>k. k\<lparr>tk_sig_pending := tk_sig_pending k OR 2 ^ unat sig\<rparr>"
    have "sig_deliver_to_task v s' c i sig = Some (Return 0, upd_slot s' i ?g)"
      using ok(4) t sig len k'
      by (simp add: sig_deliver_to_task_def lock_signals_def unlock_signals_def Let_def s'_def upd_slot_def)
    moreover have "rq_ok (upd_slot s' i ?g) Q" by (rule rq_ok_upd_slot [OF rq]) simp_all
    ultimately show ?thesis by blast
  qed
  ultimately show ?thesis using d rq nq by (auto simp: k')
qed

definition demo_suspended :: sched where
  "demo_suspended = sched_new\<lparr>tasks := (replicate MAX_TASKS task_empty)[1 := task_empty\<lparr>tk_id := 1, tk_state := Blocked,
     tk_blocked_on := SIGSUSPEND_MAGIC, tk_handlers := (tk_handlers task_empty)[17 := sig_action_empty\<lparr>sa_handler := 0x400000\<rparr>]\<rparr>],
     rqs := rqs sched_new\<rparr>"

lemma demo_suspended_ok: "rq_ok demo_suspended (\<lambda>_ _. [])" "table_ok demo_suspended" "sleepers_unqueued demo_suspended (\<lambda>_ _. [])"
    "\<not> signal_locked demo_suspended"
proof -
  show "rq_ok demo_suspended (\<lambda>_ _. [])" unfolding demo_suspended_def rq_ok_new by simp
  show "table_ok demo_suspended"
    by (auto simp: demo_suspended_def table_ok_def nth_list_update task_empty_def sizes split: if_splits)
  show "sleepers_unqueued demo_suspended (\<lambda>_ _. [])" by (simp add: sleepers_unqueued_def in_queue_def)
  show "\<not> signal_locked demo_suspended" by (simp add: demo_suspended_def sched_new_def)
qed

lemma demo_suspended_task: "tasks demo_suspended ! 1 = task_empty\<lparr>tk_id := 1, tk_state := Blocked,
     tk_blocked_on := SIGSUSPEND_MAGIC, tk_handlers := (tk_handlers task_empty)[17 := sig_action_empty\<lparr>sa_handler := 0x400000\<rparr>]\<rparr>"
  by (simp add: demo_suspended_def MAX_TASKS_def)

lemma sigsuspend_wake_is_lost_witness:
  "\<exists>s'. sig_deliver_to_task (\<lambda>_. True) demo_suspended 0 1 17 = Some (Return 0, s') \<and> tk_state (tasks s' ! 1) = Ready \<and>
     rq_ok s' (\<lambda>_ _. [])"
proof -
  let ?k = "tasks demo_suspended ! 1"
  have k: "tk_id ?k \<noteq> 0" "tk_state ?k = Blocked" "tk_blocked_on ?k = SIGSUSPEND_MAGIC"
    "sa_handler (tk_handlers ?k ! 17) \<noteq> SIG_DFL" "sa_handler (tk_handlers ?k ! 17) \<noteq> SIG_IGN"
    unfolding demo_suspended_task
    by (simp_all add: task_empty_def sig_action_empty_def SIGNAL_COUNT_def SIG_DFL_def SIG_IGN_def)
  have "1 < MAX_TASKS" "0 < sint (17 :: i32)" "unat (17 :: i32) < SIGNAL_COUNT" "(17 :: i32) \<noteq> SIGKILL" "(17 :: i32) \<noteq> SIGSTOP"
    by (simp_all add: MAX_TASKS_def SIGNAL_COUNT_def SIGKILL_def SIGSTOP_def)
  moreover have "unat (17 :: i32) = 17" by simp
  ultimately show ?thesis
    using sigsuspend_wake_is_lost [OF demo_suspended_ok _ k(1-3), of 17 "\<lambda>_. True" 0 0 0] k(4,5) by auto
qed

text \<open>A signal whose default action ends the task, sent by the task to itself, never returns when the task has a parent:
  the exit path takes the signal lock that the delivery already holds.\<close>

lemma self_signal_deadlocks:
  assumes "\<not> signal_locked s" and "length (tasks s) = MAX_TASKS" and "cur_task s c = t" "t \<noteq> 0"
    and "tk_id (task_ref s t) \<noteq> 0" "tk_state (task_ref s t) \<noteq> Empty" "tk_parent (task_ref s t) = Some p" "tk_child_tidptr (task_ref s t) = 0"
    and "0 < sint sig" "unat sig < SIGNAL_COUNT" "sig \<noteq> SIGKILL" "sig \<noteq> SIGSTOP" "terminates (unat sig)"
    and "sa_handler (tk_handlers (task_ref s t) ! unat sig) = SIG_DFL" "\<not> bit (tk_sig_blocked (task_ref s t)) (unat sig)"
  shows "sig_deliver_to_task v s c (task_idx t) sig = None"
proof -
  define s1 where "s1 = s\<lparr>signal_locked := True\<rparr>"
  have c1: "cur_task s1 c = t" "task_ref s1 = task_ref s" "tasks s1 ! task_idx t = task_ref s t" "length (tasks s1) = MAX_TASKS"
    using assms(2,3) by (simp_all add: s1_def cur_task_def task_ref_def fun_eq_iff)
  have "exit_task v s1 c code = None" for code
    using assms(4,7,8) c1
    by (simp add: exit_task_def clear_tid_def notify_parent_def lock_signals_def Let_def) (simp add: task_ref_def s1_def)
  then show ?thesis
    using assms c1 by (simp add: sig_deliver_to_task_def lock_signals_def s1_def [symmetric] Let_def SIG_DFL_def SIG_IGN_def)
qed

text \<open>A contended priority-inheritance futex does not block its caller: inside a system call the lock operation returns
  success while the futex word still names the other owner, and the caller, which goes on running, is marked blocked.\<close>

lemma futex_lock_pi_does_not_block:
  assumes "length (tasks s) = MAX_TASKS" and "cur_task s c = t" "t \<noteq> 0" "in_syscall s c"
    and "load 4 (umem s) a = prev" "prev \<noteq> (0 :: u32)"
    and "\<not> (tk_prio (task_ref s (ucast (prev AND NOT FUTEX_WAITERS))) > tk_prio (task_ref s t))"
  shows "\<exists>s'. futex_lock_pi s c a = Some (Return 0, s') \<and> tk_state (task_ref s' t) = Blocked \<and>
    (load 4 (umem s') a :: u32) AND NOT FUTEX_WAITERS = prev AND NOT FUTEX_WAITERS"
proof -
  define s1 where "s1 = (if prev AND FUTEX_WAITERS = 0 then s\<lparr>umem := store 4 (umem s) a (prev OR FUTEX_WAITERS)\<rparr> else s)"
  define s3 where "s3 = upd_task s1 t (\<lambda>k. k\<lparr>tk_blocked_on := a, tk_state := Blocked\<rparr>)"
  have s1: "task_ref s1 = task_ref s" "cur_task s1 = cur_task s" "length (tasks s1) = MAX_TASKS"
    using assms(1) by (auto simp: s1_def task_ref_def cur_task_def fun_eq_iff)
  have is3: "in_syscall s3 c"
    using assms(2-4) s1 by (simp add: in_syscall_def s3_def) (simp add: task_ref_def fun_eq_iff)
  have "futex_lock_pi s c a = Some (Return 0, s3)"
    using assms s1 is3 by (simp add: futex_lock_pi_def Let_def s1_def [symmetric] s3_def [symmetric])
  moreover have "tk_state (task_ref s3 t) = Blocked" using s1 by (simp add: s3_def)
  moreover have "(load 4 (umem s3) a :: u32) AND NOT FUTEX_WAITERS = prev AND NOT FUTEX_WAITERS"
    using assms(5) by (auto simp: s3_def s1_def intro!: bit_eqI simp: bit_simps)
  ultimately show ?thesis by blast
qed

text \<open>A task that finds itself alone on the queue when it gives up the CPU goes on running, and stays on the queue.\<close>

lemma resumed_task_stays_queued:
  assumes ok: "rq_ok s Q" and c: "c < MAX_CPUS" "cur_task s c = t" and q: "Q c p = [t]" "\<forall>i. i \<noteq> p \<longrightarrow> Q c i = []"
  shows "\<exists>s'. schedule_inner s c True = Some (Stay, s') \<and> tk_state (task_ref s' t) = Running \<and> rq_ok s' Q"
proof -
  have h: "home s t c p" "p < PRIORITY_LEVELS" using rq_okD(4) [OF ok, of t c p] q by auto
  obtain s1 where s1: "dequeue_task s c = Some (Some t, s1)" "rq_ok s1 (set_queue Q c p [])" "unlinked s1 = unlinked s"
    using dequeue_ok [OF ok c(1) h(2) q(1)] q(2) by auto
  have h1: "home s1 t c p" using unlinked_home [OF s1(3) rq_okD(1) [OF ok]] h(1) by simp
  have n: "dequeue_task s1 c = Some (None, s1)"
    using dequeue_none [OF s1(2) c(1)] q by (auto simp: set_queue_def)
  obtain s2 where s2: "enqueue_self s1 t = Some s2" "rq_ok s2 (set_queue (set_queue Q c p []) c p ([] @ [t]))"
    using enqueue_ok [OF s1(2) h1 c(1) _ h(2), of "tk_prio (task_ref s1 t)"] h1
    by (auto simp: enqueue_self_def home_def set_queue_def)
  moreover have "set_queue (set_queue Q c p []) c p ([] @ [t]) = Q" using q by (auto simp: set_queue_def fun_eq_iff)
  ultimately have "rq_ok (upd_task s2 t (\<lambda>k. k\<lparr>tk_state := Running\<rparr>)) Q" by (intro rq_ok_upd_slot) simp_all
  moreover have "schedule_inner s c True = Some (Stay, upd_task s2 t (\<lambda>k. k\<lparr>tk_state := Running\<rparr>))"
    using s1 n s2 c by (simp add: schedule_inner_def Let_def)
  moreover have "length (tasks s2) = MAX_TASKS" using rq_okD(1) [OF s2(2)] .
  ultimately show ?thesis by simp
qed

lemma search_ends_off_cycle: "rq_search s u pr cu = Some y \<Longrightarrow> \<forall>t. cu = Some t \<longrightarrow> link s t = Some t \<longrightarrow> u = t"
proof (rule rq_search.raw_induct [where P = "\<lambda>s u pr cu y. \<forall>t. cu = Some t \<longrightarrow> link s t = Some t \<longrightarrow> u = t"])
  fix f s u pr cu y
  assume "\<And>s u pr cu y. f s u pr cu = Some y \<Longrightarrow> \<forall>t. cu = Some t \<longrightarrow> link s t = Some t \<longrightarrow> u = t"
    and "(case cu of None \<Rightarrow> Some None | Some cid \<Rightarrow> if cid = u then Some (Some pr) else f s u cu (tk_next (task_ref s cid))) = Some y"
  then show "\<forall>t. cu = Some t \<longrightarrow> link s t = Some t \<longrightarrow> u = t"
    by (fastforce simp: link_def split: option.splits if_splits)
qed

lemma search_cycle: "link s t = Some t \<Longrightarrow> u \<noteq> t \<Longrightarrow> rq_search s u pr (Some t) = None"
  using search_ends_off_cycle [of s u pr "Some t"] by (cases "rq_search s u pr (Some t)") auto

text \<open>If such a task is then preempted by one of higher priority, it is enqueued a second time: its link points to itself,
  and removing any other task of the same CPU and priority from the run queue never returns.\<close>

lemma preempted_resumed_task_makes_cycle:
  assumes ok: "rq_ok s Q" and c: "c < MAX_CPUS" "cur_task s c = t" "t \<noteq> 0" "tk_state (task_ref s t) = Running"
    and q: "Q c p = [t]" "r < p" "Q c r = w # ws" "\<forall>i < r. Q c i = []" and u: "home s u c p" "u \<noteq> t"
  shows "\<exists>s'. schedule_inner s c True = Some (Switched w, s') \<and> link s' t = Some t \<and> remove_from_runqueue s' u = None"
proof -
  note d = rq_okD [OF ok]
  have h: "home s t c p" "p < PRIORITY_LEVELS" "home s w c r" using d(4) [of t c p] d(4) [of w c r] q by auto
  have rp: "r < PRIORITY_LEVELS" using q(2) h(2) by simp
  have "w \<noteq> t" using h q(2) home_unique by blast
  obtain s1 where s1: "dequeue_task s c = Some (Some w, s1)" "rq_ok s1 (set_queue Q c r ws)" "unlinked s1 = unlinked s"
    using dequeue_ok [OF ok c(1) rp q(3,4)] by auto
  define s2 where "s2 = upd_task s1 t (\<lambda>k. k\<lparr>tk_state := Ready\<rparr>)"
  have o2: "rq_ok s2 (set_queue Q c r ws)" unfolding s2_def by (rule rq_ok_upd_slot [OF s1(2)]) simp_all
  have cu: "cur_task s1 c = t" using unlinkedD(2) [OF s1(3)] c(2) by (simp add: cur_task_def)
  have st: "tk_state (task_ref s1 t) = Running" "tk_cpu (task_ref s1 t) = tk_cpu (task_ref s t)" "tk_prio (task_ref s1 t) = tk_prio (task_ref s t)"
    using unlinked_fields [OF s1(3) d(1)] c(4) by simp_all
  have l1: "length (tasks s1) = MAX_TASKS" using rq_okD(1) [OF s1(2)] .
  have k2: "unat (tk_cpu (task_ref s2 t)) = c" "unat (tk_prio (task_ref s2 t)) = p"
    using h(1) st(2,3) l1 by (auto simp: s2_def home_def) (auto simp: task_ref_def)
  note q2 = queue_okD [OF rq_okD(5) [OF o2 c(1)]]
  have tl: "rq_tails (rqs s2 ! c) ! p = Some t" "rq_heads (rqs s2 ! c) ! p = Some t"
    using q2(3,4) [OF h(2)] q by (auto simp: set_queue_def last_opt_def)
  define s3 where "s3 = upd_rq (upd_task (upd_task s2 t (\<lambda>k. k\<lparr>tk_next := None\<rparr>)) t (\<lambda>k. k\<lparr>tk_next := Some t\<rparr>)) c
      (\<lambda>q. q\<lparr>rq_tails := (rq_tails q)[p := Some t], nr_running := nr_running q + 1\<rparr>)"
  have e: "enqueue_self s2 t = Some s3"
    using k2 tl c(1) h(2) by (simp add: enqueue_self_def enqueue_task_def Let_def s3_def)
  define s4 where "s4 = upd_task (s3\<lparr>currents := (currents s3)[c := w]\<rparr>) w (\<lambda>k. k\<lparr>tk_state := Running\<rparr>)"
  have "schedule_inner s c True = Some (Switched w, s4)"
    using s1 \<open>w \<noteq> t\<close> c cu st e by (simp add: schedule_inner_def switch_task_def Let_def s2_def s4_def)
  moreover have l2: "length (tasks s2) = MAX_TASKS" "length (rqs s2) = MAX_CPUS" using rq_okD(1,2) [OF o2] by auto
  have ne: "task_idx t \<noteq> task_idx w" using \<open>w \<noteq> t\<close> h by (metis home_def task_idx_eq)
  have lk: "link s4 t = Some t"
    using l2 ne by (simp add: s4_def s3_def link_def upd_slot_def upd_rq_def task_ref_def)
  moreover have "remove_from_runqueue s4 u = None"
  proof -
    have nu: "task_idx u \<noteq> task_idx t" using u h by (metis home_def task_idx_eq)
    have "home s1 u c p" using unlinked_home [OF s1(3) d(1)] u(1) by simp
    then have "unat (tk_cpu (task_ref s4 u)) = c" "unat (tk_prio (task_ref s4 u)) = p"
      using l1 nu by (auto simp: s4_def s3_def s2_def home_def task_ref_def upd_slot_def upd_rq_def nth_list_update)
    moreover have "rq_heads (rqs s4 ! c) ! p = Some t" using tl(2) l2 c(1) by (simp add: s4_def s3_def upd_slot_def upd_rq_def)
    ultimately show ?thesis using search_cycle [OF lk u(2), of None] c(1) h(2) by (simp add: remove_from_runqueue_def Let_def)
  qed
  ultimately show ?thesis by blast
qed

end
