(* ===== verification/Ipc.thy ===== *)
theory Ipc
  imports Sched
begin

text \<open>
  Interprocess communication (\<^verbatim>\<open>src/src/ipc.rs\<close>): named ports with a mailbox of 64 messages each, and reply slots for
  synchronous calls. A message is a page of the buddy allocator with a 32-byte header and the payload behind it.

  The state \<open>ipc\<close> has the port table, the reply slots, the page allocator, the kernel memory that the pages are in and the
  scheduler. \<^verbatim>\<open>IPC_LOCK\<close> makes each locked section one step. A loop of the source that takes the lock, releases it and blocks is
  given by its body: the outcome \<open>Wait w\<close> says that the next step is \<^verbatim>\<open>block_on_futex\<close> on the word \<open>w\<close> (\<open>ipc_block\<close>), after which
  the body runs again; between the two steps other tasks may run. A buffer of the caller is given by its contents (for
  sending) or by whether it is null and whether \<^verbatim>\<open>user_range_valid\<close> accepts it (for receiving); the bytes that are copied out
  are part of the result. The addresses of the wake words, which are fields of static tables, are the parameter \<open>wa\<close>.
\<close>

unbundle bit_operations_syntax

section \<open>Data\<close>

definition MAX_PORTS :: nat where "MAX_PORTS = 32"
definition PORT_SLOTS :: nat where "PORT_SLOTS = 64"
definition NAME_LEN :: nat where "NAME_LEN = 16"
definition IPC_MSG_HEADER :: u64 where "IPC_MSG_HEADER = 32"
definition IPC_MSG_MAX :: nat where "IPC_MSG_MAX = 4096 - unat IPC_MSG_HEADER"
definition MAX_REPLIES :: nat where "MAX_REPLIES = 64"

definition ENOMEM :: int where "ENOMEM = 12"
definition EEXIST :: int where "EEXIST = 17"
definition EMSGSIZE :: int where "EMSGSIZE = 90"

record port =
  po_used :: bool
  po_id :: u64
  po_name :: bytes
  po_slots :: "u64 list"
  po_head :: nat
  po_count :: nat

definition port_empty :: port where
  "port_empty = \<lparr>po_used = False, po_id = 0, po_name = replicate NAME_LEN 0, po_slots = replicate PORT_SLOTS 0,
     po_head = 0, po_count = 0\<rparr>"

record reply_slot =
  re_used :: bool
  re_page :: u64
  re_len :: u32
  re_done :: bool

definition reply_empty :: reply_slot where
  "reply_empty = \<lparr>re_used = False, re_page = 0, re_len = 0, re_done = False\<rparr>"

record ipc =
  sch :: sched
  ipages :: buddy
  kmem :: "u64 \<Rightarrow> u8"
  ports :: "port list"
  next_port_id :: u64
  replies :: "reply_slot list"

definition ipc_new :: "sched \<Rightarrow> buddy \<Rightarrow> (u64 \<Rightarrow> u8) \<Rightarrow> ipc" where
  "ipc_new s b m = \<lparr>sch = s, ipages = b, kmem = m, ports = replicate MAX_PORTS port_empty, next_port_id = 1,
     replies = replicate MAX_REPLIES reply_empty\<rparr>"

datatype wake_word = Wake_recv nat | Wake_send nat | Wake_reply nat

datatype user_buf = Null | Buf bool

datatype 'a outcome = Done 'a | Wait wake_word

definition upd_port :: "ipc \<Rightarrow> nat \<Rightarrow> (port \<Rightarrow> port) \<Rightarrow> ipc" where
  "upd_port s i f = s\<lparr>ports := (ports s)[i := f (ports s ! i)]\<rparr>"

definition upd_reply :: "ipc \<Rightarrow> nat \<Rightarrow> (reply_slot \<Rightarrow> reply_slot) \<Rightarrow> ipc" where
  "upd_reply s i f = s\<lparr>replies := (replies s)[i := f (replies s ! i)]\<rparr>"

section \<open>Pages and messages\<close>

definition alloc_page :: "ipc \<Rightarrow> u64 option \<times> ipc" where
  "alloc_page s =
     (case alloc (ipages s) 0 of
        (None, b) \<Rightarrow> (None, s\<lparr>ipages := b\<rparr>)
      | (Some p, b) \<Rightarrow> (Some p, s\<lparr>ipages := b\<lparr>hdr := (\<lambda>a. if unat (a - p) < 4096 then null_block else hdr b a)\<rparr>,
          kmem := mem_write (kmem s) p (replicate 4096 0)\<rparr>))"

definition free_page :: "env \<Rightarrow> ipc \<Rightarrow> u64 \<Rightarrow> ipc option" where
  "free_page e s p = map_option (\<lambda>b. s\<lparr>ipages := b\<rparr>) (free e (ipages s) p 0)"

record msg_header =
  src_pid :: u64
  reply_id :: u64
  msg_type :: u32
  msg_len :: u32

definition msg_hdr_ref :: "ipc \<Rightarrow> u64 \<Rightarrow> msg_header" where
  "msg_hdr_ref s p = \<lparr>src_pid = load 8 (kmem s) (p + 0), reply_id = load 8 (kmem s) (p + 8), msg_type = load 4 (kmem s) (p + 16),
     msg_len = load 4 (kmem s) (p + 20)\<rparr>"

definition kstore :: "nat \<Rightarrow> u64 \<Rightarrow> 'a::len word \<Rightarrow> ipc \<Rightarrow> ipc" where
  "kstore n a v s = s\<lparr>kmem := store n (kmem s) a v\<rparr>"

definition kcopy :: "u64 \<Rightarrow> bytes \<Rightarrow> ipc \<Rightarrow> ipc" where
  "kcopy a bs s = s\<lparr>kmem := mem_write (kmem s) a bs\<rparr>"

section \<open>Lookups\<close>

definition port_idx_by_id :: "ipc \<Rightarrow> u64 \<Rightarrow> nat option" where
  "port_idx_by_id s pid = find_index (\<lambda>p. po_used p \<and> po_id p = pid) (ports s)"

definition name_matches :: "bytes \<Rightarrow> port \<Rightarrow> bool" where
  "name_matches nm p \<longleftrightarrow> po_used p \<and> (\<forall>j \<in> set [0..<length nm]. po_name p ! j = nm ! j) \<and>
     (length nm = NAME_LEN \<or> po_name p ! length nm = 0)"

definition port_idx_by_name :: "ipc \<Rightarrow> bytes \<Rightarrow> nat option" where
  "port_idx_by_name s nm = (if length nm > NAME_LEN then None else find_index (name_matches nm) (ports s))"

section \<open>Reply slots\<close>

definition reply_alloc :: "env \<Rightarrow> ipc \<Rightarrow> (u64 option \<times> ipc) option" where
  "reply_alloc e s =
     (case alloc_page s of
        (None, s1) \<Rightarrow> Some (None, s1)
      | (Some pg, s1) \<Rightarrow>
          (case find_from (\<lambda>r. \<not> re_used r) 1 (drop 1 (replies s1)) of
             Some i \<Rightarrow> Some (Some (of_nat i), upd_reply s1 i (\<lambda>_. \<lparr>re_used = True, re_page = pg, re_len = 0, re_done = False\<rparr>))
           | None \<Rightarrow> do { s2 \<leftarrow> free_page e s1 pg; Some (None, s2) }))"

definition reply_free :: "env \<Rightarrow> ipc \<Rightarrow> u64 \<Rightarrow> ipc option" where
  "reply_free e s rid =
     (let i = unat rid; r = replies s ! i
      in if i < MAX_REPLIES \<and> re_used r
         then do {
           s1 \<leftarrow> (if re_page r \<noteq> 0 then map_option (\<lambda>s1. upd_reply s1 i (\<lambda>r. r\<lparr>re_page := 0\<rparr>)) (free_page e s (re_page r)) else Some s);
           Some (upd_reply s1 i (\<lambda>r. r\<lparr>re_used := False\<rparr>)) }
         else Some s)"

section \<open>Futexes\<close>

definition ipc_wake :: "(wake_word \<Rightarrow> u64) \<Rightarrow> ipc \<Rightarrow> wake_word \<Rightarrow> u32 \<Rightarrow> ipc option" where
  "ipc_wake wa s w n = map_option (\<lambda>(_, q). s\<lparr>sch := q\<rparr>) (futex_wake (sch s) (wa w) n)"

text \<open>The outcome \<open>False\<close> is for the boot task, which cannot sleep; the callers then give up with \<open>- EAGAIN\<close>.\<close>

definition ipc_block :: "(wake_word \<Rightarrow> u64) \<Rightarrow> ipc \<Rightarrow> nat \<Rightarrow> wake_word \<Rightarrow> (bool \<times> ipc) option" where
  "ipc_block wa s c w = map_option (\<lambda>(f, q). (f = Suspend, s\<lparr>sch := q\<rparr>)) (block_on_futex (sch s) c (wa w))"

section \<open>Mailboxes\<close>

definition push_msg :: "port \<Rightarrow> u64 \<Rightarrow> port" where
  "push_msg p pg = p\<lparr>po_slots := (po_slots p)[(po_head p + po_count p) mod PORT_SLOTS := pg], po_count := po_count p + 1\<rparr>"

definition pop_msg :: "port \<Rightarrow> u64 option \<times> port" where
  "pop_msg p =
     (if po_count p > 0
      then (Some (po_slots p ! po_head p), p\<lparr>po_head := (po_head p + 1) mod PORT_SLOTS, po_count := po_count p - 1\<rparr>)
      else (None, p))"

text \<open>The locked part of the posting loops of \<^verbatim>\<open>ipc_send\<close> and \<^verbatim>\<open>ipc_call_impl\<close>: an error, the port that the message was posted to, or
  a full mailbox. \<open>head\<close> writes the header fields, which differ; \<open>ok\<close> says that the check of the buffer passes or is skipped.\<close>

datatype posted = Refused int | Posted nat | Full nat

definition post_try :: "env \<Rightarrow> ipc \<Rightarrow> u64 \<Rightarrow> bytes \<Rightarrow> bool \<Rightarrow> (u64 \<Rightarrow> ipc \<Rightarrow> ipc) \<Rightarrow> (posted \<times> ipc) option" where
  "post_try e s pid msg ok head =
     (case port_idx_by_id s pid of
        None \<Rightarrow> Some (Refused (- ESRCH), s)
      | Some i \<Rightarrow>
          if po_count (ports s ! i) < PORT_SLOTS
          then (case alloc_page s of
                  (None, s1) \<Rightarrow> Some (Refused (- ENOMEM), s1)
                | (Some pg, s1) \<Rightarrow>
                    let s2 = head pg s1
                    in if msg \<noteq> [] \<and> \<not> ok then do { s3 \<leftarrow> free_page e s2 pg; Some (Refused (- EFAULT), s3) }
                       else let s3 = (if msg \<noteq> [] then kcopy (pg + IPC_MSG_HEADER) msg s2 else s2)
                            in Some (Posted i, upd_port s3 i (\<lambda>p. push_msg p pg)))
          else Some (Full i, s))"

definition send_header :: "u64 \<Rightarrow> u32 \<Rightarrow> nat \<Rightarrow> u64 \<Rightarrow> ipc \<Rightarrow> ipc" where
  "send_header src ty n pg s = kstore 4 (pg + 20) (of_nat n :: u32) (kstore 4 (pg + 16) ty (kstore 8 (pg + 0) src s))"

definition ipc_send :: "env \<Rightarrow> (wake_word \<Rightarrow> u64) \<Rightarrow> ipc \<Rightarrow> nat \<Rightarrow> u64 \<Rightarrow> bytes \<Rightarrow> bool \<Rightarrow> u32 \<Rightarrow> (int outcome \<times> ipc) option" where
  "ipc_send e wa s c pid msg ok ty =
     (if length msg > IPC_MSG_MAX then Some (Done (- EMSGSIZE), s)
      else do {
        (r, s1) \<leftarrow> post_try e s pid msg ok (send_header (cur_task (sch s) c) ty (length msg));
        case r of
          Refused err \<Rightarrow> Some (Done err, s1)
        | Posted i \<Rightarrow> do { s2 \<leftarrow> ipc_wake wa s1 (Wake_recv i) 1; Some (Done 0, s2) }
        | Full i \<Rightarrow> Some (Wait (Wake_send i), s1) })"

section \<open>Receiving\<close>

text \<open>What every receiving function does with the page it took: copy out what fits, free the page. The result is the
  length or an error, the reply token and the bytes copied.\<close>

definition finish_recv :: "env \<Rightarrow> ipc \<Rightarrow> u64 \<Rightarrow> user_buf \<Rightarrow> nat \<Rightarrow> bool \<Rightarrow> ((int \<times> u64 \<times> bytes) \<times> ipc) option" where
  "finish_recv e s pg buf max_len kernel_buf =
     (let h = msg_hdr_ref s pg; n = unat (msg_len h); out_len = min n max_len
      in if out_len > 0 \<and> buf \<noteq> Null \<and> \<not> kernel_buf \<and> buf = Buf False
         then do { s1 \<leftarrow> free_page e s pg; Some ((- EFAULT, 0, []), s1) }
         else do {
           s1 \<leftarrow> free_page e s pg;
           Some ((int n, reply_id h, if out_len > 0 \<and> buf \<noteq> Null then mem_read (kmem s) (pg + IPC_MSG_HEADER) out_len else []), s1) })"

definition ipc_recv_ex_impl :: "env \<Rightarrow> (wake_word \<Rightarrow> u64) \<Rightarrow> ipc \<Rightarrow> u64 \<Rightarrow> user_buf \<Rightarrow> nat \<Rightarrow> bool \<Rightarrow>
    ((int \<times> u64 \<times> bytes) outcome \<times> ipc) option" where
  "ipc_recv_ex_impl e wa s pid buf max_len kernel_buf =
     (case port_idx_by_id s pid of
        None \<Rightarrow> Some (Done (- ESRCH, 0, []), s)
      | Some i \<Rightarrow>
          (case pop_msg (ports s ! i) of
             (None, _) \<Rightarrow> Some (Wait (Wake_recv i), s)
           | (Some pg, p) \<Rightarrow> do {
               s1 \<leftarrow> ipc_wake wa (upd_port s i (\<lambda>_. p)) (Wake_send i) 1;
               (r, s2) \<leftarrow> finish_recv e s1 pg buf max_len kernel_buf;
               Some (Done r, s2) }))"

definition ipc_peek_ex_impl :: "env \<Rightarrow> (wake_word \<Rightarrow> u64) \<Rightarrow> ipc \<Rightarrow> u64 \<Rightarrow> user_buf \<Rightarrow> nat \<Rightarrow> bool \<Rightarrow>
    ((int \<times> u64 \<times> bytes) \<times> ipc) option" where
  "ipc_peek_ex_impl e wa s pid buf max_len kernel_buf =
     (case port_idx_by_id s pid of
        None \<Rightarrow> Some ((- ESRCH, 0, []), s)
      | Some i \<Rightarrow>
          (case pop_msg (ports s ! i) of
             (None, _) \<Rightarrow> Some ((0, 0, []), s)
           | (Some pg, p) \<Rightarrow> do {
               s1 \<leftarrow> ipc_wake wa (upd_port s i (\<lambda>_. p)) (Wake_send i) 1;
               finish_recv e s1 pg buf max_len kernel_buf }))"

definition drop_token :: "int \<times> u64 \<times> bytes \<Rightarrow> int \<times> bytes" where
  "drop_token r = (fst r, snd (snd r))"

definition ipc_recv :: "env \<Rightarrow> (wake_word \<Rightarrow> u64) \<Rightarrow> ipc \<Rightarrow> u64 \<Rightarrow> user_buf \<Rightarrow> nat \<Rightarrow> ((int \<times> bytes) outcome \<times> ipc) option" where
  "ipc_recv e wa s pid buf max_len =
     map_option (\<lambda>(r, s1). (case r of Done v \<Rightarrow> Done (drop_token v) | Wait w \<Rightarrow> Wait w, s1)) (ipc_recv_ex_impl e wa s pid buf max_len False)"

definition ipc_peek :: "env \<Rightarrow> (wake_word \<Rightarrow> u64) \<Rightarrow> ipc \<Rightarrow> u64 \<Rightarrow> user_buf \<Rightarrow> nat \<Rightarrow> ((int \<times> bytes) \<times> ipc) option" where
  "ipc_peek e wa s pid buf max_len = map_option (\<lambda>(r, s1). (drop_token r, s1)) (ipc_peek_ex_impl e wa s pid buf max_len False)"

definition ipc_recv_ex :: "env \<Rightarrow> (wake_word \<Rightarrow> u64) \<Rightarrow> ipc \<Rightarrow> u64 \<Rightarrow> user_buf \<Rightarrow> nat \<Rightarrow> ((int \<times> u64 \<times> bytes) outcome \<times> ipc) option" where
  "ipc_recv_ex e wa s pid buf max_len = ipc_recv_ex_impl e wa s pid buf max_len False"

definition ipc_recv_ex_internal :: "env \<Rightarrow> (wake_word \<Rightarrow> u64) \<Rightarrow> ipc \<Rightarrow> u64 \<Rightarrow> user_buf \<Rightarrow> nat \<Rightarrow> ((int \<times> u64 \<times> bytes) outcome \<times> ipc) option" where
  "ipc_recv_ex_internal e wa s pid buf max_len = ipc_recv_ex_impl e wa s pid buf max_len True"

definition ipc_peek_ex :: "env \<Rightarrow> (wake_word \<Rightarrow> u64) \<Rightarrow> ipc \<Rightarrow> u64 \<Rightarrow> user_buf \<Rightarrow> nat \<Rightarrow> ((int \<times> u64 \<times> bytes) \<times> ipc) option" where
  "ipc_peek_ex e wa s pid buf max_len = ipc_peek_ex_impl e wa s pid buf max_len False"

definition ipc_peek_ex_internal :: "env \<Rightarrow> (wake_word \<Rightarrow> u64) \<Rightarrow> ipc \<Rightarrow> u64 \<Rightarrow> user_buf \<Rightarrow> nat \<Rightarrow> ((int \<times> u64 \<times> bytes) \<times> ipc) option" where
  "ipc_peek_ex_internal e wa s pid buf max_len = ipc_peek_ex_impl e wa s pid buf max_len True"

text \<open>The packing of length and reply token into one register; the token is the high half.\<close>

definition pack_recv :: "int \<Rightarrow> u64 \<Rightarrow> int" where
  "pack_recv n rid =
     (if n < 0 then n
      else sint (push_bit 32 (rid AND 0xFFFFFFFF) OR (of_int (if n > 0xFFFFFFFF then 0xFFFFFFFF else n) :: u64)))"

definition ipc_recv_ex_user :: "env \<Rightarrow> (wake_word \<Rightarrow> u64) \<Rightarrow> ipc \<Rightarrow> u64 \<Rightarrow> user_buf \<Rightarrow> nat \<Rightarrow> ((int \<times> bytes) outcome \<times> ipc) option" where
  "ipc_recv_ex_user e wa s pid buf max_len =
     map_option (\<lambda>(r, s1). (case r of Done (n, rid, bs) \<Rightarrow> Done (pack_recv n rid, bs) | Wait w \<Rightarrow> Wait w, s1))
       (ipc_recv_ex_impl e wa s pid buf max_len False)"

section \<open>Calls and replies\<close>

text \<open>The arguments of \<^verbatim>\<open>ipc_call_impl\<close> and the places between its steps. \<open>Posting\<close> and \<open>Polling\<close> are the heads of its two loops,
  \<open>Blocking\<close> is the point between releasing the lock and \<^verbatim>\<open>block_on_futex\<close>, \<open>Sleeping\<close> is inside that call; the phase inside says where it goes on.\<close>

record request =
  rq_port :: u64
  rq_msg :: bytes
  rq_valid :: bool
  rq_out_null :: bool
  rq_out_len :: nat

datatype call_phase = Begin | Posting u64 | Polling u64 | Blocking u64 wake_word call_phase | Sleeping call_phase | Returned int bytes

definition call_header :: "u64 \<Rightarrow> u64 \<Rightarrow> nat \<Rightarrow> u64 \<Rightarrow> ipc \<Rightarrow> ipc" where
  "call_header src rid n pg s =
     kstore 4 (pg + 20) (of_nat n :: u32) (kstore 4 (pg + 16) (0 :: u32) (kstore 8 (pg + 8) rid (kstore 8 (pg + 0) src s)))"

text \<open>Every error exit gives the reply slot back.\<close>

definition call_fail :: "env \<Rightarrow> ipc \<Rightarrow> u64 \<Rightarrow> int \<Rightarrow> (call_phase \<times> ipc) option" where
  "call_fail e s rid err = do { s1 \<leftarrow> reply_free e s rid; Some (Returned err [], s1) }"

definition call_begin :: "env \<Rightarrow> ipc \<Rightarrow> request \<Rightarrow> (call_phase \<times> ipc) option" where
  "call_begin e s q =
     (if length (rq_msg q) > IPC_MSG_MAX then Some (Returned (- EMSGSIZE) [], s)
      else do {
        (r, s1) \<leftarrow> reply_alloc e s;
        case r of None \<Rightarrow> Some (Returned (- ENOMEM) [], s1) | Some rid \<Rightarrow> Some (Posting rid, s1) })"

definition call_post :: "env \<Rightarrow> (wake_word \<Rightarrow> u64) \<Rightarrow> ipc \<Rightarrow> nat \<Rightarrow> request \<Rightarrow> u64 \<Rightarrow> (call_phase \<times> ipc) option" where
  "call_post e wa s c q rid = do {
     (r, s1) \<leftarrow> post_try e s (rq_port q) (rq_msg q) (rq_valid q) (call_header (cur_task (sch s) c) rid (length (rq_msg q)));
     case r of
       Refused err \<Rightarrow> call_fail e s1 rid err
     | Posted i \<Rightarrow> do { s2 \<leftarrow> ipc_wake wa s1 (Wake_recv i) 1; Some (Polling rid, s2) }
     | Full i \<Rightarrow> Some (Blocking rid (Wake_send i) (Posting rid), s1) }"

definition call_finish :: "env \<Rightarrow> ipc \<Rightarrow> request \<Rightarrow> u64 \<Rightarrow> u64 \<Rightarrow> (call_phase \<times> ipc) option" where
  "call_finish e s q rid pg =
     (let n = unat (re_len (replies s ! unat rid)); rlen = min n (rq_out_len q)
      in do {
        s1 \<leftarrow> reply_free e s rid;
        Some (Returned (int n) (if rlen > 0 \<and> \<not> rq_out_null q then mem_read (kmem s) pg rlen else []), s1) })"

definition call_poll :: "env \<Rightarrow> ipc \<Rightarrow> request \<Rightarrow> u64 \<Rightarrow> (call_phase \<times> ipc) option" where
  "call_poll e s q rid =
     (let r = replies s ! unat rid
      in if unat rid < MAX_REPLIES \<and> re_used r
         then if re_done r then call_finish e s q rid (re_page r)
              else Some (Blocking rid (Wake_reply (unat rid)) (Polling rid), s)
         else call_fail e s rid (- ESRCH))"

definition call_block :: "env \<Rightarrow> (wake_word \<Rightarrow> u64) \<Rightarrow> ipc \<Rightarrow> nat \<Rightarrow> u64 \<Rightarrow> wake_word \<Rightarrow> call_phase \<Rightarrow> (call_phase \<times> ipc) option" where
  "call_block e wa s c rid w k = do {
     (b, s1) \<leftarrow> ipc_block wa s c w;
     if b then Some (Sleeping k, s1) else call_fail e s1 rid (- EAGAIN) }"

text \<open>One step of the call; \<^verbatim>\<open>ipc_call\<close> and \<^verbatim>\<open>ipc_call_internal\<close> differ in whether the request buffer is checked (\<open>rq_valid\<close>).\<close>

definition ipc_call_impl :: "env \<Rightarrow> (wake_word \<Rightarrow> u64) \<Rightarrow> nat \<Rightarrow> request \<Rightarrow> call_phase \<Rightarrow> ipc \<Rightarrow> (call_phase \<times> ipc) option" where
  "ipc_call_impl e wa c q ph s =
     (case ph of
        Begin \<Rightarrow> call_begin e s q
      | Posting rid \<Rightarrow> call_post e wa s c q rid
      | Polling rid \<Rightarrow> call_poll e s q rid
      | Blocking rid w k \<Rightarrow> call_block e wa s c rid w k
      | Sleeping k \<Rightarrow> Some (k, s)
      | Returned r bs \<Rightarrow> Some (Returned r bs, s))"

text \<open>The buffer of \<^verbatim>\<open>ipc_reply\<close> is \<open>None\<close> when it is null; \<open>n\<close> is the length argument.\<close>

definition ipc_reply :: "(wake_word \<Rightarrow> u64) \<Rightarrow> ipc \<Rightarrow> u64 \<Rightarrow> bytes option \<Rightarrow> nat \<Rightarrow> (int \<times> ipc) option" where
  "ipc_reply wa s rid buf len =
     (let i = unat rid; r = replies s ! i; n = min len IPC_MSG_MAX
      in if i \<ge> MAX_REPLIES \<or> \<not> re_used r then Some (- ESRCH, s)
         else if re_done r then Some (0, s)
         else let s1 = (case buf of Some bs \<Rightarrow> if n > 0 then kcopy (re_page r) (take n bs) s else s | None \<Rightarrow> s);
                  s2 = upd_reply s1 i (\<lambda>r. r\<lparr>re_len := of_nat n, re_done := True\<rparr>)
              in do { s3 \<leftarrow> ipc_wake wa s2 (Wake_reply i) 1; Some (int n, s3) })"

section \<open>Ports\<close>

text \<open>The name is \<open>None\<close> when the pointer is null. A port that was closed is \<open>port_empty\<close>, so only the bytes of the name are set.\<close>

definition name_ok :: "bytes option \<Rightarrow> bool" where
  "name_ok nm = (case nm of None \<Rightarrow> False | Some bs \<Rightarrow> bs \<noteq> [] \<and> length bs \<le> NAME_LEN)"

definition ipc_create :: "ipc \<Rightarrow> bytes option \<Rightarrow> int \<times> ipc" where
  "ipc_create s nm =
     (if \<not> name_ok nm then (- EINVAL, s)
      else if port_idx_by_name s (the nm) \<noteq> None then (- EEXIST, s)
      else (case find_index (\<lambda>p. \<not> po_used p) (ports s) of
              None \<Rightarrow> (- ENOMEM, s)
            | Some i \<Rightarrow>
                (sint (next_port_id s), upd_port (s\<lparr>next_port_id := next_port_id s + 1\<rparr>) i (\<lambda>p. p\<lparr>po_used := True, po_id := next_port_id s,
                   po_name := the nm @ drop (length (the nm)) (po_name p), po_head := 0, po_count := 0\<rparr>))))"

definition ipc_connect :: "ipc \<Rightarrow> bytes option \<Rightarrow> int" where
  "ipc_connect s nm =
     (if \<not> name_ok nm then - EINVAL
      else (case port_idx_by_name s (the nm) of Some i \<Rightarrow> sint (po_id (ports s ! i)) | None \<Rightarrow> - ESRCH))"

definition port_pages :: "port \<Rightarrow> u64 list" where
  "port_pages p = map (\<lambda>j. po_slots p ! ((po_head p + j) mod PORT_SLOTS)) [0..<po_count p]"

fun free_pages :: "env \<Rightarrow> ipc \<Rightarrow> u64 list \<Rightarrow> ipc option" where
  "free_pages e s [] = Some s"
| "free_pages e s (p # ps) = do { s1 \<leftarrow> (if p \<noteq> 0 then free_page e s p else Some s); free_pages e s1 ps }"

definition ipc_close :: "env \<Rightarrow> (wake_word \<Rightarrow> u64) \<Rightarrow> ipc \<Rightarrow> u64 \<Rightarrow> (int \<times> ipc) option" where
  "ipc_close e wa s pid =
     (case port_idx_by_id s pid of
        None \<Rightarrow> Some (- ESRCH, s)
      | Some i \<Rightarrow> do {
          s1 \<leftarrow> free_pages e s (port_pages (ports s ! i));
          s2 \<leftarrow> ipc_wake wa s1 (Wake_recv i) (- 1);
          s3 \<leftarrow> ipc_wake wa s2 (Wake_send i) (- 1);
          Some (0, upd_port s3 i (\<lambda>_. port_empty)) })"

definition register_service :: "ipc \<Rightarrow> bytes \<Rightarrow> int \<times> ipc" where
  "register_service s nm = ipc_create s (Some nm)"

section \<open>The former shared-memory calls\<close>

definition shm_setup :: "ipc \<Rightarrow> nat \<Rightarrow> u64 \<Rightarrow> int" where
  "shm_setup s c partner = (if partner = 0 then - EINVAL else if cur_task (sch s) c = 0 then - EINVAL else 0)"

end
