(* ===== verification/Ipc_Pages.thy ===== *)
theory Ipc_Pages
  imports Ipc Sched_Queues Ramfs_Files
begin

text \<open>
  The invariant of the interprocess communication: every queued message and every reply slot has a page of its own that
  the page allocator has handed out, and a mailbox is a ring of at most 64 pages. A mailbox is an interpretation of
  \<open>bounded_fifo\<close>; its contents are the messages \<open>inbox\<close> that the pages hold.
\<close>

unbundle bit_operations_syntax

section \<open>Mailboxes as queues\<close>

definition port_ok :: "port \<Rightarrow> bool" where
  "port_ok p \<longleftrightarrow> length (po_slots p) = PORT_SLOTS \<and> po_head p < PORT_SLOTS \<and> po_count p \<le> PORT_SLOTS \<and>
     length (po_name p) = NAME_LEN \<and> (\<not> po_used p \<longrightarrow> p = port_empty)"

text \<open>Pushing only when there is room, as the senders do.\<close>

definition offer_msg :: "port \<Rightarrow> u64 \<Rightarrow> bool \<times> port" where
  "offer_msg p pg = (if po_count p < PORT_SLOTS then (True, push_msg p pg) else (False, p))"

lemma length_port_pages [simp]: "length (port_pages p) = po_count p"
  by (simp add: port_pages_def)

lemma push_msg_pages:
  assumes "port_ok p" and "po_count p < PORT_SLOTS"
  shows "port_pages (push_msg p pg) = port_pages p @ [pg]"
proof -
  let ?t = "(po_head p + po_count p) mod PORT_SLOTS"
  have t: "?t < length (po_slots p)" using assms(1) by (simp add: port_ok_def PORT_SLOTS_def)
  have "?t \<noteq> (po_head p + j) mod PORT_SLOTS" if "j < po_count p" for j
    using ring_inj [of "po_count p" PORT_SLOTS j "po_head p"] assms(2) that by auto
  then have "map (\<lambda>j. (po_slots p)[?t := pg] ! ((po_head p + j) mod PORT_SLOTS)) [0..<po_count p] = port_pages p"
    unfolding port_pages_def by (intro map_cong refl) (simp add: nth_list_update)
  then show ?thesis using t by (simp add: port_pages_def push_msg_def)
qed

lemma pop_msg_pages:
  assumes "port_ok p" and "0 < po_count p"
  shows "port_pages p = po_slots p ! po_head p # port_pages (snd (pop_msg p))"
proof -
  have h: "po_head p < PORT_SLOTS" using assms(1) by (simp add: port_ok_def)
  have u: "[0..<po_count p] = 0 # map Suc [0..<po_count p - 1]"
    using assms(2) by (simp add: map_Suc_upt upt_conv_Cons)
  have "((po_head p + 1) mod PORT_SLOTS + j) mod PORT_SLOTS = (po_head p + Suc j) mod PORT_SLOTS" for j
    by (simp add: mod_add_left_eq)
  then show ?thesis using assms(2) h unfolding port_pages_def u by (simp add: pop_msg_def)
qed

lemma push_msg_ok: "port_ok p \<Longrightarrow> po_used p \<Longrightarrow> po_count p < PORT_SLOTS \<Longrightarrow> port_ok (push_msg p pg)"
  by (auto simp: port_ok_def push_msg_def)

lemma pop_msg_ok: "port_ok p \<Longrightarrow> port_ok (snd (pop_msg p))"
  by (auto simp: port_ok_def pop_msg_def PORT_SLOTS_def port_empty_def)

interpretation mailbox: bounded_fifo "\<lambda>p. port_ok p \<and> po_used p" port_pages PORT_SLOTS offer_msg pop_msg "\<lambda>_ _. True"
proof
  fix p pg
  assume inv: "port_ok p \<and> po_used p"
  { assume room: "length (port_pages p) < PORT_SLOTS"
    then show "\<exists>p'. offer_msg p pg = (True, p') \<and> (port_ok p' \<and> po_used p') \<and> port_pages p' = port_pages p @ [pg] \<and> (\<lambda>_. True) = (\<lambda>_. True)"
      using inv push_msg_pages push_msg_ok by (simp add: offer_msg_def) (simp add: push_msg_def) }
  { assume "PORT_SLOTS \<le> length (port_pages p)"
    then show "\<exists>p'. offer_msg p pg = (False, p') \<and> (port_ok p' \<and> po_used p') \<and> port_pages p' = port_pages p \<and> (\<lambda>_. True) = (\<lambda>_. True)"
      using inv by (simp add: offer_msg_def) }
next
  fix p assume "port_ok p \<and> po_used p" "port_pages p = []"
  then have "po_count p = 0" using length_port_pages [of p] by simp
  then show "fst (pop_msg p) = None" by (simp add: pop_msg_def)
next
  fix p pg pgs
  assume inv: "port_ok p \<and> po_used p" and e: "port_pages p = pg # pgs"
  then have n: "0 < po_count p" using length_port_pages [of p] by simp
  show "\<exists>p'. pop_msg p = (Some pg, p') \<and> (port_ok p' \<and> po_used p') \<and> port_pages p' = pgs \<and> (\<lambda>_. True) = (\<lambda>_. True)"
    using pop_msg_pages [OF conjunct1 [OF inv] n] e pop_msg_ok [OF conjunct1 [OF inv]] inv n
    by (intro exI [of _ "snd (pop_msg p)"]) (auto simp: pop_msg_def)
qed

section \<open>Pages in use\<close>

definition pages_ok :: "buddy \<Rightarrow> nat set \<Rightarrow> u64 list \<Rightarrow> bool" where
  "pages_ok b F ps \<longleftrightarrow> alloc_inv b F \<and> distinct ps \<and> (\<forall>p \<in> set ps. allocated b p 0 \<and> span p 0 \<inter> F = {})"

lemma pages_ok_perm: "mset ps = mset qs \<Longrightarrow> pages_ok b F ps = pages_ok b F qs"
  unfolding pages_ok_def using mset_eq_setD mset_eq_imp_distinct_iff by metis

lemma pages_ok_page:
  assumes "pages_ok b F ps" and "p \<in> set ps"
  shows "p \<noteq> 0" and "4096 dvd unat p" and "unat p + 4096 \<le> 2 ^ 63"
  using assms page_bounds [OF alloc_inv_region, of b F p] by (auto simp: pages_ok_def allocated_def)

lemma pages_ok_disjoint:
  "pages_ok b F ps \<Longrightarrow> p \<in> set ps \<Longrightarrow> q \<in> set ps \<Longrightarrow> p \<noteq> q \<Longrightarrow> span p 0 \<inter> span q 0 = {}"
  using pages_disjoint pages_ok_page(2) by metis

lemma pages_ok_alloc:
  assumes ok: "pages_ok b F ps" and al: "alloc b 0 = (Some p, b1)"
  shows "pages_ok (b1\<lparr>hdr := (\<lambda>a. if unat (a - p) < 4096 then null_block else hdr b1 a)\<rparr>) (F - span p 0) (p # ps)"
proof -
  have inv: "alloc_inv b F" and own: "\<And>q. q \<in> set ps \<Longrightarrow> allocated b q 0 \<and> span q 0 \<inter> F = {}"
    using ok by (auto simp: pages_ok_def)
  have a: "span p 0 \<subseteq> F" "alloc_inv b1 (F - span p 0)" "allocated b1 p 0" using pages.alloc_some [OF inv al] by auto
  have top: "unat p + 4096 \<le> 2 ^ 63" using page_bounds(3) [OF alloc_inv_region [OF a(2)]] a(3) by (auto simp: allocated_def)
  have "alloc_inv (b1\<lparr>hdr := (\<lambda>a. if unat (a - p) < 4096 then null_block else hdr b1 a)\<rparr>) (F - span p 0)"
    using in_page [of p] top by (intro alloc_inv_hdr [OF a(2)]) auto
  moreover have "p \<notin> set ps" using own a(1) span_nonempty [of p 0] by fastforce
  moreover have "allocated b1 q 0" if "q \<in> set ps" for q using alloc_keeps [OF inv al] own [OF that] by blast
  ultimately show ?thesis using ok a own by (fastforce simp: pages_ok_def)
qed

lemma pages_ok_free:
  assumes ok: "pages_ok b F (p # ps)"
  shows "\<exists>b1. free e b p 0 = Some b1 \<and> pages_ok b1 (F \<union> span p 0) ps"
proof -
  have inv: "alloc_inv b F" and p: "allocated b p 0" "span p 0 \<inter> F = {}" using ok by (auto simp: pages_ok_def)
  obtain b1 where b1: "free e b p 0 = Some b1" "alloc_inv b1 (F \<union> span p 0)" using pages.free_ok [OF inv p] by blast
  have "allocated b1 q 0 \<and> span q 0 \<inter> (F \<union> span p 0) = {}" if "q \<in> set ps" for q
  proof -
    have q: "allocated b q 0" "span q 0 \<inter> F = {}" "q \<noteq> p" using ok that by (auto simp: pages_ok_def)
    show ?thesis using free_keeps [OF inv p b1(1) q(1,3)] pages_ok_disjoint [OF ok, of q p] q that by auto
  qed
  then show ?thesis using b1 ok by (auto simp: pages_ok_def)
qed

section \<open>Messages\<close>

definition same_page :: "(u64 \<Rightarrow> u8) \<Rightarrow> (u64 \<Rightarrow> u8) \<Rightarrow> u64 \<Rightarrow> bool" where
  "same_page m m' p \<longleftrightarrow> (\<forall>k < 4096. m' (p + of_nat k) = m (p + of_nat k))"

lemma same_page_refl [simp]: "same_page m m p"
  by (simp add: same_page_def)

lemma same_page_trans: "same_page m m' p \<Longrightarrow> same_page m' m'' p \<Longrightarrow> same_page m m'' p"
  by (simp add: same_page_def)

lemma same_page_read: "same_page m m' p \<Longrightarrow> a + n \<le> 4096 \<Longrightarrow> mem_read m' (p + of_nat a) n = mem_read m (p + of_nat a) n"
  by (simp add: mem_read_def same_page_def add.assoc flip: of_nat_add)

lemma same_page_load: "same_page m m' p \<Longrightarrow> a + n \<le> 4096 \<Longrightarrow> load n m' (p + of_nat a) = load n m (p + of_nat a)"
  by (simp add: load_def same_page_read)

lemma same_page_write:
  assumes "unat p + 4096 \<le> 2 ^ 63" and "unat q + 4096 \<le> 2 ^ 63" and "span p 0 \<inter> span q 0 = {}" and "a + length bs \<le> 4096"
  shows "same_page m (mem_write m (p + of_nat a) bs) q"
  using mem_write_other [OF assms(1-3) _ assms(4)] by (simp add: same_page_def)

record msg =
  m_src :: u64
  m_reply :: u64
  m_type :: u32
  m_data :: bytes

definition page_msg :: "ipc \<Rightarrow> u64 \<Rightarrow> msg" where
  "page_msg s p = (let h = msg_hdr_ref s p
     in \<lparr>m_src = src_pid h, m_reply = reply_id h, m_type = msg_type h, m_data = mem_read (kmem s) (p + IPC_MSG_HEADER) (unat (msg_len h))\<rparr>)"

lemma hdr_offsets:
  "p + 8 = p + of_nat 8" "p + 16 = p + of_nat 16" "p + 20 = p + of_nat 20" "p + IPC_MSG_HEADER = p + (of_nat 32 :: u64)"
  by (simp_all add: IPC_MSG_HEADER_def)

lemma same_page_hdr:
  assumes "same_page (kmem s) (kmem s') p"
  shows "msg_hdr_ref s' p = msg_hdr_ref s p"
  using same_page_read [OF assms, of 0] same_page_read [OF assms, of 8] same_page_read [OF assms, of 16] same_page_read [OF assms, of 20]
  by (simp add: msg_hdr_ref_def load_def)

lemma same_page_msg:
  assumes "same_page (kmem s) (kmem s') p" and "unat (msg_len (msg_hdr_ref s p)) \<le> IPC_MSG_MAX"
  shows "page_msg s' p = page_msg s p"
  using same_page_read [OF assms(1), of 32 "unat (msg_len (msg_hdr_ref s p))"] assms(2)
  by (simp add: page_msg_def same_page_hdr [OF assms(1)] Let_def IPC_MSG_MAX_def IPC_MSG_HEADER_def)

end
