(* ===== verification/Ipc_Inv.thy ===== *)
theory Ipc_Inv
  imports Ipc_Pages
begin

text \<open>
  The state invariant \<open>ipc_ok\<close> of the interprocess communication, what a client sees of the state (\<open>inbox\<close>, the reply slots and the names of
  the ports), and the effect of the elementary steps on both: taking, filling and freeing a page, putting a message into a
  mailbox and taking it out, waking tasks, and taking, and giving back, a reply slot. \<open>frame s s' I R\<close> says that a step changed
  at most the mailboxes in \<open>I\<close> and the reply slots in \<open>R\<close>.
\<close>

section \<open>The invariant\<close>

definition reply_pages :: "reply_slot \<Rightarrow> u64 list" where
  "reply_pages r = (if re_used r then [re_page r] else [])"

definition owned :: "ipc \<Rightarrow> u64 list" where
  "owned s = concat (map port_pages (ports s)) @ concat (map reply_pages (replies s))"

text \<open>\<open>L\<close> are pages that an operation has taken out of the allocator or of a mailbox and not yet put anywhere.\<close>

definition ipc_ok :: "ipc \<Rightarrow> nat set \<Rightarrow> u64 list \<Rightarrow> bool" where
  "ipc_ok s F L \<longleftrightarrow> pages_ok (ipages s) F (L @ owned s) \<and> table_ok (sch s) \<and>
     length (ports s) = MAX_PORTS \<and> (\<forall>i < MAX_PORTS. port_ok (ports s ! i)) \<and>
     (\<forall>i < MAX_PORTS. \<forall>pg \<in> set (port_pages (ports s ! i)). unat (msg_len (msg_hdr_ref s pg)) \<le> IPC_MSG_MAX) \<and>
     length (replies s) = MAX_REPLIES \<and> \<not> re_used (replies s ! 0) \<and> (\<forall>k < MAX_REPLIES. unat (re_len (replies s ! k)) \<le> IPC_MSG_MAX)"

abbreviation ipc_inv :: "ipc \<Rightarrow> nat set \<Rightarrow> bool" where
  "ipc_inv s F \<equiv> ipc_ok s F []"

lemma ipc_okD:
  assumes "ipc_ok s F L"
  shows "pages_ok (ipages s) F (L @ owned s)" and "table_ok (sch s)" and "length (ports s) = MAX_PORTS"
    and "i < MAX_PORTS \<Longrightarrow> port_ok (ports s ! i)"
    and "i < MAX_PORTS \<Longrightarrow> pg \<in> set (port_pages (ports s ! i)) \<Longrightarrow> unat (msg_len (msg_hdr_ref s pg)) \<le> IPC_MSG_MAX"
    and "length (replies s) = MAX_REPLIES" and "\<not> re_used (replies s ! 0)"
    and "k < MAX_REPLIES \<Longrightarrow> unat (re_len (replies s ! k)) \<le> IPC_MSG_MAX"
  using assms by (auto simp: ipc_ok_def)

section \<open>What a client sees\<close>

definition inbox :: "ipc \<Rightarrow> nat \<Rightarrow> msg list" where
  "inbox s i = map (page_msg s) (port_pages (ports s ! i))"

definition ident :: "port \<Rightarrow> bool \<times> u64 \<times> bytes" where
  "ident p = (po_used p, po_id p, po_name p)"

definition slot :: "ipc \<Rightarrow> nat \<Rightarrow> (u64 \<times> bool \<times> u32 \<times> bytes) option" where
  "slot s k = (let r = replies s ! k in if re_used r then Some (re_page r, re_done r, re_len r, mem_read (kmem s) (re_page r) 4096) else None)"

definition frame :: "ipc \<Rightarrow> ipc \<Rightarrow> nat set \<Rightarrow> nat set \<Rightarrow> bool" where
  "frame s s' I R \<longleftrightarrow> (\<forall>j < MAX_PORTS. j \<notin> I \<longrightarrow> inbox s' j = inbox s j) \<and> (\<forall>k < MAX_REPLIES. k \<notin> R \<longrightarrow> slot s' k = slot s k) \<and>
     map ident (ports s') = map ident (ports s)"

lemma frame_refl: "frame s s I R"
  by (simp add: frame_def)

lemma frame_trans: "frame s s' I R \<Longrightarrow> frame s' s'' J Q \<Longrightarrow> frame s s'' (I \<union> J) (R \<union> Q)"
  by (simp add: frame_def)

lemma frame_port: "frame s s' I R \<Longrightarrow> port_idx_by_id s' pid = port_idx_by_id s pid"
proof -
  have "find_index (\<lambda>p. po_used p \<and> po_id p = pid) xs = find_index (\<lambda>(u, d, _). u \<and> d = pid) (map ident xs)" for xs
    by (simp add: find_index_map ident_def)
  then show "frame s s' I R \<Longrightarrow> port_idx_by_id s' pid = port_idx_by_id s pid" by (simp add: port_idx_by_id_def frame_def)
qed

lemma owned_port: "ipc_ok s F L \<Longrightarrow> i < MAX_PORTS \<Longrightarrow> set (port_pages (ports s ! i)) \<subseteq> set (owned s)"
  using ipc_okD(3) nth_mem by (fastforce simp: owned_def)

lemma owned_slot: "ipc_ok s F L \<Longrightarrow> k < MAX_REPLIES \<Longrightarrow> re_used (replies s ! k) \<Longrightarrow> re_page (replies s ! k) \<in> set (owned s)"
  using ipc_okD(6) nth_mem [of k "replies s"] by (force simp: owned_def reply_pages_def)

lemma mset_concat_update:
  "i < length xss \<Longrightarrow> mset (concat (xss[i := ys])) + mset (xss ! i) = mset (concat xss) + mset ys"
proof -
  assume i: "i < length xss"
  have "concat xss = concat (take i xss) @ xss ! i @ concat (drop (Suc i) xss)"
    using id_take_nth_drop [OF i] by (metis append.assoc concat.simps(2) concat_append)
  moreover have "concat (xss[i := ys]) = concat (take i xss) @ ys @ concat (drop (Suc i) xss)"
    using i by (simp add: upd_conv_take_nth_drop)
  ultimately show ?thesis by (simp add: union_commute union_assoc)
qed

lemma mset_exchange:
  fixes a :: "'a multiset"
  assumes "a + x = b + y" and "c + y = d + x"
  shows "a + c = b + d"
proof -
  have "(a + c) + (x + y) = (a + x) + (c + y)" by (simp add: ac_simps)
  also have "\<dots> = (b + d) + (x + y)" unfolding assms by (simp add: ac_simps)
  finally show ?thesis by simp
qed

lemma owned_upd_port:
  "i < length (ports s) \<Longrightarrow> mset (owned (upd_port s i f)) + mset (port_pages (ports s ! i)) = mset (owned s) + mset (port_pages (f (ports s ! i)))"
  using mset_concat_update [of i "map port_pages (ports s)" "port_pages (f (ports s ! i))"]
  by (simp add: owned_def upd_port_def map_update ac_simps)

lemma owned_upd_reply:
  "k < length (replies s) \<Longrightarrow> mset (owned (upd_reply s k f)) + mset (reply_pages (replies s ! k)) = mset (owned s) + mset (reply_pages (f (replies s ! k)))"
  using mset_concat_update [of k "map reply_pages (replies s)" "reply_pages (f (replies s ! k))"]
  by (simp add: owned_def upd_reply_def map_update ac_simps)

section \<open>Steps on pages\<close>

lemma upd_port_simps [simp]:
  "replies (upd_port s i f) = replies s" "kmem (upd_port s i f) = kmem s" "ipages (upd_port s i f) = ipages s" "sch (upd_port s i f) = sch s"
  "next_port_id (upd_port s i f) = next_port_id s"
  "length (ports (upd_port s i f)) = length (ports s)" "msg_hdr_ref (upd_port s i f) = msg_hdr_ref s" "page_msg (upd_port s i f) = page_msg s"
  by (simp_all add: upd_port_def msg_hdr_ref_def [abs_def] page_msg_def [abs_def])

lemma upd_reply_simps [simp]:
  "ports (upd_reply s i f) = ports s" "kmem (upd_reply s i f) = kmem s" "ipages (upd_reply s i f) = ipages s" "sch (upd_reply s i f) = sch s"
  "length (replies (upd_reply s i f)) = length (replies s)" "msg_hdr_ref (upd_reply s i f) = msg_hdr_ref s" "page_msg (upd_reply s i f) = page_msg s"
  by (simp_all add: upd_reply_def msg_hdr_ref_def [abs_def] page_msg_def [abs_def])

lemma ports_upd_port: "i < length (ports s) \<Longrightarrow> ports (upd_port s i f) ! j = (if j = i then f (ports s ! i) else ports s ! j)"
  by (simp add: upd_port_def)

lemma replies_upd_reply: "i < length (replies s) \<Longrightarrow> replies (upd_reply s i f) ! j = (if j = i then f (replies s ! i) else replies s ! j)"
  by (simp add: upd_reply_def)

text \<open>A change of memory and allocator that leaves the pages in use alone.\<close>

lemma same_owned:
  assumes ok: "ipc_ok s F L" and eq: "ports s' = ports s" "replies s' = replies s" "sch s' = sch s"
    and pg: "\<And>p. p \<in> set (owned s) \<Longrightarrow> same_page (kmem s) (kmem s') p"
    and al: "pages_ok (ipages s') F' (L' @ owned s)"
  shows "ipc_ok s' F' L'" and "frame s s' {} {}"
proof -
  have ow: "owned s' = owned s" by (simp add: owned_def eq)
  have box: "same_page (kmem s) (kmem s') p" if "i < MAX_PORTS" "p \<in> set (port_pages (ports s ! i))" for i p
    using pg owned_port [OF ok that(1)] that(2) by blast
  have "msg_hdr_ref s' p = msg_hdr_ref s p" if "i < MAX_PORTS" "p \<in> set (port_pages (ports s ! i))" for i p
    using same_page_hdr [OF box [OF that]] .
  then show "ipc_ok s' F' L'" using ok al unfolding ipc_ok_def by (simp add: ow eq)
  have "inbox s' j = inbox s j" if "j < MAX_PORTS" for j
    unfolding inbox_def using that same_page_msg [OF box [OF that] ipc_okD(5) [OF ok that]] by (simp add: eq)
  moreover have "slot s' k = slot s k" if "k < MAX_REPLIES" for k
    using same_page_read [OF pg [OF owned_slot [OF ok that]], of 0 4096] by (simp add: slot_def eq Let_def)
  ultimately show "frame s s' {} {}" by (simp add: frame_def eq)
qed

lemma alloc_page_none: "ipc_ok s F L \<Longrightarrow> alloc_page s = (None, s1) \<Longrightarrow> s1 = s"
  using alloc_fail(1) [of "ipages s" F 0] ipc_okD(1) [of s F L]
  by (auto simp: alloc_page_def pages_ok_def split: prod.splits option.splits)

lemma alloc_page_ok:
  assumes ok: "ipc_ok s F L" and al: "alloc_page s = (Some pg, s1)"
  shows "ipc_ok s1 (F - span pg 0) (pg # L)" and "frame s s1 {} {}" and "mem_read (kmem s1) pg 4096 = replicate 4096 0"
proof -
  obtain b where b: "alloc (ipages s) 0 = (Some pg, b)"
    and s1: "s1 = s\<lparr>ipages := b\<lparr>hdr := (\<lambda>a. if unat (a - pg) < 4096 then null_block else hdr b a)\<rparr>, kmem := mem_write (kmem s) pg (replicate 4096 0)\<rparr>"
    using al by (auto simp: alloc_page_def split: prod.splits option.splits)
  have po: "pages_ok (ipages s1) (F - span pg 0) ((pg # L) @ owned s)" using pages_ok_alloc [OF ipc_okD(1) [OF ok] b] by (simp add: s1)
  have sp: "same_page (kmem s) (kmem s1) q" if "q \<in> set (owned s)" for q
  proof -
    have "q \<noteq> pg" using po that by (auto simp: pages_ok_def)
    then show ?thesis
      using same_page_write [of pg q 0 "replicate 4096 0" "kmem s"] pages_ok_page(3) [OF po] pages_ok_disjoint [OF po, of pg q] that
      by (simp add: s1)
  qed
  show "ipc_ok s1 (F - span pg 0) (pg # L)" "frame s s1 {} {}" using same_owned [OF ok _ _ _ sp po] by (simp_all add: s1)
  show "mem_read (kmem s1) pg 4096 = replicate 4096 0" using mem_read_write_prefix [of "replicate 4096 0" 4096 "kmem s" pg] by (simp add: s1)
qed

lemma free_page_ok:
  assumes "ipc_ok s F (pg # L)"
  shows "\<exists>b. free e (ipages s) pg 0 = Some b \<and> free_page e s pg = Some (s\<lparr>ipages := b\<rparr>) \<and> ipc_ok (s\<lparr>ipages := b\<rparr>) (F \<union> span pg 0) L \<and> frame s (s\<lparr>ipages := b\<rparr>) {} {}"
proof -
  obtain b where b: "free e (ipages s) pg 0 = Some b" "pages_ok b (F \<union> span pg 0) (L @ owned s)"
    using pages_ok_free [of "ipages s" F pg "L @ owned s" e] ipc_okD(1) [OF assms] by auto
  then show ?thesis
    using same_owned [OF assms, of "s\<lparr>ipages := b\<rparr>" "F \<union> span pg 0" L] by (auto simp: free_page_def)
qed

lemma write_page_ok:
  assumes ok: "ipc_ok s F (pg # L)" and fit: "a + length bs \<le> 4096"
  shows "ipc_ok (kcopy (pg + of_nat a) bs s) F (pg # L)" and "frame s (kcopy (pg + of_nat a) bs s) {} {}"
proof -
  let ?s = "kcopy (pg + of_nat a) bs s"
  note po = ipc_okD(1) [OF ok]
  have sp: "same_page (kmem s) (kmem ?s) q" if "q \<in> set (owned s)" for q
  proof -
    have "q \<noteq> pg" using po that by (auto simp: pages_ok_def)
    then show ?thesis
      using same_page_write [OF _ _ _ fit, of pg q "kmem s"] pages_ok_page(3) [OF po] pages_ok_disjoint [OF po, of pg q] that
      by (simp add: kcopy_def)
  qed
  show "ipc_ok ?s F (pg # L)" "frame s ?s {} {}" using same_owned [OF ok _ _ _ sp, of F "pg # L"] po by (simp_all add: kcopy_def)
qed

lemma kstore_kcopy: "kstore n a v s = kcopy a (le_bytes n v) s"
  by (simp add: kstore_def kcopy_def store_def)

section \<open>Steps on mailboxes\<close>

lemma port_change:
  assumes ok: "ipc_ok s F L" and i: "i < MAX_PORTS" and p: "port_ok p"
    and m: "mset L' + mset (port_pages p) = mset L + mset (port_pages (ports s ! i))"
    and len: "\<And>pg. pg \<in> set (port_pages p) \<Longrightarrow> unat (msg_len (msg_hdr_ref s pg)) \<le> IPC_MSG_MAX"
  shows "ipc_ok (upd_port s i (\<lambda>_. p)) F L'" and "slot (upd_port s i (\<lambda>_. p)) = slot s"
    and "inbox (upd_port s i (\<lambda>_. p)) j = (if j = i then map (page_msg s) (port_pages p) else inbox s j)"
proof -
  let ?s = "upd_port s i (\<lambda>_. p)"
  have il: "i < length (ports s)" using i ipc_okD(3) [OF ok] by simp
  have "mset (owned ?s) + mset (port_pages (ports s ! i)) = mset (owned s) + mset (port_pages p)" using owned_upd_port [OF il] by simp
  from mset_exchange [OF this m] have "mset (L @ owned s) = mset (L' @ owned ?s)" by (simp add: union_commute)
  from pages_ok_perm [OF this] have "pages_ok (ipages ?s) F (L' @ owned ?s)" using ipc_okD(1) [OF ok] by simp
  then show "ipc_ok ?s F L'" using ok p len i unfolding ipc_ok_def by (auto simp: ports_upd_port il)
  show "slot ?s = slot s" by (simp add: slot_def Let_def fun_eq_iff)
  show "inbox ?s j = (if j = i then map (page_msg s) (port_pages p) else inbox s j)" using il by (simp add: inbox_def ports_upd_port)
qed

lemma port_step:
  assumes "ipc_ok s F L" and "i < MAX_PORTS" and "port_ok p" and id: "ident p = ident (ports s ! i)"
    and "mset L' + mset (port_pages p) = mset L + mset (port_pages (ports s ! i))"
    and "\<And>pg. pg \<in> set (port_pages p) \<Longrightarrow> unat (msg_len (msg_hdr_ref s pg)) \<le> IPC_MSG_MAX"
  shows "ipc_ok (upd_port s i (\<lambda>_. p)) F L'" and "frame s (upd_port s i (\<lambda>_. p)) {i} {}"
    and "inbox (upd_port s i (\<lambda>_. p)) i = map (page_msg s) (port_pages p)"
proof -
  note ch = port_change [OF assms(1-3,5,6)]
  have il: "i < length (ports s)" using assms(1,2) ipc_okD(3) by metis
  have "map ident (ports (upd_port s i (\<lambda>_. p))) = map ident (ports s)"
    by (rule nth_equalityI) (use il id in \<open>auto simp: ports_upd_port\<close>)
  then show "frame s (upd_port s i (\<lambda>_. p)) {i} {}" using ch(2,3) by (simp add: frame_def)
qed (use port_change [OF assms(1-3,5,6)] in simp_all)

lemma push_ok:
  assumes ok: "ipc_ok s F (pg # L)" and i: "i < MAX_PORTS" "po_used (ports s ! i)" "po_count (ports s ! i) < PORT_SLOTS"
    and len: "unat (msg_len (msg_hdr_ref s pg)) \<le> IPC_MSG_MAX"
  defines "s' \<equiv> upd_port s i (\<lambda>p. push_msg p pg)"
  shows "ipc_ok s' F L" and "frame s s' {i} {}" and "inbox s' i = inbox s i @ [page_msg s pg]"
proof -
  note pok = ipc_okD(4) [OF ok i(1)]
  note pp = push_msg_pages [OF pok i(3), of pg]
  have s': "s' = upd_port s i (\<lambda>_. push_msg (ports s ! i) pg)" by (simp add: s'_def upd_port_def)
  have "ident (push_msg (ports s ! i) pg) = ident (ports s ! i)" by (simp add: ident_def push_msg_def)
  note st = port_step [OF ok i(1) push_msg_ok [OF pok i(2,3), of pg] this, of L]
  show "ipc_ok s' F L" "frame s s' {i} {}" unfolding s' using st ipc_okD(5) [OF ok i(1)] len by (auto simp: pp)
  show "inbox s' i = inbox s i @ [page_msg s pg]"
    unfolding s' using st(3) ipc_okD(5) [OF ok i(1)] len by (auto simp: pp inbox_def)
qed

lemma pop_ok:
  assumes ok: "ipc_ok s F L" and i: "i < MAX_PORTS" "po_used (ports s ! i)" and box: "inbox s i = m # ms"
  obtains pg p where "pop_msg (ports s ! i) = (Some pg, p)" and "ipc_ok (upd_port s i (\<lambda>_. p)) F (pg # L)"
    and "frame s (upd_port s i (\<lambda>_. p)) {i} {}" and "inbox (upd_port s i (\<lambda>_. p)) i = ms" and "page_msg s pg = m"
    and "unat (msg_len (msg_hdr_ref s pg)) \<le> IPC_MSG_MAX"
proof -
  note pok = ipc_okD(4) [OF ok i(1)]
  obtain pg pgs where pp: "port_pages (ports s ! i) = pg # pgs" "page_msg s pg = m" "map (page_msg s) pgs = ms"
    using box by (auto simp: inbox_def)
  obtain p where p: "pop_msg (ports s ! i) = (Some pg, p)" "port_ok p" "port_pages p = pgs"
    using mailbox.pop_cons [of "ports s ! i" pg pgs] pok i(2) pp(1) by auto
  have "ident p = ident (ports s ! i)" using p(1) by (auto simp: pop_msg_def ident_def split: if_splits)
  note st = port_step [OF ok i(1) p(2) this, of "pg # L"]
  show ?thesis
    by (rule that [OF p(1)]) (use st p(3) pp ipc_okD(5) [OF ok i(1)] in auto)
qed

lemma box_count: "length (inbox s i) = po_count (ports s ! i)"
  by (simp add: inbox_def)

section \<open>Changes of the task table\<close>

lemma sched_change:
  assumes "ipc_ok s F L" and "table_ok q"
  shows "ipc_ok (s\<lparr>sch := q\<rparr>) F L" and "frame s (s\<lparr>sch := q\<rparr>) {} {}"
proof -
  have "msg_hdr_ref (s\<lparr>sch := q\<rparr>) = msg_hdr_ref s" "page_msg (s\<lparr>sch := q\<rparr>) = page_msg s" "owned (s\<lparr>sch := q\<rparr>) = owned s"
    by (simp_all add: msg_hdr_ref_def [abs_def] page_msg_def [abs_def] owned_def)
  then show "ipc_ok (s\<lparr>sch := q\<rparr>) F L" "frame s (s\<lparr>sch := q\<rparr>) {} {}"
    using assms unfolding ipc_ok_def by (simp_all add: frame_def inbox_def slot_def Let_def)
qed

lemma wake_ok:
  assumes "ipc_ok s F L"
  shows "\<exists>q. ipc_wake wa s w n = Some (s\<lparr>sch := q\<rparr>) \<and> ipc_ok (s\<lparr>sch := q\<rparr>) F L \<and> frame s (s\<lparr>sch := q\<rparr>) {} {}"
proof -
  obtain r q where q: "futex_wake (sch s) (wa w) n = Some (r, q)" "table_ok q" using futex_wake_total ipc_okD(2) [OF assms] by blast
  then show ?thesis using sched_change [OF assms q(2)] by (auto simp: ipc_wake_def)
qed

section \<open>Reply slots\<close>

lemma reply_step:
  assumes ok: "ipc_ok s F L" and k: "k < MAX_REPLIES" "k \<noteq> 0" and len: "unat (re_len (f (replies s ! k))) \<le> IPC_MSG_MAX"
    and m: "mset L' + mset (reply_pages (f (replies s ! k))) = mset L + mset (reply_pages (replies s ! k))"
  shows "ipc_ok (upd_reply s k f) F L'" and "frame s (upd_reply s k f) {} {k}"
proof -
  let ?s = "upd_reply s k f" and ?r = "replies s ! k"
  have kl: "k < length (replies s)" using k ipc_okD(6) [OF ok] by simp
  have "mset (owned ?s) + mset (reply_pages ?r) = mset (owned s) + mset (reply_pages (f ?r))" using owned_upd_reply [OF kl] by simp
  from mset_exchange [OF this m] have "mset (L @ owned s) = mset (L' @ owned ?s)" by (simp add: union_commute)
  from pages_ok_perm [OF this] have "pages_ok (ipages ?s) F (L' @ owned ?s)" using ipc_okD(1) [OF ok] by simp
  then show "ipc_ok ?s F L'" using ok len k unfolding ipc_ok_def by (auto simp: replies_upd_reply kl)
  show "frame s ?s {} {k}" by (auto simp: frame_def inbox_def slot_def Let_def replies_upd_reply kl)
qed

lemma reply_alloc_ok:
  assumes ok: "ipc_ok s F L" and al: "alloc_page s = (Some pg, s1)" and fr: "find_from (\<lambda>r. \<not> re_used r) 1 (drop 1 (replies s)) = Some k"
  obtains s2 where "reply_alloc e s = Some (Some (of_nat k), s2)" and "ipc_ok s2 (F - span pg 0) L" and "frame s s2 {} {k}"
    and "0 < k" and "k < MAX_REPLIES" and "\<not> re_used (replies s ! k)"
    and "replies s2 ! k = \<lparr>re_used = True, re_page = pg, re_len = 0, re_done = False\<rparr>" and "sch s2 = sch s" and "ipages s2 = ipages s1"
proof -
  note a = alloc_page_ok [OF ok al]
  have s1: "replies s1 = replies s" "sch s1 = sch s" using al by (auto simp: alloc_page_def split: prod.splits option.splits)
  have k: "0 < k" "k < MAX_REPLIES" "\<not> re_used (replies s ! k)"
    using find_from_Some [OF fr] ipc_okD(6) [OF ok] by (auto simp: nth_drop)
  let ?f = "\<lambda>_. \<lparr>re_used = True, re_page = pg, re_len = 0, re_done = False\<rparr>"
  have st: "ipc_ok (upd_reply s1 k ?f) (F - span pg 0) L" "frame s1 (upd_reply s1 k ?f) {} {k}"
    using reply_step [OF a(1) k(2), of ?f L] k s1 by (auto simp: reply_pages_def)
  show ?thesis
  proof (rule that [of "upd_reply s1 k ?f"])
    show "reply_alloc e s = Some (Some (of_nat k), upd_reply s1 k ?f)" using al fr s1 by (simp add: reply_alloc_def)
    show "frame s (upd_reply s1 k ?f) {} {k}" using frame_trans [OF a(2) st(2)] by simp
  qed (use st k s1 ipc_okD(6) [OF ok] in \<open>auto simp: replies_upd_reply\<close>)
qed

lemma reply_free_ok:
  assumes ok: "ipc_ok s F L" and k: "unat rid < MAX_REPLIES" "re_used (replies s ! unat rid)"
  obtains s1 where "reply_free e s rid = Some s1" and "ipc_ok s1 (F \<union> span (re_page (replies s ! unat rid)) 0) L" and "frame s s1 {} {unat rid}"
    and "\<not> re_used (replies s1 ! unat rid)" and "sch s1 = sch s" and "kmem s1 = kmem s"
proof -
  let ?k = "unat rid" and ?f = "\<lambda>r. r\<lparr>re_page := 0, re_used := False\<rparr>"
  let ?p = "re_page (replies s ! ?k)"
  have nz: "?k \<noteq> 0" using k ipc_okD(7) [OF ok] by metis
  have kl: "?k < length (replies s)" using k ipc_okD(6) [OF ok] by simp
  have p0: "?p \<noteq> 0" using pages_ok_page(1) [OF ipc_okD(1) [OF ok]] owned_slot [OF ok k] by simp
  have st: "ipc_ok (upd_reply s ?k ?f) F (?p # L)" "frame s (upd_reply s ?k ?f) {} {?k}"
    using reply_step [OF ok k(1) nz, of ?f "?p # L"] k ipc_okD(8) [OF ok k(1)] by (auto simp: reply_pages_def)
  obtain b where b: "free e (ipages s) ?p 0 = Some b"
      "ipc_ok ((upd_reply s ?k ?f)\<lparr>ipages := b\<rparr>) (F \<union> span ?p 0) L" "frame (upd_reply s ?k ?f) ((upd_reply s ?k ?f)\<lparr>ipages := b\<rparr>) {} {}"
    using free_page_ok [OF st(1), of e] by auto
  show ?thesis
  proof (rule that [of "(upd_reply s ?k ?f)\<lparr>ipages := b\<rparr>"])
    show "reply_free e s rid = Some ((upd_reply s ?k ?f)\<lparr>ipages := b\<rparr>)"
      using k p0 b(1) kl by (simp add: reply_free_def Let_def free_page_def) (simp add: upd_reply_def)
    show "frame s ((upd_reply s ?k ?f)\<lparr>ipages := b\<rparr>) {} {?k}" using frame_trans [OF st(2) b(3)] by simp
  qed (use b(2) kl in \<open>auto simp: replies_upd_reply\<close>)
qed

end
