(* ===== verification/Ipc_Messages.thy ===== *)
theory Ipc_Messages
  imports Ipc_Inv
begin

text \<open>
  Posting and receiving messages (\<^verbatim>\<open>src/src/ipc.rs\<close>): what the page of a posted message holds, and that the posting and
  receiving operations append to and take from the mailbox they are given.
\<close>

section \<open>What a posted page holds\<close>

lemma mem_read_sub: "a + n \<le> N \<Longrightarrow> mem_read m (p + of_nat a) n = take n (drop a (mem_read m p N))"
  by (rule nth_equalityI) (simp_all add: mem_read_def add.assoc flip: of_nat_add)

lemma load_write_apart: "apart x (length bs) y k \<Longrightarrow> load k (mem_write m (b + x) bs) (b + y) = load k m (b + y)"
  by (simp add: load_def mem_read_write_apart)

lemmas page_loads = load_store_apart load_store_apart [where x = 0, simplified] load_store_apart [where y = 0, simplified]
  load_write_apart load_write_apart [where y = 0, simplified]

lemma load_zero_page:
  assumes "mem_read m p 4096 = replicate 4096 0"
  shows "load 8 m (p + 8) = (0 :: u64)"
proof -
  have "mem_read m (p + 8) 8 = replicate 8 0" using mem_read_sub [of 8 8 4096 m p] assms by simp
  then show ?thesis by (simp add: load_def of_le_def numeral_eq_Suc)
qed

lemma kcopy_nil [simp]: "kcopy a [] s = s"
  by (simp add: kcopy_def mem_write_def)

lemma header_msg:
  assumes "msg_hdr_ref s pg = \<lparr>src_pid = src, reply_id = rid, msg_type = ty, msg_len = of_nat (length bs)\<rparr>" and "length bs \<le> IPC_MSG_MAX"
  shows "msg_hdr_ref (kcopy (pg + IPC_MSG_HEADER) bs s) pg = msg_hdr_ref s pg"
    and "page_msg (kcopy (pg + IPC_MSG_HEADER) bs s) pg = \<lparr>m_src = src, m_reply = rid, m_type = ty, m_data = bs\<rparr>"
    and "unat (msg_len (msg_hdr_ref s pg)) \<le> IPC_MSG_MAX"
proof -
  have n: "length bs \<le> 4064" using assms(2) by (simp add: IPC_MSG_MAX_def IPC_MSG_HEADER_def)
  then have u: "unat (of_nat (length bs) :: u32) = length bs" by (simp add: unat_of_nat take_bit_nat_eq_self)
  show h: "msg_hdr_ref (kcopy (pg + IPC_MSG_HEADER) bs s) pg = msg_hdr_ref s pg"
    using n by (simp add: msg_hdr_ref_def kcopy_def page_loads apart_def IPC_MSG_HEADER_def)
  show "page_msg (kcopy (pg + IPC_MSG_HEADER) bs s) pg = \<lparr>m_src = src, m_reply = rid, m_type = ty, m_data = bs\<rparr>"
    using mem_read_write_prefix [of bs "length bs" "kmem s" "pg + IPC_MSG_HEADER"] n
    by (simp add: page_msg_def h assms(1) Let_def u) (simp add: kcopy_def)
  show "unat (msg_len (msg_hdr_ref s pg)) \<le> IPC_MSG_MAX" using assms u by simp
qed

lemma send_header_hdr:
  assumes "mem_read (kmem s) pg 4096 = replicate 4096 0"
  shows "msg_hdr_ref (send_header src ty n pg s) pg = \<lparr>src_pid = src, reply_id = 0, msg_type = ty, msg_len = of_nat n\<rparr>"
  using load_zero_page [OF assms] by (simp add: msg_hdr_ref_def send_header_def kstore_def page_loads apart_def)

lemma call_header_hdr: "msg_hdr_ref (call_header src rid n pg s) pg = \<lparr>src_pid = src, reply_id = rid, msg_type = 0, msg_len = of_nat n\<rparr>"
  by (simp add: msg_hdr_ref_def call_header_def kstore_def page_loads apart_def)

lemma kstore_step:
  assumes "ipc_ok u F (pg # L) \<and> frame s u {} {}" and "a + k \<le> 4096"
  shows "ipc_ok (kstore k (pg + of_nat a) v u) F (pg # L) \<and> frame s (kstore k (pg + of_nat a) v u) {} {}"
  using write_page_ok [of u F pg L a "le_bytes k v"] frame_trans [of s u "{}" "{}" _ "{}" "{}"] assms
  by (simp add: kstore_kcopy)

lemma zero_offset: "p + 0 = p + (of_nat 0 :: u64)"
  by simp

lemma header_ok:
  assumes "ipc_ok s F (pg # L)"
  shows "ipc_ok (send_header src ty n pg s) F (pg # L) \<and> frame s (send_header src ty n pg s) {} {}"
    and "ipc_ok (call_header src rid n pg s) F (pg # L) \<and> frame s (call_header src rid n pg s) {} {}"
  unfolding send_header_def call_header_def hdr_offsets zero_offset
  by (intro kstore_step; simp add: assms frame_refl)+

lemma header_sched [simp]: "sch (send_header src ty n pg s) = sch s" "sch (call_header src rid n pg s) = sch s" "sch (kcopy a bs s) = sch s"
  by (simp_all add: send_header_def call_header_def kstore_def kcopy_def)

section \<open>Posting and receiving\<close>

lemma port_used:
  assumes "ipc_ok s F L" and "port_idx_by_id s pid = Some i"
  shows "i < MAX_PORTS" and "po_used (ports s ! i)"
  using find_index_Some [of _ "ports s" i] assms ipc_okD(3) [OF assms(1)] by (auto simp: port_idx_by_id_def)

lemma alloc_page_sched: "alloc_page s = (r, s1) \<Longrightarrow> sch s1 = sch s"
  by (auto simp: alloc_page_def split: prod.splits option.splits)

lemma post_ok:
  assumes ok: "ipc_ok s F L" and idx: "port_idx_by_id s pid = Some i" and room: "length (inbox s i) < PORT_SLOTS"
    and al: "alloc_page s = (Some pg, s1)" and len: "length bs \<le> IPC_MSG_MAX" and val: "bs = [] \<or> v"
    and hd: "ipc_ok (head pg s1) (F - span pg 0) (pg # L) \<and> frame s1 (head pg s1) {} {}"
    and hdr: "msg_hdr_ref (head pg s1) pg = \<lparr>src_pid = src, reply_id = rid, msg_type = ty, msg_len = of_nat (length bs)\<rparr>"
    and sc: "sch (head pg s1) = sch s1"
  obtains s2 where "post_try e s pid bs v head = Some (Posted i, s2)" and "ipc_ok s2 (F - span pg 0) L" and "frame s s2 {i} {}"
    and "inbox s2 i = inbox s i @ [\<lparr>m_src = src, m_reply = rid, m_type = ty, m_data = bs\<rparr>]" and "sch s2 = sch s"
proof -
  note i = port_used [OF ok idx]
  note a = alloc_page_ok [OF ok al]
  let ?h = "head pg s1"
  let ?s3 = "kcopy (pg + IPC_MSG_HEADER) bs ?h"
  note hm = header_msg [OF hdr len]
  have fit: "32 + length bs \<le> 4096" using len by (simp add: IPC_MSG_MAX_def IPC_MSG_HEADER_def)
  have k: "ipc_ok ?s3 (F - span pg 0) (pg # L)" "frame ?h ?s3 {} {}"
    using write_page_ok [OF conjunct1 [OF hd] fit] by (simp_all add: hdr_offsets)
  have fr: "frame s ?s3 {} {}" using frame_trans [OF frame_trans [OF a(2) conjunct2 [OF hd]] k(2)] by simp
  then have box: "inbox ?s3 i = inbox s i" and idn: "map ident (ports ?s3) = map ident (ports s)" using i(1) by (auto simp: frame_def)
  have "ident (ports ?s3 ! i) = ident (ports s ! i)"
    using arg_cong [OF idn, of "\<lambda>l. l ! i"] i(1) ipc_okD(3) [OF k(1)] ipc_okD(3) [OF ok] by simp
  then have us: "po_used (ports ?s3 ! i)" using i(2) by (simp add: ident_def)
  have cnt: "po_count (ports ?s3 ! i) < PORT_SLOTS" using room box box_count by metis
  have cnt0: "po_count (ports s ! i) < PORT_SLOTS" using room box_count by metis
  have "unat (msg_len (msg_hdr_ref ?s3 pg)) \<le> IPC_MSG_MAX" using hm(1,3) by simp
  note pu = push_ok [OF k(1) i(1) us cnt this]
  show ?thesis
  proof (rule that [of "upd_port ?s3 i (\<lambda>p. push_msg p pg)"])
    show "post_try e s pid bs v head = Some (Posted i, upd_port ?s3 i (\<lambda>p. push_msg p pg))"
      using idx cnt0 al val by (auto simp: post_try_def Let_def)
    show "frame s (upd_port ?s3 i (\<lambda>p. push_msg p pg)) {i} {}" using frame_trans [OF fr pu(2)] by simp
  qed (use pu box hm(2) sc alloc_page_sched [OF al] in simp_all)
qed

text \<open>What a receiver gets for a message: its length, the reply token and as many bytes as the buffer takes, or an error when
  the buffer is refused.\<close>

definition delivery :: "msg \<Rightarrow> user_buf \<Rightarrow> nat \<Rightarrow> bool \<Rightarrow> int \<times> u64 \<times> bytes" where
  "delivery m buf max_len kernel_buf =
     (if m_data m \<noteq> [] \<and> 0 < max_len \<and> buf = Buf False \<and> \<not> kernel_buf then (- EFAULT, 0, [])
      else (int (length (m_data m)), m_reply m, if buf = Null then [] else take max_len (m_data m)))"

lemma page_msg_sched [simp]: "page_msg (s\<lparr>sch := q\<rparr>) = page_msg s" "msg_hdr_ref (s\<lparr>sch := q\<rparr>) = msg_hdr_ref s"
  by (simp_all add: msg_hdr_ref_def [abs_def] page_msg_def [abs_def])

lemma finish_recv_ok:
  assumes "ipc_ok s F (pg # L)"
  obtains s' where "finish_recv e s pg buf max_len kb = Some (delivery (page_msg s pg) buf max_len kb, s')"
    and "ipc_ok s' (F \<union> span pg 0) L" and "frame s s' {} {}" and "sch s' = sch s"
proof -
  obtain b where b: "free_page e s pg = Some (s\<lparr>ipages := b\<rparr>)" "ipc_ok (s\<lparr>ipages := b\<rparr>) (F \<union> span pg 0) L" "frame s (s\<lparr>ipages := b\<rparr>) {} {}"
    using free_page_ok [OF assms] by blast
  have d: "m_data (page_msg s pg) = mem_read (kmem s) (pg + IPC_MSG_HEADER) (unat (msg_len (msg_hdr_ref s pg)))"
    "m_reply (page_msg s pg) = reply_id (msg_hdr_ref s pg)"
    by (simp_all add: page_msg_def Let_def)
  let ?n = "unat (msg_len (msg_hdr_ref s pg))" and ?r = "mem_read (kmem s) (pg + IPC_MSG_HEADER)"
  have rd: "?r (min ?n max_len) = take max_len (?r ?n)"
    using mem_read_sub [of 0 "min ?n max_len" ?n "kmem s" "pg + IPC_MSG_HEADER"] by (cases "?n \<le> max_len") (simp_all add: min_def)
  have nil: "?r ?n = [] \<longleftrightarrow> ?n = 0" by (simp flip: length_0_conv)
  have out: "(if 0 < min ?n max_len \<and> buf \<noteq> Null then ?r (min ?n max_len) else []) = (if buf = Null then [] else take max_len (?r ?n))"
    using rd nil by auto
  have "finish_recv e s pg buf max_len kb = Some (delivery (page_msg s pg) buf max_len kb, s\<lparr>ipages := b\<rparr>)"
    unfolding finish_recv_def Let_def out delivery_def d using b(1) nil by (auto simp del: of_nat_unat)
  with b show ?thesis using that by simp
qed

lemma take_ok:
  assumes ok: "ipc_ok s F L" and idx: "port_idx_by_id s pid = Some i" and box: "inbox s i = m # ms"
  obtains pg p s1 s2 F' where "pop_msg (ports s ! i) = (Some pg, p)" and "ipc_wake wa (upd_port s i (\<lambda>_. p)) (Wake_send i) 1 = Some s1"
    and "finish_recv e s1 pg buf max_len kb = Some (delivery m buf max_len kb, s2)" and "ipc_ok s2 F' L" and "inbox s2 i = ms"
    and "frame s s2 {i} {}"
proof -
  note i = port_used [OF ok idx]
  from pop_ok [OF ok i box] obtain pg p where p: "pop_msg (ports s ! i) = (Some pg, p)"
      "ipc_ok (upd_port s i (\<lambda>_. p)) F (pg # L)" "frame s (upd_port s i (\<lambda>_. p)) {i} {}" "inbox (upd_port s i (\<lambda>_. p)) i = ms" "page_msg s pg = m" .
  obtain q where q: "ipc_wake wa (upd_port s i (\<lambda>_. p)) (Wake_send i) 1 = Some ((upd_port s i (\<lambda>_. p))\<lparr>sch := q\<rparr>)"
      "ipc_ok ((upd_port s i (\<lambda>_. p))\<lparr>sch := q\<rparr>) F (pg # L)" "frame (upd_port s i (\<lambda>_. p)) ((upd_port s i (\<lambda>_. p))\<lparr>sch := q\<rparr>) {} {}"
    using wake_ok [OF p(2)] by blast
  from finish_recv_ok [OF q(2), of e buf max_len kb] obtain s2 where
    s2: "finish_recv e ((upd_port s i (\<lambda>_. p))\<lparr>sch := q\<rparr>) pg buf max_len kb = Some (delivery m buf max_len kb, s2)"
      "ipc_ok s2 (F \<union> span pg 0) L" "frame ((upd_port s i (\<lambda>_. p))\<lparr>sch := q\<rparr>) s2 {} {}"
    using p(5) by auto
  have fr: "frame (upd_port s i (\<lambda>_. p)) s2 {} {}" using frame_trans [OF q(3) s2(3)] by simp
  show ?thesis
    by (rule that [OF p(1) q(1) s2(1,2)]) (use fr p(4) i(1) frame_trans [OF p(3) fr] in \<open>auto simp: frame_def\<close>)
qed

lemma recv_ok:
  assumes "ipc_ok s F L" and "port_idx_by_id s pid = Some i" and "inbox s i = m # ms"
  obtains s' F' where "ipc_recv_ex_impl e wa s pid buf max_len kb = Some (Done (delivery m buf max_len kb), s')" and "ipc_ok s' F' L"
    and "inbox s' i = ms" and "frame s s' {i} {}"
  by (rule take_ok [OF assms, of wa e buf max_len kb], rule that) (use assms(2) in \<open>auto simp: ipc_recv_ex_impl_def\<close>)

lemma peek_ok:
  assumes "ipc_ok s F L" and "port_idx_by_id s pid = Some i" and "inbox s i = m # ms"
  obtains s' F' where "ipc_peek_ex_impl e wa s pid buf max_len kb = Some (delivery m buf max_len kb, s')" and "ipc_ok s' F' L"
    and "inbox s' i = ms" and "frame s s' {i} {}"
  by (rule take_ok [OF assms, of wa e buf max_len kb], rule that) (use assms(2) in \<open>auto simp: ipc_peek_ex_impl_def\<close>)

lemma send_ok:
  assumes ok: "ipc_ok s F L" and idx: "port_idx_by_id s pid = Some i" and room: "length (inbox s i) < PORT_SLOTS"
    and al: "alloc_page s = (Some pg, s1)" and len: "length bs \<le> IPC_MSG_MAX" and val: "bs = [] \<or> v"
  obtains s' where "ipc_send e wa s c pid bs v ty = Some (Done 0, s')" and "ipc_ok s' (F - span pg 0) L" and "frame s s' {i} {}"
    and "inbox s' i = inbox s i @ [\<lparr>m_src = cur_task (sch s) c, m_reply = 0, m_type = ty, m_data = bs\<rparr>]"
proof -
  note a = alloc_page_ok [OF ok al]
  let ?head = "send_header (cur_task (sch s) c) ty (length bs)"
  from post_ok [where head = ?head, OF ok idx room al len val header_ok(1) [OF a(1)] send_header_hdr [OF a(3)] header_sched(1), of e]
  obtain s2 where s2: "post_try e s pid bs v ?head = Some (Posted i, s2)" "ipc_ok s2 (F - span pg 0) L" "frame s s2 {i} {}"
    "inbox s2 i = inbox s i @ [\<lparr>m_src = cur_task (sch s) c, m_reply = 0, m_type = ty, m_data = bs\<rparr>]" .
  obtain q where q: "ipc_wake wa s2 (Wake_recv i) 1 = Some (s2\<lparr>sch := q\<rparr>)" "ipc_ok (s2\<lparr>sch := q\<rparr>) (F - span pg 0) L"
      "frame s2 (s2\<lparr>sch := q\<rparr>) {} {}"
    using wake_ok [OF s2(2)] by blast
  show ?thesis
    by (rule that [OF _ q(2)])
      (use s2 q len frame_trans [OF s2(3) q(3)] port_used(1) [OF ok idx] in \<open>auto simp: ipc_send_def inbox_def\<close>)
qed

end
