(* ===== verification/Ipc_Calls.thy ===== *)
theory Ipc_Calls
  imports Ipc_Messages
begin

text \<open>
  Every operation of \<^verbatim>\<open>src/src/ipc.rs\<close> on every branch, errors included: it ends without a panic, keeps the invariant, and leaves the
  reply slots of others alone (\<open>settles\<close>).
\<close>

section \<open>Every operation keeps the invariant\<close>

text \<open>The effect of an operation on what it does not touch: it runs to its end, the invariant holds afterwards and the
  reply slots outside \<open>R\<close> are what they were.\<close>

definition settles :: "ipc \<Rightarrow> nat set \<Rightarrow> ('a \<times> ipc) option \<Rightarrow> bool" where
  "settles s R r \<longleftrightarrow> (\<exists>v s' F'. r = Some (v, s') \<and> ipc_inv s' F' \<and> (\<forall>k < MAX_REPLIES. k \<notin> R \<longrightarrow> slot s' k = slot s k))"

lemma settlesI: "ipc_inv s' F' \<Longrightarrow> frame s s' I R \<Longrightarrow> settles s R (Some (v, s'))"
  by (auto simp: settles_def frame_def)

lemma settles_id: "ipc_inv s F \<Longrightarrow> settles s R (Some (v, s))"
  by (rule settlesI [OF _ frame_refl])

lemma settles_bind:
  assumes "settles s R r" and "\<And>v s' F'. r = Some (v, s') \<Longrightarrow> ipc_inv s' F' \<Longrightarrow> settles s' R (g v s')"
  shows "settles s R (r \<bind> (\<lambda>(v, s'). g v s'))"
  using assms unfolding settles_def by fastforce

lemma settles_wake:
  assumes "ipc_inv s F" and "\<And>s' F'. ipc_inv s' F' \<Longrightarrow> settles s' R (g s')"
  shows "settles s R (ipc_wake wa s w n \<bind> g)"
proof -
  obtain q where q: "ipc_wake wa s w n = Some (s\<lparr>sch := q\<rparr>)" "ipc_inv (s\<lparr>sch := q\<rparr>) F" "frame s (s\<lparr>sch := q\<rparr>) {} {}"
    using wake_ok [OF assms(1)] by blast
  then show ?thesis using assms(2) [OF q(2)] unfolding settles_def by (auto simp: frame_def)
qed

definition good_head :: "(u64 \<Rightarrow> ipc \<Rightarrow> ipc) \<Rightarrow> nat \<Rightarrow> bool" where
  "good_head head n \<longleftrightarrow> (\<forall>s F L pg. ipc_ok s F (pg # L) \<and> mem_read (kmem s) pg 4096 = replicate 4096 0 \<longrightarrow>
     ipc_ok (head pg s) F (pg # L) \<and> frame s (head pg s) {} {} \<and> sch (head pg s) = sch s \<and>
     (\<exists>src rid ty. msg_hdr_ref (head pg s) pg = \<lparr>src_pid = src, reply_id = rid, msg_type = ty, msg_len = of_nat n\<rparr>))"

lemma good_heads: "good_head (send_header src ty n) n" "good_head (call_header src rid n) n"
  unfolding good_head_def using header_ok send_header_hdr call_header_hdr by fastforce+

lemma post_settles:
  assumes ok: "ipc_inv s F" and len: "length bs \<le> IPC_MSG_MAX" and hd: "good_head head (length bs)"
  shows "settles s {} (post_try e s pid bs v head)"
proof (cases "port_idx_by_id s pid")
  case None
  then show ?thesis by (simp add: settles_id [OF ok] post_try_def)
next
  case (Some i)
  show ?thesis
  proof (cases "po_count (ports s ! i) < PORT_SLOTS")
    case False
    then show ?thesis using Some by (simp add: settles_id [OF ok] post_try_def)
  next
    case room: True
    obtain r s1 where al: "alloc_page s = (r, s1)" by fastforce
    show ?thesis
    proof (cases r)
      case None
      then have "s1 = s" using alloc_page_none ok al by blast
      then show ?thesis using Some room al None by (simp add: settles_id [OF ok] post_try_def)
    next
      case r: (Some pg)
      note a = alloc_page_ok [OF ok al [unfolded r]]
      obtain src rid ty where h: "ipc_ok (head pg s1) (F - span pg 0) [pg]" "frame s1 (head pg s1) {} {}" "sch (head pg s1) = sch s1"
          "msg_hdr_ref (head pg s1) pg = \<lparr>src_pid = src, reply_id = rid, msg_type = ty, msg_len = of_nat (length bs)\<rparr>"
        using hd a(1,3) unfolding good_head_def by metis
      show ?thesis
      proof (cases "bs = [] \<or> v")
        case True
        have "length (inbox s i) < PORT_SLOTS" using room by (simp add: box_count)
        from post_ok [where head = head, OF ok Some this al [unfolded r] len True conjI [OF h(1,2)] h(4,3), of e] settlesI
        show ?thesis by metis
      next
        case False
        obtain b where b: "free_page e (head pg s1) pg = Some ((head pg s1)\<lparr>ipages := b\<rparr>)"
            "ipc_inv ((head pg s1)\<lparr>ipages := b\<rparr>) (F - span pg 0 \<union> span pg 0)" "frame (head pg s1) ((head pg s1)\<lparr>ipages := b\<rparr>) {} {}"
          using free_page_ok [OF h(1)] by blast
        then show ?thesis
          using settlesI [OF b(2) frame_trans [OF frame_trans [OF a(2) h(2)] b(3)]] Some room al r False by (simp add: post_try_def Let_def)
      qed
    qed
  qed
qed

lemma send_settles:
  assumes "ipc_inv s F"
  shows "settles s {} (ipc_send e wa s c pid bs v ty)"
proof (cases "IPC_MSG_MAX < length bs")
  case True
  then show ?thesis by (simp add: settles_id [OF assms] ipc_send_def)
next
  case False
  then show ?thesis unfolding ipc_send_def
    by (auto intro!: settles_bind post_settles [OF assms] good_heads settles_wake split: posted.split
        intro: settles_id)
qed

lemma recv_settles:
  assumes "ipc_inv s F"
  shows "settles s {} (ipc_recv_ex_impl e wa s pid buf max_len kb)" and "settles s {} (ipc_peek_ex_impl e wa s pid buf max_len kb)"
proof -
  have "settles s {} (ipc_recv_ex_impl e wa s pid buf max_len kb) \<and> settles s {} (ipc_peek_ex_impl e wa s pid buf max_len kb)"
  proof (cases "port_idx_by_id s pid")
    case None
    then show ?thesis by (simp add: settles_id [OF assms] ipc_recv_ex_impl_def ipc_peek_ex_impl_def)
  next
    case (Some i)
    show ?thesis
    proof (cases "inbox s i")
      case Nil
      then have "pop_msg (ports s ! i) = (None, ports s ! i)" using box_count [of s i] by (simp add: pop_msg_def)
      then show ?thesis using Some by (simp add: settles_id [OF assms] ipc_recv_ex_impl_def ipc_peek_ex_impl_def)
    next
      case (Cons m ms)
      from recv_ok [OF assms Some Cons, of e wa buf max_len kb] peek_ok [OF assms Some Cons, of e wa buf max_len kb] settlesI
      show ?thesis by metis
    qed
  qed
  then show "settles s {} (ipc_recv_ex_impl e wa s pid buf max_len kb)" "settles s {} (ipc_peek_ex_impl e wa s pid buf max_len kb)" by blast+
qed

lemma reply_alloc_settles:
  assumes ok: "ipc_inv s F"
  shows "settles s {k. \<not> re_used (replies s ! k)} (reply_alloc e s)"
proof -
  obtain r s1 where al: "alloc_page s = (r, s1)" by fastforce
  show ?thesis
  proof (cases r)
    case None
    then have "s1 = s" using alloc_page_none ok al by blast
    then show ?thesis using al None by (simp add: reply_alloc_def settles_id [OF ok])
  next
    case (Some pg)
    note a = alloc_page_ok [OF ok al [unfolded Some]]
    have rs: "replies s1 = replies s" using al by (auto simp: alloc_page_def split: prod.splits option.splits)
    show ?thesis
    proof (cases "find_from (\<lambda>r. \<not> re_used r) 1 (drop 1 (replies s))")
      case None
      obtain b where b: "free_page e s1 pg = Some (s1\<lparr>ipages := b\<rparr>)" "ipc_inv (s1\<lparr>ipages := b\<rparr>) (F - span pg 0 \<union> span pg 0)"
          "frame s1 (s1\<lparr>ipages := b\<rparr>) {} {}"
        using free_page_ok [OF a(1)] by blast
      have "settles s {} (Some (None, s1\<lparr>ipages := b\<rparr>))" using settlesI [OF b(2) frame_trans [OF a(2) b(3)]] by simp
      then show ?thesis using al Some None b(1) rs by (auto simp: reply_alloc_def settles_def)
    next
      case k: (Some k)
      from reply_alloc_ok [OF ok al [unfolded Some] k, of e] obtain s2 where
        s2: "reply_alloc e s = Some (Some (of_nat k), s2)" "ipc_inv s2 (F - span pg 0)" "frame s s2 {} {k}" "\<not> re_used (replies s ! k)" .
      then show ?thesis using settlesI [OF s2(2,3)] by (fastforce simp: settles_def)
    qed
  qed
qed

lemma reply_free_settles:
  assumes "ipc_inv s F"
  shows "settles s {unat rid} (reply_free e s rid \<bind> (\<lambda>s1. Some (v, s1)))"
proof (cases "unat rid < MAX_REPLIES \<and> re_used (replies s ! unat rid)")
  case True
  from reply_free_ok [OF assms conjunct1 [OF True] conjunct2 [OF True], of e] settlesI show ?thesis by (metis bind.bind_lunit)
next
  case False
  then have "reply_free e s rid = Some s" by (auto simp: reply_free_def Let_def)
  then show ?thesis by (simp add: settles_id [OF assms])
qed

lemma call_fail_settles: "ipc_inv s F \<Longrightarrow> settles s {unat rid} (call_fail e s rid err)"
  unfolding call_fail_def by (rule reply_free_settles)

lemma settles_mono: "settles s R r \<Longrightarrow> R \<subseteq> Q \<Longrightarrow> settles s Q r"
  unfolding settles_def by blast

lemma call_begin_settles:
  assumes "ipc_inv s F"
  shows "settles s {k. \<not> re_used (replies s ! k)} (call_begin e s q)"
  using reply_alloc_settles [OF assms]
  by (auto simp: call_begin_def settles_id [OF assms] intro!: settles_bind settles_id split: option.split)

lemma call_post_settles:
  assumes "ipc_inv s F" and "length (rq_msg q) \<le> IPC_MSG_MAX"
  shows "settles s {unat rid} (call_post e wa s c q rid)"
  unfolding call_post_def
  by (rule settles_bind [OF settles_mono [OF post_settles [OF assms good_heads(2)]]])
    (auto split: posted.split intro: settles_wake settles_id call_fail_settles)

lemma call_poll_settles:
  assumes "ipc_inv s F"
  shows "settles s {unat rid} (call_poll e s q rid)"
  by (auto simp: call_poll_def call_finish_def Let_def intro: settles_id [OF assms] reply_free_settles [OF assms] call_fail_settles [OF assms])

lemma reply_fill_ok:
  assumes ok: "ipc_inv s F" and k: "k < MAX_REPLIES" "re_used (replies s ! k)" and n: "n \<le> IPC_MSG_MAX" and len: "length bs \<le> 4096"
  defines "s' \<equiv> upd_reply (kcopy (re_page (replies s ! k)) bs s) k (\<lambda>r. r\<lparr>re_len := of_nat n, re_done := True\<rparr>)"
  shows "ipc_inv s' F" and "frame s s' {} {k}"
proof -
  let ?p = "re_page (replies s ! k)" and ?f = "\<lambda>r. r\<lparr>re_used := False\<rparr>"
    and ?g = "\<lambda>_. (replies s ! k)\<lparr>re_len := of_nat n, re_done := True\<rparr>"
  have k0: "k \<noteq> 0" using k ipc_okD(7) [OF ok] by metis
  have kl: "k < length (replies s)" using k ipc_okD(6) [OF ok] by simp
  have u: "ipc_ok (upd_reply s k ?f) F [?p]" "frame s (upd_reply s k ?f) {} {k}"
    using reply_step [OF ok k(1) k0, of ?f "[?p]"] k ipc_okD(8) [OF ok k(1)] by (auto simp: reply_pages_def)
  let ?w = "kcopy ?p bs (upd_reply s k ?f)"
  have w: "ipc_ok ?w F [?p]" "frame (upd_reply s k ?f) ?w {} {}" using write_page_ok [OF u(1), of 0 bs] len by simp_all
  have wk: "replies ?w ! k = ?f (replies s ! k)" using kl by (simp add: kcopy_def replies_upd_reply)
  have "unat (of_nat n :: u32) = n" using n by (simp add: unat_of_nat_lt IPC_MSG_MAX_def IPC_MSG_HEADER_def)
  then have st: "ipc_inv (upd_reply ?w k ?g) F" "frame ?w (upd_reply ?w k ?g) {} {k}"
    using reply_step [OF w(1) k(1) k0, of ?g "[]"] k n wk by (auto simp: reply_pages_def)
  have "s' = upd_reply ?w k ?g" using kl by (simp add: s'_def upd_reply_def kcopy_def)
  then show "ipc_inv s' F" "frame s s' {} {k}" using st frame_trans [OF frame_trans [OF u(2) w(2)] st(2)] by simp_all
qed

lemma reply_settles:
  assumes "ipc_inv s F"
  shows "settles s {unat rid} (ipc_reply wa s rid buf len)"
proof (cases "unat rid \<ge> MAX_REPLIES \<or> \<not> re_used (replies s ! unat rid) \<or> re_done (replies s ! unat rid)")
  case True
  then show ?thesis by (auto simp: ipc_reply_def Let_def settles_id [OF assms])
next
  case False
  let ?n = "min len IPC_MSG_MAX" and ?k = "unat rid"
  let ?bs = "case buf of Some bs \<Rightarrow> take ?n bs | None \<Rightarrow> []"
  let ?s = "upd_reply (kcopy (re_page (replies s ! ?k)) ?bs s) ?k (\<lambda>r. r\<lparr>re_len := of_nat ?n, re_done := True\<rparr>)"
  have fit: "length ?bs \<le> 4096" by (cases buf) (auto simp: IPC_MSG_MAX_def IPC_MSG_HEADER_def min_def)
  have k: "?k < MAX_REPLIES" "re_used (replies s ! ?k)" using False by auto
  note f = reply_fill_ok [OF assms k _ fit, of ?n]
  have "(case buf of Some bs \<Rightarrow> if ?n > 0 then kcopy (re_page (replies s ! ?k)) (take ?n bs) s else s | None \<Rightarrow> s) =
      kcopy (re_page (replies s ! ?k)) ?bs s"
    by (cases buf) auto
  then have "ipc_reply wa s rid buf len = ipc_wake wa ?s (Wake_reply ?k) 1 \<bind> (\<lambda>s3. Some (int ?n, s3))"
    using False by (simp add: ipc_reply_def Let_def)
  moreover have "settles ?s {?k} (ipc_wake wa ?s (Wake_reply ?k) 1 \<bind> (\<lambda>s3. Some (int ?n, s3)))"
    by (rule settles_wake [OF f(1)]) (auto intro: settles_id)
  ultimately show ?thesis using f(2) by (auto simp: settles_def frame_def)
qed

lemma create_settles:
  assumes "ipc_inv s F"
  shows "settles s {} (Some (ipc_create s nm))"
proof (cases "name_ok nm \<and> port_idx_by_name s (the nm) = None")
  case False
  then show ?thesis by (auto simp: ipc_create_def settles_id [OF assms])
next
  case nm: True
  show ?thesis
  proof (cases "find_index (\<lambda>p. \<not> po_used p) (ports s)")
    case None
    then show ?thesis using nm by (simp add: ipc_create_def settles_id [OF assms])
  next
    case (Some i)
    have i: "i < MAX_PORTS" "\<not> po_used (ports s ! i)" using find_index_Some [OF Some] ipc_okD(3) [OF assms] by auto
    have e: "ports s ! i = port_empty" using ipc_okD(4) [OF assms i(1)] i(2) by (simp add: port_ok_def)
    let ?s = "s\<lparr>next_port_id := next_port_id s + 1\<rparr>"
    let ?p = "port_empty\<lparr>po_used := True, po_id := next_port_id s, po_name := the nm @ drop (length (the nm)) (po_name port_empty),
        po_head := 0, po_count := 0\<rparr>"
    have ok: "ipc_inv ?s F" "frame s ?s {} {}" using same_owned [OF assms, of ?s F "[]"] ipc_okD(1) [OF assms] by simp_all
    have po: "port_ok ?p" using nm by (auto simp: port_ok_def port_empty_def name_ok_def PORT_SLOTS_def split: option.splits)
    have "port_pages ?p = []" "port_pages port_empty = []" by (simp_all add: port_pages_def port_empty_def)
    note ch = port_change [OF ok(1) i(1) po, of "[]"]
    have st: "ipc_inv (upd_port ?s i (\<lambda>_. ?p)) F" "slot (upd_port ?s i (\<lambda>_. ?p)) = slot ?s"
      using ch \<open>port_pages ?p = []\<close> \<open>port_pages port_empty = []\<close> e by simp_all
    have "ipc_create s nm = (sint (next_port_id s), upd_port ?s i (\<lambda>_. ?p))" using nm Some e by (simp add: ipc_create_def upd_port_def)
    then show ?thesis using st ok(2) by (auto simp: settles_def frame_def)
  qed
qed

lemma free_pages_ok:
  "ipc_ok s F (ps @ L) \<Longrightarrow> \<exists>b F'. free_pages e s ps = Some (s\<lparr>ipages := b\<rparr>) \<and> ipc_ok (s\<lparr>ipages := b\<rparr>) F' L \<and> frame s (s\<lparr>ipages := b\<rparr>) {} {}"
proof (induction ps arbitrary: s F)
  case Nil
  then show ?case using frame_refl [of s] by (intro exI [of _ "ipages s"]) auto
next
  case (Cons p ps)
  have "p \<noteq> 0" using pages_ok_page(1) [OF ipc_okD(1) [OF Cons.prems]] by simp
  obtain b where b: "free_page e s p = Some (s\<lparr>ipages := b\<rparr>)" "ipc_ok (s\<lparr>ipages := b\<rparr>) (F \<union> span p 0) (ps @ L)" "frame s (s\<lparr>ipages := b\<rparr>) {} {}"
    using free_page_ok [of s F p "ps @ L" e] Cons.prems by auto
  from Cons.IH [OF b(2)] obtain b' F' where "free_pages e (s\<lparr>ipages := b\<rparr>) ps = Some (s\<lparr>ipages := b'\<rparr>)" "ipc_ok (s\<lparr>ipages := b'\<rparr>) F' L"
      "frame (s\<lparr>ipages := b\<rparr>) (s\<lparr>ipages := b'\<rparr>) {} {}" by auto
  then show ?case using b(1) \<open>p \<noteq> 0\<close> frame_trans [OF b(3)] by fastforce
qed

lemma free_pages_pages:
  "free_pages e s ps = Some s1 \<Longrightarrow> ipages s' = ipages s \<Longrightarrow> free_pages e s' ps = Some (s'\<lparr>ipages := ipages s1\<rparr>)"
proof (induction ps arbitrary: s s')
  case (Cons p ps)
  from Cons.prems(1) obtain t where t: "(if p \<noteq> 0 then free_page e s p else Some s) = Some t" "free_pages e t ps = Some s1"
    by (auto split: bind_splits)
  have "(if p \<noteq> 0 then free_page e s' p else Some s') = Some (s'\<lparr>ipages := ipages t\<rparr>)"
    using t(1) Cons.prems(2) by (auto simp: free_page_def split: if_splits)
  then show ?case using Cons.IH [OF t(2), of "s'\<lparr>ipages := ipages t\<rparr>"] by auto
qed simp

lemma close_settles:
  assumes ok: "ipc_inv s F"
  shows "settles s {} (ipc_close e wa s pid)"
proof (cases "port_idx_by_id s pid")
  case None
  then show ?thesis by (simp add: ipc_close_def settles_id [OF ok])
next
  case (Some i)
  note i = port_used(1) [OF ok Some]
  let ?pp = "port_pages (ports s ! i)" and ?u = "upd_port s i (\<lambda>_. port_empty)"
  have "port_ok port_empty" "port_pages port_empty = []" by (simp_all add: port_ok_def port_empty_def port_pages_def PORT_SLOTS_def)
  then have u: "ipc_ok ?u F ?pp" "slot ?u = slot s" using port_change [OF ok i, of port_empty ?pp] by simp_all
  obtain b F' where b: "free_pages e ?u ?pp = Some (?u\<lparr>ipages := b\<rparr>)" "ipc_inv (?u\<lparr>ipages := b\<rparr>) F'" "frame ?u (?u\<lparr>ipages := b\<rparr>) {} {}"
    using free_pages_ok [of ?u F ?pp "[]" e] u(1) by auto
  have fp: "free_pages e s ?pp = Some (s\<lparr>ipages := b\<rparr>)" using free_pages_pages [OF b(1), of s] by simp
  obtain r1 q1 where q1: "futex_wake (sch s) (wa (Wake_recv i)) (- 1) = Some (r1, q1)" "table_ok q1"
    using futex_wake_total ipc_okD(2) [OF ok] by blast
  obtain r2 q2 where q2: "futex_wake q1 (wa (Wake_send i)) (- 1) = Some (r2, q2)" "table_ok q2" using futex_wake_total q1(2) by blast
  have "ipc_close e wa s pid = Some (0, (?u\<lparr>ipages := b\<rparr>)\<lparr>sch := q2\<rparr>)"
    using Some fp q1(1) q2(1) by (simp add: ipc_close_def ipc_wake_def) (simp add: upd_port_def)
  then show ?thesis
    using sched_change [OF b(2) q2(2)] b(3) u(2) by (auto simp: settles_def frame_def)
qed

lemma table_ok_block: "table_ok s \<Longrightarrow> table_ok (upd_slot s j (\<lambda>k. k\<lparr>tk_blocked_on := a, tk_state := Blocked\<rparr>))"
  by (cases "j < length (tasks s)") (auto simp: table_ok_def upd_slot_def nth_list_update list_update_beyond)

lemma unlink_table: "table_ok s \<Longrightarrow> table_ok (unlink_task s t c p prev)"
  by (simp add: unlink_task_def Let_def table_ok_next split: option.split)

lemma block_keeps:
  assumes ok: "ipc_inv s F" and bl: "ipc_block wa s c w = Some (b, s')"
  shows "ipc_inv s' F" and "frame s s' {} {}"
proof -
  obtain f q where q: "block_on_futex (sch s) c (wa w) = Some (f, q)" "s' = s\<lparr>sch := q\<rparr>" using bl by (auto simp: ipc_block_def)
  have "table_ok q" using q(1) ipc_okD(2) [OF ok] unlink_table
    by (auto simp: block_on_futex_def remove_from_runqueue_def Let_def table_ok_block split: if_splits option.splits bind_splits)
  then show "ipc_inv s' F" "frame s s' {} {}" using sched_change [OF ok] q(2) by simp_all
qed

end
