(* ===== verification/Ipc_Props.thy ===== *)
theory Ipc_Props
  imports Ipc_Calls Buddy_Props
begin

text \<open>
  The properties of the interprocess communication: mailboxes are first-in-first-out queues, and a synchronous call returns the
  answer of the service whatever other tasks do meanwhile (the relation \<open>ipc_step\<close>).
\<close>

section \<open>Interleaving\<close>

fun phase_slot :: "call_phase \<Rightarrow> nat option" where
  "phase_slot (Posting rid) = Some (unat rid)"
| "phase_slot (Polling rid) = Some (unat rid)"
| "phase_slot (Blocking rid w ph) = Some (unat rid)"
| "phase_slot ph = None"

text \<open>One step of any task other than the caller that owns reply slot \<open>k\<close> and the service that answers it: every operation on any
  port, steps of other calls, answers to other calls, and whatever the scheduler does.\<close>

inductive ipc_step :: "(wake_word \<Rightarrow> u64) \<Rightarrow> nat \<Rightarrow> ipc \<Rightarrow> ipc \<Rightarrow> bool" for wa k where
  step_send: "ipc_send e wa s c pid bs v ty = Some (r, s') \<Longrightarrow> ipc_step wa k s s'"
| step_recv: "ipc_recv_ex_impl e wa s pid buf n kb = Some (d, s') \<Longrightarrow> ipc_step wa k s s'"
| step_peek: "ipc_peek_ex_impl e wa s pid buf n kb = Some (d', s') \<Longrightarrow> ipc_step wa k s s'"
| step_reply: "unat rid \<noteq> k \<Longrightarrow> ipc_reply wa s rid ans n = Some (r, s') \<Longrightarrow> ipc_step wa k s s'"
| step_create: "ipc_create s nm = (r, s') \<Longrightarrow> ipc_step wa k s s'"
| step_close: "ipc_close e wa s pid = Some (r, s') \<Longrightarrow> ipc_step wa k s s'"
| step_block: "ipc_block wa s c w = Some (b, s') \<Longrightarrow> ipc_step wa k s s'"
| step_call: "phase_slot ph \<noteq> Some k \<Longrightarrow> ph = Begin \<or> length (rq_msg q) \<le> IPC_MSG_MAX \<Longrightarrow>
    ipc_call_impl e wa c q ph s = Some (ph', s') \<Longrightarrow> ipc_step wa k s s'"
| step_sched: "table_ok q' \<Longrightarrow> ipc_step wa k s (s\<lparr>sch := q'\<rparr>)"

lemma settles_kept:
  "r = Some (v, s') \<Longrightarrow> settles s R r \<Longrightarrow> k < MAX_REPLIES \<Longrightarrow> k \<notin> R \<Longrightarrow> \<exists>F'. ipc_inv s' F' \<and> slot s' k = slot s k"
  by (auto simp: settles_def)

lemma slot_taken: "slot s k \<noteq> None \<longleftrightarrow> re_used (replies s ! k)"
  by (simp add: slot_def Let_def)

lemma call_keeps:
  assumes ok: "ipc_inv s F" and k: "k < MAX_REPLIES" "slot s k \<noteq> None" and ph: "phase_slot ph \<noteq> Some k" "ph = Begin \<or> length (rq_msg q) \<le> IPC_MSG_MAX"
    and st: "ipc_call_impl e wa c q ph s = Some (ph', s')"
  shows "\<exists>F'. ipc_inv s' F' \<and> slot s' k = slot s k"
proof (cases ph)
  case Begin
  then have "call_begin e s q = Some (ph', s')" using st by (simp add: ipc_call_impl_def)
  then show ?thesis by (rule settles_kept [OF _ call_begin_settles [OF ok] k(1)]) (use k(2) slot_taken in auto)
next
  case (Posting rid)
  then have "call_post e wa s c q rid = Some (ph', s')" "length (rq_msg q) \<le> IPC_MSG_MAX" using st ph by (auto simp: ipc_call_impl_def)
  then show ?thesis by (rule settles_kept [OF _ call_post_settles [OF ok] k(1)]) (use ph Posting in auto)
next
  case (Polling rid)
  then have "call_poll e s q rid = Some (ph', s')" using st by (simp add: ipc_call_impl_def)
  then show ?thesis by (rule settles_kept [OF _ call_poll_settles [OF ok] k(1)]) (use ph Polling in auto)
next
  case (Blocking rid w ph2)
  then obtain b s1 where b: "ipc_block wa s c w = Some (b, s1)" "(if b then Some (Sleeping ph2, s1) else call_fail e s1 rid (- EAGAIN)) = Some (ph', s')"
    using st by (auto simp: ipc_call_impl_def call_block_def split: bind_splits)
  note kp = block_keeps [OF ok b(1)]
  then have "slot s1 k = slot s k" using k(1) by (simp add: frame_def)
  then show ?thesis
    using kp(1) b(2) settles_kept [OF _ call_fail_settles [OF kp(1)] k(1), of e rid "- EAGAIN" ph' s'] ph(1) Blocking by (auto split: if_splits)
qed (use st ok in \<open>auto simp: ipc_call_impl_def\<close>)

lemma step_keeps:
  assumes "ipc_step wa k s s'" and "ipc_inv s F" and "k < MAX_REPLIES" and "slot s k \<noteq> None"
  shows "\<exists>F'. ipc_inv s' F' \<and> slot s' k = slot s k"
  using assms(1)
proof cases
  case (step_send e c pid bs v ty r)
  show ?thesis by (rule settles_kept [OF step_send(1) send_settles [OF assms(2)] assms(3)]) (use step_send in auto)
next
  case (step_recv e pid buf n kb d)
  show ?thesis by (rule settles_kept [OF step_recv(1) recv_settles(1) [OF assms(2)] assms(3)]) (use step_recv in auto)
next
  case (step_peek e pid buf n kb d)
  show ?thesis by (rule settles_kept [OF step_peek(1) recv_settles(2) [OF assms(2)] assms(3)]) (use step_peek in auto)
next
  case (step_reply rid ans n r)
  show ?thesis by (rule settles_kept [OF step_reply(2) reply_settles [OF assms(2)] assms(3)]) (use step_reply in auto)
next
  case (step_create nm r)
  then show ?thesis using settles_kept [OF _ create_settles [OF assms(2)] assms(3)] by simp
next
  case (step_close e pid r)
  show ?thesis by (rule settles_kept [OF step_close(1) close_settles [OF assms(2)] assms(3)]) (use step_close in auto)
next
  case (step_block c w b)
  show ?thesis using block_keeps [OF assms(2) step_block] assms(3) by (auto simp: frame_def)
next
  case (step_call ph q e c ph')
  then show ?thesis using call_keeps [OF assms(2-4)] by blast
next
  case (step_sched q')
  then show ?thesis using sched_change [OF assms(2)] assms(3) by (auto simp: frame_def)
qed

lemma steps_keep:
  assumes "(ipc_step wa k)\<^sup>*\<^sup>* s s'" and "ipc_inv s F" and "k < MAX_REPLIES" and "slot s k \<noteq> None"
  shows "\<exists>F'. ipc_inv s' F' \<and> slot s' k = slot s k"
  using assms(1)
proof (induction rule: rtranclp_induct)
  case (step s1 s2)
  then show ?case using step_keeps [OF step.hyps(2) _ assms(3)] assms(4) by metis
qed (use assms(2) in blast)

section \<open>Calls\<close>

lemma begin_slot:
  assumes "ipc_inv s F" and "call_begin e s q = Some (Posting rid, s1)"
  obtains F1 pg m where "ipc_inv s1 F1" and "unat rid < MAX_REPLIES" and "slot s1 (unat rid) = Some (pg, False, 0, m)" and "length (rq_msg q) \<le> IPC_MSG_MAX"
proof -
  have len: "length (rq_msg q) \<le> IPC_MSG_MAX" and al: "reply_alloc e s = Some (Some rid, s1)"
    using assms(2) by (auto simp: call_begin_def split: if_splits bind_splits option.splits)
  obtain r t where at: "alloc_page s = (r, t)" by fastforce
  then obtain pg where pg: "r = Some pg" using al by (cases r) (auto simp: reply_alloc_def)
  have "replies t = replies s" using at by (auto simp: alloc_page_def split: prod.splits option.splits)
  then obtain k where k: "find_from (\<lambda>r. \<not> re_used r) 1 (drop 1 (replies s)) = Some k"
    using al at pg by (auto simp: reply_alloc_def split: option.splits bind_splits)
  from reply_alloc_ok [OF assms(1) at [unfolded pg] k, of e] obtain s2 where
    s2: "reply_alloc e s = Some (Some (of_nat k), s2)" "ipc_inv s2 (F - span pg 0)" "k < MAX_REPLIES"
      "replies s2 ! k = \<lparr>re_used = True, re_page = pg, re_len = 0, re_done = False\<rparr>" by metis
  have "unat (of_nat k :: u64) = k" using s2(3) by (simp add: unat_of_nat_lt MAX_REPLIES_def)
  with s2 al len show ?thesis using that [of "F - span pg 0" pg "mem_read (kmem s1) pg 4096"] by (auto simp: slot_def)
qed

lemma poll_waiting:
  "k < MAX_REPLIES \<Longrightarrow> slot s (unat rid) = Some (pg, False, n, m) \<Longrightarrow> unat rid = k \<Longrightarrow>
    call_poll e s q rid = Some (Blocking rid (Wake_reply k) (Polling rid), s)"
  by (auto simp: call_poll_def slot_def Let_def split: if_splits)

lemma poll_answered:
  assumes ok: "ipc_inv s F" and k: "unat rid < MAX_REPLIES" and sl: "slot s (unat rid) = Some (pg, True, n, m)"
  obtains s' F' where "call_poll e s q rid = Some (Returned (int (unat n)) (if rq_out_null q then [] else take (rq_out_len q) (take (unat n) m)), s')"
    and "ipc_inv s' F'" and "slot s' (unat rid) = None"
proof -
  let ?r = "replies s ! unat rid"
  have r: "re_used ?r" "re_page ?r = pg" "re_done ?r" "re_len ?r = n" "m = mem_read (kmem s) pg 4096"
    using sl by (auto simp: slot_def Let_def split: if_splits)
  have n: "unat n \<le> 4064" using ipc_okD(8) [OF ok k] r(4) by (simp add: IPC_MSG_MAX_def IPC_MSG_HEADER_def)
  have "mem_read (kmem s) pg (min (unat n) j) = take j (take (unat n) m)" for j
    using mem_read_sub [of 0 "min (unat n) j" 4096 "kmem s" pg] n r(5) by (simp add: min.commute)
  moreover from reply_free_ok [OF ok k r(1), of e] obtain s1 F1 where
    "reply_free e s rid = Some s1" "ipc_inv s1 F1" "\<not> re_used (replies s1 ! unat rid)" by metis
  ultimately show ?thesis using that [of s1 F1] k r
    by (auto simp: call_poll_def call_finish_def slot_def Let_def simp del: of_nat_unat)
qed

lemma reply_answers:
  assumes ok: "ipc_inv s F" and k: "unat rid < MAX_REPLIES" and sl: "slot s (unat rid) = Some (pg, False, n, m)"
    and re: "ipc_reply wa s rid (Some ans) (length ans) = Some (v, s')"
  obtains F' m' where "ipc_inv s' F'" and "v = int (min (length ans) IPC_MSG_MAX)"
    and "slot s' (unat rid) = Some (pg, True, of_nat (min (length ans) IPC_MSG_MAX), m')"
    and "take (min (length ans) IPC_MSG_MAX) m' = take IPC_MSG_MAX ans"
proof -
  let ?k = "unat rid" and ?n = "min (length ans) IPC_MSG_MAX"
  let ?bs = "take ?n ans"
  let ?s2 = "upd_reply (kcopy pg ?bs s) ?k (\<lambda>r. r\<lparr>re_len := of_nat ?n, re_done := True\<rparr>)"
  have r: "re_used (replies s ! ?k)" "re_page (replies s ! ?k) = pg" "\<not> re_done (replies s ! ?k)"
    using sl by (auto simp: slot_def Let_def split: if_splits)
  have fit: "length ?bs \<le> 4096" by (simp add: IPC_MSG_MAX_def IPC_MSG_HEADER_def min_def)
  have f: "ipc_inv ?s2 F" using reply_fill_ok(1) [OF ok k r(1) _ fit, of ?n] r(2) by simp
  have "ipc_reply wa s rid (Some ans) (length ans) = ipc_wake wa ?s2 (Wake_reply ?k) 1 \<bind> (\<lambda>s3. Some (int ?n, s3))"
    using k r by (cases "?n = 0") (simp_all add: ipc_reply_def Let_def)
  moreover obtain q where q: "ipc_wake wa ?s2 (Wake_reply ?k) 1 = Some (?s2\<lparr>sch := q\<rparr>)" "ipc_inv (?s2\<lparr>sch := q\<rparr>) F"
    using wake_ok [OF f] by blast
  ultimately have s': "v = int ?n" "s' = ?s2\<lparr>sch := q\<rparr>" using re by simp_all
  have kl: "?k < length (replies (kcopy pg ?bs s))" using k ipc_okD(6) [OF ok] by (simp add: kcopy_def)
  have rd: "take ?n (mem_read (mem_write (kmem s) pg ?bs) pg 4096) = ?bs"
    using mem_read_sub [of 0 ?n 4096 "mem_write (kmem s) pg ?bs" pg] mem_read_write_prefix [of ?bs ?n "kmem s" pg] fit
    by (simp add: IPC_MSG_MAX_def IPC_MSG_HEADER_def)
  have "slot s' ?k = Some (pg, True, of_nat ?n, mem_read (mem_write (kmem s) pg ?bs) pg 4096)"
    using r kl by (simp add: s'(2) slot_def Let_def replies_upd_reply) (simp add: kcopy_def)
  then show ?thesis using that [OF q(2) [folded s'(2)] s'(1)] rd by (simp add: min_def split: if_splits)
qed

lemma free_memory:
  assumes "ipc_ok s F L"
  shows "F \<noteq> {} \<Longrightarrow> \<exists>pg s1. alloc_page s = (Some pg, s1)" and "F = {} \<Longrightarrow> alloc_page s = (None, s)"
proof -
  have inv: "alloc_inv (ipages s) F" using ipc_okD(1) [OF assms] by (simp add: pages_ok_def)
  obtain r b where al: "alloc (ipages s) 0 = (r, b)" by fastforce
  { assume "F \<noteq> {}"
    moreover obtain M where M: "buddy_inv (ipages s) M" "free_space M = F" using inv by (auto simp: alloc_inv_def)
    ultimately have "r \<noteq> None" using alloc_fail(2) [OF inv _ M(1), of 0] al by (auto simp: free_space_iff)
    then show "\<exists>pg s1. alloc_page s = (Some pg, s1)" using al by (auto simp: alloc_page_def) }
  assume "F = {}"
  then have "r = None" using pages.alloc_some [OF inv] al span_nonempty by (cases r) fastforce+
  then show "alloc_page s = (None, s)" using alloc_fail(1) [OF inv] al by (auto simp: alloc_page_def)
qed

text \<open>C39: A port is a first-in-first-out queue of at most 64 messages: while there is room and free memory, a send appends the
  message with its sender, type and payload; a full mailbox makes the sender wait and changes nothing, and so does an empty one with
  the receiver; without memory a send fails and changes nothing; a receive (waiting or not) returns the oldest message, truncated
  to the buffer, and removes it. No other port's messages, names or reply slots change, and the invariant is kept.\<close>

theorem mailbox_is_fifo:
  assumes "ipc_inv s F" and "port_idx_by_id s pid = Some i" and "length bs \<le> IPC_MSG_MAX" and "bs = [] \<or> v"
  shows "(if length (inbox s i) = PORT_SLOTS then ipc_send e wa s c pid bs v ty = Some (Wait (Wake_send i), s)
      else if F = {} then ipc_send e wa s c pid bs v ty = Some (Done (- ENOMEM), s)
      else \<exists>s' F'. ipc_send e wa s c pid bs v ty = Some (Done 0, s') \<and> ipc_inv s' F' \<and> frame s s' {i} {} \<and>
        inbox s' i = inbox s i @ [\<lparr>m_src = cur_task (sch s) c, m_reply = 0, m_type = ty, m_data = bs\<rparr>]) \<and>
    (case inbox s i of
       [] \<Rightarrow> ipc_recv_ex_impl e wa s pid buf n kb = Some (Wait (Wake_recv i), s) \<and> ipc_peek_ex_impl e wa s pid buf n kb = Some ((0, 0, []), s)
     | m # ms \<Rightarrow>
         (\<exists>s' F'. ipc_recv_ex_impl e wa s pid buf n kb = Some (Done (delivery m buf n kb), s') \<and> ipc_inv s' F' \<and> frame s s' {i} {} \<and> inbox s' i = ms) \<and>
         (\<exists>s' F'. ipc_peek_ex_impl e wa s pid buf n kb = Some (delivery m buf n kb, s') \<and> ipc_inv s' F' \<and> frame s s' {i} {} \<and> inbox s' i = ms))"
  (is "?send \<and> ?recv")
proof
  have cnt: "length (inbox s i) \<le> PORT_SLOTS" using ipc_okD(4) [OF assms(1) port_used(1) [OF assms(1,2)]] by (simp add: box_count port_ok_def)
  show ?send
  proof (cases "length (inbox s i) = PORT_SLOTS")
    case True
    then show ?thesis using assms by (simp add: ipc_send_def post_try_def box_count)
  next
    case False
    then have room: "length (inbox s i) < PORT_SLOTS" using cnt by simp
    then have "po_count (ports s ! i) < PORT_SLOTS" by (simp add: box_count)
    then have "F = {} \<Longrightarrow> ipc_send e wa s c pid bs v ty = Some (Done (- ENOMEM), s)"
      using assms free_memory(2) [OF assms(1)] by (simp add: ipc_send_def post_try_def)
    moreover have "\<exists>s' F'. ipc_send e wa s c pid bs v ty = Some (Done 0, s') \<and> ipc_inv s' F' \<and> frame s s' {i} {} \<and>
        inbox s' i = inbox s i @ [\<lparr>m_src = cur_task (sch s) c, m_reply = 0, m_type = ty, m_data = bs\<rparr>]" if ne: "F \<noteq> {}"
    proof -
      from free_memory(1) [OF assms(1) ne] obtain pg s1 where "alloc_page s = (Some pg, s1)" by blast
      from send_ok [OF assms(1,2) room this assms(3,4), of e wa c ty] show ?thesis by blast
    qed
    ultimately show ?thesis using False by simp
  qed
  show ?recv
  proof (cases "inbox s i")
    case Nil
    then have "pop_msg (ports s ! i) = (None, ports s ! i)" using box_count [of s i] by (simp add: pop_msg_def)
    then show ?thesis using Nil assms(2) by (simp add: ipc_recv_ex_impl_def ipc_peek_ex_impl_def)
  next
    case (Cons m ms)
    then show ?thesis
      using recv_ok [OF assms(1,2) Cons, of e wa buf n kb] peek_ok [OF assms(1,2) Cons, of e wa buf n kb] by (simp, metis)
  qed
qed

lemma call_post_ok:
  assumes ok: "ipc_inv s F" and len: "length (rq_msg q) \<le> IPC_MSG_MAX" and po: "call_post e wa s c q rid = Some (Polling rid, s')"
  obtains i F' where "port_idx_by_id s (rq_port q) = Some i" and "ipc_inv s' F'" and "frame s s' {i} {}"
    and "inbox s' i = inbox s i @ [\<lparr>m_src = cur_task (sch s) c, m_reply = rid, m_type = 0, m_data = rq_msg q\<rparr>]"
proof -
  let ?head = "call_header (cur_task (sch s) c) rid (length (rq_msg q))"
  obtain i s2 where p: "post_try e s (rq_port q) (rq_msg q) (rq_valid q) ?head = Some (Posted i, s2)" "ipc_wake wa s2 (Wake_recv i) 1 = Some s'"
    using po by (auto simp: call_post_def call_fail_def split: bind_splits posted.splits)
  then obtain pg s1 where i: "port_idx_by_id s (rq_port q) = Some i" "po_count (ports s ! i) < PORT_SLOTS" "alloc_page s = (Some pg, s1)"
      "rq_msg q = [] \<or> rq_valid q"
    by (auto simp: post_try_def Let_def split: option.splits if_splits prod.splits bind_splits)
  note a = alloc_page_ok [OF ok i(3)]
  have "length (inbox s i) < PORT_SLOTS" using i(2) by (simp add: box_count)
  from post_ok [where head = ?head, OF ok i(1) this i(3) len i(4) header_ok(2) [OF a(1)] call_header_hdr header_sched(2), of e] p(1)
  have s2: "ipc_inv s2 (F - span pg 0)" "frame s s2 {i} {}"
      "inbox s2 i = inbox s i @ [\<lparr>m_src = cur_task (sch s) c, m_reply = rid, m_type = 0, m_data = rq_msg q\<rparr>]" by auto
  obtain r where "ipc_inv (s2\<lparr>sch := r\<rparr>) (F - span pg 0)" "frame s2 (s2\<lparr>sch := r\<rparr>) {} {}" "s' = s2\<lparr>sch := r\<rparr>"
    using wake_ok [OF s2(1), of wa "Wake_recv i" 1] p(2) by auto
  then show ?thesis using that [OF i(1)] s2 frame_trans [OF s2(2)] port_used(1) [OF ok i(1)] by (fastforce simp: inbox_def)
qed

text \<open>C40: A synchronous call returns the answer of the service. If a call got a reply slot and posted its request, the request is the last
  message of the port and carries the token of the slot; until the service answers, the caller waits on the slot; and once it
  has answered, the caller's next poll returns the number of bytes and the bytes of that answer (as many as its buffer takes) and gives
  the slot back, whatever other tasks have done meanwhile on any port, in other calls and in the scheduler.\<close>

theorem call_returns_answer:
  assumes "ipc_inv s F" and "call_begin e s q = Some (Posting rid, s1)" and "(ipc_step wa (unat rid))\<^sup>*\<^sup>* s1 s2"
    and "call_post e' wa s2 c q rid = Some (Polling rid, s3)" and "(ipc_step wa (unat rid))\<^sup>*\<^sup>* s3 s4"
    and "ipc_reply wa s4 rid (Some ans) (length ans) = Some (n, s5)" and "(ipc_step wa (unat rid))\<^sup>*\<^sup>* s5 s6"
  shows "(\<exists>i. port_idx_by_id s2 (rq_port q) = Some i \<and>
      last (inbox s3 i) = \<lparr>m_src = cur_task (sch s2) c, m_reply = rid, m_type = 0, m_data = rq_msg q\<rparr>) \<and>
    call_poll e' s4 q rid = Some (Blocking rid (Wake_reply (unat rid)) (Polling rid), s4) \<and>
    n = int (min (length ans) IPC_MSG_MAX) \<and>
    (\<exists>s7 F7. call_poll e' s6 q rid = Some (Returned n (if rq_out_null q then [] else take (rq_out_len q) (take IPC_MSG_MAX ans)), s7) \<and>
       ipc_inv s7 F7 \<and> slot s7 (unat rid) = None)"
proof -
  let ?k = "unat rid" and ?n = "min (length ans) IPC_MSG_MAX"
  from begin_slot [OF assms(1,2)] obtain F1 pg m where b: "ipc_inv s1 F1" "?k < MAX_REPLIES" "slot s1 ?k = Some (pg, False, 0, m)"
    "length (rq_msg q) \<le> IPC_MSG_MAX" .
  obtain F2 where i2: "ipc_inv s2 F2" "slot s2 ?k = slot s1 ?k" using steps_keep [OF assms(3) b(1,2)] b(3) by auto
  from call_post_ok [OF i2(1) b(4) assms(4)] obtain i F3 where p: "port_idx_by_id s2 (rq_port q) = Some i" "ipc_inv s3 F3" "frame s2 s3 {i} {}"
    "inbox s3 i = inbox s2 i @ [\<lparr>m_src = cur_task (sch s2) c, m_reply = rid, m_type = 0, m_data = rq_msg q\<rparr>]" .
  have "slot s3 ?k = slot s1 ?k" using p(3) i2(2) b(2) by (simp add: frame_def)
  then obtain F4 where i4: "ipc_inv s4 F4" "slot s4 ?k = Some (pg, False, 0, m)" using steps_keep [OF assms(5) p(2) b(2)] b(3) by auto
  from reply_answers [OF i4(1) b(2) i4(2) assms(6)] obtain F5 m' where r: "ipc_inv s5 F5" "n = int ?n"
    "slot s5 ?k = Some (pg, True, of_nat ?n, m')" "take ?n m' = take IPC_MSG_MAX ans" .
  obtain F6 where i6: "ipc_inv s6 F6" "slot s6 ?k = Some (pg, True, of_nat ?n, m')" using steps_keep [OF assms(7) r(1) b(2)] r(3) by auto
  have u: "unat (of_nat ?n :: u32) = ?n" by (simp add: unat_of_nat_lt IPC_MSG_MAX_def IPC_MSG_HEADER_def min_def)
  from poll_answered [OF i6(1) b(2) i6(2), of e' q] have
    "\<exists>s7 F7. call_poll e' s6 q rid = Some (Returned n (if rq_out_null q then [] else take (rq_out_len q) (take IPC_MSG_MAX ans)), s7) \<and>
       ipc_inv s7 F7 \<and> slot s7 ?k = None"
    unfolding u r(4) r(2) by metis
  then show ?thesis using p(1,4) r(2) poll_waiting [OF b(2) i4(2) refl] by simp
qed

section \<open>A concrete state\<close>

lemma ipc_new_inv:
  assumes "alloc_inv b F" and "table_ok q"
  shows "ipc_inv (ipc_new q b m) F"
proof -
  have "port_ok port_empty" "port_pages port_empty = []" by (simp_all add: port_ok_def port_empty_def port_pages_def PORT_SLOTS_def)
  then show ?thesis
    using assms by (simp add: ipc_ok_def ipc_new_def owned_def pages_ok_def reply_pages_def reply_empty_def MAX_REPLIES_def)
qed

definition demo_ipc :: ipc where
  "demo_ipc = upd_port (ipc_new sched_new demo (\<lambda>_. 0)) 0 (\<lambda>_. port_empty\<lparr>po_used := True, po_id := 1, po_name := 97 # replicate 15 0\<rparr>)"

lemma demo_ipc_facts:
  "ipc_inv demo_ipc {0x100000 ..< 0x104000}" "port_idx_by_id demo_ipc 1 = Some 0" "inbox demo_ipc 0 = []" "cur_task (sch demo_ipc) 0 = 0"
proof -
  have t: "table_ok sched_new" by (simp add: table_ok_def sched_new_def task_empty_def)
  let ?p = "port_empty\<lparr>po_used := True, po_id := 1, po_name := 97 # replicate 15 0\<rparr>"
  have pp: "port_ok ?p" "port_pages ?p = []" "port_pages port_empty = []"
    by (simp_all add: port_ok_def port_empty_def port_pages_def PORT_SLOTS_def NAME_LEN_def)
  have e: "ports (ipc_new sched_new demo (\<lambda>_. 0)) ! 0 = port_empty" by (simp add: ipc_new_def MAX_PORTS_def)
  have i: "ipc_inv (ipc_new sched_new demo (\<lambda>_. 0)) {0x100000 ..< 0x104000}" by (rule ipc_new_inv [OF demo_alloc_inv t])
  note ch = port_change [OF i, of 0 ?p "[]", folded demo_ipc_def]
  show "ipc_inv demo_ipc {0x100000 ..< 0x104000}" using ch pp e by (simp add: MAX_PORTS_def)
  have po: "ports demo_ipc ! 0 = ?p" "length (ports demo_ipc) = 32" by (simp_all add: demo_ipc_def upd_port_def ipc_new_def MAX_PORTS_def)
  then show "inbox demo_ipc 0 = []" using pp by (simp add: inbox_def)
  from po show "port_idx_by_id demo_ipc 1 = Some 0" unfolding port_idx_by_id_def by (cases "ports demo_ipc") auto
  show "cur_task (sch demo_ipc) 0 = 0" by (simp add: demo_ipc_def ipc_new_def sched_new_def cur_task_def MAX_CPUS_def)
qed

theorem mailbox_is_fifo_witness:
  "\<exists>s'. ipc_send demo_env (\<lambda>_. 0) demo_ipc 0 1 [104, 105] True 7 = Some (Done 0, s') \<and>
    inbox s' 0 = [\<lparr>m_src = 0, m_reply = 0, m_type = 7, m_data = [104, 105]\<rparr>]"
  using mailbox_is_fifo [OF demo_ipc_facts(1,2), of "[104, 105]" True demo_env "\<lambda>_. 0" 0 7 Null 0 False]
  by (auto simp: demo_ipc_facts PORT_SLOTS_def IPC_MSG_MAX_def IPC_MSG_HEADER_def)

definition demo_request :: request where
  "demo_request = \<lparr>rq_port = 1, rq_msg = [104, 105], rq_valid = True, rq_out_null = False, rq_out_len = 16\<rparr>"

lemma demo_call:
  obtains s1 s3 n s5 where "call_begin demo_env demo_ipc demo_request = Some (Posting 1, s1)"
    and "call_post demo_env (\<lambda>_. 0) s1 0 demo_request 1 = Some (Polling 1, s3)"
    and "ipc_reply (\<lambda>_. 0) s3 1 (Some [1, 2, 3]) (length [1, 2, 3 :: u8]) = Some (n, s5)"
proof -
  let ?F = "{0x100000 ..< 0x104000} :: nat set"
  obtain pg t where al: "alloc_page demo_ipc = (Some pg, t)" using free_memory(1) [OF demo_ipc_facts(1)] by auto
  have "replies demo_ipc = replicate MAX_REPLIES reply_empty" by (simp add: demo_ipc_def ipc_new_def)
  then have "find_from (\<lambda>r. \<not> re_used r) 1 (drop 1 (replies demo_ipc)) = Some 1" by (simp add: MAX_REPLIES_def reply_empty_def numeral_eq_Suc)
  from reply_alloc_ok [OF demo_ipc_facts(1) al this, of demo_env] obtain s1 where
    s1: "reply_alloc demo_env demo_ipc = Some (Some 1, s1)" "ipc_inv s1 (?F - span pg 0)" "frame demo_ipc s1 {} {1}" by (metis of_nat_1)
  have be: "call_begin demo_env demo_ipc demo_request = Some (Posting 1, s1)" using s1(1) by (simp add: call_begin_def demo_request_def IPC_MSG_MAX_def IPC_MSG_HEADER_def)
  have "?F - span pg 0 \<noteq> {}"
  proof
    assume "?F - span pg 0 = {}"
    then have "{0x100000, 0x103FFF} \<subseteq> span pg 0" by (auto simp: span_def)
    then show False by (auto simp: span_def)
  qed
  then obtain pg' t' where al': "alloc_page s1 = (Some pg', t')" using free_memory(1) [OF s1(2)] by auto
  note a = alloc_page_ok [OF s1(2) al']
  have ix: "port_idx_by_id s1 1 = Some 0" "inbox s1 0 = []" using frame_port [OF s1(3)] s1(3) demo_ipc_facts by (auto simp: frame_def MAX_PORTS_def)
  let ?head = "call_header (cur_task (sch s1) 0) 1 2"
  have "length (inbox s1 0) < PORT_SLOTS" using ix by (simp add: PORT_SLOTS_def)
  from post_ok [where head = ?head and bs = "[104, 105]" and v = True and e = demo_env, OF s1(2) ix(1) this al' _ _ header_ok(2) [OF a(1)] _ header_sched(2)]
  obtain s2 where s2: "post_try demo_env s1 1 [104, 105] True ?head = Some (Posted 0, s2)" "ipc_inv s2 (?F - span pg 0 - span pg' 0)"
    by (auto simp: call_header_hdr IPC_MSG_MAX_def IPC_MSG_HEADER_def)
  obtain r where r: "ipc_wake (\<lambda>_. 0) s2 (Wake_recv 0) 1 = Some (s2\<lparr>sch := r\<rparr>)" using wake_ok [OF s2(2)] by blast
  have po: "call_post demo_env (\<lambda>_. 0) s1 0 demo_request 1 = Some (Polling 1, s2\<lparr>sch := r\<rparr>)" using s2(1) r by (simp add: call_post_def demo_request_def flip: numeral_2_eq_2)
  have "ipc_inv (s2\<lparr>sch := r\<rparr>) (?F - span pg 0 - span pg' 0)" using wake_ok [OF s2(2), of "\<lambda>_. 0" "Wake_recv 0" 1] r by auto
  then have "settles (s2\<lparr>sch := r\<rparr>) {unat (1 :: u64)} (ipc_reply (\<lambda>_. 0) (s2\<lparr>sch := r\<rparr>) 1 (Some [1, 2, 3]) (length [1, 2, 3 :: u8]))" by (rule reply_settles)
  then show ?thesis using that [OF be po] by (auto simp: settles_def)
qed

theorem call_returns_answer_witness:
  "\<exists>s1 s3 n s5 s7. call_begin demo_env demo_ipc demo_request = Some (Posting 1, s1) \<and>
     call_post demo_env (\<lambda>_. 0) s1 0 demo_request 1 = Some (Polling 1, s3) \<and>
     ipc_reply (\<lambda>_. 0) s3 1 (Some [1, 2, 3]) (length [1, 2, 3 :: u8]) = Some (n, s5) \<and>
     call_poll demo_env s5 demo_request 1 = Some (Returned 3 [1, 2, 3], s7)"
proof (rule demo_call)
  fix s1 s3 n s5
  assume steps: "call_begin demo_env demo_ipc demo_request = Some (Posting 1, s1)" "call_post demo_env (\<lambda>_. 0) s1 0 demo_request 1 = Some (Polling 1, s3)"
    "ipc_reply (\<lambda>_. 0) s3 1 (Some [1, 2, 3]) (length [1, 2, 3 :: u8]) = Some (n, s5)"
  from call_returns_answer [OF demo_ipc_facts(1) steps(1) rtranclp.rtrancl_refl steps(2) rtranclp.rtrancl_refl steps(3) rtranclp.rtrancl_refl]
  show ?thesis using steps by (auto simp: demo_request_def IPC_MSG_MAX_def IPC_MSG_HEADER_def)
qed

section \<open>No operation panics\<close>





section \<open>Names and lost replies\<close>

text \<open>A port that was created is found under its name.\<close>

lemma create_then_connect:
  assumes ok: "ipc_inv s F" and nm: "bs \<noteq> []" "length bs \<le> NAME_LEN" and free: "port_idx_by_name s bs = None" "\<exists>p \<in> set (ports s). \<not> po_used p"
  shows "fst (ipc_create s (Some bs)) = sint (next_port_id s) \<and> ipc_connect (snd (ipc_create s (Some bs))) (Some bs) = sint (next_port_id s)"
proof -
  obtain i where i: "find_index (\<lambda>p. \<not> po_used p) (ports s) = Some i" using free(2) by (cases "find_index (\<lambda>p. \<not> po_used p) (ports s)") (auto simp: find_from_None)
  have il: "i < length (ports s)" "\<not> po_used (ports s ! i)" using find_index_Some [OF i] by auto
  have e: "ports s ! i = port_empty" using ipc_okD(3,4) [OF ok] il by (auto simp: port_ok_def)
  let ?p = "port_empty\<lparr>po_used := True, po_id := next_port_id s, po_name := bs @ drop (length bs) (replicate NAME_LEN 0)\<rparr>"
  let ?s = "upd_port (s\<lparr>next_port_id := next_port_id s + 1\<rparr>) i (\<lambda>_. ?p)"
  have cr: "ipc_create s (Some bs) = (sint (next_port_id s), ?s)"
    using nm free(1) i e by (simp add: ipc_create_def name_ok_def upd_port_def port_empty_def)
  have "name_matches bs ?p" using nm by (cases "length bs = NAME_LEN") (auto simp: name_matches_def nth_append)
  moreover have "\<not> name_matches bs (ports s ! j)" if "j < i" for j
    using free(1) nm that il(1) by (simp add: port_idx_by_name_def find_index_None split: if_splits)
  ultimately have "find_index (name_matches bs) (ports ?s) = Some i" using il(1) by (intro find_index_here) (auto simp: upd_port_def)
  then show ?thesis using cr nm il(1) by (simp add: ipc_connect_def name_ok_def port_idx_by_name_def) (simp add: upd_port_def)
qed

text \<open>An answer that arrives after the poll of the caller and before it sleeps is not noticed: the caller sleeps although its slot is
  answered, and no further answer to the slot wakes it.\<close>

lemma reply_before_block_is_lost:
  assumes "call_poll e s q rid = Some (Blocking rid w ph, s)" and "ipc_reply wa s rid buf n = Some (v, s1)" and "cur_task (sch s1) c \<noteq> 0"
    and "call_block e wa s1 c rid w ph = Some (Sleeping ph, s2)" and "ipc_inv s F"
  shows "tk_state (task_ref (sch s2) (cur_task (sch s1) c)) = Blocked \<and> re_done (replies s2 ! unat rid) \<and>
    (\<forall>buf' n'. ipc_reply wa s2 rid buf' n' = Some (0, s2))"
proof -
  let ?k = "unat rid"
  have k: "?k < MAX_REPLIES" "re_used (replies s ! ?k)" "\<not> re_done (replies s ! ?k)"
    using assms(1) by (auto simp: call_poll_def call_fail_def call_finish_def Let_def split: if_splits bind_splits)
  have kl: "?k < length (replies s)" using k ipc_okD(6) [OF assms(5)] by simp
  have r1: "replies s1 = replies (upd_reply s ?k (\<lambda>r. r\<lparr>re_len := of_nat (min n IPC_MSG_MAX), re_done := True\<rparr>))"
    using assms(2) k by (auto simp: ipc_reply_def Let_def ipc_wake_def upd_reply_def kcopy_def split: option.splits if_splits bind_splits)
  obtain f q2 where b: "block_on_futex (sch s1) c (wa w) = Some (f, q2)" "s2 = s1\<lparr>sch := q2\<rparr>"
    using assms(4) by (auto simp: call_block_def ipc_block_def call_fail_def split: bind_splits if_splits)
  have t: "table_ok (sch s1)"
  proof -
    have "settles s {?k} (Some (v, s1))" using reply_settles [OF assms(5), of rid wa buf n] assms(2) by simp
    then show ?thesis using ipc_okD(2) by (auto simp: settles_def)
  qed
  obtain x q1 where q1: "remove_from_runqueue (sch s1) (cur_task (sch s1) c) = Some (x, q1)"
      "q2 = upd_task q1 (cur_task (sch s1) c) (\<lambda>k. k\<lparr>tk_blocked_on := wa w, tk_state := Blocked\<rparr>)"
    using b(1) assms(3) by (auto simp: block_on_futex_def Let_def split: bind_splits)
  have "table_ok q1" using q1(1) t unlink_table by (auto simp: remove_from_runqueue_def Let_def split: if_splits bind_splits option.splits)
  then have "length (tasks q1) = MAX_TASKS" by (simp add: table_ok_def)
  then have "tk_state (task_ref (sch s2) (cur_task (sch s1) c)) = Blocked" using b(2) q1(2) by (simp add: task_ref_def upd_slot_def)
  moreover have "re_done (replies s2 ! ?k)" "re_used (replies s2 ! ?k)" using r1 b(2) kl k(2) by (simp_all add: replies_upd_reply)
  ultimately show ?thesis using k(1) by (auto simp: ipc_reply_def Let_def)
qed

end
