(* ===== verification/Tty.thy ===== *)
theory Tty
  imports Signals
begin

text \<open>
  The terminal and the simple character devices (\<^verbatim>\<open>src/src/tty.rs\<close>): a ring of 4096 typed bytes, the line discipline in front of
  it, the escape sequences in what programs write, and the terminal's control operations.

  What the terminal shows is the list \<open>screen\<close> of writes to the display, newest last. Bytes that arrive on the serial line
  are an argument of \<open>tty_read\<close>; the state \<open>tty\<close> is that of the one terminal, and \<open>push_key\<close> composes it with the signals
  of the scheduler. \<^verbatim>\<open>Termios\<close> and \<^verbatim>\<open>Winsize\<close> have the layout that the compiler gives them, so their bytes are read
  and written by the parameters \<open>enc\<close> and \<open>dec\<close>.
\<close>

unbundle bit_operations_syntax

section \<open>Data\<close>

definition TTY_BUFFER_SIZE :: nat where "TTY_BUFFER_SIZE = 4096"

definition ICANON :: u32 where "ICANON = 2"
definition ECHO :: u32 where "ECHO = 8"
definition ECHOE :: u32 where "ECHOE = 16"
definition ISIG :: u32 where "ISIG = 1"

record input_buffer =
  ib_buf :: bytes
  ib_head :: nat
  ib_tail :: nat
  ib_count :: nat
  line_ready :: bool
  ib_echo :: bool
  ib_canonical :: bool

record termios =
  c_iflag :: u32
  c_oflag :: u32
  c_cflag :: u32
  c_lflag :: u32
  c_cc :: bytes

record winsize =
  ws_row :: u16
  ws_col :: u16
  ws_xpixel :: u16
  ws_ypixel :: u16

datatype screen_op = Str bytes | Chr u8

record tty =
  input :: input_buffer
  termio :: termios
  winsz :: winsize
  fg_pgrp :: i32
  screen :: "screen_op list"

definition tty_new :: tty where
  "tty_new = \<lparr>input = \<lparr>ib_buf = replicate TTY_BUFFER_SIZE 0, ib_head = 0, ib_tail = 0, ib_count = 0, line_ready = False, ib_echo = True,
       ib_canonical = True\<rparr>,
     termio = \<lparr>c_iflag = 0, c_oflag = 0, c_cflag = 0, c_lflag = ICANON OR ECHO OR ECHOE OR ISIG,
       c_cc = [0x03, 0x1c, 0x7f, 0x15, 0x04, 0, 0, 0, 0x11, 0x13, 0x1a] @ replicate 21 0\<rparr>,
     winsz = \<lparr>ws_row = 25, ws_col = 80, ws_xpixel = 0, ws_ypixel = 0\<rparr>, fg_pgrp = 1, screen = []\<rparr>"

abbreviation lflag :: "tty \<Rightarrow> u32 \<Rightarrow> bool" where
  "lflag t f \<equiv> c_lflag (termio t) AND f \<noteq> 0"

definition is_eol :: "u8 \<Rightarrow> bool" where
  "is_eol c \<longleftrightarrow> c = 10 \<or> c = 13"

section \<open>Input\<close>

definition put_char_raw :: "tty \<Rightarrow> u8 \<Rightarrow> tty" where
  "put_char_raw t c = t\<lparr>screen := screen t @
     (if c = 10 then [Str [10]] else if c = 13 then [Str [13]] else if c = 9 then [Str [32, 32, 32, 32]]
      else if c = 8 \<or> c = 0x7F then [Str [8, 32, 8]] else if 0x20 \<le> c \<and> c \<le> 0x7E then [Chr c] else [])\<rparr>"

definition ib_put :: "input_buffer \<Rightarrow> u8 \<Rightarrow> input_buffer" where
  "ib_put b c = b\<lparr>ib_buf := (ib_buf b)[ib_head b := c], ib_head := (ib_head b + 1) mod TTY_BUFFER_SIZE, ib_count := ib_count b + 1\<rparr>"

definition ib_take :: "input_buffer \<Rightarrow> u8 option \<times> input_buffer" where
  "ib_take b =
     (if ib_count b = 0 then (None, b)
      else (Some (ib_buf b ! ib_tail b), b\<lparr>ib_tail := (ib_tail b + 1) mod TTY_BUFFER_SIZE, ib_count := ib_count b - 1\<rparr>))"

text \<open>The first component says that the key asks for \<^verbatim>\<open>SIGINT\<close> to the foreground group instead of being stored.\<close>

definition push_input :: "tty \<Rightarrow> u8 \<Rightarrow> bool \<times> tty" where
  "push_input t c =
     (let echo = lflag t ECHO \<and> ib_echo (input t); canonical = lflag t ICANON; vintr = c_cc (termio t) ! 0
      in if lflag t ISIG \<and> vintr \<noteq> 0 \<and> c = vintr then (True, t)
         else if ib_count (input t) \<ge> TTY_BUFFER_SIZE then (False, t)
         else let t1 = (if canonical \<and> is_eol c then t\<lparr>input := (input t)\<lparr>line_ready := True\<rparr>\<rparr> else t);
                  t2 = (if echo then put_char_raw t1 c else t1)
              in (False, t2\<lparr>input := ib_put (input t2) c\<rparr>))"

text \<open>The loop of \<^verbatim>\<open>pop_input\<close>; \<open>n\<close> is the room that is left in the buffer.\<close>

definition line_waits :: "input_buffer \<Rightarrow> bool" where
  "line_waits b \<longleftrightarrow> (\<exists>i \<in> set [0..<ib_count b]. is_eol (ib_buf b ! ((ib_tail b + i) mod TTY_BUFFER_SIZE)))"

fun pop_loop :: "bool \<Rightarrow> nat \<Rightarrow> input_buffer \<Rightarrow> bytes \<times> input_buffer" where
  "pop_loop canonical 0 b = ([], b)"
| "pop_loop canonical (Suc n) b =
     (case ib_take b of
        (None, b1) \<Rightarrow> ([], b1)
      | (Some c, b1) \<Rightarrow>
          if canonical \<and> is_eol c then ([c], b1\<lparr>line_ready := line_waits b1\<rparr>)
          else let (cs, b2) = pop_loop canonical n b1 in (c # cs, b2))"

definition pop_input :: "tty \<Rightarrow> nat \<Rightarrow> bytes \<times> tty" where
  "pop_input t n =
     (let canonical = lflag t ICANON; b = input t
      in if ib_count b = 0 \<or> canonical \<and> \<not> line_ready b then ([], t)
         else let (cs, b1) = pop_loop canonical n b in (cs, t\<lparr>input := b1\<rparr>))"

text \<open>\<^verbatim>\<open>read\<close> while the bytes \<open>ser\<close> arrive on the serial line: the bytes read, or \<open>None\<close> when it still waits; the number of
  interrupts it asked for.\<close>

fun tty_read :: "nat \<Rightarrow> bytes \<Rightarrow> nat \<Rightarrow> tty \<Rightarrow> bytes option \<times> nat \<times> tty" where
  "tty_read n [] k t = (if n = 0 then (Some [], k, t) else case pop_input t n of (cs, t1) \<Rightarrow> (if cs \<noteq> [] then Some cs else None, k, t1))"
| "tty_read n (c # ser) k t =
     (if n = 0 then (Some [], k, t)
      else case pop_input t n of
        (cs, t1) \<Rightarrow> if cs \<noteq> [] then (Some cs, k, t1)
          else case push_input (put_char_raw t1 c) c of (i, t2) \<Rightarrow> tty_read n ser (if i then k + 1 else k) t2)"

section \<open>Output\<close>

text \<open>Validity of UTF-8 as \<^verbatim>\<open>core::str::from_utf8\<close> decides it.\<close>

definition cont_byte :: "u8 \<Rightarrow> bool" where
  "cont_byte c \<longleftrightarrow> 0x80 \<le> c \<and> c \<le> 0xBF"

fun utf8_valid :: "bytes \<Rightarrow> bool" where
  "utf8_valid [] = True"
| "utf8_valid (a # bs) =
     (if a < 0x80 then utf8_valid bs
      else case bs of
        [] \<Rightarrow> False
      | b # bs1 \<Rightarrow>
          if 0xC2 \<le> a \<and> a \<le> 0xDF then cont_byte b \<and> utf8_valid bs1
          else case bs1 of
            [] \<Rightarrow> False
          | c # bs2 \<Rightarrow>
              if a = 0xE0 then 0xA0 \<le> b \<and> b \<le> 0xBF \<and> cont_byte c \<and> utf8_valid bs2
              else if a = 0xED then 0x80 \<le> b \<and> b \<le> 0x9F \<and> cont_byte c \<and> utf8_valid bs2
              else if 0xE1 \<le> a \<and> a \<le> 0xEF then cont_byte b \<and> cont_byte c \<and> utf8_valid bs2
              else case bs2 of
                [] \<Rightarrow> False
              | d # bs3 \<Rightarrow>
                  (a = 0xF0 \<and> 0x90 \<le> b \<and> b \<le> 0xBF \<or> 0xF1 \<le> a \<and> a \<le> 0xF3 \<and> cont_byte b \<or> a = 0xF4 \<and> 0x80 \<le> b \<and> b \<le> 0x8F) \<and>
                  cont_byte c \<and> cont_byte d \<and> utf8_valid bs3)"

definition ESC_MAX :: nat where "ESC_MAX = 64"

text \<open>One byte of \<^verbatim>\<open>write_output\<close>; \<open>esc\<close> is the pending escape sequence, \<open>None\<close> outside one.\<close>

definition out_byte :: "u8 \<Rightarrow> bytes option \<times> tty \<Rightarrow> bytes option \<times> tty" where
  "out_byte c st =
     (case st of
        (Some esc, t) \<Rightarrow>
          let esc1 = (if length esc < ESC_MAX then esc @ [c] else esc)
          in if length esc1 \<ge> 3 \<and> 0x40 \<le> c \<and> c \<le> 0x7E \<or> length esc1 \<ge> ESC_MAX
             then (None, if utf8_valid esc1 then t\<lparr>screen := screen t @ [Str esc1]\<rparr> else t)
             else (Some esc1, t)
      | (None, t) \<Rightarrow> if c = 0x1B then (Some [c], t) else (None, put_char_raw t c))"

definition write_output :: "tty \<Rightarrow> bytes \<Rightarrow> nat \<times> tty" where
  "write_output t bs = (length bs, snd (fold out_byte bs (None, t)))"

definition tty_write :: "tty \<Rightarrow> bytes \<Rightarrow> nat \<times> tty" where
  "tty_write t bs = (if bs = [] then (0, t) else write_output t bs)"

section \<open>Control\<close>

definition get_fg_pgrp :: "tty \<Rightarrow> i32" where
  "get_fg_pgrp t = fg_pgrp t"

definition set_fg_pgrp :: "tty \<Rightarrow> i32 \<Rightarrow> tty" where
  "set_fg_pgrp t pg = t\<lparr>fg_pgrp := pg\<rparr>"

definition set_termios :: "tty \<Rightarrow> termios \<Rightarrow> tty" where
  "set_termios t tm = t\<lparr>termio := tm, input := (input t)\<lparr>ib_echo := (c_lflag tm AND ECHO \<noteq> 0), ib_canonical := (c_lflag tm AND ICANON \<noteq> 0)\<rparr>\<rparr>"

definition flush_input :: "tty \<Rightarrow> tty" where
  "flush_input t = t\<lparr>input := (input t)\<lparr>ib_head := 0, ib_tail := 0, ib_count := 0, line_ready := False\<rparr>\<rparr>"

text \<open>\<open>m\<close> is the memory that \<open>arg\<close> points into; \<^verbatim>\<open>Termios\<close> has 48 bytes and \<^verbatim>\<open>Winsize\<close> 8.\<close>

definition tty_ioctl :: "(termios \<Rightarrow> bytes) \<Rightarrow> (bytes \<Rightarrow> termios) \<Rightarrow> (winsize \<Rightarrow> bytes) \<Rightarrow> (bytes \<Rightarrow> winsize) \<Rightarrow>
    tty \<Rightarrow> (u64 \<Rightarrow> u8) \<Rightarrow> u64 \<Rightarrow> u64 \<Rightarrow> (string + nat) \<times> tty \<times> (u64 \<Rightarrow> u8)" where
  "tty_ioctl enc dec wenc wdec t m req arg =
     (if req = 0x540B then (Inr 0, flush_input t, m)
      else if req \<notin> {0x5401, 0x5402, 0x5403, 0x5404, 0x5413, 0x5414, 0x540F, 0x5410} then (Inl ''ENOTTY'', t, m)
      else if arg = 0 then (Inl ''EFAULT'', t, m)
      else if req = 0x5401 then (Inr 0, t, mem_write m arg (enc (termio t)))
      else if req = 0x5413 then (Inr 0, t, mem_write m arg (wenc (winsz t)))
      else if req = 0x5414 then (Inr 0, t\<lparr>winsz := wdec (mem_read m arg 8)\<rparr>, m)
      else if req = 0x540F then (Inr 0, t, store 4 m arg (get_fg_pgrp t))
      else if req = 0x5410 then (Inr 0, set_fg_pgrp t (load 4 m arg), m)
      else (Inr 0, set_termios t (dec (mem_read m arg 48)), m))"

text \<open>A key press: \<^verbatim>\<open>push_key\<close>, with the signal that an interrupt key sends.\<close>

definition push_key :: "(u64 \<Rightarrow> bool) \<Rightarrow> sched \<Rightarrow> nat \<Rightarrow> tty \<Rightarrow> u8 \<Rightarrow> (flow \<times> sched \<times> tty) option" where
  "push_key ok s cpu t c =
     (case push_input t c of
        (True, t1) \<Rightarrow> map_option (\<lambda>(r, s1). (r, s1, t1)) (signal_foreground_group ok s cpu (scast (get_fg_pgrp t1)) 2)
      | (False, t1) \<Rightarrow> Some (Return 0, s, t1))"

section \<open>Other devices\<close>

definition zero_read :: "nat \<Rightarrow> bytes" where
  "zero_read n = replicate n 0"

fun urandom_loop :: "u64 \<Rightarrow> nat list \<Rightarrow> bytes" where
  "urandom_loop seed [] = []"
| "urandom_loop seed (i # is) =
     (let seed1 = seed * 0x5BD1E9955BD1E995 + of_nat i in ucast (seed1 XOR drop_bit 32 seed1) # urandom_loop seed1 is)"

definition urandom_read :: "u64 \<Rightarrow> nat \<Rightarrow> bytes" where
  "urandom_read off n = urandom_loop (off * 0x9E3779B97F4A7C15) [0..<n]"

end
