(* ===== verification/Tty_Props.thy ===== *)
theory Tty_Props
  imports Tty Interfaces
begin

text \<open>
  The line discipline of the terminal: the ring of typed bytes is an interpretation of \<open>bounded_fifo\<close>, and reading is
  described on the list \<open>typed\<close> of its bytes.
\<close>

unbundle bit_operations_syntax

section \<open>The ring of typed bytes\<close>

definition ib_ok :: "input_buffer \<Rightarrow> bool" where
  "ib_ok b \<longleftrightarrow> length (ib_buf b) = TTY_BUFFER_SIZE \<and> ib_tail b < TTY_BUFFER_SIZE \<and> ib_count b \<le> TTY_BUFFER_SIZE \<and>
     ib_head b = (ib_tail b + ib_count b) mod TTY_BUFFER_SIZE"

definition typed :: "input_buffer \<Rightarrow> bytes" where
  "typed b = map (\<lambda>i. ib_buf b ! ((ib_tail b + i) mod TTY_BUFFER_SIZE)) [0..<ib_count b]"

lemma length_typed [simp]: "length (typed b) = ib_count b"
  by (simp add: typed_def)

lemma typed_put:
  assumes "ib_ok b" and "ib_count b < TTY_BUFFER_SIZE"
  shows "typed (ib_put b c) = typed b @ [c]" and "ib_ok (ib_put b c)"
proof -
  have h: "ib_head b < length (ib_buf b)" using assms by (simp add: ib_ok_def TTY_BUFFER_SIZE_def)
  have "ib_head b \<noteq> (ib_tail b + j) mod TTY_BUFFER_SIZE" if "j < ib_count b" for j
    using ring_inj [of "ib_count b" TTY_BUFFER_SIZE j "ib_tail b"] assms that by (auto simp: ib_ok_def)
  then have "map (\<lambda>j. (ib_buf b)[ib_head b := c] ! ((ib_tail b + j) mod TTY_BUFFER_SIZE)) [0..<ib_count b] = typed b"
    unfolding typed_def by (intro map_cong refl) (simp add: nth_list_update)
  then show "typed (ib_put b c) = typed b @ [c]" using h assms(1) by (simp add: typed_def ib_put_def ib_ok_def)
  show "ib_ok (ib_put b c)" using assms by (simp add: ib_ok_def ib_put_def mod_Suc_eq)
qed

lemma typed_take:
  assumes "ib_ok b" and "0 < ib_count b"
  shows "ib_take b = (Some (hd (typed b)), snd (ib_take b))" and "typed (snd (ib_take b)) = tl (typed b)" and "ib_ok (snd (ib_take b))"
proof -
  have tl: "ib_tail b < TTY_BUFFER_SIZE" using assms(1) by (simp add: ib_ok_def)
  have u: "[0..<ib_count b] = 0 # map Suc [0..<ib_count b - 1]" using assms(2) by (simp add: map_Suc_upt upt_conv_Cons)
  have m: "((ib_tail b + 1) mod TTY_BUFFER_SIZE + j) mod TTY_BUFFER_SIZE = (ib_tail b + Suc j) mod TTY_BUFFER_SIZE" for j
    by (simp add: mod_add_left_eq)
  show "ib_take b = (Some (hd (typed b)), snd (ib_take b))" "typed (snd (ib_take b)) = tl (typed b)"
    using assms(2) tl m unfolding typed_def u by (simp_all add: ib_take_def)
  show "ib_ok (snd (ib_take b))" using assms m [of "ib_count b - 1"] by (auto simp: ib_ok_def ib_take_def TTY_BUFFER_SIZE_def)
qed

definition ib_offer :: "input_buffer \<Rightarrow> u8 \<Rightarrow> bool \<times> input_buffer" where
  "ib_offer b c = (if ib_count b < TTY_BUFFER_SIZE then (True, ib_put b c) else (False, b))"

interpretation keys: bounded_fifo ib_ok typed TTY_BUFFER_SIZE ib_offer ib_take "\<lambda>_ _. True"
proof
  fix b c
  assume ok: "ib_ok b"
  { assume "length (typed b) < TTY_BUFFER_SIZE"
    then show "\<exists>b'. ib_offer b c = (True, b') \<and> ib_ok b' \<and> typed b' = typed b @ [c] \<and> (\<lambda>_. True) = (\<lambda>_. True)"
      using typed_put [OF ok] by (simp add: ib_offer_def) }
  { assume "TTY_BUFFER_SIZE \<le> length (typed b)"
    then show "\<exists>b'. ib_offer b c = (False, b') \<and> ib_ok b' \<and> typed b' = typed b \<and> (\<lambda>_. True) = (\<lambda>_. True)"
      using ok by (simp add: ib_offer_def) }
next
  fix b assume "ib_ok b" "typed b = []"
  then have "ib_count b = 0" using length_typed [of b] by simp
  then show "fst (ib_take b) = None" by (simp add: ib_take_def)
next
  fix b c cs assume ok: "ib_ok b" and e: "typed b = c # cs"
  then have n: "0 < ib_count b" using length_typed [of b] by simp
  show "\<exists>b'. ib_take b = (Some c, b') \<and> ib_ok b' \<and> typed b' = cs \<and> (\<lambda>_. True) = (\<lambda>_. True)"
    using typed_take [OF ok n] e by (intro exI [of _ "snd (ib_take b)"]) simp
qed

section \<open>Lines\<close>

definition first_line :: "bytes \<Rightarrow> bytes" where
  "first_line cs = takeWhile (\<lambda>c. \<not> is_eol c) cs @ take 1 (dropWhile (\<lambda>c. \<not> is_eol c) cs)"

lemma first_line_Cons: "first_line (c # cs) = (if is_eol c then [c] else c # first_line cs)"
  by (simp add: first_line_def)

lemma line_waits_typed: "line_waits b \<longleftrightarrow> (\<exists>c \<in> set (typed b). is_eol c)"
  by (auto simp: line_waits_def typed_def)

lemma typed_ready [simp]: "typed (b\<lparr>line_ready := x\<rparr>) = typed b" "ib_ok (b\<lparr>line_ready := x\<rparr>) = ib_ok b" "line_waits (b\<lparr>line_ready := x\<rparr>) = line_waits b"
  by (simp_all add: typed_def ib_ok_def line_waits_def)

lemma line_left:
  "\<exists>c \<in> set ts. is_eol c \<Longrightarrow> take n (first_line ts) = [] \<or> \<not> is_eol (last (take n (first_line ts))) \<Longrightarrow>
    \<exists>c \<in> set (drop (length (take n (first_line ts))) ts). is_eol c"
proof (induction ts arbitrary: n)
  case (Cons c ts)
  then show ?case by (cases n) (auto simp: first_line_Cons split: if_splits)
qed simp

lemma take_ready: "line_ready (snd (ib_take b)) = line_ready b"
  by (simp add: ib_take_def)

lemma pop_loop_spec:
  assumes "ib_ok b" and "pop_loop canonical n b = (cs, b1)"
  shows "ib_ok b1 \<and> typed b = cs @ typed b1 \<and> cs = take n (if canonical then first_line (typed b) else typed b) \<and>
    line_ready b1 = (if canonical \<and> cs \<noteq> [] \<and> is_eol (last cs) then line_waits b1 else line_ready b)"
  using assms
proof (induction n arbitrary: b cs)
  case (Suc n)
  show ?case
  proof (cases "typed b")
    case Nil
    then have "ib_count b = 0" using length_typed [of b] by simp
    then show ?thesis using Suc.prems Nil by (auto simp: ib_take_def first_line_def)
  next
    case (Cons c ts)
    from keys.pop_cons [OF Suc.prems(1) Cons] obtain b' where b': "ib_take b = (Some c, b')" "ib_ok b'" "typed b' = ts" by auto
    have lr: "line_ready b' = line_ready b" using take_ready [of b] b'(1) by simp
    show ?thesis
    proof (cases "canonical \<and> is_eol c")
      case True
      then show ?thesis using Suc.prems(2) b' Cons by (auto simp: first_line_Cons)
    next
      case False
      then obtain cs' where pl: "pop_loop canonical n b' = (cs', b1)" "cs = c # cs'" using Suc.prems(2) b'(1) by (auto split: prod.splits)
      note IH = Suc.IH [OF b'(2) pl(1), unfolded b'(3) lr]
      have "typed b = cs @ typed b1" unfolding Cons pl(2) using conjunct1 [OF conjunct2 [OF IH]] by simp
      moreover have "cs = take (Suc n) (if canonical then first_line (typed b) else typed b)"
        unfolding Cons pl(2) using False conjunct1 [OF conjunct2 [OF conjunct2 [OF IH]]] by (simp add: first_line_Cons)
      moreover have "line_ready b1 = (if canonical \<and> cs \<noteq> [] \<and> is_eol (last cs) then line_waits b1 else line_ready b)"
        using conjunct2 [OF conjunct2 [OF conjunct2 [OF IH]]] False by (cases "cs' = []") (auto simp: pl(2))
      ultimately show ?thesis using IH by blast
    qed
  qed
qed auto

text \<open>In canonical mode the flag \<^verbatim>\<open>line_ready\<close> says that a line end was typed.\<close>

definition tty_ok :: "tty \<Rightarrow> bool" where
  "tty_ok t \<longleftrightarrow> ib_ok (input t) \<and> (lflag t ICANON \<longrightarrow> (line_ready (input t) \<longleftrightarrow> (\<exists>c \<in> set (typed (input t)). is_eol c)))"

definition is_interrupt :: "tty \<Rightarrow> u8 \<Rightarrow> bool" where
  "is_interrupt t c \<longleftrightarrow> lflag t ISIG \<and> c_cc (termio t) ! 0 \<noteq> 0 \<and> c = c_cc (termio t) ! 0"

lemma put_char_raw_simps [simp]: "input (put_char_raw t c) = input t" "termio (put_char_raw t c) = termio t" "fg_pgrp (put_char_raw t c) = fg_pgrp t"
  by (simp_all add: put_char_raw_def)

lemma ready_put [simp]: "line_ready (ib_put b c) = line_ready b"
  by (simp add: ib_put_def)

lemma push_input_spec:
  assumes ok: "tty_ok t"
  shows "fst (push_input t c) = is_interrupt t c" and "tty_ok (snd (push_input t c))" and "termio (snd (push_input t c)) = termio t"
    and "typed (input (snd (push_input t c))) =
      (if is_interrupt t c \<or> length (typed (input t)) = TTY_BUFFER_SIZE then typed (input t) else typed (input t) @ [c])"
proof -
  have b: "ib_ok (input t)" using ok by (simp add: tty_ok_def)
  have full: "ib_count (input t) \<ge> TTY_BUFFER_SIZE \<longleftrightarrow> length (typed (input t)) = TTY_BUFFER_SIZE" using b by (auto simp: ib_ok_def)
  have "ib_count (input t) < TTY_BUFFER_SIZE" if "\<not> length (typed (input t)) = TTY_BUFFER_SIZE" using that full by simp
  note put = typed_put [OF b this] typed_put [of "(input t)\<lparr>line_ready := True\<rparr>", simplified, OF b this]
  show "fst (push_input t c) = is_interrupt t c" "termio (snd (push_input t c)) = termio t"
    by (auto simp: push_input_def is_interrupt_def Let_def)
  show "tty_ok (snd (push_input t c))" "typed (input (snd (push_input t c))) =
      (if is_interrupt t c \<or> length (typed (input t)) = TTY_BUFFER_SIZE then typed (input t) else typed (input t) @ [c])"
    using ok put full by (auto simp: push_input_def is_interrupt_def Let_def tty_ok_def)
qed

lemma pop_input_spec:
  assumes ok: "tty_ok t"
  shows "tty_ok (snd (pop_input t n))" and "typed (input t) = fst (pop_input t n) @ typed (input (snd (pop_input t n)))"
    and "fst (pop_input t n) = (if lflag t ICANON then if \<exists>c \<in> set (typed (input t)). is_eol c then take n (first_line (typed (input t))) else []
       else take n (typed (input t)))"
proof -
  obtain cs b1 where pl: "pop_loop (lflag t ICANON) n (input t) = (cs, b1)" by fastforce
  have b: "ib_ok (input t)" using ok by (simp add: tty_ok_def)
  have sp: "ib_ok b1" "cs = take n (if lflag t ICANON then first_line (typed (input t)) else typed (input t))"
      "line_ready b1 = (if lflag t ICANON \<and> cs \<noteq> [] \<and> is_eol (last cs) then line_waits b1 else line_ready (input t))"
    and split: "typed (input t) = cs @ typed b1"
    using pop_loop_spec [OF b pl] by blast+
  have z: "ib_count (input t) = 0 \<longleftrightarrow> typed (input t) = []" using length_typed [of "input t"] by (metis length_0_conv)
  have left: "line_ready b1 \<longleftrightarrow> (\<exists>c \<in> set (typed b1). is_eol c)" if "lflag t ICANON" "\<exists>c \<in> set (typed (input t)). is_eol c"
  proof (cases "cs \<noteq> [] \<and> is_eol (last cs)")
    case False
    have d: "typed b1 = drop (length cs) (typed (input t))" using split by simp
    have "\<exists>c \<in> set (typed b1). is_eol c" unfolding d using line_left [OF that(2), of n] False sp(2) that(1) by simp
    then show ?thesis using sp(3) False that ok by (simp add: tty_ok_def)
  qed (use sp(3) that(1) in \<open>simp add: line_waits_typed\<close>)
  have pop: "pop_input t n = (if typed (input t) = [] \<or> lflag t ICANON \<and> \<not> (\<exists>c \<in> set (typed (input t)). is_eol c) then ([], t)
      else (cs, t\<lparr>input := b1\<rparr>))"
    using ok z pl by (auto simp: pop_input_def tty_ok_def)
  show "tty_ok (snd (pop_input t n))" unfolding pop using ok sp(1) left by (auto simp: tty_ok_def)
  show "typed (input t) = fst (pop_input t n) @ typed (input (snd (pop_input t n)))" unfolding pop using split by simp
  show "fst (pop_input t n) = (if lflag t ICANON then if \<exists>c \<in> set (typed (input t)). is_eol c then take n (first_line (typed (input t))) else []
       else take n (typed (input t)))"
    unfolding pop using sp(2) by (auto simp: first_line_def)
qed

section \<open>Properties\<close>

text \<open>C22: The line discipline. A key is either an interrupt, which is not stored, or appended to what was typed, unless 4096 bytes are
  waiting. In canonical mode a read returns the first line with its end, as far as the buffer takes it, and nothing while no line
  is complete; in raw mode it returns what was typed. What a read returns is what it removes from the front, and the flag
  \<^verbatim>\<open>line_ready\<close> stays exact.\<close>

theorem tty_line_discipline:
  assumes "tty_ok t"
  shows "fst (push_input t c) = is_interrupt t c \<and> tty_ok (snd (push_input t c)) \<and>
    typed (input (snd (push_input t c))) =
      (if is_interrupt t c \<or> length (typed (input t)) = TTY_BUFFER_SIZE then typed (input t) else typed (input t) @ [c]) \<and>
    tty_ok (snd (pop_input t n)) \<and> typed (input t) = fst (pop_input t n) @ typed (input (snd (pop_input t n))) \<and>
    fst (pop_input t n) = (if lflag t ICANON then if \<exists>c \<in> set (typed (input t)). is_eol c then take n (first_line (typed (input t))) else []
       else take n (typed (input t)))"
  by (intro conjI push_input_spec pop_input_spec assms)

lemma tty_new_ok: "tty_ok tty_new"
  by (simp add: tty_ok_def tty_new_def ib_ok_def typed_def TTY_BUFFER_SIZE_def)

theorem tty_line_discipline_witness:
  "typed (input (snd (push_input tty_new 104))) = [104] \<and> fst (pop_input tty_new 8) = []"
  using tty_line_discipline [OF tty_new_ok, of 104 8]
  by (simp add: is_interrupt_def tty_new_def typed_def TTY_BUFFER_SIZE_def)

datatype event = Key u8 | Read nat

fun tty_event :: "tty \<Rightarrow> event \<Rightarrow> tty" where
  "tty_event t (Key c) = snd (push_input t c)"
| "tty_event t (Read n) = snd (pop_input t n)"

text \<open>A line of 4096 bytes without an end jams the terminal in canonical mode: the line end that would complete it is dropped with
  every other key, so no sequence of keys and reads changes anything and every read returns nothing.\<close>

lemma overlong_line_jams_terminal:
  assumes "tty_ok t" and "lflag t ICANON" and "length (typed (input t)) = TTY_BUFFER_SIZE" and "\<forall>c \<in> set (typed (input t)). \<not> is_eol c"
  shows "fold (\<lambda>ev t. tty_event t ev) evs t = t \<and> fst (pop_input t n) = []"
proof -
  have "tty_event t ev = t" for ev
  proof (cases ev)
    case (Key c)
    then show ?thesis using assms(3) by (simp add: push_input_def Let_def)
  next
    case (Read n)
    then show ?thesis using assms(1,2,4) by (auto simp: pop_input_def tty_ok_def)
  qed
  then have "fold (\<lambda>ev t. tty_event t ev) evs t = t" by (induction evs) simp_all
  then show ?thesis using pop_input_spec(3) [OF assms(1), of n] assms(2,4) by auto
qed

definition jammed :: tty where
  "jammed = tty_new\<lparr>input := (input tty_new)\<lparr>ib_buf := replicate TTY_BUFFER_SIZE 97, ib_count := TTY_BUFFER_SIZE\<rparr>\<rparr>"

lemma jammed_facts: "tty_ok jammed" "lflag jammed ICANON" "typed (input jammed) = replicate TTY_BUFFER_SIZE 97"
proof -
  show t: "typed (input jammed) = replicate TTY_BUFFER_SIZE 97"
    by (rule nth_equalityI) (simp_all add: typed_def jammed_def TTY_BUFFER_SIZE_def)
  show "lflag jammed ICANON" by (simp add: jammed_def tty_new_def ICANON_def ECHO_def ECHOE_def ISIG_def)
  show "tty_ok jammed" by (simp add: tty_ok_def t is_eol_def) (simp add: jammed_def tty_new_def ib_ok_def TTY_BUFFER_SIZE_def)
qed

lemma overlong_line_jams_terminal_witness:
  "fold (\<lambda>ev t. tty_event t ev) [Key 10, Read 16, Key 13] jammed = jammed \<and> fst (pop_input jammed 16) = []"
  by (rule overlong_line_jams_terminal) (simp_all add: jammed_facts is_eol_def)

section \<open>Defects\<close>

text \<open>An escape sequence that is split over two writes is lost: its first part is dropped and its second part is shown as text.\<close>

lemma split_escape_is_lost:
  "screen (snd (tty_write (snd (tty_write t [0x1B])) [0x5B, 0x48])) = screen t @ [Chr 0x5B, Chr 0x48]"
  "screen (snd (tty_write t [0x1B, 0x5B, 0x48])) = screen t @ [Str [0x1B, 0x5B, 0x48]]"
  by (simp_all add: tty_write_def write_output_def out_byte_def put_char_raw_def ESC_MAX_def Let_def)

text \<open>A byte from the serial line is shown twice while echo is on.\<close>

lemma serial_input_echoes_twice:
  assumes "0x20 \<le> c" and "c \<le> 0x7E" and "0 < n"
  shows "screen (snd (snd (tty_read n [c] 0 tty_new))) = [Chr c, Chr c]"
proof -
  have "c \<noteq> 10" "c \<noteq> 13" "c \<noteq> 9" "c \<noteq> 8" "c \<noteq> 0x7F" "c \<noteq> 3" using assms(1,2) by auto
  then show ?thesis using assms
    by (simp add: pop_input_def push_input_def put_char_raw_def ib_put_def is_eol_def tty_new_def ICANON_def ECHO_def ECHOE_def ISIG_def
        TTY_BUFFER_SIZE_def Let_def)
qed

text \<open>An erase key is stored like any other byte, also in canonical mode.\<close>

lemma erase_is_stored: "tty_ok t \<Longrightarrow> length (typed (input t)) < TTY_BUFFER_SIZE \<Longrightarrow> \<not> is_interrupt t 0x7F \<Longrightarrow>
    typed (input (snd (push_input t 0x7F))) = typed (input t) @ [0x7F]"
  using push_input_spec(4) [of t "0x7F"] by simp

end
