(* ===== verification/Tail.thy ===== *)
theory Tail
  imports Interfaces
begin

text \<open>
  Buffers that keep the newest elements: the interface of a ring that overwrites its oldest element when it is full, and lemmas on
  the ring array. The kernel log and the keyboard provide it.
\<close>

definition newest :: "nat \<Rightarrow> 'a list \<Rightarrow> 'a list" where
  "newest n xs = drop (length xs - n) xs"

lemma newest_all: "length xs \<le> n \<Longrightarrow> newest n xs = xs"
  by (simp add: newest_def)

lemma map_newest: "map f (newest n xs) = newest n (map f xs)"
  by (simp add: newest_def drop_map)

lemma newest_newest: "newest n (newest n xs @ ys) = newest n (xs @ ys)"
  by (cases "length xs \<le> n") (auto simp: newest_def add.commute)

locale tail_buffer =
  fixes inv :: "'s \<Rightarrow> bool"
    and elems :: "'s \<Rightarrow> 'a list"
    and capacity :: nat
    and push :: "'s \<Rightarrow> 'a \<Rightarrow> 's"
  assumes push_inv: "inv s \<Longrightarrow> inv (push s x)"
    and push_elems: "inv s \<Longrightarrow> elems (push s x) = newest capacity (elems s @ [x])"
begin

lemma foldl_push: "inv s \<Longrightarrow> length (elems s) \<le> capacity \<Longrightarrow> inv (foldl push s xs) \<and> elems (foldl push s xs) = newest capacity (elems s @ xs)"
proof (induction xs arbitrary: s)
  case (Cons x xs)
  have "length (elems (push s x)) \<le> capacity" using push_elems [OF Cons.prems(1), of x] by (simp add: newest_def)
  from Cons.IH [OF push_inv [OF Cons.prems(1)] this] show ?case
    using push_elems [OF Cons.prems(1), of x] newest_newest [of capacity "elems s @ [x]" xs] by simp
qed (simp add: newest_all)

end

text \<open>The ring array itself: \<open>n\<close> elements from \<open>tail\<close> on. Overwriting the oldest one takes it out first.\<close>

definition ring_items :: "'a list \<Rightarrow> nat \<Rightarrow> nat \<Rightarrow> 'a list" where
  "ring_items ring tail n = map (\<lambda>i. ring ! ((tail + i) mod length ring)) [0..<n]"

lemma length_ring_items [simp]: "length (ring_items ring tail n) = n"
  by (simp add: ring_items_def)

lemma ring_items_put:
  assumes "ring \<noteq> []" and "n < length ring"
  shows "ring_items (ring[(tail + n) mod length ring := x]) tail (Suc n) = ring_items ring tail n @ [x]"
proof -
  have "(tail + n) mod length ring \<noteq> (tail + j) mod length ring" if "j < n" for j
    using ring_inj [of n "length ring" j tail] assms(2) that by auto
  then have "map (\<lambda>j. ring[(tail + n) mod length ring := x] ! ((tail + j) mod length ring)) [0..<n] = ring_items ring tail n"
    unfolding ring_items_def by (intro map_cong refl) simp
  then show ?thesis using assms by (simp add: ring_items_def)
qed

lemma ring_items_take:
  assumes "tail < length ring"
  shows "ring_items ring tail (Suc n) = ring ! tail # ring_items ring (Suc tail mod length ring) n"
proof -
  have "[0..<Suc n] = 0 # map Suc [0..<n]" by (simp add: map_Suc_upt upt_conv_Cons del: upt_Suc)
  then show ?thesis using assms by (simp add: ring_items_def mod_Suc_eq mod_add_left_eq del: upt_Suc) 
qed

lemma ring_items_overwrite:
  assumes "tail < length ring"
  shows "ring_items (ring[tail := x]) (Suc tail mod length ring) (length ring) = tl (ring_items ring tail (length ring)) @ [x]"
proof -
  let ?c = "length ring" and ?m = "length ring - 1"
  have c: "?c = Suc ?m" "ring \<noteq> []" using assms by auto
  have "(Suc tail mod ?c + ?m) mod ?c = (Suc tail + ?m) mod ?c" by (rule mod_add_left_eq)
  moreover have "Suc tail + ?m = tail + ?c" using c by simp
  ultimately have h: "(Suc tail mod ?c + ?m) mod ?c = tail" using assms by simp
  have "ring_items (ring[tail := x]) (Suc tail mod ?c) (Suc ?m) = ring_items ring (Suc tail mod ?c) ?m @ [x]"
    using ring_items_put [OF c(2), of ?m "Suc tail mod ?c" x] h c by simp
  then show ?thesis using ring_items_take [OF assms, of ?m] c(1) by simp
qed

end
