(* ===== verification/Klog.thy ===== *)
theory Klog
  imports Tail
begin

text \<open>
  The kernel log (\<^verbatim>\<open>src/src/klog.rs\<close>): a line that is built from parts, a ring of the last 128 lines, and the filter for the console.
  What goes to the serial line is the list \<open>serial\<close> of its writes. The clock is the argument \<open>now\<close>. Interrupts are off during each
  operation.
\<close>

unbundle bit_operations_syntax

definition LOG_MSG_MAX :: nat where "LOG_MSG_MAX = 160"
definition LOG_RING_CAP :: nat where "LOG_RING_CAP = 128"
definition FAC_COUNT :: nat where "FAC_COUNT = 14"
definition LOG_WARNING :: u8 where "LOG_WARNING = 4"
definition LOG_DEBUG :: u8 where "LOG_DEBUG = 7"

definition LEVEL_NAMES :: "string list" where
  "LEVEL_NAMES = [''EMERG'', ''ALERT'', ''CRIT'', ''ERR'', ''WARNING'', ''NOTICE'', ''INFO'', ''DEBUG'']"

definition FAC_NAMES :: "string list" where
  "FAC_NAMES = [''KERN'', ''SCHED'', ''MEM'', ''VFS'', ''TTY'', ''SYSCALL'', ''EXEC'', ''MM'', ''PAGING'', ''GDT'', ''IDT'', ''ELF'', ''IPC'', ''FORK'']"

record log_entry =
  en_level :: u8
  en_facility :: u8
  en_tick :: u64
  en_len :: nat
  en_msg :: bytes

datatype serial_op = Text string | Num u64 | Byte u8

record klog =
  lg_ring :: "log_entry list"
  lg_head :: nat
  lg_len :: nat
  console_level :: u8
  facility_mask :: u32
  line_active :: bool
  line_level :: u8
  line_fac :: u8
  line_len :: nat
  line :: bytes
  serial :: "serial_op list"

definition empty_entry :: log_entry where
  "empty_entry = \<lparr>en_level = 0, en_facility = 0, en_tick = 0, en_len = 0, en_msg = replicate LOG_MSG_MAX 0\<rparr>"

definition klog_new :: klog where
  "klog_new = \<lparr>lg_ring = replicate LOG_RING_CAP empty_entry, lg_head = 0, lg_len = 0, console_level = LOG_WARNING, facility_mask = - 1,
     line_active = False, line_level = 0, line_fac = 0, line_len = 0, line = replicate LOG_MSG_MAX 0, serial = []\<rparr>"

definition set_console_level :: "klog \<Rightarrow> u8 \<Rightarrow> klog" where
  "set_console_level k l = k\<lparr>console_level := min l LOG_DEBUG\<rparr>"

definition set_facility_mask :: "klog \<Rightarrow> u32 \<Rightarrow> klog" where
  "set_facility_mask k m = k\<lparr>facility_mask := m\<rparr>"

definition get_console_level :: "klog \<Rightarrow> u8" where
  "get_console_level k = console_level k"

definition append_byte :: "u8 \<Rightarrow> klog \<Rightarrow> klog" where
  "append_byte b k =
     (if b = 10 \<or> b = 13 then k
      else if line_len k < LOG_MSG_MAX then k\<lparr>line := (line k)[line_len k := b], line_len := line_len k + 1\<rparr> else k)"

definition append_bytes :: "klog \<Rightarrow> bytes \<Rightarrow> klog" where
  "append_bytes k bs = fold append_byte bs k"

function dec_loop :: "u64 \<Rightarrow> bytes \<Rightarrow> bytes" where
  "dec_loop v acc = (if v = 0 then acc else dec_loop (v div 10) ((ucast (v mod 10) + 48) # acc))"
  by pat_completeness auto
termination
  by (relation "measure (\<lambda>(v, acc). unat v)") (auto simp: unat_div_distrib unat_gt_0 intro!: div_less_dividend)

declare dec_loop.simps [simp del]

definition append_dec :: "klog \<Rightarrow> u64 \<Rightarrow> klog" where
  "append_dec k v = (if v = 0 then append_bytes k [48] else append_bytes k (dec_loop v []))"

definition hex_digit :: "nat \<Rightarrow> u8" where
  "hex_digit n = of_nat (if n < 10 then 48 + n else 55 + n)"

definition hex_bytes :: "u64 \<Rightarrow> bytes" where
  "hex_bytes v = map (\<lambda>i. hex_digit (unat (drop_bit ((15 - i) * 4) v AND 0xF))) [0..<16]"

definition append_hex :: "klog \<Rightarrow> u64 \<Rightarrow> klog" where
  "append_hex k v = append_bytes k (hex_bytes v)"

definition log_begin :: "klog \<Rightarrow> u8 \<Rightarrow> u8 \<Rightarrow> klog" where
  "log_begin k l f = k\<lparr>line_active := True, line_level := l, line_fac := f, line_len := 0\<rparr>"

definition log_s :: "klog \<Rightarrow> bytes \<Rightarrow> klog" where
  "log_s k bs = (if line_active k then append_bytes k bs else k)"

definition log_dec :: "klog \<Rightarrow> u64 \<Rightarrow> klog" where
  "log_dec k v = (if line_active k then append_dec k v else k)"

definition log_hex :: "klog \<Rightarrow> u64 \<Rightarrow> klog" where
  "log_hex k v = (if line_active k then append_hex k v else k)"

definition ring_store :: "klog \<Rightarrow> log_entry \<Rightarrow> klog" where
  "ring_store k e = k\<lparr>lg_ring := (lg_ring k)[lg_head k := e], lg_head := (lg_head k + 1) mod LOG_RING_CAP,
     lg_len := (if lg_len k < LOG_RING_CAP then lg_len k + 1 else lg_len k)\<rparr>"

definition entry_prefix :: "u64 \<Rightarrow> u8 \<Rightarrow> u8 \<Rightarrow> serial_op list" where
  "entry_prefix t f l = [Text ''['', Num t, Text ''][''] @ [Text (FAC_NAMES ! unat (min f (of_nat FAC_COUNT - 1))), Text '']['',
     Text (LEVEL_NAMES ! unat (min l LOG_DEBUG)), Text ''] '']"

definition log_end :: "klog \<Rightarrow> u64 \<Rightarrow> klog" where
  "log_end k now =
     (if \<not> line_active k then k
      else let l = line_level k; f = line_fac k;
               k1 = ring_store (k\<lparr>line_active := False\<rparr>) \<lparr>en_level = l, en_facility = f, en_tick = now, en_len = line_len k, en_msg = line k\<rparr>;
               fac_enabled = drop_bit (unat f mod 32) (facility_mask k) AND 1 \<noteq> 0
           in if fac_enabled \<and> l \<le> console_level k
              then k1\<lparr>serial := serial k1 @ entry_prefix now f l @ map Byte (take (line_len k) (line k)) @ [Text [CHR 0x0A]]\<rparr>
              else k1)"

definition klog_log :: "klog \<Rightarrow> u8 \<Rightarrow> u8 \<Rightarrow> bytes \<Rightarrow> u64 \<Rightarrow> klog" where
  "klog_log k l f msg now = log_end (log_s (log_begin k l f) msg) now"

definition entry_output :: "log_entry \<Rightarrow> serial_op list" where
  "entry_output e = entry_prefix (en_tick e) (en_facility e) (en_level e) @ map Byte (take (en_len e) (en_msg e)) @ [Text [CHR 0x0A]]"

definition dump :: "klog \<Rightarrow> klog" where
  "dump k =
     (let start = (lg_head k + LOG_RING_CAP - lg_len k) mod LOG_RING_CAP
      in k\<lparr>serial := serial k @ [Text ''==== klog ring buffer ('', Num (of_nat (lg_len k)), Text ('' entries) ===='' @ [CHR 0x0A])] @
           concat (map (\<lambda>i. entry_output (lg_ring k ! ((start + i) mod LOG_RING_CAP))) [0..<lg_len k]) @ [Text (''==== end of klog ring ===='' @ [CHR 0x0A])]\<rparr>)"

end
