(* ===== verification/Keyboard.thy ===== *)
theory Keyboard
  imports Tail Tty
begin

text \<open>
  The keyboard (\<^verbatim>\<open>src/src/keyboard.rs\<close>): the decoding of scan codes with its modifier keys, the ring of 256 bytes that keeps the newest
  keys, and the interrupt handler, which passes every key on to the terminal and wakes a task that waits for input.

  A scan code first changes the decoder's state and gives the bytes to push (\<open>decode\<close>); the handler then pushes them. The handler's
  reads of the controller's ports are its arguments. The set-up of the controller and the end-of-interrupt signal are input and output.
\<close>

unbundle bit_operations_syntax

section \<open>State\<close>

definition BUFFER_SIZE :: nat where "BUFFER_SIZE = 256"

record keyboard =
  kb_ring :: bytes
  kb_head :: nat
  kb_tail :: nat
  key_count :: u64
  kb_shift :: bool
  capslock :: bool
  kb_ctrl :: bool
  extended :: bool
  break_pending :: bool

definition keyboard_new :: keyboard where
  "keyboard_new = \<lparr>kb_ring = replicate BUFFER_SIZE 0, kb_head = 0, kb_tail = 0, key_count = 0, kb_shift = False, capslock = False,
     kb_ctrl = False, extended = False, break_pending = False\<rparr>"

definition SCANCODE_MAP :: bytes where
  "SCANCODE_MAP = [0, 27] @ map of_char ''1234567890-='' @ [8, 9] @ map of_char ''qwertyuiop[]'' @ [10, 0] @ map of_char ''asdfghjkl;'' @
     [39, 96, 0, 92] @ map of_char ''zxcvbnm,./'' @ [0, 42, 0, 32] @ replicate 70 0"

definition SCANCODE_SHIFT_MAP :: bytes where
  "SCANCODE_SHIFT_MAP = [0, 27] @ map of_char ''!@#$%^&*()_+'' @ [8, 9] @ map of_char ''QWERTYUIOP{}'' @ [10, 0] @ map of_char ''ASDFGHJKL:'' @
     [34, 126, 0, 124] @ map of_char ''ZXCVBNM<>?'' @ [0, 42, 0, 32] @ replicate 70 0"

section \<open>The ring of keys\<close>

definition ring_push :: "keyboard \<Rightarrow> u8 \<Rightarrow> keyboard" where
  "ring_push k c =
     (let nx = (kb_head k + 1) mod BUFFER_SIZE;
          k1 = (if nx \<noteq> kb_tail k then k else k\<lparr>kb_tail := (kb_tail k + 1) mod BUFFER_SIZE\<rparr>)
      in k1\<lparr>kb_ring := (kb_ring k1)[kb_head k := c], kb_head := nx\<rparr>)"

definition ring_pop :: "keyboard \<Rightarrow> u8 option \<times> keyboard" where
  "ring_pop k =
     (if kb_head k = kb_tail k then (None, k)
      else (Some (kb_ring k ! kb_tail k), k\<lparr>kb_tail := (kb_tail k + 1) mod BUFFER_SIZE\<rparr>))"

definition ring_reset :: "keyboard \<Rightarrow> keyboard" where
  "ring_reset k = k\<lparr>kb_head := 0, kb_tail := 0\<rparr>"

definition pop_char :: "keyboard \<Rightarrow> u8 option \<times> keyboard" where
  "pop_char k = (case ring_pop k of (None, k1) \<Rightarrow> (None, k1) | (Some c, k1) \<Rightarrow> (Some c, k1\<lparr>key_count := key_count k1 - 1\<rparr>))"

definition has_pending_input :: "keyboard \<Rightarrow> bool" where
  "has_pending_input k \<longleftrightarrow> key_count k > 0"

text \<open>The reader of a line: its buffer \<open>buf\<close>, the position \<open>i\<close> in it and the next byte. The last component is the result once the line
  has ended; the length of an empty buffer minus one wraps around, and the write behind its end is a panic.\<close>

definition line_byte :: "bytes \<Rightarrow> nat \<Rightarrow> u8 \<Rightarrow> (bytes \<times> nat \<times> bool) option" where
  "line_byte buf i c =
     (if c = 10 \<or> c = 13 then Some (if i < length buf then (buf[i := 10], i + 1, True) else (buf, i, True))
      else if c = 8 \<or> c = 0x7F then Some (buf, if i > 0 then i - 1 else i, False)
      else if of_nat i < (of_nat (length buf) - 1 :: u64) then map_option (\<lambda>b. (b, i + 1, False)) (arr_set buf i c)
      else Some (buf, i, False))"

section \<open>Decoding\<close>

definition ascii_upper :: "u8 \<Rightarrow> u8" where
  "ascii_upper c = (if 97 \<le> c \<and> c \<le> 122 then c - 32 else c)"

definition ascii_alpha :: "u8 \<Rightarrow> bool" where
  "ascii_alpha c \<longleftrightarrow> 97 \<le> c \<and> c \<le> 122 \<or> 65 \<le> c \<and> c \<le> 90"

definition key_char :: "keyboard \<Rightarrow> nat \<Rightarrow> u8" where
  "key_char k i =
     (if i \<ge> 128 then 0
      else let b = (if kb_shift k then SCANCODE_SHIFT_MAP else SCANCODE_MAP) ! i in if capslock k then ascii_upper b else b)"

definition extended_seq :: "u8 \<Rightarrow> bytes" where
  "extended_seq sc =
     (if sc AND 0x80 \<noteq> 0 then []
      else let mk = sc AND 0x7F
           in if mk = 0x48 then [27, 91, 65] else if mk = 0x50 then [27, 91, 66] else if mk = 0x4D then [27, 91, 67]
              else if mk = 0x4B then [27, 91, 68] else if mk = 0x47 then [27, 91, 72] else if mk = 0x4F then [27, 91, 70]
              else if mk = 0x49 then [27, 91, 53, 126] else if mk = 0x51 then [27, 91, 54, 126] else [])"

definition decode :: "keyboard \<Rightarrow> u8 \<Rightarrow> bytes \<times> keyboard" where
  "decode k sc =
     (if sc = 0xF0 then ([], k\<lparr>break_pending := True\<rparr>)
      else if break_pending k
      then let k1 = k\<lparr>break_pending := False\<rparr>; mk = sc AND 0x7F
           in ([], if mk = 0x2A \<or> mk = 0x36 then k1\<lparr>kb_shift := False\<rparr> else if mk = 0x1D then k1\<lparr>kb_ctrl := False\<rparr> else k1)
      else if sc = 0xE0 then ([], k\<lparr>extended := True\<rparr>)
      else if extended k then (extended_seq sc, k\<lparr>extended := False\<rparr>)
      else let released = (sc AND 0x80 \<noteq> 0); mk = sc AND 0x7F;
               k1 = (if mk = 0x2A \<or> mk = 0x36 then k\<lparr>kb_shift := \<not> released\<rparr> else if mk = 0x1D then k\<lparr>kb_ctrl := \<not> released\<rparr> else k)
           in if released then ([], k1)
              else if mk = 0x3A then ([], k1\<lparr>capslock := \<not> capslock k1\<rparr>)
              else let c = key_char k1 (unat mk)
                   in (if kb_ctrl k1 \<and> ascii_alpha c then [c AND 0x1F] else if c \<noteq> 0 then [c] else [], k1))"

section \<open>The interrupt handler\<close>

text \<open>The state of the machine as the handler sees it. A push that ends the current task does not return: the rest of the handler is
  skipped, and the first component is \<open>Suspend\<close>.\<close>

definition push_char :: "(u64 \<Rightarrow> bool) \<Rightarrow> u64 \<Rightarrow> nat \<Rightarrow> keyboard \<times> sched \<times> tty \<Rightarrow> u8 \<Rightarrow> (flow \<times> keyboard \<times> sched \<times> tty) option" where
  "push_char ok addr cpu st c =
     (case st of (k, s, t) \<Rightarrow>
        do { let k1 = (ring_push k c)\<lparr>key_count := key_count k + 1\<rparr>;
             (fl, s1, t1) \<leftarrow> push_key ok s cpu t c;
             case fl of
               Suspend \<Rightarrow> Some (Suspend, k1, s1, t1)
             | Return _ \<Rightarrow> do { (_, s2) \<leftarrow> futex_wake s1 addr 1; Some (Return 0, k1, s2, t1) } })"

fun push_seq :: "(u64 \<Rightarrow> bool) \<Rightarrow> u64 \<Rightarrow> nat \<Rightarrow> keyboard \<times> sched \<times> tty \<Rightarrow> bytes \<Rightarrow> (flow \<times> keyboard \<times> sched \<times> tty) option" where
  "push_seq ok addr cpu st [] = Some (Return 0, st)"
| "push_seq ok addr cpu st (c # cs) =
     do { (fl, st1) \<leftarrow> push_char ok addr cpu st c;
          case fl of Suspend \<Rightarrow> Some (Suspend, st1) | Return _ \<Rightarrow> push_seq ok addr cpu st1 cs }"

definition keyboard_interrupt_handler ::
  "(u64 \<Rightarrow> bool) \<Rightarrow> u64 \<Rightarrow> nat \<Rightarrow> u8 \<Rightarrow> u8 \<Rightarrow> keyboard \<times> sched \<times> tty \<Rightarrow> (flow \<times> keyboard \<times> sched \<times> tty) option" where
  "keyboard_interrupt_handler ok addr cpu status sc st =
     (if status AND 1 \<noteq> 0
      then case st of (k, s, t) \<Rightarrow> (case decode k sc of (cs, k1) \<Rightarrow> push_seq ok addr cpu (k1, s, t) cs)
      else Some (Return 0, st))"

definition keyboard_init :: "keyboard \<Rightarrow> keyboard" where
  "keyboard_init k = (ring_reset k)\<lparr>key_count := 0\<rparr>"

end
