(* ===== verification/Console_Props.thy ===== *)
theory Console_Props
  imports Klog Keyboard Tty_Props Sched_Queues
begin

text \<open>
  The kernel log keeps the newest lines, and what is typed on the keyboard reaches the terminal. Both rings are interpretations of
  \<open>tail_buffer\<close>.
\<close>

unbundle bit_operations_syntax

section \<open>The ring of log lines\<close>

definition klog_ok :: "klog \<Rightarrow> bool" where
  "klog_ok k \<longleftrightarrow> length (lg_ring k) = LOG_RING_CAP \<and> lg_head k < LOG_RING_CAP \<and> lg_len k \<le> LOG_RING_CAP \<and> line_len k \<le> LOG_MSG_MAX \<and>
     length (line k) = LOG_MSG_MAX"

definition log_items :: "klog \<Rightarrow> log_entry list" where
  "log_items k = ring_items (lg_ring k) ((lg_head k + LOG_RING_CAP - lg_len k) mod LOG_RING_CAP) (lg_len k)"

interpretation log_tail: tail_buffer klog_ok log_items LOG_RING_CAP ring_store
proof
  fix k e assume ok: "klog_ok k"
  then show "klog_ok (ring_store k e)" by (auto simp: klog_ok_def ring_store_def LOG_RING_CAP_def)
  let ?c = "LOG_RING_CAP" and ?n = "lg_len k" and ?h = "lg_head k"
  let ?t = "(?h + ?c - ?n) mod ?c"
  have r: "length (lg_ring k) = ?c" "?h < ?c" "?n \<le> ?c" "0 < ?c" using ok by (auto simp: klog_ok_def LOG_RING_CAP_def)
  have "?h + ?c - ?n + ?n = ?h + ?c" using r by simp
  then have h: "(?t + ?n) mod ?c = ?h" using r by (simp add: mod_add_left_eq)
  show "log_items (ring_store k e) = newest ?c (log_items k @ [e])"
  proof (cases "?n < ?c")
    case True
    have "(Suc ?h mod ?c + ?c - Suc ?n) mod ?c = ?t"
    proof (cases "Suc ?h = ?c")
      case at_end: True
      then have "?h + ?c - ?n = (?c - Suc ?n) + ?c" using True by simp
      then show ?thesis using at_end by (simp only: mod_add_self2) simp
    qed (use r in simp)
    moreover have "lg_ring k \<noteq> []" using r by auto
    from ring_items_put [OF this, of ?n ?t e] have "ring_items ((lg_ring k)[?h := e]) ?t (Suc ?n) = ring_items (lg_ring k) ?t ?n @ [e]"
      using r h True by simp
    ultimately show ?thesis using True by (simp add: log_items_def ring_store_def newest_all)
  next
    case False
    then have n: "?n = ?c" "?t = ?h" using r by auto
    have "ring_items ((lg_ring k)[?h := e]) (Suc ?h mod ?c) ?c = tl (ring_items (lg_ring k) ?h ?c) @ [e]"
      using ring_items_overwrite [of ?h "lg_ring k" e] r by simp
    then show ?thesis using n r by (simp add: log_items_def ring_store_def newest_def drop_Suc)
  qed
qed

section \<open>Lines\<close>

definition shown :: "log_entry \<Rightarrow> u8 \<times> u8 \<times> u64 \<times> bytes" where
  "shown e = (en_level e, en_facility e, en_tick e, take (en_len e) (en_msg e))"

definition log_lines :: "klog \<Rightarrow> (u8 \<times> u8 \<times> u64 \<times> bytes) list" where
  "log_lines k = map shown (log_items k)"

definition one_line :: "bytes \<Rightarrow> bytes" where
  "one_line bs = filter (\<lambda>b. b \<noteq> 10 \<and> b \<noteq> 13) bs"

lemma append_bytes_line:
  assumes "klog_ok k"
  shows "take (line_len (append_bytes k bs)) (line (append_bytes k bs)) = take LOG_MSG_MAX (take (line_len k) (line k) @ one_line bs) \<and>
    klog_ok (append_bytes k bs) \<and> (append_bytes k bs)\<lparr>line := [], line_len := 0\<rparr> = k\<lparr>line := [], line_len := 0\<rparr>"
  using assms unfolding append_bytes_def
proof (induction bs arbitrary: k)
  case Nil
  then show ?case by (simp add: one_line_def klog_ok_def)
next
  case (Cons b bs)
  let ?k = "append_byte b k"
  have ok: "klog_ok ?k" using Cons.prems by (simp add: append_byte_def klog_ok_def)
  have fr: "?k\<lparr>line := [], line_len := 0\<rparr> = k\<lparr>line := [], line_len := 0\<rparr>" by (simp add: append_byte_def)
  have "take LOG_MSG_MAX (take (line_len ?k) (line ?k) @ one_line bs) = take LOG_MSG_MAX (take (line_len k) (line k) @ one_line (b # bs))"
    using Cons.prems by (auto simp: append_byte_def one_line_def klog_ok_def take_Suc_conv_app_nth take_Cons')
  then show ?case using Cons.IH [OF ok] fr by simp
qed

lemma klog_log_line:
  assumes "klog_ok k"
  shows "klog_ok (klog_log k l f msg now) \<and>
    log_lines (klog_log k l f msg now) = newest LOG_RING_CAP (log_lines k @ [(l, f, now, take LOG_MSG_MAX (one_line msg))])"
proof -
  let ?b = "log_begin k l f"
  let ?k = "append_bytes ?b msg"
  have b: "klog_ok ?b" using assms by (simp add: klog_ok_def log_begin_def)
  note a = append_bytes_line [OF b, of msg]
  have fr: "line_active ?k" "line_level ?k = l" "line_fac ?k = f" "log_items ?k = log_items k"
    using arg_cong [OF conjunct2 [OF conjunct2 [OF a]], of line_active] arg_cong [OF conjunct2 [OF conjunct2 [OF a]], of line_level]
      arg_cong [OF conjunct2 [OF conjunct2 [OF a]], of line_fac] arg_cong [OF conjunct2 [OF conjunct2 [OF a]], of log_items]
    by (simp_all add: log_begin_def log_items_def)
  let ?e = "\<lparr>en_level = l, en_facility = f, en_tick = now, en_len = line_len ?k, en_msg = line ?k\<rparr>"
  let ?k1 = "?k\<lparr>line_active := False\<rparr>"
  have ok: "klog_ok ?k1" using a by (simp add: klog_ok_def)
  have it: "log_items ?k1 = log_items k" using fr(4) by (simp add: log_items_def)
  have ser: "klog_ok (x\<lparr>serial := y\<rparr>) = klog_ok x" "log_items (x\<lparr>serial := y\<rparr>) = log_items x" for x y by (simp_all add: klog_ok_def log_items_def)
  have "klog_ok (klog_log k l f msg now) \<and> log_items (klog_log k l f msg now) = log_items (ring_store ?k1 ?e)"
    using fr log_tail.push_inv [OF ok, of ?e] by (simp add: klog_log_def log_s_def log_end_def ser Let_def) (simp add: log_begin_def)
  moreover have "shown ?e = (l, f, now, take LOG_MSG_MAX (one_line msg))" using a by (simp add: shown_def log_begin_def)
  ultimately show ?thesis unfolding log_lines_def using log_tail.push_elems [OF ok, of ?e] it by (simp add: map_newest)
qed

fun log_all :: "klog \<Rightarrow> (u8 \<times> u8 \<times> bytes \<times> u64) list \<Rightarrow> klog" where
  "log_all k [] = k"
| "log_all k ((l, f, msg, now) # ms) = log_all (klog_log k l f msg now) ms"

lemma log_lines_bound: "klog_ok k \<Longrightarrow> length (log_lines k) \<le> LOG_RING_CAP"
  by (simp add: log_lines_def log_items_def klog_ok_def)

lemma log_all_lines:
  "klog_ok k \<Longrightarrow> klog_ok (log_all k ms) \<and> log_lines (log_all k ms) =
    newest LOG_RING_CAP (log_lines k @ map (\<lambda>(l, f, msg, now). (l, f, now, take LOG_MSG_MAX (one_line msg))) ms)"
proof (induction k ms rule: log_all.induct)
  case (1 k)
  then show ?case using log_lines_bound by (simp add: newest_all)
next
  case (2 k l f msg now ms)
  note c = klog_log_line [OF "2.prems", of l f msg now]
  show ?case using "2.IH" [OF conjunct1 [OF c]] c newest_newest [of LOG_RING_CAP "log_lines k @ [(l, f, now, take LOG_MSG_MAX (one_line msg))]"] by simp
qed

text \<open>What a line looks like on the serial console.\<close>

fun line_output :: "u8 \<times> u8 \<times> u64 \<times> bytes \<Rightarrow> serial_op list" where
  "line_output (l, f, now, msg) = entry_prefix now f l @ map Byte msg @ [Text [CHR 0x0A]]"

lemma entry_output_shown: "entry_output e = line_output (shown e)"
  by (simp add: entry_output_def shown_def)

lemma dump_lines:
  assumes "klog_ok k"
  shows "serial (dump k) = serial k @ [Text ''==== klog ring buffer ('', Num (of_nat (length (log_lines k))), Text ('' entries) ===='' @ [CHR 0x0A])] @
    concat (map line_output (log_lines k)) @ [Text (''==== end of klog ring ===='' @ [CHR 0x0A])]"
  using assms by (simp add: dump_def log_lines_def log_items_def ring_items_def klog_ok_def entry_output_shown Let_def comp_def)

text \<open>C33: The kernel log keeps the newest 128 lines: after any sequence of messages a dump prints the last 128 of all lines in the
  order in which they were logged, each with its level, facility, time and the first 160 bytes of its text without line ends.\<close>

theorem log_keeps_newest:
  assumes "klog_ok k" and "ls = newest 128 (log_lines k @ map (\<lambda>(l, f, msg, now). (l, f, now, take 160 (one_line msg))) ms)"
  shows "klog_ok (log_all k ms) \<and> log_lines (log_all k ms) = ls \<and>
    (\<exists>pre post. serial (dump (log_all k ms)) = serial (log_all k ms) @ pre @ concat (map line_output ls) @ post)"
proof -
  note a = log_all_lines [OF assms(1), of ms, unfolded LOG_RING_CAP_def LOG_MSG_MAX_def, folded assms(2)]
  show ?thesis using a dump_lines [OF conjunct1 [OF a]] unfolding conjunct2 [OF a] by blast
qed

lemma klog_new_ok: "klog_ok klog_new" "log_lines klog_new = []"
  by (simp_all add: klog_ok_def klog_new_def log_lines_def log_items_def ring_items_def LOG_RING_CAP_def LOG_MSG_MAX_def)

theorem log_keeps_newest_witness:
  "log_lines (log_all klog_new [(6, 0, [104, 105, 10], 5), (3, 2, [120], 9)]) = [(6, 0, 5, [104, 105]), (3, 2, 9, [120])]"
  using log_keeps_newest [OF klog_new_ok(1) refl, of "[(6, 0, [104, 105, 10], 5), (3, 2, [120], 9)]"]
  by (simp add: klog_new_ok(2) newest_def one_line_def del: log_all.simps)

section \<open>Numbers in the log\<close>

definition dec_value :: "bytes \<Rightarrow> nat" where
  "dec_value ds = foldl (\<lambda>a d. 10 * a + (unat d - 48)) 0 ds"

lemma dec_loop_append: "dec_loop v acc = dec_loop v [] @ acc"
proof (induction "unat v" arbitrary: v acc rule: less_induct)
  case less
  show ?case
  proof (cases "v = 0")
    case True
    then show ?thesis by (simp add: dec_loop.simps)
  next
    case False
    then have "unat (v div 10) < unat v" by (simp add: unat_div_distrib unat_gt_0 div_less_dividend)
    note IH = less [OF this]
    have step: "dec_loop v as = dec_loop (v div 10) ((ucast (v mod 10) + 48) # as)" for as using False by (subst dec_loop.simps) simp
    show ?thesis unfolding step [of acc] step [of "[]"] IH [of "_ # acc"] IH [of "[_]"] by simp
  qed
qed

lemma digit_value: "unat (ucast (v mod 10 :: u64) + 48 :: u8) - 48 = unat v mod 10"
proof -
  have m: "unat (v mod 10) = unat v mod 10" "unat v mod 10 < 10" by (simp_all add: unat_mod_distrib)
  have "unat (ucast (v mod 10) :: u8) = unat v mod 10" using m by (simp add: unsigned_ucast_eq take_bit_nat_eq_self)
  moreover have "unat v mod 10 + 48 < 256" using m(2) by linarith
  ultimately have "unat (ucast (v mod 10) + 48 :: u8) = unat v mod 10 + 48" using unat_add_lem [of "ucast (v mod 10) :: u8" 48] by simp
  then show ?thesis by simp
qed

text \<open>The decimal digits that the log prints stand for the number.\<close>

lemma dec_value_digits: "dec_value (dec_loop v []) = unat v"
proof (induction "unat v" arbitrary: v rule: less_induct)
  case less
  show ?case
  proof (cases "v = 0")
    case True
    then show ?thesis by (simp add: dec_loop.simps dec_value_def)
  next
    case False
    then have "unat (v div 10) < unat v" by (simp add: unat_div_distrib unat_gt_0 div_less_dividend)
    from less [OF this] have IH: "dec_value (dec_loop (v div 10) []) = unat v div 10" by (simp add: unat_div_distrib)
    have "dec_loop v [] = dec_loop (v div 10) [] @ [ucast (v mod 10) + 48]"
      using False dec_loop_append [of "v div 10" "[ucast (v mod 10) + 48]"] by (subst dec_loop.simps) simp
    then show ?thesis using IH digit_value [of v] by (simp add: dec_value_def)
  qed
qed

section \<open>The ring of keys\<close>

definition kb_ok :: "keyboard \<Rightarrow> bool" where
  "kb_ok k \<longleftrightarrow> length (kb_ring k) = BUFFER_SIZE \<and> kb_head k < BUFFER_SIZE \<and> kb_tail k < BUFFER_SIZE"

definition waiting_keys :: "keyboard \<Rightarrow> nat" where
  "waiting_keys k = (kb_head k + BUFFER_SIZE - kb_tail k) mod BUFFER_SIZE"

definition pending :: "keyboard \<Rightarrow> bytes" where
  "pending k = ring_items (kb_ring k) (kb_tail k) (waiting_keys k)"

lemma waiting_head: "kb_ok k \<Longrightarrow> (kb_tail k + waiting_keys k) mod BUFFER_SIZE = kb_head k"
  by (simp add: waiting_keys_def kb_ok_def mod_add_right_eq)

lemma next_key: "kb_ok k \<Longrightarrow> (kb_head k + 1) mod BUFFER_SIZE = kb_tail k \<longleftrightarrow> waiting_keys k = 255"
  by (auto simp: kb_ok_def waiting_keys_def BUFFER_SIZE_def mod_if)

interpretation key_tail: tail_buffer kb_ok pending 255 ring_push
proof
  fix k c assume ok: "kb_ok k"
  then show "kb_ok (ring_push k c)" by (auto simp: kb_ok_def ring_push_def BUFFER_SIZE_def Let_def)
  let ?n = "waiting_keys k" and ?k = "ring_push k c"
  have r: "length (kb_ring k) = 256" "kb_head k < 256" "kb_tail k < 256" "kb_ring k \<noteq> []" "?n < 256"
    using ok by (auto simp: kb_ok_def BUFFER_SIZE_def waiting_keys_def)
  note h = waiting_head [OF ok, unfolded BUFFER_SIZE_def]
  have put: "ring_items ((kb_ring k)[kb_head k := c]) (kb_tail k) (Suc ?n) = pending k @ [c]"
    using ring_items_put [OF r(4), of ?n "kb_tail k" c] r h by (simp add: pending_def)
  show "pending ?k = newest 255 (pending k @ [c])"
  proof (cases "?n = 255")
    case False
    then have nx: "(kb_head k + 1) mod BUFFER_SIZE \<noteq> kb_tail k" using next_key [OF ok] by simp
    have "waiting_keys ?k = Suc ?n" using False nx r by (auto simp: waiting_keys_def ring_push_def BUFFER_SIZE_def mod_if Let_def split: if_splits)
    then show ?thesis using put nx False r(5) by (simp add: pending_def ring_push_def newest_all Let_def)
  next
    case True
    then have nx: "(kb_head k + 1) mod BUFFER_SIZE = kb_tail k" using next_key [OF ok] by simp
    have "waiting_keys ?k = 255" using nx r by (auto simp: waiting_keys_def ring_push_def BUFFER_SIZE_def mod_if Let_def split: if_splits)
    moreover have "ring_items ((kb_ring k)[kb_head k := c]) ((kb_tail k + 1) mod 256) 255 = tl (pending k @ [c])"
      using put ring_items_take [of "kb_tail k" "(kb_ring k)[kb_head k := c]" 255] r True by simp
    moreover have "pending ?k = ring_items ((kb_ring k)[kb_head k := c]) ((kb_tail k + 1) mod 256) (waiting_keys ?k)"
      using nx by (simp add: pending_def ring_push_def BUFFER_SIZE_def Let_def)
    moreover have l: "length (pending k) = 255" using True by (simp add: pending_def)
    moreover have "pending k \<noteq> []" using l by auto
    ultimately show ?thesis by (simp add: newest_def drop_Suc)
  qed
qed

lemma pending_bound: "kb_ok k \<Longrightarrow> length (pending k) \<le> 255"
  by (simp add: kb_ok_def pending_def waiting_keys_def BUFFER_SIZE_def less_Suc_eq_le [symmetric])

text \<open>Keys that arrive before any is read: the newest 255 are kept.\<close>

lemma keys_kept: "kb_ok k \<Longrightarrow> pending (foldl ring_push k cs) = newest 255 (pending k @ cs)"
  using key_tail.foldl_push pending_bound by blast

lemma pop_char_pending:
  assumes "kb_ok k" and "pending k = c # cs"
  shows "pop_char k = (Some c, snd (pop_char k))" and "pending (snd (pop_char k)) = cs" and "kb_ok (snd (pop_char k))"
    and "key_count (snd (pop_char k)) = key_count k - 1"
proof -
  let ?k = "snd (pop_char k)"
  have n: "waiting_keys k = Suc (length cs)" using arg_cong [OF assms(2), of length] by (simp add: pending_def)
  have r: "length (kb_ring k) = 256" "kb_head k < 256" "kb_tail k < 256" using assms(1) by (auto simp: kb_ok_def BUFFER_SIZE_def)
  have ne: "kb_head k \<noteq> kb_tail k" using n r by (auto simp: waiting_keys_def BUFFER_SIZE_def)
  have p: "pending k = kb_ring k ! kb_tail k # ring_items (kb_ring k) (Suc (kb_tail k) mod 256) (length cs)"
    unfolding pending_def n using ring_items_take [of "kb_tail k" "kb_ring k" "length cs"] r by simp
  show "pop_char k = (Some c, ?k)" using ne p assms(2) by (simp add: pop_char_def ring_pop_def)
  show "key_count ?k = key_count k - 1" using ne by (simp add: pop_char_def ring_pop_def)
  show "kb_ok ?k" using ne r by (simp add: pop_char_def ring_pop_def kb_ok_def BUFFER_SIZE_def)
  have "waiting_keys ?k = length cs" using ne n r by (auto simp: pop_char_def ring_pop_def waiting_keys_def BUFFER_SIZE_def mod_if split: if_splits)
  then show "pending ?k = cs" using ne p assms(2) by (simp add: pop_char_def ring_pop_def pending_def BUFFER_SIZE_def)
qed

lemma pop_all:
  "kb_ok k \<Longrightarrow> n \<le> length (pending k) \<Longrightarrow> let k1 = ((\<lambda>k. snd (pop_char k)) ^^ n) k in
    kb_ok k1 \<and> pending k1 = drop n (pending k) \<and> key_count k1 = key_count k - of_nat n"
proof (induction n)
  case (Suc n)
  let ?k = "((\<lambda>k. snd (pop_char k)) ^^ n) k"
  have IH: "kb_ok ?k" "pending ?k = drop n (pending k)" "key_count ?k = key_count k - of_nat n" using Suc by (simp_all add: Let_def)
  moreover have "drop n (pending k) = pending k ! n # drop (Suc n) (pending k)" using Suc.prems(2) by (simp add: Cons_nth_drop_Suc)
  ultimately show ?case using pop_char_pending [of ?k] by (simp add: Let_def)
qed simp

text \<open>A key that is lost because the ring is full stays counted: once the other keys have been read the ring is empty, but input still seems
  to be pending.\<close>

lemma lost_key_stays_counted:
  fixes c :: u8
  assumes "kb_ok k" and "length (pending k) = 255" and "key_count k = 255"
  defines "k1 \<equiv> ((\<lambda>k. snd (pop_char k)) ^^ 255) ((ring_push k c)\<lparr>key_count := key_count k + 1\<rparr>)"
  shows "has_pending_input k1 \<and> pop_char k1 = (None, k1)"
proof -
  let ?p = "(ring_push k c)\<lparr>key_count := key_count k + 1\<rparr>"
  have "kb_ok ?p" "pending ?p = newest 255 (pending k @ [c])"
    using key_tail.push_inv [OF assms(1), of c] key_tail.push_elems [OF assms(1), of c] by (simp_all add: kb_ok_def pending_def waiting_keys_def)
  then have k1: "kb_ok k1" "pending k1 = []" "key_count k1 = 1"
    using pop_all [of ?p 255] assms(2,3) unfolding k1_def by (simp_all add: Let_def newest_def)
  then have "waiting_keys k1 = 0" by (metis length_ring_items list.size(3) pending_def)
  then have "kb_head k1 = kb_tail k1" using waiting_head [OF k1(1)] k1(1) by (simp add: kb_ok_def)
  then show ?thesis using k1(3) by (simp add: has_pending_input_def pop_char_def ring_pop_def)
qed

section \<open>From the keyboard to the terminal\<close>













lemma upper_alpha [simp]: "ascii_alpha (ascii_upper c) = ascii_alpha c"
  by (auto simp: ascii_alpha_def ascii_upper_def word_less_nat_alt word_le_nat_alt unat_sub_if_size)

lemma upper_zero [simp]: "ascii_upper c = 0 \<longleftrightarrow> c = 0"
  by (auto simp: ascii_upper_def word_le_nat_alt)




lemma modifier_keys [simp]: "SCANCODE_SHIFT_MAP ! 42 = 0" "SCANCODE_MAP ! 29 = 0"
  by (simp_all add: SCANCODE_SHIFT_MAP_def SCANCODE_MAP_def of_char_def)











end
