(* ===== verification/Spec2Isabelle.thy ===== *)
theory Spec2Isabelle
  imports Buddy_Props Memory_Setup_Props Paging_Cow Spinlock Files_Props Sched_Props Ipc_Props Tty_Props Console_Props
begin

text \<open>
  Verification of the Rynex kernel (an x86\_64 kernel in Rust, \<^verbatim>\<open>src/src\<close>).

  \<^bold>\<open>What the program is.\<close> The kernel boots from multiboot, manages physical pages with a buddy allocator, gives every
  task an address space of its own in page tables, runs tasks on several CPUs and gives them files: a tree of mounted file systems behind vnodes, a flat table of open files,
  descriptors and pipes. Tasks wait for each other on futexes, send each other signals, and call kernel services through
  message ports. The development models the memory and file side of the kernel, from the page allocator up to the system
  calls, the set-up of memory from the boot information, the page tables with copy-on-write fork, the locks that the shared tables rely on, the scheduler with
  futexes and signals, the message ports, and the console: terminal, keyboard and kernel log.

  \<^bold>\<open>Conventions.\<close> The kernel is built in release mode, so machine integers wrap around: addresses, sizes and counters
  are words of their width (\<open>u64\<close> is \<open>64 word\<close>), and a \<open>usize\<close> that is only ever an index or a length of a buffer in
  memory is a \<open>nat\<close>. A panic (an index or a slice out of range) and a loop that never ends are the outer \<open>None\<close>; a
  \<^verbatim>\<open>Result\<close> is a sum, \<open>Inl\<close> with the error string of the source; a Rust array is a list whose length the invariants fix.
  A lock that a function takes makes its body one atomic step; the lock itself is modelled separately. Messages to the
  serial line and the kernel log are left out of the other parts.

  \<^bold>\<open>Prelude and interfaces.\<close> \<open>Prelude\<close> has the word types, bounds-checked arrays, the scan \<open>find_index\<close> that most tables
  use, and the lemmas on words and lists. \<open>Interfaces\<close> states the contracts as locales: a tracking bitmap, a bounded
  queue, a page allocator, a table of slots, a bounded map, queues by priority. Each is interpreted on the model's own
  operations, in the theory that provides them (\<open>quarantine\<close>, \<open>mailbox\<close> and \<open>keys\<close>, \<open>pages\<close>, \<open>fds\<close> and \<open>vts\<close>, \<open>xattrs\<close>, \<open>runq\<close>).
  \<open>Tail\<close> adds the contract of a ring that keeps the newest elements (\<open>log_tail\<close>, \<open>key_tail\<close>), and \<open>Paging_Map\<close> the contract of a source of fresh frames (\<open>data_frames\<close>, \<open>table_frames\<close>).
  \<open>Machine_Memory\<close> has loads and stores of machine words in byte-addressed memory.

  \<^bold>\<open>Page allocator\<close> (\<^verbatim>\<open>memory/buddy.rs\<close>). \<open>Buddy\<close>: the state \<open>buddy\<close> (free lists threaded through block headers, used and
  freed bitmaps, page types, reference counts, quarantine ring, reservations) and one definition per method.
  \<open>Buddy_Lists\<close>, \<open>Buddy_Alloc\<close>, \<open>Buddy_Tables\<close>, \<open>Buddy_Correct\<close>: the invariant \<open>buddy_inv\<close> (well-formed, disjoint, aligned
  free blocks) with the free space as a set of addresses. \<open>Buddy_Props\<close> (C1 to C7): allocation and release are inverse
  and exact, allocated blocks are disjoint, coalescing ends and frees exactly what it is given, a double free is
  ignored, the quarantine is a queue; further lemmas show that the audit accepts well-formed states and that reclaimed
  page-table pages leak.

  \<^bold>\<open>Boot\<close> (\<^verbatim>\<open>multiboot2.rs\<close>, \<^verbatim>\<open>memory/mod.rs\<close>). \<open>Multiboot\<close>: the parser of the boot information in memory; \<open>Multiboot_Props\<close>
  (C28): it returns what the loader wrote. \<open>Memory_Setup\<close>: the choice of a region, the intervals in use, and the registration of
  the rest with the page allocator; the kernel heap. \<open>Memory_Intervals\<close>: sorting, merging and the gaps. \<open>Memory_Setup_Props\<close>
  (C8): after the set-up exactly the right pages are free, from the boot information to the allocator's free lists.

  \<^bold>\<open>Page tables\<close> (\<^verbatim>\<open>paging.rs\<close>). \<open>Paging\<close>: the state \<open>paging\<close> (byte-addressed physical memory that holds the tables, the page
  allocator, reference counts of shared pages, the kernel's root) and the operations: mapping with the split of huge pages,
  unmapping, software walks, the kernel's own mappings, write protection, merging, fork, the copy-on-write fault and the
  release of an address space. \<open>Paging_Tables\<close>: the walk of the processor \<open>hw_walk\<close> as the reference, and address spaces as trees of
  tables (\<open>tree_ok\<close>). \<open>Paging_Map\<close>, \<open>Paging_Space\<close>: fresh frames, and what the steps of a walk do to a tree. \<open>Paging_Props\<close>
  (C11 to C13): a mapping changes the translation of one page only, unmapping is its inverse, the software walk agrees with
  the processor. \<open>Paging_Fork\<close> (C10): the child of a fork translates like the parent, both read-only. \<open>Paging_Cow\<close> (C9): a write to
  a shared page gives the writer a copy, and no other address space that shares tables with it notices.

  \<^bold>\<open>Locks\<close> (\<^verbatim>\<open>spinlock.rs\<close>). \<open>Spinlock\<close>: a step relation with one step per atomic action, for any number of CPUs and
  locks; mutual exclusion and restoring of the interrupt flag (C14 and C15), and that taking a held lock again never
  succeeds, by rule induction over all interleavings.

  \<^bold>\<open>Files.\<close> \<open>Xattr\<close> (\<^verbatim>\<open>vfs_core/xattr.rs\<close>, C16): attribute blocks refine a bounded map. \<open>Paths\<close> (\<^verbatim>\<open>vfs.rs\<close>,
  \<^verbatim>\<open>vfs_core/mod.rs\<close>, C17): the in-place canonicalisation equals a reference on path components. \<open>Vfs_Tables\<close>
  (C20 and C21): descriptor, vnode and mount tables. \<open>Ramfs\<close>, \<open>Ramfs_Files\<close>, \<open>Ramfs_Dirs\<close>, \<open>Ramfs_Props\<close>
  (\<^verbatim>\<open>vfs_core/ramfs.rs\<close>, C23 to C27): the file system on pages of the allocator; the invariant \<open>ram_inv\<close> says that every
  block of a file is an allocated page of its own, and file contents are functions from positions to bytes. \<open>Vfs_Core\<close>
  and \<open>Vfs_Props\<close> (\<^verbatim>\<open>vfs_core/mod.rs\<close>, C29 and C30): path resolution over mounts, all operations and the message
  interface, over any table of file systems. \<open>Files\<close>, \<open>Files_Pipes\<close>, \<open>Files_Props\<close> (\<^verbatim>\<open>vfs.rs\<close> and the file system calls of
  \<^verbatim>\<open>task.rs\<close>, C31, C32 and C35): the flat inode table, descriptors of all tasks and pipes, with the invariant \<open>pipe_inv\<close> that
  ties reference counts to descriptors.

  \<^bold>\<open>Scheduler\<close> (\<^verbatim>\<open>task.rs\<close>). \<open>Sched\<close>: the task table, process identifiers, the run queue of each CPU (a bitmap and 40 lists
  threaded through the tasks), the choice of the next task, time slices, sleeping and futexes. \<open>Sched_Queues\<close>: the
  invariant \<open>rq_ok\<close> that ties the lists to queues of tasks; the queues by priority of \<open>Interfaces\<close> are interpreted on
  them. \<open>Sched_Props\<close> (C34, C36 and C37): removing a task ends, a wake-up is exact, enqueueing and dequeueing is a stable sort
  by priority; further lemmas on defects, such as a wake-up from \<^verbatim>\<open>sigsuspend\<close> that is lost.

  \<^bold>\<open>Signals\<close> (\<^verbatim>\<open>task.rs\<close>). \<open>Signals\<close>: exit, delivery, actions, masks, process groups and signal frames, with the signal lock
  in the state. \<open>Signal_Frames\<close> (C18): entering a handler and returning from it restores the interrupted registers.

  \<^bold>\<open>Message ports\<close> (\<^verbatim>\<open>ipc.rs\<close>). \<open>Ipc\<close>: ports, reply slots, sending, receiving, and the synchronous call as a sequence of
  phases between which other tasks run. \<open>Ipc_Pages\<close>, \<open>Ipc_Inv\<close>, \<open>Ipc_Messages\<close>, \<open>Ipc_Calls\<close>: the invariant \<open>ipc_ok\<close> (every
  message and every reply slot has an allocated page of its own), which every operation keeps on every branch.
  \<open>Ipc_Props\<close> (C19, C39 and C40): no operation panics, a port is a first-in-first-out queue, and a call returns the answer of the service under every
  interleaving with other tasks, by induction over the step relation \<open>ipc_step\<close>. It rests on the page allocator
  and on the scheduler's futexes.

  \<^bold>\<open>Terminal\<close> (\<^verbatim>\<open>tty.rs\<close>). \<open>Tty\<close>: the ring of typed bytes, the line discipline, escape sequences, control operations, key presses
  (which send signals through \<open>Signals\<close>) and the zero and random devices. \<open>Tty_Props\<close> (C22): reading is described on
  the list of typed bytes; a lemma shows that a line that is too long jams the terminal.

  \<^bold>\<open>Keyboard and kernel log\<close> (\<^verbatim>\<open>keyboard.rs\<close>, \<^verbatim>\<open>klog.rs\<close>). \<open>Keyboard\<close>: scan codes, modifier keys, the ring of keys and the interrupt
  handler, which calls the terminal and wakes a waiting task. \<open>Klog\<close>: the line builder, the ring of lines, the console filter and
  the dump. \<open>Console_Props\<close> (C33 and C38): the log keeps the newest lines, and keystrokes reach the terminal as the bytes that they
  stand for.

  \<^bold>\<open>Termination.\<close> Every loop is a total function with a measure, except the walks over free lists and run queues, which
  are partial functions because a damaged list can be cyclic, and the loops over the boot information, whose offset can wrap
  around; on states that satisfy the invariant, and on what a loader writes, they are proved to return. A loop that blocks is given by its body and a result that says where it waits. No fuel is used.

  \<^bold>\<open>Not modelled.\<close> The register part of context switches (inline assembly), the creation and reaping of tasks, memory
  mapping and the remaining system calls of \<^verbatim>\<open>task.rs\<close>; flushes of the translation buffer; the ELF loader; devfs, procfs and the bridge to user-space file systems (they appear as a parameter of the vnode
  layer); ext3 (not connected in the source); drivers and boot code, which are input and output on hardware.
\<close>

end
